(* ===== verification/Prelude.thy ===== *)
theory Prelude
  imports Main "HOL-Library.Word"
begin

text \<open>
  Shared vocabulary of the development.

  \<^item> Machine words and byte strings: \<open>u8\<close> .. \<open>u64\<close>, \<open>bytes\<close>, and the conversion between Go
    strings (byte sequences, modelled as \<open>string\<close>) and byte slices.
  \<^item> Fallible computations: \<open>'e + 'a\<close> with \<open>Inl\<close> the error, its sequencing \<open>ebind\<close>, and the
    guard \<open>ensure\<close> that models an early return.
  \<^item> Slices: \<open>subslice a b xs\<close> is Go's \<open>xs[a:b]\<close>.
  \<^item> \<open>encoding/binary\<close> in big-endian order, with the interface \<open>fixed_width\<close> that the integer
    codecs satisfy.
  \<^item> The interface \<open>field_codec\<close> of a length-prefixed field list, used by the control envelope and
    by the enrollment transcript.
\<close>

named_theorems err_simps \<open>unfolding of the error plumbing\<close>
named_theorems codec_simps \<open>round trips and lengths of the byte codecs\<close>

type_synonym u8 = "8 word"
type_synonym u16 = "16 word"
type_synonym u32 = "32 word"
type_synonym u64 = "64 word"
type_synonym bytes = "8 word list"

section \<open>Fallible computations\<close>

definition ebind :: "'e + 'a \<Rightarrow> ('a \<Rightarrow> 'e + 'b) \<Rightarrow> 'e + 'b" where
  "ebind r f = (case r of Inl e \<Rightarrow> Inl e | Inr a \<Rightarrow> f a)"

definition ensure :: "bool \<Rightarrow> 'e \<Rightarrow> 'e + 'a \<Rightarrow> 'e + 'a" where
  "ensure c e k = (if c then k else Inl e)"

lemma ebind_simps [simp, err_simps]:
  "ebind (Inl e) f = Inl e" "ebind (Inr a) f = f a"
  by (simp_all add: ebind_def)

lemma ebind_Inr_iff: "ebind r f = Inr b \<longleftrightarrow> (\<exists>a. r = Inr a \<and> f a = Inr b)"
  by (cases r) simp_all

lemma ensure_simps [simp, err_simps]:
  "ensure True e k = k" "ensure False e k = Inl e"
  by (simp_all add: ensure_def)

lemma ensure_Inr_iff: "ensure c e k = Inr b \<longleftrightarrow> c \<and> k = Inr b"
  by (simp add: ensure_def)

lemma ensure_Inl_iff: "ensure c e k = Inl x \<longleftrightarrow> (if c then k = Inl x else x = e)"
  by (auto simp: ensure_def)

lemma ensure_cong [cong]:
  "c = d \<Longrightarrow> e = e' \<Longrightarrow> (d \<Longrightarrow> k = k') \<Longrightarrow> ensure c e k = ensure d e' k'"
  by (simp add: ensure_def)

lemmas err_Inr_iff = ebind_Inr_iff ensure_Inr_iff

section \<open>Slices\<close>

definition subslice :: "nat \<Rightarrow> nat \<Rightarrow> 'a list \<Rightarrow> 'a list" where
  "subslice a b xs = take (b - a) (drop a xs)"

lemma length_subslice [simp, codec_simps]:
  "b \<le> length xs \<Longrightarrow> length (subslice a b xs) = b - a"
  by (simp add: subslice_def)

lemma subslice_append_middle [codec_simps]:
  "a = length xs \<Longrightarrow> b = a + length ys \<Longrightarrow> subslice a b (xs @ ys @ zs) = ys"
  by (simp add: subslice_def)

lemma subslice_append_last [codec_simps]:
  "a = length xs \<Longrightarrow> b = a + length ys \<Longrightarrow> subslice a b (xs @ ys) = ys"
  by (simp add: subslice_def)

lemma subslice_0 [codec_simps]: "subslice 0 b xs = take b xs"
  by (simp add: subslice_def)

lemma subslice_join:
  "a \<le> b \<Longrightarrow> b \<le> c \<Longrightarrow> subslice a b xs @ subslice b c xs = subslice a c xs"
proof -
  assume "a \<le> b" "b \<le> c"
  then obtain m n where b: "b = a + m" and c: "c = a + m + n"
    by (metis le_iff_add)
  show ?thesis
    unfolding subslice_def b c by (simp add: take_add add.commute)
qed

lemma take_subslice: "a \<le> b \<Longrightarrow> take a xs @ subslice a b xs = take b xs"
  using subslice_join [of 0 a b xs] by (simp add: subslice_0)

lemma take_subslice_drop: "a \<le> b \<Longrightarrow> take a xs @ subslice a b xs @ drop b xs = xs"
  by (metis append.assoc append_take_drop_id take_subslice)

lemma drop_subslice: "a \<le> b \<Longrightarrow> drop a xs = subslice a b xs @ drop b xs"
  by (metis append_take_drop_id append.assoc same_append_eq take_subslice)

section \<open>Go strings as byte sequences\<close>

definition byte_of_char :: "char \<Rightarrow> u8" where
  "byte_of_char c = of_nat (of_char c)"

definition char_of_byte :: "u8 \<Rightarrow> char" where
  "char_of_byte b = char_of (unat b)"

definition str_bytes :: "string \<Rightarrow> bytes" where
  "str_bytes s = map byte_of_char s"

definition bytes_str :: "bytes \<Rightarrow> string" where
  "bytes_str b = map char_of_byte b"

lemma of_char_less_256: "(of_char c :: nat) < 256"
  by (cases c) (simp add: of_char_def horner_sum_simps split: bool.split)

lemma char_byte_char [simp]: "char_of_byte (byte_of_char c) = c"
proof -
  have "unat (of_nat (of_char c) :: u8) = of_char c"
    using of_char_less_256 [of c] by (simp add: unat_of_nat take_bit_eq_mod)
  then show ?thesis
    by (simp add: char_of_byte_def byte_of_char_def)
qed

lemma byte_char_byte [simp]: "byte_of_char (char_of_byte b) = b"
proof -
  have "unat b < 2 ^ LENGTH(8)"
    by (rule unsigned_less)
  then have "(of_char (char_of (unat b) :: char) :: nat) = unat b"
    by (simp add: of_char_of)
  then show ?thesis
    by (simp add: char_of_byte_def byte_of_char_def)
qed

lemma str_bytes_inverse [simp, codec_simps]: "bytes_str (str_bytes s) = s"
  by (simp add: str_bytes_def bytes_str_def o_def)

lemma bytes_str_inverse [simp, codec_simps]: "str_bytes (bytes_str b) = b"
  by (simp add: str_bytes_def bytes_str_def o_def)

lemma length_str_bytes [simp, codec_simps]:
  "length (str_bytes s) = length s" "length (bytes_str b) = length b"
  by (simp_all add: str_bytes_def bytes_str_def)

lemma str_bytes_inj [simp]: "str_bytes s = str_bytes t \<longleftrightarrow> s = t"
  by (metis str_bytes_inverse)

lemma str_bytes_Nil [simp]: "str_bytes s = [] \<longleftrightarrow> s = []" "bytes_str b = [] \<longleftrightarrow> b = []"
  by (simp_all add: str_bytes_def bytes_str_def)

lemma bytes_str_inj [simp]: "bytes_str a = bytes_str b \<longleftrightarrow> a = b"
  by (metis bytes_str_inverse)

section \<open>Big-endian integers (encoding/binary)\<close>

definition be_nat :: "bytes \<Rightarrow> nat" where
  "be_nat bs = foldl (\<lambda>a b. a * 256 + unat b) 0 bs"

primrec nat_be :: "nat \<Rightarrow> nat \<Rightarrow> bytes" where
  "nat_be 0 k = []"
| "nat_be (Suc n) k = nat_be n (k div 256) @ [of_nat k]"

lemma be_nat_snoc: "be_nat (bs @ [b]) = be_nat bs * 256 + unat b"
  by (simp add: be_nat_def)

lemma be_nat_Nil [simp]: "be_nat [] = 0"
  by (simp add: be_nat_def)

lemma length_nat_be [simp]: "length (nat_be n k) = n"
  by (induction n arbitrary: k) simp_all

lemma u8_unat_less: "unat (b :: u8) < 256"
proof -
  have "unat b < 2 ^ LENGTH(8)"
    by (rule unsigned_less)
  then show ?thesis by simp
qed

lemma be_nat_less: "be_nat bs < 256 ^ length bs"
proof (induction bs rule: rev_induct)
  case Nil
  show ?case by simp
next
  case (snoc b bs)
  have "be_nat bs * 256 + unat b < (be_nat bs + 1) * 256"
    using u8_unat_less [of b] by simp
  also have "\<dots> \<le> 256 ^ length bs * 256"
    using snoc.IH by (intro mult_right_mono) simp_all
  finally show ?case by (simp add: be_nat_snoc mult.commute)
qed

lemma be_nat_nat_be: "be_nat (nat_be n k) = k mod 256 ^ n"
proof (induction n arbitrary: k)
  case 0
  show ?case by simp
next
  case (Suc n)
  have "be_nat (nat_be (Suc n) k) = (k div 256 mod 256 ^ n) * 256 + k mod 256"
    by (simp add: be_nat_snoc Suc.IH unat_of_nat take_bit_eq_mod)
  also have "\<dots> = k mod 256 ^ Suc n"
    by (simp add: mod_mult2_eq mult.commute)
  finally show ?case .
qed

lemma nat_be_be_nat: "nat_be (length bs) (be_nat bs) = bs"
proof (induction bs rule: rev_induct)
  case Nil
  show ?case by simp
next
  case (snoc b bs)
  have "(be_nat bs * 256 + unat b) div 256 = be_nat bs"
    using u8_unat_less [of b] by simp
  moreover have "(of_nat (be_nat bs * 256 + unat b) :: u8) = b"
  proof -
    have z: "(256 :: u8) = 0" by code_simp
    show ?thesis
      by (simp only: of_nat_add of_nat_mult of_nat_numeral z mult_zero_right add_0 of_nat_unat ucast_id)
  qed
  ultimately show ?case by (simp add: be_nat_snoc snoc.IH del: of_nat_add)
qed

definition put_u16 :: "u16 \<Rightarrow> bytes" where
  "put_u16 v = nat_be 2 (unat v)"

definition put_u32 :: "u32 \<Rightarrow> bytes" where
  "put_u32 v = nat_be 4 (unat v)"

definition put_u64 :: "u64 \<Rightarrow> bytes" where
  "put_u64 v = nat_be 8 (unat v)"

definition get_u16 :: "bytes \<Rightarrow> u16" where
  "get_u16 b = of_nat (be_nat b)"

definition get_u32 :: "bytes \<Rightarrow> u32" where
  "get_u32 b = of_nat (be_nat b)"

definition get_u64 :: "bytes \<Rightarrow> u64" where
  "get_u64 b = of_nat (be_nat b)"

text \<open>
  What a caller of a fixed-width integer codec relies on: the width, and that reading and writing
  are mutually inverse.
\<close>

locale fixed_width =
  fixes put :: "'w \<Rightarrow> bytes"
    and get :: "bytes \<Rightarrow> 'w"
    and w :: nat
  assumes length_put: "length (put v) = w"
    and get_put: "get (put v) = v"
    and put_get: "length b = w \<Longrightarrow> put (get b) = b"
begin

lemma put_inj: "put a = put b \<longleftrightarrow> a = b"
  by (metis get_put)

lemma get_inj: "length a = w \<Longrightarrow> length b = w \<Longrightarrow> get a = get b \<longleftrightarrow> a = b"
  by (metis put_get)

lemma take_put: "take w (put v @ rest) = put v"
  by (simp add: length_put)

lemma drop_put: "drop w (put v @ rest) = rest"
  by (simp add: length_put)

end

lemma unat_word_be: "LENGTH('a::len) = 8 * n \<Longrightarrow> of_nat (be_nat (nat_be n (unat (v :: 'a word)))) = v"
proof -
  assume n: "LENGTH('a) = 8 * n"
  have "unat v < 2 ^ LENGTH('a)" by (rule unsigned_less)
  then have "unat v < 256 ^ n"
    by (simp add: n power_mult)
  then show ?thesis by (simp add: be_nat_nat_be)
qed

lemma be_word_unat:
  "LENGTH('a::len) = 8 * n \<Longrightarrow> length b = n \<Longrightarrow> nat_be n (unat (of_nat (be_nat b) :: 'a word)) = b"
proof -
  assume n: "LENGTH('a) = 8 * n" and b: "length b = n"
  have "be_nat b < 2 ^ LENGTH('a)"
    using be_nat_less [of b] by (simp add: n b power_mult)
  then show ?thesis
    using nat_be_be_nat [of b] by (simp add: unat_of_nat take_bit_eq_mod b)
qed

interpretation u16c: fixed_width put_u16 get_u16 2
  by unfold_locales
    (simp_all add: put_u16_def get_u16_def unat_word_be be_word_unat)

interpretation u32c: fixed_width put_u32 get_u32 4
  by unfold_locales
    (simp_all add: put_u32_def get_u32_def unat_word_be be_word_unat)

interpretation u64c: fixed_width put_u64 get_u64 8
  by unfold_locales
    (simp_all add: put_u64_def get_u64_def unat_word_be be_word_unat)

lemmas int_codec_simps [simp, codec_simps] =
  u16c.length_put u16c.get_put u16c.put_get u16c.put_inj
  u32c.length_put u32c.get_put u32c.put_get u32c.put_inj
  u64c.length_put u64c.get_put u64c.put_get u64c.put_inj

lemma unat_get_u16_less: "unat (get_u16 b) < 65536"
proof -
  have "unat (get_u16 b) < 2 ^ LENGTH(16)" by (rule unsigned_less)
  then show ?thesis by simp
qed

section \<open>Length-prefixed field lists\<close>

text \<open>
  One field is a 4-byte big-endian length followed by that many bytes. The Go readers keep an index
  into the buffer; the model keeps the rest of the buffer, \<open>b[idx:]\<close>. The two error arguments are
  what the reader returns for a truncated prefix and for a field longer than the rest.
\<close>

definition put_field :: "bytes \<Rightarrow> bytes option" where
  "put_field f = (if length f > 4294967295 then None
                  else Some (put_u32 (of_nat (length f)) @ f))"

primrec put_fields :: "bytes list \<Rightarrow> bytes option" where
  "put_fields [] = Some []"
| "put_fields (f # fs) =
     (case put_field f of None \<Rightarrow> None
      | Some b \<Rightarrow> map_option (\<lambda>r. b @ r) (put_fields fs))"

definition take_field :: "'e \<Rightarrow> 'e \<Rightarrow> bytes \<Rightarrow> 'e + bytes \<times> bytes" where
  "take_field e_prefix e_len b =
     ensure (4 \<le> length b) e_prefix
       (let l = unat (get_u32 (take 4 b)); r = drop 4 b
        in ensure (l \<le> length r) e_len (Inr (take l r, drop l r)))"

primrec take_fields :: "'e \<Rightarrow> 'e \<Rightarrow> nat \<Rightarrow> bytes \<Rightarrow> 'e + bytes list \<times> bytes" where
  "take_fields e_prefix e_len 0 b = Inr ([], b)"
| "take_fields e_prefix e_len (Suc n) b =
     ebind (take_field e_prefix e_len b) (\<lambda>(f, r).
     ebind (take_fields e_prefix e_len n r) (\<lambda>(fs, r'). Inr (f # fs, r')))"

text \<open>
  The contract of a field-list codec: \<open>enc\<close> is partial (a field may be too long to encode), \<open>dec n\<close>
  reads exactly \<open>n\<close> fields and nothing else.
\<close>

locale field_codec =
  fixes enc :: "bytes list \<Rightarrow> bytes option"
    and dec :: "nat \<Rightarrow> bytes \<Rightarrow> 'e + bytes list"
  assumes dec_enc: "enc fs = Some b \<Longrightarrow> dec (length fs) b = Inr fs"
    and enc_dec: "dec n b = Inr fs \<Longrightarrow> enc fs = Some b"
    and dec_length: "dec n b = Inr fs \<Longrightarrow> length fs = n"
begin

lemma dec_iff: "dec n b = Inr fs \<longleftrightarrow> length fs = n \<and> enc fs = Some b"
  by (metis dec_enc enc_dec dec_length)

lemma enc_inj:
  "enc fs = Some b \<Longrightarrow> enc gs = Some b \<Longrightarrow> length fs = length gs \<Longrightarrow> fs = gs"
  by (metis dec_enc sum.inject(2))

lemma dec_canonical: "dec n b = Inr fs \<Longrightarrow> dec m c = Inr fs \<Longrightarrow> b = c"
  by (metis enc_dec option.inject)

end

lemma put_field_Some_iff:
  "put_field f = Some b \<longleftrightarrow> length f < 4294967296 \<and> b = put_u32 (of_nat (length f)) @ f"
  by (auto simp: put_field_def)

lemma unat_of_nat_u32: "n < 4294967296 \<Longrightarrow> unat (of_nat n :: u32) = n"
  by (simp add: unat_of_nat take_bit_eq_mod)

lemma take_field_put_field:
  "put_field f = Some b \<Longrightarrow> take_field e1 e2 (b @ r) = Inr (f, r)"
  by (auto simp: put_field_Some_iff take_field_def Let_def unat_of_nat_u32)

lemma put_field_take_field:
  assumes "take_field e1 e2 b = Inr (f, r)"
  shows "\<exists>p. put_field f = Some p \<and> b = p @ r"
proof -
  let ?l = "get_u32 (take 4 b)"
  from assms have len: "4 \<le> length b" and l: "unat ?l \<le> length (drop 4 b)"
    and f: "f = take (unat ?l) (drop 4 b)" and r: "r = drop (unat ?l) (drop 4 b)"
    by (auto simp: take_field_def Let_def ensure_Inr_iff)
  from l f have lf: "length f = unat ?l" by simp
  have "unat ?l < 2 ^ LENGTH(32)" by (rule unsigned_less)
  with lf have "length f < 4294967296" by simp
  moreover have "put_u32 (of_nat (length f)) = take 4 b"
    using len lf by simp
  moreover have "b = take 4 b @ f @ r"
    by (simp add: f r del: drop_drop)
  ultimately show ?thesis
    by (auto simp: put_field_Some_iff)
qed

lemma take_fields_put_fields:
  "put_fields fs = Some b \<Longrightarrow> take_fields e1 e2 (length fs) (b @ r) = Inr (fs, r)"
  by (induction fs arbitrary: b)
    (auto simp: take_field_put_field split: option.splits)

lemma put_fields_take_fields:
  "take_fields e1 e2 n b = Inr (fs, r) \<Longrightarrow>
     length fs = n \<and> (\<exists>p. put_fields fs = Some p \<and> b = p @ r)"
proof (induction n arbitrary: b fs)
  case 0
  then show ?case by simp
next
  case (Suc n)
  from Suc.prems obtain f q gs where
    f: "take_field e1 e2 b = Inr (f, q)" and gs: "take_fields e1 e2 n q = Inr (gs, r)"
    and fs: "fs = f # gs"
    by (auto simp: ebind_Inr_iff)
  from put_field_take_field [OF f] obtain p where p: "put_field f = Some p" "b = p @ q"
    by blast
  from Suc.IH [OF gs] obtain p' where "length gs = n" "put_fields gs = Some p'" "q = p' @ r"
    by blast
  with p fs show ?case by simp
qed

lemma length_put_fields:
  "put_fields fs = Some b \<Longrightarrow> length b = 4 * length fs + sum_list (map length fs)"
  by (induction fs arbitrary: b) (auto simp: put_field_Some_iff split: option.splits)

lemma put_fields_defined:
  "(\<forall>f \<in> set fs. length f < 4294967296) \<Longrightarrow> \<exists>b. put_fields fs = Some b"
  by (induction fs) (auto simp: put_field_def)

section \<open>Invariants of step systems\<close>

text \<open>
  A component with concurrent callers is a step relation: one step is one critical section. Its invariant
  holds initially and is kept by every step, so it holds in every state that a run reaches; and what one
  step never undoes, no run undoes.
\<close>

locale step_system =
  fixes init :: "'s \<Rightarrow> bool"
    and step :: "'s \<Rightarrow> 's \<Rightarrow> bool"
    and inv :: "'s \<Rightarrow> bool"
  assumes inv_init: "init s \<Longrightarrow> inv s"
    and inv_step: "inv s \<Longrightarrow> step s t \<Longrightarrow> inv t"
begin

lemma inv_run: "step\<^sup>*\<^sup>* s t \<Longrightarrow> inv s \<Longrightarrow> inv t"
  by (induction rule: rtranclp_induct) (auto intro: inv_step)

lemma inv_reachable: "init s \<Longrightarrow> step\<^sup>*\<^sup>* s t \<Longrightarrow> inv t"
  using inv_run inv_init by blast

lemma stable_run:
  assumes stable: "\<And>s t. inv s \<Longrightarrow> P s \<Longrightarrow> step s t \<Longrightarrow> P t"
    and run: "step\<^sup>*\<^sup>* s t" and "inv s" "P s"
  shows "P t"
  using run \<open>inv s\<close> \<open>P s\<close>
  by (induction rule: rtranclp_induct) (auto intro: stable inv_run)

end

end
