(* ===== verification/Framecrypto.thy ===== *)
theory Framecrypto
  imports Prelude
begin

text \<open>
  \<^verbatim>\<open>src/internal/security/framecrypto/framecrypto.go\<close>: the size-checked Ed25519 entry points every
  signed wire format goes through.

  SHA-256 and Ed25519 themselves are parameters: a record \<open>crypto\<close> of the three functions the code
  calls. \<open>crypto_ok\<close> states their documented behaviour (digest, key and signature sizes; a signature
  made with a private key derived from a seed verifies under the public key stored in its second
  half). \<open>unforgeable\<close> is the security property of the signature scheme for one key: among the
  (message, signature) pairs an adversary puts on the wire (\<open>seen\<close>), only messages the key's owner
  signed (\<open>sent\<close>) verify. \<open>collision_free\<close> says that the hash separates a given set of inputs.
\<close>

record crypto =
  sha256 :: "bytes \<Rightarrow> bytes"
  ed_public :: "bytes \<Rightarrow> bytes"
  ed_sign :: "bytes \<Rightarrow> bytes \<Rightarrow> bytes"
  ed_verify :: "bytes \<Rightarrow> bytes \<Rightarrow> bytes \<Rightarrow> bool"

abbreviation PublicKeySize :: nat where "PublicKeySize \<equiv> 32"
abbreviation PrivateKeySize :: nat where "PrivateKeySize \<equiv> 64"
abbreviation SignatureSize :: nat where "SignatureSize \<equiv> 64"

definition crypto_ok :: "crypto \<Rightarrow> bool" where
  "crypto_ok c \<longleftrightarrow>
     (\<forall>m. length (sha256 c m) = 32) \<and>
     (\<forall>seed. length seed = 32 \<longrightarrow> length (ed_public c seed) = 32) \<and>
     (\<forall>k m. length k = 64 \<longrightarrow> length (ed_sign c k m) = 64) \<and>
     (\<forall>seed m. length seed = 32 \<longrightarrow>
        ed_verify c (ed_public c seed) m (ed_sign c (seed @ ed_public c seed) m))"

definition new_key_from_seed :: "crypto \<Rightarrow> bytes \<Rightarrow> bytes" where
  "new_key_from_seed c seed = seed @ ed_public c seed"

definition unforgeable :: "crypto \<Rightarrow> bytes \<Rightarrow> bytes set \<Rightarrow> (bytes \<times> bytes) set \<Rightarrow> bool" where
  "unforgeable c pub sent seen \<longleftrightarrow> (\<forall>(m, s) \<in> seen. ed_verify c pub m s \<longrightarrow> m \<in> sent)"

definition collision_free :: "crypto \<Rightarrow> bytes set \<Rightarrow> bool" where
  "collision_free c ms \<longleftrightarrow> inj_on (sha256 c) ms"

datatype fc_error = ErrInvalidKeySize

definition Sign :: "crypto \<Rightarrow> bytes \<Rightarrow> bytes \<Rightarrow> fc_error + bytes" where
  "Sign c priv message =
     (if length priv \<noteq> PrivateKeySize then Inl ErrInvalidKeySize
      else Inr (ed_sign c priv message))"

definition Verify :: "crypto \<Rightarrow> bytes \<Rightarrow> bytes \<Rightarrow> bytes \<Rightarrow> bool" where
  "Verify c pub message sig =
     (if length pub \<noteq> PublicKeySize \<or> length sig \<noteq> SignatureSize then False
      else ed_verify c pub message sig)"

definition EnvelopeSignatureInput :: "bytes \<Rightarrow> bytes \<Rightarrow> bytes \<Rightarrow> bytes" where
  "EnvelopeSignatureInput domain protectedHeader payloadSHA256 =
     domain @ protectedHeader @ payloadSHA256"

definition SignEnvelope :: "crypto \<Rightarrow> bytes \<Rightarrow> bytes \<Rightarrow> bytes \<Rightarrow> bytes \<Rightarrow> fc_error + bytes" where
  "SignEnvelope c priv domain protectedHeader payloadSHA256 =
     Sign c priv (EnvelopeSignatureInput domain protectedHeader payloadSHA256)"

definition VerifyEnvelope ::
  "crypto \<Rightarrow> bytes \<Rightarrow> bytes \<Rightarrow> bytes \<Rightarrow> bytes \<Rightarrow> bytes \<Rightarrow> bool" where
  "VerifyEnvelope c pub domain protectedHeader payloadSHA256 sig =
     (if length sig \<noteq> SignatureSize then False
      else Verify c pub (EnvelopeSignatureInput domain protectedHeader payloadSHA256) sig)"

definition DomainSeparatedMessage :: "string \<Rightarrow> bytes \<Rightarrow> bytes" where
  "DomainSeparatedMessage domain canonical = str_bytes domain @ canonical"

section \<open>What the callers use\<close>

lemma crypto_ok_lengths:
  assumes "crypto_ok c"
  shows "length (sha256 c m) = 32" "length k = 64 \<Longrightarrow> length (ed_sign c k m) = 64"
  using assms by (simp_all add: crypto_ok_def)

lemma length_new_key:
  assumes "crypto_ok c" "length seed = 32"
  shows "length (new_key_from_seed c seed) = 64" "length (ed_public c seed) = 32"
  using assms by (simp_all add: crypto_ok_def new_key_from_seed_def)

lemma Sign_Verify:
  assumes c: "crypto_ok c" and s: "length seed = 32"
    and sig: "Sign c (new_key_from_seed c seed) m = Inr sig"
  shows "length sig = 64 \<and> Verify c (ed_public c seed) m sig"
proof -
  note len = length_new_key [OF c s]
  from sig len have "sig = ed_sign c (new_key_from_seed c seed) m"
    by (simp add: Sign_def)
  with c s len show ?thesis
    by (simp add: Verify_def crypto_ok_def new_key_from_seed_def)
qed

lemma Verify_size: "Verify c pub m sig \<Longrightarrow> length pub = 32 \<and> length sig = 64 \<and> ed_verify c pub m sig"
  by (simp add: Verify_def split: if_splits)

lemma Verify_unforgeable:
  "unforgeable c pub sent seen \<Longrightarrow> (m, sig) \<in> seen \<Longrightarrow> Verify c pub m sig \<Longrightarrow> m \<in> sent"
  using Verify_size [of c pub m sig] by (auto simp: unforgeable_def)

text \<open>
  Domain, header and digest can be recovered from a signature input of a fixed domain, because the
  digest has a fixed width: two inputs agree only if all their parts do.
\<close>

lemma EnvelopeSignatureInput_inj:
  assumes "EnvelopeSignatureInput d h s = EnvelopeSignatureInput d h' s'"
    and "length s = length s'"
  shows "h = h' \<and> s = s'"
  using assms by (auto simp: EnvelopeSignatureInput_def)

text \<open>
  A concrete instance of the parameter for the witnesses: the digest is the zero-padded prefix, the
  signature the digest of the key's public half and the message.
\<close>

definition demo_crypto :: crypto where
  "demo_crypto = \<lparr>sha256 = (\<lambda>m. take 32 (m @ replicate 32 0)), ed_public = (\<lambda>s. s),
     ed_sign = (\<lambda>k m. take 64 (drop 32 k @ m @ replicate 64 0)),
     ed_verify = (\<lambda>pub m s. s = take 64 (pub @ m @ replicate 64 0))\<rparr>"

definition demo_seed :: bytes where
  "demo_seed = replicate 32 7"

lemma demo_crypto_ok: "crypto_ok demo_crypto" "length demo_seed = 32"
  by (auto simp: crypto_ok_def demo_crypto_def demo_seed_def min_def)

end
