(* ===== verification/Control_Envelope.thy ===== *)
theory Control_Envelope
  imports Framecrypto
begin

text \<open>
  \<^verbatim>\<open>src/internal/protocol/envelope.go\<close>: the signed control envelope exchanged by controller and agent.

  A frame is \<open>magic | version | header length | payload length | header | payload | signature\<close>. The
  protected header is a list of exactly 14 length-prefixed fields. \<open>BuildEnvelope\<close> and
  \<open>ParseEnvelope\<close> are modelled whole: every check of the parser, in its order, is a branch that
  returns the rejection stage and the error.

  Go's fixed-size arrays (\<open>[16]byte\<close>, \<open>[32]byte\<close>) are byte lists; \<open>header_arrays\<close> states the lengths
  their types guarantee.
\<close>

datatype Stage = StageOK | StageFraming | StageHeader | StageConsistency | StageSignature
  | StagePayloadJSON

datatype env_error =
    FrameTooShort | BadMagic | UnsupportedWireVersion u8 | HeaderLengthRange | PayloadLengthRange
  | FrameLengthInconsistent
  | HeaderTruncatedPrefix | HeaderFieldExceeds | HeaderTrailingBytes
  | BadControllerInstanceID | BadNodeID | BadAgentCredentialVersion | BadConnectionEpoch
  | BadDirectionWidth | BadSequence | BadMessageID | BadSchemaVersion | BadPayloadLength
  | BadPayloadSHA256
  | ControllerKeyIDRange | SessionIDRange | MessageTypeRange
  | DomainMismatch | PayloadLengthMismatch | PayloadHashMismatch | InvalidDirection
  | ZeroCredentialVersion | InvalidPeerKeySize
  | SignatureFailed
  | HeaderFieldTooLarge | HeaderTooLarge | PayloadTooLarge | EnvelopeKeySize

abbreviation ProtocolDomain :: string where "ProtocolDomain \<equiv> ''AntiNAT-Control-v1''"
abbreviation EnvelopeMagic :: bytes where "EnvelopeMagic \<equiv> str_bytes ''ANAT''"
abbreviation WireVersion :: u8 where "WireVersion \<equiv> 1"
abbreviation MaxHeaderBytes :: nat where "MaxHeaderBytes \<equiv> 4096"
abbreviation MaxPayloadBytes :: nat where "MaxPayloadBytes \<equiv> 65536"
abbreviation MaxHeaderStringField :: nat where "MaxHeaderStringField \<equiv> 255"
abbreviation DirectionC2A :: u8 where "DirectionC2A \<equiv> 1"
abbreviation DirectionA2C :: u8 where "DirectionA2C \<equiv> 2"
abbreviation EnvelopeSigLen :: nat where "EnvelopeSigLen \<equiv> 64"
abbreviation EnvelopeHeaderFieldCount :: nat where "EnvelopeHeaderFieldCount \<equiv> 14"

record ProtectedHeader =
  h_ProtocolDomain :: string
  h_ControllerInstanceID :: bytes
  h_NodeID :: bytes
  h_ControllerKeyID :: string
  h_AgentCredentialVer :: u32
  h_ConnectionEpoch :: u64
  h_SessionID :: string
  h_Direction :: u8
  h_Sequence :: u64
  h_MessageID :: bytes
  h_MessageType :: string
  h_SchemaVersion :: u32
  h_PayloadLength :: u64
  h_PayloadSHA256 :: bytes

record Envelope =
  e_HeaderLen :: u32
  e_PayloadLen :: u32
  e_Header :: ProtectedHeader
  e_HeaderBytes :: bytes
  e_Payload :: bytes
  e_Signature :: bytes

definition header_arrays :: "ProtectedHeader \<Rightarrow> bool" where
  "header_arrays h \<longleftrightarrow> length (h_ControllerInstanceID h) = 16 \<and> length (h_NodeID h) = 16 \<and>
     length (h_MessageID h) = 16 \<and> length (h_PayloadSHA256 h) = 32"

section \<open>Encoding\<close>

definition validateHeaderStringFields :: "ProtectedHeader \<Rightarrow> env_error + unit" where
  "validateHeaderStringFields h =
     (if h_ControllerKeyID h = [] \<or> length (h_ControllerKeyID h) > MaxHeaderStringField
      then Inl ControllerKeyIDRange
      else if h_SessionID h = [] \<or> length (h_SessionID h) > MaxHeaderStringField
      then Inl SessionIDRange
      else if h_MessageType h = [] \<or> length (h_MessageType h) > MaxHeaderStringField
      then Inl MessageTypeRange
      else Inr ())"

definition encodeU32 :: "u32 \<Rightarrow> bytes" where "encodeU32 v = put_u32 v"

definition encodeU64 :: "u64 \<Rightarrow> bytes" where "encodeU64 v = put_u64 v"

definition header_fields :: "ProtectedHeader \<Rightarrow> bytes list" where
  "header_fields h =
     [str_bytes (h_ProtocolDomain h), h_ControllerInstanceID h, h_NodeID h,
      str_bytes (h_ControllerKeyID h), encodeU32 (h_AgentCredentialVer h),
      encodeU64 (h_ConnectionEpoch h), str_bytes (h_SessionID h), [h_Direction h],
      encodeU64 (h_Sequence h), h_MessageID h, str_bytes (h_MessageType h),
      encodeU32 (h_SchemaVersion h), encodeU64 (h_PayloadLength h), h_PayloadSHA256 h]"

definition EncodeProtectedHeader :: "ProtectedHeader \<Rightarrow> env_error + bytes" where
  "EncodeProtectedHeader h =
     ebind (validateHeaderStringFields h) (\<lambda>_.
       case put_fields (header_fields h) of
         None \<Rightarrow> Inl HeaderFieldTooLarge
       | Some b \<Rightarrow> Inr b)"

definition fill_payload :: "crypto \<Rightarrow> ProtectedHeader \<Rightarrow> bytes \<Rightarrow> ProtectedHeader" where
  "fill_payload c h payload =
     h\<lparr>h_PayloadLength := of_nat (length payload), h_PayloadSHA256 := sha256 c payload\<rparr>"

definition BuildEnvelope ::
  "crypto \<Rightarrow> bytes \<Rightarrow> ProtectedHeader \<Rightarrow> bytes \<Rightarrow> env_error + bytes" where
  "BuildEnvelope c priv h0 payload =
     (let h = fill_payload c h0 payload in
      ebind (EncodeProtectedHeader h) (\<lambda>headerBytes.
      ensure (length headerBytes \<le> MaxHeaderBytes) HeaderTooLarge (
      ensure (length payload \<le> MaxPayloadBytes) PayloadTooLarge (
      ensure (length priv = PrivateKeySize) EnvelopeKeySize (
      case SignEnvelope c priv (str_bytes (h_ProtocolDomain h)) headerBytes (h_PayloadSHA256 h) of
        Inl _ \<Rightarrow> Inl EnvelopeKeySize
      | Inr sig \<Rightarrow>
          Inr (EnvelopeMagic @ [WireVersion] @ encodeU32 (of_nat (length headerBytes)) @
               encodeU32 (of_nat (length payload)) @ headerBytes @ payload @ sig))))))"

section \<open>Decoding\<close>

definition header_read_fields :: "nat \<Rightarrow> bytes \<Rightarrow> env_error + bytes list" where
  "header_read_fields n b =
     ebind (take_fields HeaderTruncatedPrefix HeaderFieldExceeds n b) (\<lambda>(parts, rest).
       ensure (rest = []) HeaderTrailingBytes (Inr parts))"

definition header_of_parts :: "bytes list \<Rightarrow> ProtectedHeader" where
  "header_of_parts parts =
     \<lparr>h_ProtocolDomain = bytes_str (parts ! 0), h_ControllerInstanceID = parts ! 1,
      h_NodeID = parts ! 2, h_ControllerKeyID = bytes_str (parts ! 3),
      h_AgentCredentialVer = get_u32 (parts ! 4), h_ConnectionEpoch = get_u64 (parts ! 5),
      h_SessionID = bytes_str (parts ! 6), h_Direction = hd (parts ! 7),
      h_Sequence = get_u64 (parts ! 8), h_MessageID = parts ! 9,
      h_MessageType = bytes_str (parts ! 10), h_SchemaVersion = get_u32 (parts ! 11),
      h_PayloadLength = get_u64 (parts ! 12), h_PayloadSHA256 = parts ! 13\<rparr>"

definition decodeProtectedHeader :: "bytes \<Rightarrow> env_error + ProtectedHeader" where
  "decodeProtectedHeader b =
     ebind (header_read_fields EnvelopeHeaderFieldCount b) (\<lambda>parts.
     ensure (length (parts ! 1) = 16) BadControllerInstanceID (
     ensure (length (parts ! 2) = 16) BadNodeID (
     ensure (length (parts ! 4) = 4) BadAgentCredentialVersion (
     ensure (length (parts ! 5) = 8) BadConnectionEpoch (
     ensure (length (parts ! 7) = 1) BadDirectionWidth (
     ensure (length (parts ! 8) = 8) BadSequence (
     ensure (length (parts ! 9) = 16) BadMessageID (
     ensure (length (parts ! 11) = 4) BadSchemaVersion (
     ensure (length (parts ! 12) = 8) BadPayloadLength (
     ensure (length (parts ! 13) = 32) BadPayloadSHA256 (
     ebind (validateHeaderStringFields (header_of_parts parts)) (\<lambda>_.
       Inr (header_of_parts parts)))))))))))))"

definition at_stage :: "Stage \<Rightarrow> 'e + 'a \<Rightarrow> (Stage \<times> 'e) + 'a" where
  "at_stage s r = (case r of Inl e \<Rightarrow> Inl (s, e) | Inr a \<Rightarrow> Inr a)"

definition ParseEnvelope :: "crypto \<Rightarrow> bytes \<Rightarrow> bytes \<Rightarrow> (Stage \<times> env_error) + Envelope" where
  "ParseEnvelope c frame peer =
     ensure (13 + EnvelopeSigLen \<le> length frame) (StageFraming, FrameTooShort) (
     ensure (take 4 frame = EnvelopeMagic) (StageFraming, BadMagic) (
     ensure (frame ! 4 = WireVersion) (StageFraming, UnsupportedWireVersion (frame ! 4)) (
     let headerLen = get_u32 (subslice 5 9 frame);
         payloadLen = get_u32 (subslice 9 13 frame);
         hl = unat headerLen; pl = unat payloadLen in
     ensure (hl \<noteq> 0 \<and> hl \<le> MaxHeaderBytes) (StageFraming, HeaderLengthRange) (
     ensure (pl \<le> MaxPayloadBytes) (StageFraming, PayloadLengthRange) (
     ensure (length frame = 13 + hl + pl + EnvelopeSigLen) (StageFraming, FrameLengthInconsistent) (
     let headerBytes = subslice 13 (13 + hl) frame;
         payload = subslice (13 + hl) (13 + hl + pl) frame;
         sig = drop (13 + hl + pl) frame in
     ebind (at_stage StageHeader (decodeProtectedHeader headerBytes)) (\<lambda>header.
     ensure (h_ProtocolDomain header = ProtocolDomain) (StageConsistency, DomainMismatch) (
     ensure (h_PayloadLength header = of_nat pl) (StageConsistency, PayloadLengthMismatch) (
     ensure (sha256 c payload = h_PayloadSHA256 header) (StageConsistency, PayloadHashMismatch) (
     ensure (h_Direction header = DirectionC2A \<or> h_Direction header = DirectionA2C)
       (StageConsistency, InvalidDirection) (
     ensure (h_AgentCredentialVer header \<noteq> 0) (StageConsistency, ZeroCredentialVersion) (
     ensure (length peer = PublicKeySize) (StageConsistency, InvalidPeerKeySize) (
     ensure (VerifyEnvelope c peer (str_bytes (h_ProtocolDomain header)) headerBytes
               (h_PayloadSHA256 header) sig) (StageSignature, SignatureFailed) (
     Inr \<lparr>e_HeaderLen = headerLen, e_PayloadLen = payloadLen, e_Header = header,
          e_HeaderBytes = headerBytes, e_Payload = payload, e_Signature = sig\<rparr>))))))))))))))"

section \<open>The header codec\<close>

interpretation hdrc: field_codec put_fields header_read_fields
proof unfold_locales
  fix fs b
  assume "put_fields fs = Some b"
  from take_fields_put_fields [OF this, of HeaderTruncatedPrefix HeaderFieldExceeds "[]"]
  show "header_read_fields (length fs) b = Inr fs"
    by (simp add: header_read_fields_def)
next
  fix n b fs
  assume "header_read_fields n b = Inr fs"
  then have "take_fields HeaderTruncatedPrefix HeaderFieldExceeds n b = Inr (fs, [])"
    by (auto simp: header_read_fields_def err_Inr_iff)
  from put_fields_take_fields [OF this]
  show "put_fields fs = Some b" "length fs = n" by auto
qed

definition header_widths :: "bytes list \<Rightarrow> bool" where
  "header_widths parts \<longleftrightarrow> length parts = 14 \<and> length (parts ! 1) = 16 \<and> length (parts ! 2) = 16 \<and>
     length (parts ! 4) = 4 \<and> length (parts ! 5) = 8 \<and> length (parts ! 7) = 1 \<and>
     length (parts ! 8) = 8 \<and> length (parts ! 9) = 16 \<and> length (parts ! 11) = 4 \<and>
     length (parts ! 12) = 8 \<and> length (parts ! 13) = 32"

lemma decodeProtectedHeader_iff:
  "decodeProtectedHeader b = Inr h \<longleftrightarrow>
     (\<exists>parts. put_fields parts = Some b \<and> header_widths parts \<and>
        validateHeaderStringFields h = Inr () \<and> h = header_of_parts parts)"
  by (auto simp: decodeProtectedHeader_def err_Inr_iff hdrc.dec_iff header_widths_def)

lemma nth_list_14:
  "length xs = 14 \<Longrightarrow> xs = [xs ! 0, xs ! 1, xs ! 2, xs ! 3, xs ! 4, xs ! 5, xs ! 6, xs ! 7, xs ! 8,
     xs ! 9, xs ! 10, xs ! 11, xs ! 12, xs ! 13]"
  by (auto intro!: nth_equalityI simp: less_Suc_eq numeral_eq_Suc)

lemma header_fields_of_parts:
  assumes "header_widths parts"
  shows "header_fields (header_of_parts parts) = parts"
proof -
  from assms have "[hd (parts ! 7)] = parts ! 7"
    by (cases "parts ! 7") (auto simp: header_widths_def)
  with assms have "header_fields (header_of_parts parts) =
      [parts ! 0, parts ! 1, parts ! 2, parts ! 3, parts ! 4, parts ! 5, parts ! 6, parts ! 7,
       parts ! 8, parts ! 9, parts ! 10, parts ! 11, parts ! 12, parts ! 13]"
    by (simp add: header_fields_def header_of_parts_def header_widths_def encodeU32_def encodeU64_def)
  also have "\<dots> = parts"
    using assms by (intro nth_list_14 [symmetric]) (simp add: header_widths_def)
  finally show ?thesis .
qed

lemma header_of_parts_fields: "header_of_parts (header_fields h) = h"
  by (simp add: header_of_parts_def header_fields_def encodeU32_def encodeU64_def)

lemma header_widths_fields: "header_widths (header_fields h) \<longleftrightarrow> header_arrays h"
  by (auto simp: header_widths_def header_fields_def header_arrays_def encodeU32_def encodeU64_def)

lemma EncodeProtectedHeader_iff:
  "EncodeProtectedHeader h = Inr b \<longleftrightarrow>
     validateHeaderStringFields h = Inr () \<and> put_fields (header_fields h) = Some b"
  by (auto simp: EncodeProtectedHeader_def ebind_Inr_iff split: option.splits)

lemma header_codec:
  "decodeProtectedHeader b = Inr h \<longleftrightarrow> header_arrays h \<and> EncodeProtectedHeader h = Inr b"
  unfolding decodeProtectedHeader_iff EncodeProtectedHeader_iff
  by (metis header_fields_of_parts header_of_parts_fields header_widths_fields)

text \<open>
  A header whose domain is the protocol's stays far below the 4096-byte cap: 56 bytes of prefixes,
  the 18-byte domain, 113 bytes of fixed-width fields and three names of at most 255 bytes.
\<close>

lemma length_EncodeProtectedHeader:
  assumes "EncodeProtectedHeader h = Inr b" and "header_arrays h"
  shows "length b = 56 + length (h_ProtocolDomain h) + length (h_ControllerKeyID h) +
    length (h_SessionID h) + length (h_MessageType h) + 113"
  using assms length_put_fields [of "header_fields h" b]
  by (simp add: EncodeProtectedHeader_iff header_fields_def header_arrays_def encodeU32_def
      encodeU64_def)

lemma validateHeaderStringFields_ok:
  "validateHeaderStringFields h = Inr () \<longleftrightarrow>
     (\<forall>s \<in> {h_ControllerKeyID h, h_SessionID h, h_MessageType h}. 1 \<le> length s \<and> length s \<le> 255)"
  by (auto simp: validateHeaderStringFields_def Suc_le_eq)

lemma length_header_bounds:
  assumes "EncodeProtectedHeader h = Inr b" and "header_arrays h"
  shows "0 < length b \<and> length b \<le> length (h_ProtocolDomain h) + 934"
  using length_EncodeProtectedHeader [OF assms] assms(1)
  by (auto simp: EncodeProtectedHeader_iff validateHeaderStringFields_ok)

section \<open>The frame\<close>

definition frame_of :: "bytes \<Rightarrow> bytes \<Rightarrow> bytes \<Rightarrow> bytes" where
  "frame_of headerBytes payload sig =
     EnvelopeMagic @ [WireVersion] @ encodeU32 (of_nat (length headerBytes)) @
     encodeU32 (of_nat (length payload)) @ headerBytes @ payload @ sig"

text \<open>The conditions under which the parser accepts a header, payload and signature.\<close>

definition accepts :: "crypto \<Rightarrow> bytes \<Rightarrow> ProtectedHeader \<Rightarrow> bytes \<Rightarrow> bytes \<Rightarrow> bytes \<Rightarrow> bool" where
  "accepts c peer h hb payload sig \<longleftrightarrow>
     0 < length hb \<and> length hb \<le> MaxHeaderBytes \<and> length payload \<le> MaxPayloadBytes \<and>
     length sig = EnvelopeSigLen \<and> decodeProtectedHeader hb = Inr h \<and>
     h_ProtocolDomain h = ProtocolDomain \<and> h_PayloadLength h = of_nat (length payload) \<and>
     sha256 c payload = h_PayloadSHA256 h \<and> h_Direction h \<in> {DirectionC2A, DirectionA2C} \<and>
     h_AgentCredentialVer h \<noteq> 0 \<and> length peer = PublicKeySize \<and>
     VerifyEnvelope c peer (str_bytes (h_ProtocolDomain h)) hb (h_PayloadSHA256 h) sig"

definition envelope_of :: "ProtectedHeader \<Rightarrow> bytes \<Rightarrow> bytes \<Rightarrow> bytes \<Rightarrow> Envelope" where
  "envelope_of h hb payload sig =
     \<lparr>e_HeaderLen = of_nat (length hb), e_PayloadLen = of_nat (length payload), e_Header = h,
      e_HeaderBytes = hb, e_Payload = payload, e_Signature = sig\<rparr>"

lemma envelope_of_simps [simp]:
  "e_Header (envelope_of h hb p s) = h" "e_HeaderBytes (envelope_of h hb p s) = hb"
  "e_Payload (envelope_of h hb p s) = p" "e_Signature (envelope_of h hb p s) = s"
  by (simp_all add: envelope_of_def)

lemma at_stage_Inr_iff [simp]: "at_stage s r = Inr a \<longleftrightarrow> r = Inr a"
  by (cases r) (simp_all add: at_stage_def)

lemma length_EnvelopeMagic [simp]: "length EnvelopeMagic = 4"
  by simp

lemma frame_of_layout:
  assumes "length hb < 4294967296" and "length payload < 4294967296"
    and f_def: "f = frame_of hb payload sig"
  shows "length f = 13 + length hb + length payload + length sig"
    and "take 4 f = EnvelopeMagic"
    and "f ! 4 = WireVersion"
    and "get_u32 (subslice 5 9 f) = of_nat (length hb)"
    and "get_u32 (subslice 9 13 f) = of_nat (length payload)"
    and "subslice 13 (13 + length hb) f = hb"
    and "subslice (13 + length hb) (13 + length hb + length payload) f = payload"
    and "drop (13 + length hb + length payload) f = sig"
proof -
  have f: "f = (EnvelopeMagic @ [WireVersion]) @ put_u32 (of_nat (length hb)) @
      put_u32 (of_nat (length payload)) @ hb @ payload @ sig"
    by (simp add: f_def frame_of_def encodeU32_def)
  have g: "f = (EnvelopeMagic @ [WireVersion] @ put_u32 (of_nat (length hb))) @
      put_u32 (of_nat (length payload)) @ hb @ payload @ sig"
    by (simp add: f)
  have k: "f = (EnvelopeMagic @ [WireVersion] @ put_u32 (of_nat (length hb)) @
      put_u32 (of_nat (length payload))) @ hb @ payload @ sig"
    by (simp add: f)
  have l: "f = (EnvelopeMagic @ [WireVersion] @ put_u32 (of_nat (length hb)) @
      put_u32 (of_nat (length payload)) @ hb) @ payload @ sig"
    by (simp add: f)
  show "length f = 13 + length hb + length payload + length sig"
    by (simp add: f)
  show "take 4 f = EnvelopeMagic" by (simp add: f)
  show "f ! 4 = WireVersion" by (simp add: f nth_append)
  show "get_u32 (subslice 5 9 f) = of_nat (length hb)"
    unfolding f by (subst subslice_append_middle) simp_all
  show "get_u32 (subslice 9 13 f) = of_nat (length payload)"
    unfolding g by (subst subslice_append_middle) simp_all
  show "subslice 13 (13 + length hb) f = hb"
    unfolding k by (subst subslice_append_middle) simp_all
  show "subslice (13 + length hb) (13 + length hb + length payload) f = payload"
    unfolding l by (subst subslice_append_middle) simp_all
  have m: "f = (EnvelopeMagic @ [WireVersion] @ put_u32 (of_nat (length hb)) @
      put_u32 (of_nat (length payload)) @ hb @ payload) @ sig"
    by (simp add: f)
  show "drop (13 + length hb + length payload) f = sig"
    unfolding m by (subst drop_append) simp
qed

lemma frame_split:
  assumes "length frame = 13 + hl + pl + n" and "take 4 frame = EnvelopeMagic"
    and "frame ! 4 = WireVersion"
    and "get_u32 (subslice 5 9 frame) = of_nat hl" and "get_u32 (subslice 9 13 frame) = of_nat pl"
  shows "frame = frame_of (subslice 13 (13 + hl) frame)
    (subslice (13 + hl) (13 + hl + pl) frame) (drop (13 + hl + pl) frame)"
proof -
  have v: "subslice 4 5 frame = [frame ! 4]"
    using assms(1) by (simp add: subslice_def take_Suc_conv_app_nth hd_drop_conv_nth
        flip: Cons_nth_drop_Suc)
  have "frame = take 4 frame @ subslice 4 5 frame @ subslice 5 9 frame @ subslice 9 13 frame @
      subslice 13 (13 + hl) frame @ subslice (13 + hl) (13 + hl + pl) frame @
      drop (13 + hl + pl) frame"
    by (subst append_take_drop_id [of 4 frame, symmetric])
      (simp add: drop_subslice [of 4 5] drop_subslice [of 5 9] drop_subslice [of 9 13]
        drop_subslice [of 13 "13 + hl"] drop_subslice [of "13 + hl" "13 + hl + pl"])
  moreover have "subslice 5 9 frame = put_u32 (of_nat hl)"
    using assms(1) by (simp flip: assms(4))
  moreover have "subslice 9 13 frame = put_u32 (of_nat pl)"
    using assms(1) by (simp flip: assms(5))
  ultimately show ?thesis
    using assms(1-3) v by (simp add: frame_of_def encodeU32_def)
qed

lemma ucast_of_nat_u32: "n < 4294967296 \<Longrightarrow> (ucast (of_nat n :: u32) :: u64) = of_nat n"
  by (metis of_nat_unat unat_of_nat_u32)

lemma ParseEnvelope_iff:
  "ParseEnvelope c frame peer = Inr env \<longleftrightarrow>
     (\<exists>h hb payload sig. frame = frame_of hb payload sig \<and> accepts c peer h hb payload sig \<and>
        env = envelope_of h hb payload sig)" (is "?L \<longleftrightarrow> ?R")
proof
  assume ?L
  define hl where "hl = unat (get_u32 (subslice 5 9 frame))"
  define pl where "pl = unat (get_u32 (subslice 9 13 frame))"
  have w: "get_u32 (subslice 5 9 frame) = of_nat hl" "get_u32 (subslice 9 13 frame) = of_nat pl"
    by (simp_all add: hl_def pl_def)
  let ?hb = "subslice 13 (13 + hl) frame"
  let ?payload = "subslice (13 + hl) (13 + hl + pl) frame"
  let ?sig = "drop (13 + hl + pl) frame"
  from \<open>?L\<close> obtain h where len: "length frame = 13 + hl + pl + EnvelopeSigLen"
    and m: "take 4 frame = EnvelopeMagic" "frame ! 4 = WireVersion"
    and b: "0 < hl" "hl \<le> MaxHeaderBytes" "pl \<le> MaxPayloadBytes"
    and h: "decodeProtectedHeader ?hb = Inr h" "h_ProtocolDomain h = ProtocolDomain"
      "h_PayloadLength h = of_nat pl" "sha256 c ?payload = h_PayloadSHA256 h"
      "h_Direction h \<in> {DirectionC2A, DirectionA2C}" "h_AgentCredentialVer h \<noteq> 0"
      "length peer = PublicKeySize"
      "VerifyEnvelope c peer (str_bytes (h_ProtocolDomain h)) ?hb (h_PayloadSHA256 h) ?sig"
    and env: "env = \<lparr>e_HeaderLen = get_u32 (subslice 5 9 frame),
      e_PayloadLen = get_u32 (subslice 9 13 frame), e_Header = h, e_HeaderBytes = ?hb,
      e_Payload = ?payload, e_Signature = ?sig\<rparr>"
    unfolding ParseEnvelope_def Let_def hl_def [symmetric] pl_def [symmetric]
    by (auto simp: err_Inr_iff)
  from len b h have a: "accepts c peer h ?hb ?payload ?sig"
    by (simp add: accepts_def)
  from len env have env: "env = envelope_of h ?hb ?payload ?sig"
    by (simp add: envelope_of_def w)
  from frame_split [OF len m w] a env show ?R by blast
next
  assume ?R
  then obtain h hb payload sig where f: "frame = frame_of hb payload sig"
    and a: "accepts c peer h hb payload sig" and env: "env = envelope_of h hb payload sig"
    by blast
  from a have "length hb < 4294967296" "length payload < 4294967296"
    by (simp_all add: accepts_def)
  note lay = frame_of_layout [OF this f] and b = this
  from a show ?L
    by (auto simp: ParseEnvelope_def lay Let_def unat_of_nat_u32 b accepts_def env envelope_of_def
        err_Inr_iff ucast_of_nat_u32)
qed

lemma BuildEnvelope_iff:
  "BuildEnvelope c priv h0 payload = Inr frame \<longleftrightarrow>
     (\<exists>hb. EncodeProtectedHeader (fill_payload c h0 payload) = Inr hb \<and>
        length hb \<le> MaxHeaderBytes \<and> length payload \<le> MaxPayloadBytes \<and> length priv = PrivateKeySize \<and>
        frame = frame_of hb payload (ed_sign c priv
          (EnvelopeSignatureInput (str_bytes (h_ProtocolDomain h0)) hb (sha256 c payload))))"
  by (auto simp: BuildEnvelope_def Let_def err_Inr_iff SignEnvelope_def Sign_def fill_payload_def
      frame_of_def)

lemma fill_payload_simps [simp]:
  "h_ProtocolDomain (fill_payload c h p) = h_ProtocolDomain h"
  "h_Direction (fill_payload c h p) = h_Direction h"
  "h_AgentCredentialVer (fill_payload c h p) = h_AgentCredentialVer h"
  "h_PayloadLength (fill_payload c h p) = of_nat (length p)"
  "h_PayloadSHA256 (fill_payload c h p) = sha256 c p"
  "validateHeaderStringFields (fill_payload c h p) = validateHeaderStringFields h"
  by (simp_all add: fill_payload_def validateHeaderStringFields_def)

lemma header_arrays_fill:
  "crypto_ok c \<Longrightarrow> header_arrays h \<Longrightarrow> header_arrays (fill_payload c h p)"
  by (simp add: header_arrays_def fill_payload_def crypto_ok_def)

definition wire_header :: "ProtectedHeader \<Rightarrow> bool" where
  "wire_header h \<longleftrightarrow> header_arrays h \<and> h_ProtocolDomain h = ProtocolDomain \<and>
     h_Direction h \<in> {DirectionC2A, DirectionA2C} \<and> h_AgentCredentialVer h \<noteq> 0"

lemma EncodeProtectedHeader_filled:
  assumes "crypto_ok c" and "wire_header h" and v: "validateHeaderStringFields h = Inr ()"
  shows "\<exists>hb. EncodeProtectedHeader (fill_payload c h payload) = Inr hb \<and> length hb \<le> MaxHeaderBytes"
proof -
  let ?h = "fill_payload c h payload"
  have arr: "header_arrays ?h" and dom: "length (h_ProtocolDomain ?h) = 18"
    using assms by (simp_all add: header_arrays_fill wire_header_def)
  have "\<forall>f \<in> set (header_fields ?h). length f < 4294967296"
    using arr dom v
    by (auto simp: header_fields_def header_arrays_def encodeU32_def encodeU64_def fill_payload_def
        validateHeaderStringFields_ok)
  with v obtain hb where hb: "EncodeProtectedHeader ?h = Inr hb"
    using put_fields_defined by (fastforce simp: EncodeProtectedHeader_iff)
  with length_header_bounds [OF hb arr] dom show ?thesis by auto
qed

lemma built_accepts:
  assumes "crypto_ok c" and "length seed = 32" and "wire_header h"
    and "BuildEnvelope c (new_key_from_seed c seed) h payload = Inr frame"
  shows "\<exists>hb sig. frame = frame_of hb payload sig \<and>
    accepts c (ed_public c seed) (fill_payload c h payload) hb payload sig"
proof -
  let ?h = "fill_payload c h payload" and ?k = "new_key_from_seed c seed"
  from assms(4) obtain hb sig where hb: "EncodeProtectedHeader ?h = Inr hb"
      "length hb \<le> MaxHeaderBytes" "length payload \<le> MaxPayloadBytes"
    and frame: "frame = frame_of hb payload sig"
    and sig: "Sign c ?k (EnvelopeSignatureInput (str_bytes ProtocolDomain) hb (sha256 c payload)) = Inr sig"
    using assms(3) by (auto simp: BuildEnvelope_iff Sign_def wire_header_def)
  have arr: "header_arrays ?h"
    using assms(1,3) by (simp add: header_arrays_fill wire_header_def)
  from Sign_Verify [OF assms(1,2) sig] length_new_key [OF assms(1,2)]
  have "accepts c (ed_public c seed) ?h hb payload sig"
    using hb arr assms(3) length_header_bounds [OF hb(1) arr]
    by (auto simp: accepts_def header_codec VerifyEnvelope_def wire_header_def)
  with frame show ?thesis by blast
qed

text \<open>What is left to check of a well-framed frame whose header decodes: the consistency of the header, then the signature.\<close>

lemma ParseEnvelope_framed:
  assumes "decodeProtectedHeader hb = Inr h" "hb \<noteq> []" "length hb \<le> MaxHeaderBytes" "length payload \<le> MaxPayloadBytes"
    and "length sig = EnvelopeSigLen" "h_PayloadLength h = of_nat (length payload)" "h_PayloadSHA256 h = sha256 c payload"
  shows "ParseEnvelope c (frame_of hb payload sig) peer =
    ensure (h_ProtocolDomain h = ProtocolDomain) (StageConsistency, DomainMismatch) (
    ensure (h_Direction h = DirectionC2A \<or> h_Direction h = DirectionA2C) (StageConsistency, InvalidDirection) (
    ensure (h_AgentCredentialVer h \<noteq> 0) (StageConsistency, ZeroCredentialVersion) (
    ensure (length peer = PublicKeySize) (StageConsistency, InvalidPeerKeySize) (
    ensure (VerifyEnvelope c peer (str_bytes (h_ProtocolDomain h)) hb (h_PayloadSHA256 h) sig) (StageSignature, SignatureFailed) (
    Inr (envelope_of h hb payload sig))))))"
proof -
  have b: "length hb < 4294967296" "length payload < 4294967296" using assms(3,4) by simp_all
  note lay = frame_of_layout [OF b HOL.refl]
  show ?thesis
    using assms by (simp add: ParseEnvelope_def lay Let_def unat_of_nat_u32 ucast_of_nat_u32 b envelope_of_def at_stage_def ebind_def)
qed

definition signed_input :: "crypto \<Rightarrow> bytes \<times> bytes \<Rightarrow> bytes" where
  "signed_input c = (\<lambda>(hb, p). EnvelopeSignatureInput (str_bytes ProtocolDomain) hb (sha256 c p))"

section \<open>Properties\<close>

text \<open>
  C16. Round trip, on every header. Take any header (its array fields have their Go lengths) for which \<open>BuildEnvelope\<close>
  makes a frame with a private key. Under the matching public key the frame parses back to the same header, with length
  and digest filled in, its own encoding and the same payload, exactly if the header has the protocol's domain, one of
  the two directions and a non-zero credential version. \<open>BuildEnvelope\<close> does not check these three: it signs such a
  header, and the peer refuses the frame for the first of them that fails, before it looks at the signature.
\<close>

theorem envelope_roundtrip:
  assumes "crypto_ok c" and "length seed = 32" and "header_arrays h"
    and "BuildEnvelope c (new_key_from_seed c seed) h payload = Inr frame"
  shows "\<exists>hb sig. EncodeProtectedHeader (fill_payload c h payload) = Inr hb \<and>
    ParseEnvelope c frame (ed_public c seed) =
      (if h_ProtocolDomain h \<noteq> ProtocolDomain then Inl (StageConsistency, DomainMismatch)
       else if h_Direction h \<noteq> DirectionC2A \<and> h_Direction h \<noteq> DirectionA2C then Inl (StageConsistency, InvalidDirection)
       else if h_AgentCredentialVer h = 0 then Inl (StageConsistency, ZeroCredentialVersion)
       else Inr \<lparr>e_HeaderLen = of_nat (length hb), e_PayloadLen = of_nat (length payload),
         e_Header = fill_payload c h payload, e_HeaderBytes = hb, e_Payload = payload, e_Signature = sig\<rparr>)"
proof -
  let ?h = "fill_payload c h payload" and ?k = "new_key_from_seed c seed"
  from assms(4) obtain hb sig where hb: "EncodeProtectedHeader ?h = Inr hb"
      "length hb \<le> MaxHeaderBytes" "length payload \<le> MaxPayloadBytes"
    and frame: "frame = frame_of hb payload sig"
    and sig: "Sign c ?k (EnvelopeSignatureInput (str_bytes (h_ProtocolDomain h)) hb (sha256 c payload)) = Inr sig"
    by (auto simp: BuildEnvelope_iff Sign_def)
  have arr: "header_arrays ?h" by (rule header_arrays_fill [OF assms(1,3)])
  have dec: "decodeProtectedHeader hb = Inr ?h" "hb \<noteq> []"
    using hb(1) arr length_header_bounds [OF hb(1) arr] by (auto simp: header_codec)
  have "VerifyEnvelope c (ed_public c seed) (str_bytes (h_ProtocolDomain h)) hb (sha256 c payload) sig"
    "length sig = EnvelopeSigLen" "length (ed_public c seed) = PublicKeySize"
    using Sign_Verify [OF assms(1,2) sig] length_new_key [OF assms(1,2)] Verify_size by (auto simp: VerifyEnvelope_def)
  with ParseEnvelope_framed [OF dec hb(2,3), of sig c "ed_public c seed"] frame hb(1)
  show ?thesis by (auto simp: envelope_of_def ensure_def)
qed

text \<open>
  When building succeeds: with a full-size private key and a header that passes the peer's consistency checks the encoder
  fails only for a name outside 1..255 bytes or a payload above 65536 bytes; the 4096-byte header cap
  is never the reason.
\<close>

theorem BuildEnvelope_succeeds_iff:
  assumes "crypto_ok c" and "wire_header h" and "length priv = 64"
  shows "(\<exists>frame. BuildEnvelope c priv h payload = Inr frame) \<longleftrightarrow>
    validateHeaderStringFields h = Inr () \<and> length payload \<le> 65536"
  using assms(3) EncodeProtectedHeader_filled [OF assms(1,2), of payload]
  by (auto simp: BuildEnvelope_iff) (auto simp: EncodeProtectedHeader_iff)

text \<open>
  C17. Accepted frames are canonical and bounded: whatever \<open>ParseEnvelope\<close> accepts is exactly the
  re-encoding of the header, payload and signature it returns, within the caps, with the payload's own
  length and digest in the header. No other byte string decodes to the same envelope.
\<close>

theorem ParseEnvelope_canonical:
  assumes "ParseEnvelope c frame peer = Inr env"
  shows "EncodeProtectedHeader (e_Header env) = Inr (e_HeaderBytes env) \<and>
    frame = str_bytes ''ANAT'' @ [1] @ put_u32 (of_nat (length (e_HeaderBytes env))) @
      put_u32 (of_nat (length (e_Payload env))) @ e_HeaderBytes env @ e_Payload env @ e_Signature env \<and>
    length (e_HeaderBytes env) \<le> 4096 \<and> length (e_Payload env) \<le> 65536 \<and>
    wire_header (e_Header env) \<and> fill_payload c (e_Header env) (e_Payload env) = e_Header env"
  using assms
  by (auto simp: ParseEnvelope_iff accepts_def envelope_of_def header_codec frame_of_def encodeU32_def
      wire_header_def fill_payload_def)

text \<open>
  C18. Authenticity: suppose that, among the signed messages seen on the wire, the peer's key verifies
  only what the peer signed for the frames it sent, and that the hash separates the received payload
  from the payloads sent. Then every accepted frame carries a header and a payload that the peer did
  send, byte for byte.
\<close>

theorem ParseEnvelope_authentic:
  assumes "crypto_ok c"
    and "ParseEnvelope c frame peer = Inr env"
    and "unforgeable c peer (signed_input c ` sent) seen"
    and "(signed_input c (e_HeaderBytes env, e_Payload env), e_Signature env) \<in> seen"
    and "collision_free c (insert (e_Payload env) (snd ` sent))"
  shows "(e_HeaderBytes env, e_Payload env) \<in> sent"
proof -
  from assms(2) have v: "Verify c peer (signed_input c (e_HeaderBytes env, e_Payload env))
      (e_Signature env)"
    by (auto simp: ParseEnvelope_iff accepts_def envelope_of_def VerifyEnvelope_def signed_input_def
        split: if_splits)
  from Verify_unforgeable [OF assms(3,4) v] obtain hb p where s: "(hb, p) \<in> sent"
    and eq: "EnvelopeSignatureInput (str_bytes ProtocolDomain) (e_HeaderBytes env)
        (sha256 c (e_Payload env)) = EnvelopeSignatureInput (str_bytes ProtocolDomain) hb (sha256 c p)"
    by (auto simp: signed_input_def)
  from EnvelopeSignatureInput_inj [OF eq] crypto_ok_lengths(1) [OF assms(1)]
  have "e_HeaderBytes env = hb" "sha256 c (e_Payload env) = sha256 c p"
    by auto
  with s assms(5) show ?thesis
    by (force simp: collision_free_def inj_on_def)
qed

text \<open>
  The signature is the last check: a frame is rejected at the signature stage exactly when every
  framing, header and consistency check passes (it would be accepted by a verifier that never
  refuses) and the signature does not verify.
\<close>

theorem ParseEnvelope_signature_last:
  "ParseEnvelope c frame peer = Inl (StageSignature, SignatureFailed) \<longleftrightarrow>
     (\<exists>env. ParseEnvelope (c\<lparr>ed_verify := \<lambda>_ _ _. True\<rparr>) frame peer = Inr env \<and>
        \<not> ed_verify c peer (EnvelopeSignatureInput (str_bytes ProtocolDomain) (e_HeaderBytes env)
            (sha256 c (e_Payload env))) (e_Signature env))"
  by (auto simp: ParseEnvelope_def Let_def ensure_def ebind_def at_stage_def VerifyEnvelope_def
      Verify_def split: if_splits sum.splits)

section \<open>Witnesses\<close>

definition demo_header :: ProtectedHeader where
  "demo_header = \<lparr>h_ProtocolDomain = ProtocolDomain, h_ControllerInstanceID = replicate 16 1,
     h_NodeID = replicate 16 2, h_ControllerKeyID = ''key-1'', h_AgentCredentialVer = 1,
     h_ConnectionEpoch = 9, h_SessionID = ''s'', h_Direction = DirectionC2A, h_Sequence = 3,
     h_MessageID = replicate 16 4, h_MessageType = ''desired'', h_SchemaVersion = 1,
     h_PayloadLength = 0, h_PayloadSHA256 = replicate 32 0\<rparr>"

lemma demo_header_ok: "wire_header demo_header" "validateHeaderStringFields demo_header = Inr ()"
  by (simp_all add: wire_header_def header_arrays_def demo_header_def validateHeaderStringFields_def)

theorem BuildEnvelope_succeeds_witness:
  "\<exists>frame. BuildEnvelope demo_crypto (new_key_from_seed demo_crypto demo_seed) demo_header [1, 2] = Inr frame"
  using BuildEnvelope_succeeds_iff [OF demo_crypto_ok(1) demo_header_ok(1)
      length_new_key(1) [OF demo_crypto_ok], of "[1, 2]"] demo_header_ok(2)
  by simp

lemma demo_frame:
  "\<exists>frame. BuildEnvelope demo_crypto (new_key_from_seed demo_crypto demo_seed) demo_header [1, 2] = Inr frame"
  using EncodeProtectedHeader_filled [OF demo_crypto_ok(1) demo_header_ok, of "[1, 2]"]
  by (auto simp: BuildEnvelope_iff length_new_key demo_crypto_ok)

theorem envelope_roundtrip_witness:
  "\<exists>frame env.
     BuildEnvelope demo_crypto (new_key_from_seed demo_crypto demo_seed) demo_header [1, 2] = Inr frame \<and>
     ParseEnvelope demo_crypto frame (ed_public demo_crypto demo_seed) = Inr env \<and>
     e_Header env = fill_payload demo_crypto demo_header [1, 2] \<and> e_Payload env = [1, 2]"
proof -
  from demo_frame obtain frame where f:
    "BuildEnvelope demo_crypto (new_key_from_seed demo_crypto demo_seed) demo_header [1, 2] = Inr frame" ..
  have "header_arrays demo_header" "h_ProtocolDomain demo_header = ProtocolDomain"
    "h_Direction demo_header = DirectionC2A" "h_AgentCredentialVer demo_header = 1"
    using demo_header_ok(1) by (simp_all add: wire_header_def demo_header_def)
  with envelope_roundtrip [OF demo_crypto_ok _ f] f show ?thesis by fastforce
qed

text \<open>A frame that the parser accepts, for the witnesses of the parser's properties.\<close>

lemma demo_parsed:
  "\<exists>frame env. ParseEnvelope demo_crypto frame (ed_public demo_crypto demo_seed) = Inr env \<and>
     e_Payload env = [1, 2]"
proof -
  from demo_frame obtain frame where
    "BuildEnvelope demo_crypto (new_key_from_seed demo_crypto demo_seed) demo_header [1, 2] = Inr frame" ..
  from built_accepts [OF demo_crypto_ok demo_header_ok(1) this] show ?thesis
    unfolding ParseEnvelope_iff by (metis envelope_of_simps(3))
qed

theorem ParseEnvelope_canonical_witness:
  "\<exists>frame env. ParseEnvelope demo_crypto frame (ed_public demo_crypto demo_seed) = Inr env \<and>
     EncodeProtectedHeader (e_Header env) = Inr (e_HeaderBytes env)"
proof -
  from demo_parsed obtain frame env where p: "ParseEnvelope demo_crypto frame (ed_public demo_crypto demo_seed) = Inr env"
    by blast
  from ParseEnvelope_canonical [OF p] p show ?thesis by blast
qed

theorem ParseEnvelope_authentic_witness:
  "\<exists>frame env sent. ParseEnvelope demo_crypto frame (ed_public demo_crypto demo_seed) = Inr env \<and>
     sent = {(e_HeaderBytes env, [1, 2])} \<and> (e_HeaderBytes env, e_Payload env) \<in> sent"
proof -
  from demo_parsed obtain frame env where p: "ParseEnvelope demo_crypto frame (ed_public demo_crypto demo_seed) = Inr env"
    and pl: "e_Payload env = [1, 2]" by blast
  let ?sent = "{(e_HeaderBytes env, [1, 2])}"
  let ?m = "signed_input demo_crypto (e_HeaderBytes env, e_Payload env)"
  have u: "unforgeable demo_crypto (ed_public demo_crypto demo_seed) (signed_input demo_crypto ` ?sent) {(?m, e_Signature env)}"
    by (simp add: unforgeable_def pl)
  have k: "collision_free demo_crypto (insert (e_Payload env) (snd ` ?sent))"
    by (simp add: collision_free_def pl)
  from ParseEnvelope_authentic [OF demo_crypto_ok(1) p u _ k] p show ?thesis by auto
qed

end
