(* ===== verification/Netip.thy ===== *)
theory Netip
  imports Prelude
begin

text \<open>
  What the sources use of Go's \<open>net/netip\<close>, \<open>net\<close> and \<open>strconv\<close>: addresses with their class
  predicates, prefixes, and the textual parsers behind every endpoint check
  (\<open>net.SplitHostPort\<close>, \<open>netip.ParseAddr\<close> followed by \<open>Is4\<close>, \<open>strconv.Atoi\<close>).

  An IPv4 address is its four bytes, an IPv6 address its sixteen bytes and its zone.
\<close>

datatype Addr = InvalidAddr | V4 u8 u8 u8 u8 | V6 bytes string

fun Is4 :: "Addr \<Rightarrow> bool" where
  "Is4 (V4 _ _ _ _) = True"
| "Is4 _ = False"

fun IsValid :: "Addr \<Rightarrow> bool" where
  "IsValid InvalidAddr = False"
| "IsValid _ = True"

fun Is4In6 :: "Addr \<Rightarrow> bool" where
  "Is4In6 (V6 b _) = (take 10 b = replicate 10 0 \<and> b ! 10 = 255 \<and> b ! 11 = 255)"
| "Is4In6 _ = False"

fun IsUnspecified :: "Addr \<Rightarrow> bool" where
  "IsUnspecified (V4 a b c d) = (a = 0 \<and> b = 0 \<and> c = 0 \<and> d = 0)"
| "IsUnspecified (V6 b z) = (b = replicate 16 0 \<and> z = [])"
| "IsUnspecified InvalidAddr = False"

text \<open>The class predicates look through an IPv4-mapped IPv6 address.\<close>

fun Unmap :: "Addr \<Rightarrow> Addr" where
  "Unmap (V6 b z) = (if Is4In6 (V6 b z) then V4 (b ! 12) (b ! 13) (b ! 14) (b ! 15) else V6 b z)"
| "Unmap a = a"

definition IsLoopback :: "Addr \<Rightarrow> bool" where
  "IsLoopback ip = (case Unmap ip of
      V4 a _ _ _ \<Rightarrow> a = 127
    | V6 b _ \<Rightarrow> b = replicate 15 0 @ [1]
    | InvalidAddr \<Rightarrow> False)"

definition IsMulticast :: "Addr \<Rightarrow> bool" where
  "IsMulticast ip = (case Unmap ip of
      V4 a _ _ _ \<Rightarrow> unat a div 16 = 14
    | V6 b _ \<Rightarrow> b ! 0 = 255
    | InvalidAddr \<Rightarrow> False)"

definition IsLinkLocalUnicast :: "Addr \<Rightarrow> bool" where
  "IsLinkLocalUnicast ip = (case Unmap ip of
      V4 a b _ _ \<Rightarrow> a = 169 \<and> b = 254
    | V6 b _ \<Rightarrow> b ! 0 = 254 \<and> unat (b ! 1) div 64 = 2
    | InvalidAddr \<Rightarrow> False)"

definition IsLinkLocalMulticast :: "Addr \<Rightarrow> bool" where
  "IsLinkLocalMulticast ip = (case Unmap ip of
      V4 a b c _ \<Rightarrow> a = 224 \<and> b = 0 \<and> c = 0
    | V6 b _ \<Rightarrow> b ! 0 = 255 \<and> unat (b ! 1) mod 16 = 2
    | InvalidAddr \<Rightarrow> False)"

definition IsPrivate :: "Addr \<Rightarrow> bool" where
  "IsPrivate ip = (case Unmap ip of
      V4 a b _ _ \<Rightarrow> a = 10 \<or> a = 172 \<and> unat b div 16 = 1 \<or> a = 192 \<and> b = 168
    | V6 b _ \<Rightarrow> unat (b ! 0) div 2 = 126
    | InvalidAddr \<Rightarrow> False)"

lemmas addr_class_defs = IsLoopback_def IsMulticast_def IsLinkLocalUnicast_def
  IsLinkLocalMulticast_def IsPrivate_def

fun addr_nat :: "Addr \<Rightarrow> nat" where
  "addr_nat (V4 a b c d) = unat a * 16777216 + unat b * 65536 + unat c * 256 + unat d"
| "addr_nat (V6 b _) = be_nat b"
| "addr_nat InvalidAddr = 0"

text \<open>\<open>Prefix.Contains\<close>: the address has the prefix's family, no zone, and the same leading bits.\<close>

type_synonym Prefix = "Addr \<times> nat"

fun Contains :: "Prefix \<Rightarrow> Addr \<Rightarrow> bool" where
  "Contains (V4 a b c d, bits) (V4 a' b' c' d') =
     (addr_nat (V4 a b c d) div 2 ^ (32 - bits) = addr_nat (V4 a' b' c' d') div 2 ^ (32 - bits))"
| "Contains (V6 n zn, bits) (V6 b z) =
     (z = [] \<and> be_nat n div 2 ^ (128 - bits) = be_nat b div 2 ^ (128 - bits))"
| "Contains _ _ = False"

section \<open>Parsing\<close>

text \<open>\<open>net.SplitHostPort\<close>; \<open>None\<close> is any of its errors.\<close>

definition index_of :: "char \<Rightarrow> string \<Rightarrow> nat option" where
  "index_of c s = (let n = length (takeWhile (\<lambda>x. x \<noteq> c) s) in if n < length s then Some n else None)"

definition last_index_of :: "char \<Rightarrow> string \<Rightarrow> nat option" where
  "last_index_of c s = map_option (\<lambda>n. length s - 1 - n) (index_of c (rev s))"

abbreviation colon :: char where "colon \<equiv> CHR '':''"
abbreviation lbracket :: char where "lbracket \<equiv> CHR 0x5B"
abbreviation rbracket :: char where "rbracket \<equiv> CHR 0x5D"

definition SplitHostPort :: "string \<Rightarrow> (string \<times> string) option" where
  "SplitHostPort s =
     (case last_index_of colon s of
        None \<Rightarrow> None
      | Some i \<Rightarrow>
          (if s ! 0 = lbracket then
             (case index_of rbracket s of
                None \<Rightarrow> None
              | Some e \<Rightarrow>
                  if e + 1 = i
                     \<and> lbracket \<notin> set (drop 1 s) \<and> rbracket \<notin> set (drop (e + 1) s)
                  then Some (subslice 1 e s, drop (i + 1) s) else None)
           else if colon \<in> set (take i s) \<or> lbracket \<in> set s \<or> rbracket \<in> set s then None
           else Some (take i s, drop (i + 1) s)))"

definition is_digit :: "char \<Rightarrow> bool" where
  "is_digit c \<longleftrightarrow> 48 \<le> (of_char c :: nat) \<and> (of_char c :: nat) \<le> 57"

definition digit_val :: "char \<Rightarrow> nat" where
  "digit_val c = of_char c - 48"

text \<open>
  The scanner of \<open>netip.parseIPv4Fields\<close>: the value and the number of digits of the current octet, and
  the octets finished so far. An octet without digits, a leading zero, a value above 255, a fifth octet
  and a trailing dot are errors.
\<close>

fun ipv4_fields :: "nat \<Rightarrow> nat \<Rightarrow> nat list \<Rightarrow> string \<Rightarrow> nat list option" where
  "ipv4_fields val digLen done [] = (if length done < 3 then None else Some (done @ [val]))"
| "ipv4_fields val digLen done (c # s) =
     (if is_digit c then
        (if digLen = 1 \<and> val = 0 then None
         else let v = val * 10 + digit_val c in
              if v > 255 then None else ipv4_fields v (Suc digLen) done s)
      else if c = CHR ''.'' then
        (if digLen = 0 \<or> s = [] then None
         else if length done = 3 then None
         else ipv4_fields 0 0 (done @ [val]) s)
      else None)"

text \<open>
  \<open>netip.ParseAddr\<close> followed by \<open>Is4\<close>, the combination every caller uses: the first of the characters
  dot, colon and percent decides the family, so an IPv4 result needs a dot first.
\<close>

definition ParseAddr4 :: "string \<Rightarrow> Addr option" where
  "ParseAddr4 s =
     (case dropWhile (\<lambda>c. c \<notin> {CHR ''.'', colon, CHR 0x25}) s of
        [] \<Rightarrow> None
      | c # _ \<Rightarrow>
          if c \<noteq> CHR ''.'' then None
          else (case ipv4_fields 0 0 [] s of
                  Some [a, b, c, d] \<Rightarrow> Some (V4 (of_nat a) (of_nat b) (of_nat c) (of_nat d))
                | _ \<Rightarrow> None))"

definition digits_val :: "string \<Rightarrow> nat" where
  "digits_val s = foldl (\<lambda>v c. v * 10 + digit_val c) 0 s"

text \<open>\<open>strconv.Atoi\<close>: an optional sign, at least one decimal digit, and the range of a 64-bit int.\<close>

definition Atoi :: "string \<Rightarrow> int option" where
  "Atoi s =
     (let neg = (s \<noteq> [] \<and> hd s = CHR ''-'');
          d = (if s \<noteq> [] \<and> hd s \<in> {CHR ''-'', CHR ''+''} then tl s else s);
          v = (if neg then - int (digits_val d) else int (digits_val d))
      in if d = [] \<or> \<not> list_all is_digit d then None
         else if v < - (2 ^ 63) \<or> 2 ^ 63 - 1 < v then None else Some v)"

section \<open>Printing\<close>

text \<open>Decimal numerals (\<open>strconv\<close>) and \<open>netip.AddrPort.String\<close> of an IPv4 endpoint.\<close>

fun dec :: "nat \<Rightarrow> string" where
  "dec n = (if n < 10 then [char_of (48 + n)] else dec (n div 10) @ [char_of (48 + n mod 10)])"

declare dec.simps [simp del]

fun AddrPort_String :: "Addr \<Rightarrow> u16 \<Rightarrow> string" where
  "AddrPort_String (V4 a b c d) p =
     dec (unat a) @ CHR ''.'' # dec (unat b) @ CHR ''.'' # dec (unat c) @ CHR ''.'' # dec (unat d) @
     colon # dec (unat p)"
| "AddrPort_String _ p = []"

section \<open>Facts about the parsers\<close>

lemma ipv4_fields_length: "ipv4_fields v k done s = Some fs \<Longrightarrow> length done \<le> 3 \<Longrightarrow> length fs = 4"
proof (induction v k "done" s rule: ipv4_fields.induct)
  case (1 v k d)
  then show ?case by (auto split: if_splits)
next
  case (2 v k d c s)
  show ?case
  proof (cases "is_digit c")
    case True
    with 2 show ?thesis by (simp add: Let_def split: if_splits)
  next
    case False
    with 2 show ?thesis by (simp split: if_splits)
  qed
qed

lemma ParseAddr4_Is4: "ParseAddr4 s = Some a \<Longrightarrow> Is4 a"
  by (auto simp: ParseAddr4_def split: list.splits if_splits option.splits)

lemma is_digit_char [simp]: "n < 10 \<Longrightarrow> is_digit (char_of (48 + n :: nat))"
  by (simp add: is_digit_def of_char_of)

lemma digit_val_char [simp]: "n < 10 \<Longrightarrow> digit_val (char_of (48 + n :: nat)) = n"
  by (simp add: digit_val_def of_char_of)

lemma dec_not_Nil [simp]: "dec n \<noteq> []"
  by (subst dec.simps) simp

lemma dec_digits: "list_all is_digit (dec n)"
proof (induction n rule: dec.induct)
  case (1 n)
  then show ?case by (subst dec.simps) auto
qed

lemma digits_val_snoc: "digits_val (s @ [c]) = digits_val s * 10 + digit_val c"
  by (simp add: digits_val_def)

lemma digits_val_dec: "digits_val (dec n) = n"
proof (induction n rule: dec.induct)
  case (1 n)
  show ?case
  proof (cases "n < 10")
    case True
    then show ?thesis by (subst dec.simps) (simp add: digits_val_def)
  next
    case False
    with 1 show ?thesis by (subst dec.simps) (simp add: digits_val_snoc)
  qed
qed

lemma digit_chars:
  assumes "is_digit c"
  shows "c \<noteq> CHR ''.''" "c \<noteq> colon" "c \<noteq> lbracket" "c \<noteq> rbracket" "c \<noteq> CHR 0x25" "c \<noteq> CHR ''-''"
    "c \<noteq> CHR ''+''"
  using assms by (auto simp: is_digit_def)

lemma dec_chars: "c \<in> set (dec n) \<Longrightarrow> is_digit c"
  using dec_digits [of n] by (auto simp: list_all_iff)

lemma dec_notin [simp]:
  "CHR ''.'' \<notin> set (dec n)" "colon \<notin> set (dec n)" "lbracket \<notin> set (dec n)" "rbracket \<notin> set (dec n)"
  "CHR 0x25 \<notin> set (dec n)"
  by (auto dest!: dec_chars simp: is_digit_def)

lemma Atoi_dec: "n < 2 ^ 63 \<Longrightarrow> Atoi (dec n) = Some (int n)"
proof -
  assume n: "n < 2 ^ 63"
  have "is_digit (hd (dec n))"
    using dec_chars [of "hd (dec n)" n] by simp
  then have "hd (dec n) \<noteq> CHR ''-''" "hd (dec n) \<noteq> CHR ''+''"
    by (auto dest: digit_chars)
  moreover have "int n < 2 ^ 63"
    using n by (metis of_nat_less_iff of_nat_numeral of_nat_power)
  ultimately show ?thesis
    by (simp add: Atoi_def dec_digits digits_val_dec)
qed

text \<open>Splitting at the only colon.\<close>

lemma index_of_app: "c \<notin> set xs \<Longrightarrow> index_of c (xs @ c # ys) = Some (length xs)"
proof -
  assume "c \<notin> set xs"
  then have "takeWhile (\<lambda>x. x \<noteq> c) (xs @ c # ys) = xs"
    by (subst takeWhile_append2) auto
  then show ?thesis by (simp add: index_of_def Let_def)
qed

lemma SplitHostPort_join:
  assumes "h \<noteq> []" and "set h \<inter> {colon, lbracket, rbracket} = {}"
    and "set p \<inter> {colon, lbracket, rbracket} = {}"
  shows "SplitHostPort (h @ colon # p) = Some (h, p)"
proof -
  have "last_index_of colon (h @ colon # p) = Some (length h)"
    using index_of_app [of colon "rev p" "rev h"] assms(3) by (simp add: last_index_of_def)
  moreover have "(h @ colon # p) ! 0 \<noteq> lbracket"
    using assms(1,2) by (cases h) auto
  ultimately show ?thesis
    using assms(2,3) by (auto simp: SplitHostPort_def)
qed

lemma dec_small:
  "n < 10 \<Longrightarrow> dec n = [char_of (48 + n)]"
  "10 \<le> n \<Longrightarrow> n < 100 \<Longrightarrow> dec n = [char_of (48 + n div 10), char_of (48 + n mod 10)]"
  "100 \<le> n \<Longrightarrow> n < 1000 \<Longrightarrow>
     dec n = [char_of (48 + n div 100), char_of (48 + n div 10 mod 10), char_of (48 + n mod 10)]"
proof -
  show one: "dec n = [char_of (48 + n)]" if "n < 10" for n
    using that by (subst dec.simps) simp
  show two: "dec n = [char_of (48 + n div 10), char_of (48 + n mod 10)]" if "10 \<le> n" "n < 100" for n
    using that by (subst dec.simps) (simp add: one)
  show "dec n = [char_of (48 + n div 100), char_of (48 + n div 10 mod 10), char_of (48 + n mod 10)]"
    if "100 \<le> n" "n < 1000" for n
    using that by (subst dec.simps) (simp add: two div_mult2_eq [symmetric])
qed

lemma ipv4_fields_octet:
  assumes "n \<le> 255"
  shows "\<exists>k. 0 < k \<and> ipv4_fields 0 0 done (dec n @ s) = ipv4_fields n k done s"
proof -
  have "n div 100 = n div 10 div 10"
    by (simp flip: div_mult2_eq)
  moreover have le: "\<not> 255 < n div 10" "\<not> 255 < n div 100"
    using assms by (simp_all add: not_less div_le_dividend [THEN order_trans])
  ultimately have d: "n div 10 * 10 + n mod 10 = n" "n div 100 * 10 + n div 10 mod 10 = n div 10"
    by simp_all
  consider "n < 10" | "10 \<le> n" "n < 100" | "100 \<le> n" "n < 1000"
    using assms by linarith
  then show ?thesis
  proof cases
    case 1
    then have "ipv4_fields 0 0 done (dec n @ s) = ipv4_fields n 1 done s"
      by (simp add: dec_small(1) Let_def)
    then show ?thesis by (intro exI [of _ 1]) simp
  next
    case 2
    then have "ipv4_fields 0 0 done (dec n @ s) = ipv4_fields n 2 done s"
      using assms by (simp add: dec_small(2) d numeral_2_eq_2 Let_def div_eq_0_iff le)
    then show ?thesis by (intro exI [of _ 2]) simp
  next
    case 3
    then have "ipv4_fields 0 0 done (dec n @ s) = ipv4_fields n 3 done s"
      using assms by (simp add: dec_small(3) d numeral_3_eq_3 Let_def div_eq_0_iff le)
    then show ?thesis by (intro exI [of _ 3]) simp
  qed
qed

lemma ipv4_fields_dot:
  "n \<le> 255 \<Longrightarrow> length done < 3 \<Longrightarrow> s \<noteq> [] \<Longrightarrow>
     ipv4_fields 0 0 done (dec n @ CHR ''.'' # s) = ipv4_fields 0 0 (done @ [n]) s"
  using ipv4_fields_octet [of n "done" "CHR ''.'' # s"] by (auto simp: is_digit_def)

lemma ipv4_fields_last:
  "n \<le> 255 \<Longrightarrow> length done = 3 \<Longrightarrow> ipv4_fields 0 0 done (dec n) = Some (done @ [n])"
  using ipv4_fields_octet [of n "done" "[]"] by auto

lemma ParseAddr4_dec:
  "ParseAddr4 (dec (unat a) @ CHR ''.'' # dec (unat b) @ CHR ''.'' # dec (unat c) @ CHR ''.'' # dec (unat d))
     = Some (V4 a b c d)"
proof -
  have le: "unat (x :: u8) \<le> 255" for x
    using u8_unat_less [of x] by simp
  have "dropWhile (\<lambda>c. c \<notin> {CHR ''.'', colon, CHR 0x25}) (dec (unat a) @ CHR ''.'' # r) = CHR ''.'' # r"
    for r
    by (subst dropWhile_append2) auto
  then show ?thesis
    by (simp add: ParseAddr4_def ipv4_fields_dot ipv4_fields_last le)
qed

lemma host_chars:
  "set (dec (unat a) @ CHR ''.'' # dec (unat b) @ CHR ''.'' # dec (unat c) @ CHR ''.'' # dec (unat d))
     \<inter> {colon, lbracket, rbracket} = {}"
  "set (dec n) \<inter> {colon, lbracket, rbracket} = {}"
  by auto

lemma split_AddrPort_String:
  "SplitHostPort (AddrPort_String (V4 a b c d) p) =
     Some (dec (unat a) @ CHR ''.'' # dec (unat b) @ CHR ''.'' # dec (unat c) @ CHR ''.'' # dec (unat d),
           dec (unat p))"
  using SplitHostPort_join [OF _ host_chars(1) host_chars(2) [of "unat p"], of a b c d]
  by simp

end
