(* ===== verification/Endpoint.thy ===== *)
theory Endpoint
  imports Netip
begin

text \<open>
  Address classification and endpoint validation.
  \<^item> \<^verbatim>\<open>src/internal/protocol/endpoint.go\<close>: \<open>ClassifyIP\<close>, \<open>IsGlobalEndpoint\<close>, \<open>ValidateEndpoint\<close>;
    the endpoint checks of \<^verbatim>\<open>domain.go\<close> and \<^verbatim>\<open>probe.go\<close> that are built from the same parsers.
  \<^item> \<^verbatim>\<open>src/internal/traversal/network.go\<close>: \<open>IsGlobalV4\<close> with its prefix table.
  \<^item> \<^verbatim>\<open>src/internal/hook/ipcheck.go\<close>: the address filter in front of webhook dials.

  The three packages decide "is this address global" by three different tables; the properties say how
  the tables agree and exactly where they do not.
\<close>

section \<open>protocol/endpoint.go\<close>

datatype EndpointClass = ClassUnspecified | ClassLoopback | ClassRFC1918 | ClassCGNAT | ClassLinkLocal
  | ClassBenchmark | ClassDocumentation | ClassMulticast | ClassReserved | ClassGlobalUnicast
  | ClassIPv4MappedIPv6

definition classifyIPv4 :: "u8 \<Rightarrow> u8 \<Rightarrow> u8 \<Rightarrow> u8 \<Rightarrow> EndpointClass" where
  "classifyIPv4 b0 b1 b2 b3 =
     (if b0 = 10 then ClassRFC1918
      else if b0 = 172 \<and> b1 \<ge> 16 \<and> b1 \<le> 31 then ClassRFC1918
      else if b0 = 192 \<and> b1 = 168 then ClassRFC1918
      else if b0 = 100 \<and> b1 \<ge> 64 \<and> b1 \<le> 127 then ClassCGNAT
      else if b0 = 169 \<and> b1 = 254 then ClassLinkLocal
      else if b0 = 198 \<and> b1 \<ge> 18 \<and> b1 \<le> 19 then ClassBenchmark
      else if b0 = 192 \<and> b1 = 0 \<and> b2 = 2 then ClassDocumentation
      else if b0 = 198 \<and> b1 = 51 \<and> b2 = 100 then ClassDocumentation
      else if b0 = 203 \<and> b1 = 0 \<and> b2 = 113 then ClassDocumentation
      else if b0 = 192 \<and> b1 = 0 \<and> b2 = 0 then ClassReserved
      else if b0 = 192 \<and> b1 = 31 \<and> b2 = 196 then ClassReserved
      else if b0 = 192 \<and> b1 = 52 \<and> b2 = 193 then ClassReserved
      else if b0 = 192 \<and> b1 = 88 \<and> b2 = 99 then ClassReserved
      else if b0 = 192 \<and> b1 = 175 \<and> b2 = 48 then ClassReserved
      else if b0 \<ge> 224 \<and> b0 \<le> 239 then ClassMulticast
      else if b0 = 0 then ClassReserved
      else if b0 \<ge> 240 then ClassReserved
      else ClassGlobalUnicast)"

definition ClassifyIP :: "Addr \<Rightarrow> EndpointClass" where
  "ClassifyIP ip =
     (if \<not> IsValid ip then ClassUnspecified
      else if Is4In6 ip then ClassIPv4MappedIPv6
      else if IsUnspecified ip then ClassUnspecified
      else if IsLoopback ip then ClassLoopback
      else case ip of
        V4 b0 b1 b2 b3 \<Rightarrow> classifyIPv4 b0 b1 b2 b3
      | V6 v _ \<Rightarrow>
          (if IsLinkLocalUnicast ip then ClassLinkLocal
           else if IsMulticast ip then ClassMulticast
           else if unat (v ! 0) div 2 = 126 then ClassRFC1918
           else if v ! 0 = 0x20 \<and> v ! 1 = 0x01 \<and> v ! 2 = 0x0d \<and> v ! 3 = 0xb8 then ClassDocumentation
           else ClassGlobalUnicast)
      | InvalidAddr \<Rightarrow> ClassUnspecified)"

definition IsGlobalEndpoint :: "Addr \<Rightarrow> bool" where
  "IsGlobalEndpoint ip = (if \<not> Is4 ip then False
     else ClassifyIP ip \<in> {ClassDocumentation, ClassGlobalUnicast})"

datatype endpoint_error = EmptyEndpoint | NotHostPort | NotIPv4Literal | NotGlobalIPv4
  | PortNotInteger | PortOutOfRange

definition ValidatePort :: "int \<Rightarrow> endpoint_error + unit" where
  "ValidatePort port = (if port < 1 \<or> port > 65535 then Inl PortOutOfRange else Inr ())"

definition split_literal :: "string \<Rightarrow> endpoint_error + (Addr \<times> string)" where
  "split_literal s =
     (case SplitHostPort s of
        None \<Rightarrow> Inl NotHostPort
      | Some (host, portText) \<Rightarrow>
          if host = [] then Inl NotHostPort
          else (case ParseAddr4 host of None \<Rightarrow> Inl NotIPv4Literal | Some ip \<Rightarrow> Inr (ip, portText)))"

definition check_port :: "string \<Rightarrow> endpoint_error + int" where
  "check_port portText =
     (case Atoi portText of
        None \<Rightarrow> Inl PortNotInteger
      | Some port \<Rightarrow> ebind (ValidatePort port) (\<lambda>_. Inr port))"

definition ValidateEndpoint :: "string \<Rightarrow> endpoint_error + (Addr \<times> u16)" where
  "ValidateEndpoint endpoint =
     (if endpoint = [] then Inl EmptyEndpoint
      else ebind (split_literal endpoint) (\<lambda>(ip, portText).
        if \<not> IsGlobalEndpoint ip then Inl NotGlobalIPv4
        else ebind (check_port portText) (\<lambda>port. Inr (ip, of_int port))))"

text \<open>\<open>validateIPv4Target\<close> of \<^verbatim>\<open>domain.go\<close>: any IPv4 literal with a concrete port.\<close>

definition validateIPv4Target :: "string \<Rightarrow> endpoint_error + unit" where
  "validateIPv4Target target =
     ebind (split_literal target) (\<lambda>(ip, portText). ebind (check_port portText) (\<lambda>_. Inr ()))"

text \<open>\<open>ValidateProbeEndpoint\<close> of \<^verbatim>\<open>probe.go\<close>: every failure is the one error \<open>ErrProbeEndpoint\<close>.\<close>

definition ProbeEndpointMax :: nat where "ProbeEndpointMax = 255"

definition ValidateProbeEndpoint :: "string \<Rightarrow> bool" where
  "ValidateProbeEndpoint endpoint =
     (if endpoint = [] \<or> length endpoint > ProbeEndpointMax then False
      else case SplitHostPort endpoint of
        None \<Rightarrow> False
      | Some (host, portText) \<Rightarrow>
          if host = [] then False
          else case ParseAddr4 host of
            None \<Rightarrow> False
          | Some ip \<Rightarrow>
              if \<not> IsGlobalEndpoint ip then False
              else case Atoi portText of
                None \<Rightarrow> False
              | Some port \<Rightarrow> \<not> (port \<le> 0 \<or> port > 65535))"

section \<open>traversal/network.go\<close>

definition nonGlobalV4Prefixes :: "Prefix list" where
  "nonGlobalV4Prefixes =
     [(V4 0 0 0 0, 8), (V4 100 64 0 0, 10), (V4 192 0 0 0, 24), (V4 192 0 2 0, 24),
      (V4 192 31 196 0, 24), (V4 192 52 193 0, 24), (V4 192 88 99 0, 24), (V4 192 175 48 0, 24),
      (V4 198 18 0 0, 15), (V4 198 51 100 0, 24), (V4 203 0 113 0, 24), (V4 240 0 0 0, 4)]"

definition IsGlobalV4 :: "Addr \<Rightarrow> bool" where
  "IsGlobalV4 addr =
     (if \<not> Is4 addr \<or> IsUnspecified addr \<or> IsLoopback addr \<or> IsMulticast addr \<or>
         IsLinkLocalUnicast addr \<or> IsPrivate addr then False
      else \<not> list_ex (\<lambda>prefix. Contains prefix addr) nonGlobalV4Prefixes)"

definition isValidMappingSource :: "Addr \<Rightarrow> bool" where
  "isValidMappingSource addr \<longleftrightarrow> Is4 addr \<and> \<not> IsUnspecified addr \<and> \<not> IsLoopback addr \<and>
     \<not> IsMulticast addr \<and> \<not> IsLinkLocalUnicast addr"

section \<open>hook/ipcheck.go\<close>

definition blockedV4Prefixes :: "Prefix list" where
  "blockedV4Prefixes =
     [(V4 100 64 0 0, 10), (V4 169 254 0 0, 16), (V4 192 0 0 0, 24), (V4 192 0 2 0, 24),
      (V4 192 88 99 0, 24), (V4 198 18 0 0, 15), (V4 198 51 100 0, 24), (V4 203 0 113 0, 24),
      (V4 240 0 0 0, 4)]"

definition blockedV6Prefixes :: "Prefix list" where
  "blockedV6Prefixes =
     [(V6 ([0x20, 0x01, 0x0d, 0xb8] @ replicate 12 0) [], 32),
      (V6 ([0x20, 0x01, 0, 0] @ replicate 12 0) [], 32),
      (V6 ([0x20, 0x02] @ replicate 14 0) [], 16)]"

definition addressBlocked :: "Addr \<Rightarrow> bool" where
  "addressBlocked a =
     (if \<not> IsValid a then True
      else if Is4In6 a then True
      else if IsLoopback a \<or> IsPrivate a \<or> IsLinkLocalUnicast a \<or> IsLinkLocalMulticast a \<or>
              IsMulticast a \<or> IsUnspecified a then True
      else if Is4 a then list_ex (\<lambda>p. Contains p a) blockedV4Prefixes
      else list_ex (\<lambda>p. Contains p a) blockedV6Prefixes)"

definition validateAddresses :: "Addr list \<Rightarrow> bool" where
  "validateAddresses addrs \<longleftrightarrow> addrs \<noteq> [] \<and> list_all (\<lambda>a. IsValid a \<and> \<not> addressBlocked a) addrs"

section \<open>The tables on bytes\<close>

text \<open>
  An IPv4 prefix of 4, 8, 10, 15, 16 or 24 bits as a condition on the leading bytes; with these
  equations every table is a boolean combination of byte comparisons.
\<close>

lemma radix_eq: "y < (k :: nat) \<Longrightarrow> y' < k \<Longrightarrow> x * k + y = x' * k + y' \<longleftrightarrow> x = x' \<and> y = y'"
  by (metis div_mult_self3 div_less mod_less mod_mult_self3 add.right_neutral less_nat_zero_code)

lemma addr_nat_div:
  "addr_nat (V4 a b c d) div 256 = (unat a * 256 + unat b) * 256 + unat c"
  "addr_nat (V4 a b c d) div 65536 = unat a * 256 + unat b"
  "addr_nat (V4 a b c d) div 16777216 = unat a"
proof -
  have h: "addr_nat (V4 a b c d) = ((unat a * 256 + unat b) * 256 + unat c) * 256 + unat d"
    by simp
  show 1: "addr_nat (V4 a b c d) div 256 = (unat a * 256 + unat b) * 256 + unat c"
    unfolding h using u8_unat_less [of d] by simp
  have "addr_nat (V4 a b c d) div 65536 = addr_nat (V4 a b c d) div 256 div 256"
    by (simp flip: div_mult2_eq)
  then show 2: "addr_nat (V4 a b c d) div 65536 = unat a * 256 + unat b"
    unfolding 1 using u8_unat_less [of c] by simp
  have "addr_nat (V4 a b c d) div 16777216 = addr_nat (V4 a b c d) div 65536 div 256"
    by (simp flip: div_mult2_eq)
  then show "addr_nat (V4 a b c d) div 16777216 = unat a"
    unfolding 2 using u8_unat_less [of b] by simp
qed

lemma addr_nat_div_odd:
  "addr_nat (V4 a b c d) div 131072 = unat a * 128 + unat b div 2"
  "addr_nat (V4 a b c d) div 4194304 = unat a * 4 + unat b div 64"
  "addr_nat (V4 a b c d) div 268435456 = unat a div 16"
proof -
  have "addr_nat (V4 a b c d) div 131072 = addr_nat (V4 a b c d) div 65536 div 2"
    by (simp flip: div_mult2_eq)
  then show "addr_nat (V4 a b c d) div 131072 = unat a * 128 + unat b div 2"
    unfolding addr_nat_div by simp
  have "addr_nat (V4 a b c d) div 4194304 = addr_nat (V4 a b c d) div 65536 div 64"
    by (simp flip: div_mult2_eq)
  then show "addr_nat (V4 a b c d) div 4194304 = unat a * 4 + unat b div 64"
    unfolding addr_nat_div by simp
  have "addr_nat (V4 a b c d) div 268435456 = addr_nat (V4 a b c d) div 16777216 div 16"
    by (simp flip: div_mult2_eq)
  then show "addr_nat (V4 a b c d) div 268435456 = unat a div 16"
    unfolding addr_nat_div by simp
qed

lemma Contains_bytes:
  "Contains (V4 a b c d, 24) (V4 a' b' c' d') \<longleftrightarrow> a' = a \<and> b' = b \<and> c' = c"
  "Contains (V4 a b c d, 16) (V4 a' b' c' d') \<longleftrightarrow> a' = a \<and> b' = b"
  "Contains (V4 a b c d, 15) (V4 a' b' c' d') \<longleftrightarrow> a' = a \<and> unat b' div 2 = unat b div 2"
  "Contains (V4 a b c d, 10) (V4 a' b' c' d') \<longleftrightarrow> a' = a \<and> unat b' div 64 = unat b div 64"
  "Contains (V4 a b c d, 8) (V4 a' b' c' d') \<longleftrightarrow> a' = a"
  "Contains (V4 a b c d, 4) (V4 a' b' c' d') \<longleftrightarrow> unat a' div 16 = unat a div 16"
proof -
  have half: "unat x div 2 < 128" "unat x div 64 < 4" for x :: u8
    using u8_unat_less [of x] by simp_all
  show "Contains (V4 a b c d, 24) (V4 a' b' c' d') \<longleftrightarrow> a' = a \<and> b' = b \<and> c' = c"
    by (auto simp: addr_nat_div radix_eq u8_unat_less word_unat_eq_iff
        simp del: addr_nat.simps distrib_right_numeral)
  show "Contains (V4 a b c d, 16) (V4 a' b' c' d') \<longleftrightarrow> a' = a \<and> b' = b"
    by (auto simp: addr_nat_div radix_eq u8_unat_less word_unat_eq_iff simp del: addr_nat.simps)
  show "Contains (V4 a b c d, 15) (V4 a' b' c' d') \<longleftrightarrow> a' = a \<and> unat b' div 2 = unat b div 2"
    by (auto simp: addr_nat_div_odd radix_eq half word_unat_eq_iff simp del: addr_nat.simps)
  show "Contains (V4 a b c d, 10) (V4 a' b' c' d') \<longleftrightarrow> a' = a \<and> unat b' div 64 = unat b div 64"
    by (auto simp: addr_nat_div_odd radix_eq half word_unat_eq_iff simp del: addr_nat.simps)
  show "Contains (V4 a b c d, 8) (V4 a' b' c' d') \<longleftrightarrow> a' = a"
    by (auto simp: addr_nat_div word_unat_eq_iff simp del: addr_nat.simps)
  show "Contains (V4 a b c d, 4) (V4 a' b' c' d') \<longleftrightarrow> unat a' div 16 = unat a div 16"
    by (auto simp: addr_nat_div_odd simp del: addr_nat.simps)
qed

lemma byte_ranges:
  fixes b :: u8
  shows "unat b div 64 = Suc 0 \<longleftrightarrow> 64 \<le> b \<and> b \<le> 127"
    and "unat b div 2 = 9 \<longleftrightarrow> 18 \<le> b \<and> b \<le> 19"
    and "unat b div 16 = Suc 0 \<longleftrightarrow> 16 \<le> b \<and> b \<le> 31"
    and "unat b div 16 = 14 \<longleftrightarrow> 224 \<le> b \<and> b \<le> 239"
    and "unat b div 16 = 15 \<longleftrightarrow> 240 \<le> b"
  using u8_unat_less [of b] by (auto simp: word_le_nat_alt)

lemma v4_classes:
  "IsLoopback (V4 a b c d) \<longleftrightarrow> a = 127"
  "IsMulticast (V4 a b c d) \<longleftrightarrow> 224 \<le> a \<and> a \<le> 239"
  "IsLinkLocalUnicast (V4 a b c d) \<longleftrightarrow> a = 169 \<and> b = 254"
  "IsLinkLocalMulticast (V4 a b c d) \<longleftrightarrow> a = 224 \<and> b = 0 \<and> c = 0"
  "IsPrivate (V4 a b c d) \<longleftrightarrow> a = 10 \<or> a = 172 \<and> 16 \<le> b \<and> b \<le> 31 \<or> a = 192 \<and> b = 168"
  by (simp_all add: addr_class_defs byte_ranges)

lemma nonGlobalV4_bytes:
  "list_ex (\<lambda>p. Contains p (V4 a b c d)) nonGlobalV4Prefixes \<longleftrightarrow>
     a = 0 \<or> a = 100 \<and> 64 \<le> b \<and> b \<le> 127 \<or> a = 192 \<and> b = 0 \<and> c = 0 \<or> a = 192 \<and> b = 0 \<and> c = 2 \<or>
     a = 192 \<and> b = 31 \<and> c = 196 \<or> a = 192 \<and> b = 52 \<and> c = 193 \<or> a = 192 \<and> b = 88 \<and> c = 99 \<or>
     a = 192 \<and> b = 175 \<and> c = 48 \<or> a = 198 \<and> 18 \<le> b \<and> b \<le> 19 \<or> a = 198 \<and> b = 51 \<and> c = 100 \<or>
     a = 203 \<and> b = 0 \<and> c = 113 \<or> 240 \<le> a"
  by (simp add: nonGlobalV4Prefixes_def Contains_bytes byte_ranges del: Contains.simps)

lemma blockedV4_bytes:
  "list_ex (\<lambda>p. Contains p (V4 a b c d)) blockedV4Prefixes \<longleftrightarrow>
     a = 100 \<and> 64 \<le> b \<and> b \<le> 127 \<or> a = 169 \<and> b = 254 \<or> a = 192 \<and> b = 0 \<and> c = 0 \<or>
     a = 192 \<and> b = 0 \<and> c = 2 \<or> a = 192 \<and> b = 88 \<and> c = 99 \<or> a = 198 \<and> 18 \<le> b \<and> b \<le> 19 \<or>
     a = 198 \<and> b = 51 \<and> c = 100 \<or> a = 203 \<and> b = 0 \<and> c = 113 \<or> 240 \<le> a"
  by (simp add: blockedV4Prefixes_def Contains_bytes byte_ranges del: Contains.simps)

lemma IsGlobalV4_bytes:
  "IsGlobalV4 (V4 a b c d) \<longleftrightarrow>
     \<not> (a = 10 \<or> a = 127 \<or> 224 \<le> a \<and> a \<le> 239 \<or> a = 172 \<and> 16 \<le> b \<and> b \<le> 31 \<or>
     a = 192 \<and> b = 168 \<or> a = 169 \<and> b = 254 \<or>
     list_ex (\<lambda>p. Contains p (V4 a b c d)) nonGlobalV4Prefixes)"
  by (simp add: IsGlobalV4_def v4_classes nonGlobalV4_bytes)

lemma classify_Documentation:
  "classifyIPv4 a b c d = ClassDocumentation \<longleftrightarrow>
     a = 192 \<and> b = 0 \<and> c = 2 \<or> a = 198 \<and> b = 51 \<and> c = 100 \<or> a = 203 \<and> b = 0 \<and> c = 113"
  unfolding classifyIPv4_def by (simp; fastforce)

lemma classify_GlobalUnicast:
  "classifyIPv4 a b c d = ClassGlobalUnicast \<longleftrightarrow>
     \<not> (a = 10 \<or> a = 172 \<and> 16 \<le> b \<and> b \<le> 31 \<or> a = 192 \<and> b = 168 \<or> a = 169 \<and> b = 254 \<or>
        224 \<le> a \<and> a \<le> 239 \<or> list_ex (\<lambda>p. Contains p (V4 a b c d)) nonGlobalV4Prefixes)"
  unfolding classifyIPv4_def nonGlobalV4_bytes by simp

lemma endpoint_nonempty: "SplitHostPort s = Some r \<Longrightarrow> s \<noteq> []"
  by (auto simp: SplitHostPort_def last_index_of_def index_of_def)

lemma check_port_Inr: "check_port t = Inr p \<longleftrightarrow> Atoi t = Some p \<and> 1 \<le> p \<and> p \<le> 65535"
  by (auto simp: check_port_def ValidatePort_def ebind_Inr_iff split: option.splits if_splits)

lemma split_literal_Inr:
  "split_literal s = Inr (ip, t) \<longleftrightarrow>
     (\<exists>host. SplitHostPort s = Some (host, t) \<and> host \<noteq> [] \<and> ParseAddr4 host = Some ip)"
  by (auto simp: split_literal_def split: option.splits if_splits)

lemma split_literal_AddrPort_String:
  "split_literal (AddrPort_String (V4 a b c d) p) = Inr (V4 a b c d, dec (unat p))"
  unfolding split_literal_Inr split_AddrPort_String by (auto simp: ParseAddr4_dec)

lemma check_port_dec: "p \<noteq> 0 \<Longrightarrow> check_port (dec (unat (p :: u16))) = Inr (int (unat p))"
proof -
  assume "p \<noteq> 0"
  then have "0 < unat p" by (simp add: unat_gt_0)
  moreover have "unat p < 2 ^ LENGTH(16)" by (rule unsigned_less)
  ultimately have "1 \<le> int (unat p)" "int (unat p) \<le> 65535" "unat p < 2 ^ 63"
    by (simp_all del: of_nat_unat)
  then show ?thesis unfolding check_port_Inr by (simp only: Atoi_dec)
qed

lemma of_int_port: "1 \<le> p \<Longrightarrow> p \<le> 65535 \<Longrightarrow> (of_int p :: u16) \<noteq> 0 \<and> uint (of_int p :: u16) = p"
proof -
  assume "1 \<le> p" "p \<le> 65535"
  then have "uint (of_int p :: u16) = p"
    by (simp add: uint_word_of_int_eq take_bit_eq_mod)
  with \<open>1 \<le> p\<close> show ?thesis by auto
qed

lemma replicate_numeral: "replicate (numeral k) x = x # replicate (pred_numeral k) x"
  by (simp add: numeral_eq_Suc)

lemma IsGlobalV4_publishable:
  assumes "IsGlobalV4 ip" shows "IsGlobalEndpoint ip"
proof (cases ip)
  case (V4 a b c d)
  have "list_ex (\<lambda>p. Contains p (V4 0 0 0 0)) nonGlobalV4Prefixes"
    by (simp add: nonGlobalV4_bytes)
  thus ?thesis
    using assms unfolding V4
    by (auto simp: IsGlobalEndpoint_def ClassifyIP_def v4_classes IsGlobalV4_bytes classify_GlobalUnicast)
qed (use assms in \<open>simp_all add: IsGlobalV4_def\<close>)

lemma ValidateEndpoint_printed:
  assumes "IsGlobalEndpoint ip" "p \<noteq> 0"
  shows "ValidateEndpoint (AddrPort_String ip p) = Inr (ip, p)"
proof -
  obtain a b c d where ip: "ip = V4 a b c d"
    using assms by (cases ip) (auto simp: IsGlobalEndpoint_def)
  with assms show ?thesis
    by (simp add: ValidateEndpoint_def split_literal_AddrPort_String check_port_dec
        del: AddrPort_String.simps) simp
qed

section \<open>Properties\<close>

text \<open>
  The controller's publication rule and the agent's source rule agree: an address may be published
  as an endpoint exactly if the agent accepts it as a global direct source, or it lies in one of the
  three documentation ranges.
\<close>

theorem global_tables_agree:
  "IsGlobalEndpoint ip \<longleftrightarrow> IsGlobalV4 ip \<or> Is4 ip \<and> ClassifyIP ip = ClassDocumentation"
proof (cases ip)
  case (V4 a b c d)
  have "\<not> (a = 127 \<and> classifyIPv4 a b c d = ClassDocumentation)"
    by (auto simp: classify_Documentation)
  moreover have "list_ex (\<lambda>p. Contains p (V4 0 0 0 0)) nonGlobalV4Prefixes"
    by (simp add: nonGlobalV4_bytes)
  ultimately show ?thesis
    unfolding V4
    by (auto simp: IsGlobalEndpoint_def ClassifyIP_def v4_classes IsGlobalV4_bytes classify_GlobalUnicast)
qed (simp_all add: IsGlobalEndpoint_def IsGlobalV4_def)

lemma fe_addresses:
  "validateAddresses [V6 [0xfe, b1, b2, b3, b4, b5, b6, b7, b8, b9, b10, b11, b12, b13, b14, b15] []] \<longleftrightarrow> unat b1 div 64 \<noteq> 2"
proof -
  let ?b = "[0xfe, b1, b2, b3, b4, b5, b6, b7, b8, b9, b10, b11, b12, b13, b14, b15] :: 8 word list"
  have big: "be_nat ?b div 2 ^ 96 \<ge> 0xfe * 2 ^ 24" "be_nat ?b div 2 ^ 112 \<ge> 0xfe * 2 ^ 8"
    by (simp_all add: be_nat_def)
  have "\<not> list_ex (\<lambda>p. Contains p (V6 ?b [])) blockedV6Prefixes"
  proof -
    have "be_nat ([0x20, 0x01, 0x0d, 0xb8] @ replicate 12 0) div 2 ^ 96 < 0xfe * 2 ^ 24"
      "be_nat ([0x20, 0x01, 0, 0] @ replicate 12 0) div 2 ^ 96 < 0xfe * 2 ^ 24"
      "be_nat ([0x20, 0x02] @ replicate 14 0) div 2 ^ 112 < 0xfe * 2 ^ 8"
      by (simp_all add: be_nat_def replicate_numeral)
    with big have "be_nat ([0x20, 0x01, 0x0d, 0xb8] @ replicate 12 0) div 2 ^ 96 \<noteq> be_nat ?b div 2 ^ 96"
      "be_nat ([0x20, 0x01, 0, 0] @ replicate 12 0) div 2 ^ 96 \<noteq> be_nat ?b div 2 ^ 96"
      "be_nat ([0x20, 0x02] @ replicate 14 0) div 2 ^ 112 \<noteq> be_nat ?b div 2 ^ 112" by linarith+
    then show ?thesis by (simp add: blockedV6Prefixes_def del: replicate_numeral append.simps)
  qed
  then show ?thesis
    by (simp add: validateAddresses_def addressBlocked_def addr_class_defs replicate_numeral)
qed

text \<open>
  C19. The webhook address filter is weaker than the agent's table, and exactly where: the IPv4 addresses
  it lets through that are not global are the reserved block 0.0.0.0/8 without 0.0.0.0 itself and the
  three special-purpose service prefixes 192.31.196.0/24, 192.52.193.0/24 and 192.175.48.0/24. Of the
  IPv6 addresses in fe00::/8 it blocks exactly the link-local ones (fe80::/10, where the two leading bits of the
  second byte are 10). So it lets all site-local addresses (fec0::/10) through, although its comment counts
  them among the ranges already covered.
\<close>

theorem webhook_filter_gap:
  "(validateAddresses [V4 a b c d] \<and> \<not> IsGlobalV4 (V4 a b c d) \<longleftrightarrow>
     a = 0 \<and> [b, c, d] \<noteq> [0, 0, 0] \<or>
     a = 192 \<and> (b = 31 \<and> c = 196 \<or> b = 52 \<and> c = 193 \<or> b = 175 \<and> c = 48)) \<and>
   (validateAddresses [V6 [0xfe, x1, x2, x3, x4, x5, x6, x7, x8, x9, x10, x11, x12, x13, x14, x15] []] \<longleftrightarrow>
     unat x1 div 64 \<noteq> 2)"
proof
  show "validateAddresses [V6 [0xfe, x1, x2, x3, x4, x5, x6, x7, x8, x9, x10, x11, x12, x13, x14, x15] []] \<longleftrightarrow> unat x1 div 64 \<noteq> 2"
    by (rule fe_addresses)
next
  note unf = validateAddresses_def addressBlocked_def v4_classes IsGlobalV4_bytes nonGlobalV4_bytes
    blockedV4_bytes
  consider "a = 0" | "a = 192" | "a \<noteq> 0" "a \<noteq> 192" by blast
  then show "validateAddresses [V4 a b c d] \<and> \<not> IsGlobalV4 (V4 a b c d) \<longleftrightarrow>
     a = 0 \<and> [b, c, d] \<noteq> [0, 0, 0] \<or>
     a = 192 \<and> (b = 31 \<and> c = 196 \<or> b = 52 \<and> c = 193 \<or> b = 175 \<and> c = 48)"
  proof cases
    case 1
    then show ?thesis by (simp add: unf word_le_nat_alt)
  next
    case 2
    then show ?thesis
      by (simp add: unf word_le_nat_alt) (cases "b = 31"; cases "b = 52"; cases "b = 175"; simp; argo)
  next
    case 3
    then show ?thesis by (simp add: unf) argo
  qed
qed

lemma probe_endpoint_iff:
  "ValidateProbeEndpoint s \<longleftrightarrow> length s \<le> 255 \<and> (\<exists>r. ValidateEndpoint s = Inr r)"
proof (cases "SplitHostPort s")
  case None
  then show ?thesis
    by (auto simp: ValidateProbeEndpoint_def ValidateEndpoint_def split_literal_def ebind_Inr_iff)
next
  case (Some hp)
  then have "s \<noteq> []" by (rule endpoint_nonempty)
  with Some show ?thesis
    by (cases hp) (auto simp: ValidateProbeEndpoint_def ValidateEndpoint_def ProbeEndpointMax_def
        split_literal_def check_port_def ValidatePort_def split: option.splits)
qed

text \<open>
  C20. Endpoint literals: \<open>ValidateEndpoint\<close> returns only publishable IPv4 addresses with a port in
  1..65535, and reads every such endpoint back from its own printed form. The probe protocol's check is
  the same one restricted to 255 bytes.
\<close>

theorem ValidateEndpoint_sound_complete:
  "(\<forall>s ip p. ValidateEndpoint s = Inr (ip, p) \<longrightarrow> IsGlobalEndpoint ip \<and> p \<noteq> 0) \<and>
   (\<forall>ip p. IsGlobalEndpoint ip \<and> p \<noteq> 0 \<longrightarrow> ValidateEndpoint (AddrPort_String ip p) = Inr (ip, p)) \<and>
   (\<forall>s. ValidateProbeEndpoint s \<longleftrightarrow> length s \<le> 255 \<and> (\<exists>r. ValidateEndpoint s = Inr r))"
proof (intro conjI allI impI)
  show "ValidateProbeEndpoint s \<longleftrightarrow> length s \<le> 255 \<and> (\<exists>r. ValidateEndpoint s = Inr r)" for s
    by (rule probe_endpoint_iff)
next
  fix s ip p
  assume "ValidateEndpoint s = Inr (ip, p)"
  then show "IsGlobalEndpoint ip" "p \<noteq> 0"
    using of_int_port by (auto simp: ValidateEndpoint_def ebind_Inr_iff check_port_Inr split: if_splits)
next
  fix ip and p :: u16
  assume "IsGlobalEndpoint ip \<and> p \<noteq> 0"
  thus "ValidateEndpoint (AddrPort_String ip p) = Inr (ip, p)" by (simp add: ValidateEndpoint_printed)
qed

theorem ValidateEndpoint_sound_complete_witness:
  "ValidateEndpoint ''8.8.4.4:443'' = Inr (V4 8 8 4 4, 443)"
proof -
  have g: "IsGlobalEndpoint (V4 8 8 4 4)"
    by (simp add: IsGlobalEndpoint_def ClassifyIP_def v4_classes classifyIPv4_def)
  have "AddrPort_String (V4 8 8 4 4) 443 = ''8.8.4.4:443''"
    by (simp add: dec_small char_of_def bit_Suc_0_iff)
  with ValidateEndpoint_sound_complete [THEN conjunct2, THEN conjunct1, rule_format, of "V4 8 8 4 4" 443] g
  show ?thesis by simp
qed

end
