(* ===== verification/Network.thy ===== *)
theory Network
  imports Endpoint "HOL-Library.Char_ord" "HOL-Library.List_Lexorder" "HOL-Library.Product_Lexorder"
    "HOL-Library.Multiset"
begin

text \<open>
  The direct-v4 source selection of \<^verbatim>\<open>traversal/network.go\<close>: \<open>Assess\<close> and
  \<open>DefaultRouteSource\<close> as pure functions of the route table, and the theorems that the order in
  which the operating system lists the addresses does not matter and that a selection is always a
  usable address of the default-route interface.

  \<open>RouteTable\<close> is a Go interface whose two methods may fail; a route table is the record of their
  two results. The addresses are sorted by interface name and then by \<open>netip.Addr.Compare\<close>, that is
  by bit length, by value and by zone; the key below is that order (byte strings of one length are
  ordered by value exactly if they are ordered lexicographically).
\<close>

record IPv4Address =
  Interface :: string
  Addr :: Addr

record Selection =
  Source :: Addr
  SelInterface :: string
  DefaultRouteGateway :: Addr
  DefaultRouteInterface :: string
  Global :: bool

datatype Capability = CapabilityDirectV4Ready | CapabilityV4SourceUnavailable
  | CapabilityV4DefaultRouteUnavailable | CapabilityNoGlobalV4Source

datatype 'e net_error = ErrReader 'e | ErrV4SourceUnavailable | ErrV4DefaultRouteUnavailable
  | ErrNoGlobalV4Source | ErrInternalSourceUnavailable

record 'e RouteTable =
  DefaultRouteV4 :: "'e + (Addr \<times> string \<times> bool)"
  IPv4Addresses :: "'e + IPv4Address list"

fun addr_key :: "Addr \<Rightarrow> nat \<times> nat list \<times> string" where
  "addr_key InvalidAddr = (0, [], [])"
| "addr_key (V4 a b c d) = (32, map unat [a, b, c, d], [])"
| "addr_key (V6 bs zone) = (128, map unat bs, zone)"

definition address_key :: "IPv4Address \<Rightarrow> string \<times> nat \<times> nat list \<times> string" where
  "address_key a = (Interface a, addr_key (Addr a))"

definition sortedIPv4Addresses :: "IPv4Address list \<Rightarrow> IPv4Address list" where
  "sortedIPv4Addresses addrs = sort_key address_key addrs"

definition zero_selection :: Selection where
  "zero_selection = \<lparr> Source = InvalidAddr, SelInterface = [], DefaultRouteGateway = InvalidAddr,
     DefaultRouteInterface = [], Global = False \<rparr>"

definition selection_of :: "IPv4Address \<Rightarrow> Addr \<Rightarrow> string \<Rightarrow> bool \<Rightarrow> Selection" where
  "selection_of candidate gateway iface g =
     \<lparr> Source = Addr candidate, SelInterface = Interface candidate, DefaultRouteGateway = gateway,
       DefaultRouteInterface = iface, Global = g \<rparr>"

definition Assess :: "'e RouteTable \<Rightarrow> Selection \<times> Capability option \<times> 'e net_error option" where
  "Assess rt =
     (case IPv4Addresses rt of
        Inl e \<Rightarrow> (zero_selection, None, Some (ErrReader e))
      | Inr addrs \<Rightarrow>
          if addrs = [] then (zero_selection, Some CapabilityV4SourceUnavailable, Some ErrV4SourceUnavailable)
          else case DefaultRouteV4 rt of
            Inl e \<Rightarrow> (zero_selection, None, Some (ErrReader e))
          | Inr (gateway, iface, ok) \<Rightarrow>
              if \<not> ok then (zero_selection, Some CapabilityV4DefaultRouteUnavailable,
                             Some ErrV4DefaultRouteUnavailable)
              else case find (\<lambda>candidate. Interface candidate = iface \<and> IsGlobalV4 (Addr candidate))
                          (sortedIPv4Addresses addrs) of
                Some candidate \<Rightarrow>
                  (selection_of candidate gateway iface True, Some CapabilityDirectV4Ready, None)
              | None \<Rightarrow> (zero_selection, Some CapabilityNoGlobalV4Source, Some ErrNoGlobalV4Source))"

definition DefaultRouteSource :: "'e RouteTable \<Rightarrow> 'e net_error + Selection" where
  "DefaultRouteSource rt =
     (case IPv4Addresses rt of
        Inl e \<Rightarrow> Inl (ErrReader e)
      | Inr addrs \<Rightarrow>
          if addrs = [] then Inl ErrV4SourceUnavailable
          else case DefaultRouteV4 rt of
            Inl e \<Rightarrow> Inl (ErrReader e)
          | Inr (gateway, iface, ok) \<Rightarrow>
              if \<not> ok then Inl ErrV4DefaultRouteUnavailable
              else case find (\<lambda>candidate. Interface candidate = iface \<and> isValidMappingSource (Addr candidate))
                          (sortedIPv4Addresses addrs) of
                Some candidate \<Rightarrow>
                  Inr (selection_of candidate gateway iface (IsGlobalV4 (Addr candidate)))
              | None \<Rightarrow> Inl ErrInternalSourceUnavailable)"

section \<open>Lemmas\<close>

lemma addr_key_inj: "addr_key x = addr_key y \<Longrightarrow> x = y"
  by (cases x; cases y) (auto simp: word_unat_eq_iff inj_map_eq_map inj_on_def)

lemma inj_address_key: "inj_on address_key A"
  by (rule inj_onI) (auto simp: address_key_def dest: addr_key_inj)

lemma sorted_addresses_mset:
  "mset xs = mset ys \<Longrightarrow> sortedIPv4Addresses xs = sortedIPv4Addresses ys"
  unfolding sortedIPv4Addresses_def
  by (rule sort_key_inj_key_eq) (simp_all add: inj_address_key)

lemma set_sorted_addresses [simp]: "set (sortedIPv4Addresses xs) = set xs"
  by (simp add: sortedIPv4Addresses_def)

lemma find_Some_set: "find P xs = Some x \<Longrightarrow> P x \<and> x \<in> set xs"
  by (auto simp: find_Some_iff)

lemma global_is_mapping_source: "IsGlobalV4 a \<Longrightarrow> isValidMappingSource a"
  by (auto simp: IsGlobalV4_def isValidMappingSource_def split: if_splits)

lemma address_mem: "a \<in> A \<Longrightarrow> Interface a = i \<Longrightarrow> \<lparr> Interface = i, Addr = Addr a \<rparr> \<in> A"
  by (cases a) auto

section \<open>Properties\<close>

text \<open>
  The order in which the reader lists the interface addresses matters to neither selection function.
\<close>

theorem selection_order_independent:
  assumes "mset addrs = mset addrs'"
  shows "Assess (rt \<lparr> IPv4Addresses := Inr addrs \<rparr>) = Assess (rt \<lparr> IPv4Addresses := Inr addrs' \<rparr>) \<and>
    DefaultRouteSource (rt \<lparr> IPv4Addresses := Inr addrs \<rparr>) =
    DefaultRouteSource (rt \<lparr> IPv4Addresses := Inr addrs' \<rparr>)"
proof -
  have "addrs = [] \<longleftrightarrow> addrs' = []"
    using assms by (metis mset_zero_iff_right mset.simps(1))
  with sorted_addresses_mset [OF assms] show ?thesis
    by (simp add: Assess_def DefaultRouteSource_def split: sum.splits)
qed

text \<open>
  What \<open>Assess\<close> answers, on every route table: the ready code and no error come together; then
  the source is a global address the host has on the default-route interface, and the gateway
  strategies, which accept more addresses, find a source too. Otherwise the selection is empty and the
  capability is the one of its error, or absent for a reader failure.
\<close>

theorem Assess_sound:
  "case Assess rt of (sel, cap, err) \<Rightarrow>
     (cap = Some CapabilityDirectV4Ready \<longleftrightarrow> err = None) \<and>
     (if err = None then
        Global sel \<and> IsGlobalV4 (Source sel) \<and> SelInterface sel = DefaultRouteInterface sel \<and>
        (\<exists>addrs. IPv4Addresses rt = Inr addrs \<and>
           \<lparr> Interface = SelInterface sel, Addr = Source sel \<rparr> \<in> set addrs) \<and>
        DefaultRouteV4 rt = Inr (DefaultRouteGateway sel, DefaultRouteInterface sel, True) \<and>
        (\<exists>sel'. DefaultRouteSource rt = Inr sel')
      else sel = zero_selection \<and> (cap = None \<longleftrightarrow> (\<exists>e. err = Some (ErrReader e))))"
  by (auto simp: Assess_def DefaultRouteSource_def selection_of_def find_None_iff
      dest!: find_Some_set dest: global_is_mapping_source intro: address_mem
      split: sum.splits option.splits prod.splits)

theorem selection_order_independent_witness:
  "Assess \<lparr> DefaultRouteV4 = Inr (V4 192 168 1 1, ''eth0'', True),
      IPv4Addresses = Inr [\<lparr> Interface = ''eth0'', Addr = V4 8 8 8 8 \<rparr>, \<lparr> Interface = ''eth0'', Addr = V4 1 1 1 1 \<rparr>] \<rparr> =
   Assess \<lparr> DefaultRouteV4 = (Inr (V4 192 168 1 1, ''eth0'', True) :: unit + _),
      IPv4Addresses = Inr [\<lparr> Interface = ''eth0'', Addr = V4 1 1 1 1 \<rparr>, \<lparr> Interface = ''eth0'', Addr = V4 8 8 8 8 \<rparr>] \<rparr>"
  using selection_order_independent
    [of "[\<lparr> Interface = ''eth0'', Addr = V4 8 8 8 8 \<rparr>, \<lparr> Interface = ''eth0'', Addr = V4 1 1 1 1 \<rparr>]"
        "[\<lparr> Interface = ''eth0'', Addr = V4 1 1 1 1 \<rparr>, \<lparr> Interface = ''eth0'', Addr = V4 8 8 8 8 \<rparr>]"
        "\<lparr> DefaultRouteV4 = Inr (V4 192 168 1 1, ''eth0'', True), IPv4Addresses = Inr [] \<rparr> :: unit RouteTable"]
  by (simp add: add_mset_commute)

end
