(* ===== verification/Enrollment.thy ===== *)
theory Enrollment
  imports Framecrypto
begin

text \<open>
  \<^verbatim>\<open>src/internal/protocol/enrollment.go\<close>: the three signed messages of the enrollment transcript.

  Each message is a canonical list of length-prefixed fields followed by an Ed25519 signature over
  the enrollment domain and those fields. The three parsers are modelled whole, each check in its
  order. \<open>enrollEncode\<close> panics on a field longer than a uint32 can say; the panic is \<open>None\<close> in the
  encoder and the error \<open>EnrollPanic\<close> in a parser that re-encodes what it read.

  The group \<open>*_ok\<close> states what the Go types and the checks together guarantee of a message;
  \<open>Parse*_iff\<close> characterise each parser by it. The properties are the round trips, that accepted
  messages are canonical, and that no signature of one message can stand for another.
\<close>

abbreviation EnrollDomain :: string where "EnrollDomain \<equiv> ''AntiNAT-Enroll-v1''"
abbreviation EnrollVersion :: string where "EnrollVersion \<equiv> ''1''"
abbreviation MaxTokenBytes :: nat where "MaxTokenBytes \<equiv> 256"
abbreviation EnrollNonceSize :: nat where "EnrollNonceSize \<equiv> 32"
abbreviation EnrollKeySize :: nat where "EnrollKeySize \<equiv> 32"
abbreviation EnrollHashSize :: nat where "EnrollHashSize \<equiv> 32"
abbreviation EnrollIDSize :: nat where "EnrollIDSize \<equiv> 16"
abbreviation EnrollSigLen :: nat where "EnrollSigLen \<equiv> 64"

definition EnrollChallengeMax :: nat where
  "EnrollChallengeMax = 6*4 + EnrollIDSize + 255 + EnrollIDSize + EnrollNonceSize + 1 + 8 + EnrollSigLen"

definition EnrollRequestMax :: nat where
  "EnrollRequestMax =
     6*4 + EnrollHashSize + EnrollNonceSize + EnrollKeySize + 4 + MaxTokenBytes + EnrollHashSize + EnrollSigLen"

definition EnrollResultMax :: nat where
  "EnrollResultMax =
     7*4 + EnrollIDSize + 255 + EnrollIDSize + EnrollHashSize + 4 + EnrollIDSize + 8 + EnrollSigLen"

datatype enroll_error = ErrEnrollSignature | ErrEnrollChallenge | ErrEnrollMalformed | EnrollPanic

definition enrollEncode :: "bytes list \<Rightarrow> bytes option" where
  "enrollEncode fs = put_fields fs"

definition enrollU32 :: "u32 \<Rightarrow> bytes" where "enrollU32 v = put_u32 v"

definition enrollU64 :: "u64 \<Rightarrow> bytes" where "enrollU64 v = put_u64 v"

definition enrollSignatureInput :: "string \<Rightarrow> bytes \<Rightarrow> bytes" where
  "enrollSignatureInput domain fs = DomainSeparatedMessage domain fs"

definition enrollSplit :: "bytes \<Rightarrow> enroll_error + bytes \<times> bytes" where
  "enrollSplit raw =
     (if length raw < EnrollSigLen then Inl ErrEnrollMalformed
      else let sig = drop (length raw - EnrollSigLen) raw;
               fields = take (length raw - EnrollSigLen) raw
           in if length fields = 0 then Inl ErrEnrollMalformed else Inr (fields, sig))"

definition enrollReadFields :: "nat \<Rightarrow> bytes \<Rightarrow> enroll_error + bytes list" where
  "enrollReadFields count b =
     ebind (take_fields ErrEnrollMalformed ErrEnrollMalformed count b) (\<lambda>(parts, rest).
       if rest \<noteq> [] then Inl ErrEnrollMalformed else Inr parts)"

section \<open>The three messages\<close>

record EnrollChallenge =
  c_ControllerInstanceID :: bytes
  c_ControllerKeyID :: string
  c_NodeID :: bytes
  c_ServerNonce :: bytes
  c_ProtocolVersions :: string
  c_ExpiryUnix :: u64

definition challenge_fields :: "EnrollChallenge \<Rightarrow> bytes list" where
  "challenge_fields c =
     [c_ControllerInstanceID c, str_bytes (c_ControllerKeyID c), c_NodeID c, c_ServerNonce c,
      str_bytes (c_ProtocolVersions c), enrollU64 (c_ExpiryUnix c)]"

definition challenge_SigningBytes :: "EnrollChallenge \<Rightarrow> bytes option" where
  "challenge_SigningBytes c =
     map_option (enrollSignatureInput EnrollDomain) (enrollEncode (challenge_fields c))"

definition check_signature ::
  "crypto \<Rightarrow> bytes \<Rightarrow> bytes option \<Rightarrow> bytes \<Rightarrow> 'm \<Rightarrow> enroll_error + 'm" where
  "check_signature k pub m sig r =
     (case m of None \<Rightarrow> Inl EnrollPanic
      | Some bs \<Rightarrow> if Verify k pub bs sig then Inr r else Inl ErrEnrollSignature)"

definition challenge_of_parts :: "bytes list \<Rightarrow> EnrollChallenge" where
  "challenge_of_parts parts =
     \<lparr> c_ControllerInstanceID = parts ! 0, c_ControllerKeyID = bytes_str (parts ! 1),
               c_NodeID = parts ! 2, c_ServerNonce = parts ! 3,
               c_ProtocolVersions = bytes_str (parts ! 4), c_ExpiryUnix = get_u64 (parts ! 5) \<rparr>"

definition ParseEnrollChallenge :: "crypto \<Rightarrow> bytes \<Rightarrow> bytes \<Rightarrow> enroll_error + EnrollChallenge" where
  "ParseEnrollChallenge k raw controllerPub =
     ensure (length raw \<le> EnrollChallengeMax) ErrEnrollMalformed (
     ebind (enrollSplit raw) (\<lambda>(fields, sig).
     ebind (enrollReadFields 6 fields) (\<lambda>parts.
     ensure (\<not> (length (parts ! 0) \<noteq> EnrollIDSize \<or> length (parts ! 2) \<noteq> EnrollIDSize \<or>
                length (parts ! 3) \<noteq> EnrollNonceSize \<or> length (parts ! 5) \<noteq> 8)) ErrEnrollMalformed (
     ensure (length (parts ! 1) \<noteq> 0) ErrEnrollMalformed (
     ensure (bytes_str (parts ! 4) = EnrollVersion) ErrEnrollMalformed (
     let c = challenge_of_parts parts in check_signature k controllerPub (challenge_SigningBytes c) sig c))))))"

record EnrollRequest =
  q_ChallengeHash :: bytes
  q_AgentNonce :: bytes
  q_AgentPublicKey :: bytes
  q_AgentCredentialVersion :: u32
  q_Token :: string
  q_CapabilityHash :: bytes

definition request_fields :: "EnrollRequest \<Rightarrow> bytes list" where
  "request_fields r =
     [q_ChallengeHash r, q_AgentNonce r, q_AgentPublicKey r, enrollU32 (q_AgentCredentialVersion r),
      str_bytes (q_Token r), q_CapabilityHash r]"

definition request_SigningBytes :: "EnrollRequest \<Rightarrow> bytes option" where
  "request_SigningBytes r =
     map_option (enrollSignatureInput EnrollDomain) (enrollEncode (request_fields r))"

definition request_of_parts :: "bytes list \<Rightarrow> EnrollRequest" where
  "request_of_parts parts =
     \<lparr> q_ChallengeHash = parts ! 0, q_AgentNonce = parts ! 1, q_AgentPublicKey = parts ! 2,
               q_AgentCredentialVersion = get_u32 (parts ! 3), q_Token = bytes_str (parts ! 4),
               q_CapabilityHash = parts ! 5 \<rparr>"

definition ParseEnrollRequest :: "crypto \<Rightarrow> bytes \<Rightarrow> bytes \<Rightarrow> enroll_error + EnrollRequest" where
  "ParseEnrollRequest k raw challengeHash =
     ensure (length raw \<le> EnrollRequestMax) ErrEnrollMalformed (
     ebind (enrollSplit raw) (\<lambda>(fields, sig).
     ebind (enrollReadFields 6 fields) (\<lambda>parts.
     ensure (\<not> (length (parts ! 0) \<noteq> EnrollHashSize \<or> length (parts ! 1) \<noteq> EnrollNonceSize \<or>
                length (parts ! 2) \<noteq> EnrollKeySize \<or> length (parts ! 3) \<noteq> 4 \<or>
                length (parts ! 5) \<noteq> EnrollHashSize)) ErrEnrollMalformed (
     let token = parts ! 4 in
     ensure (\<not> (length token = 0 \<or> length token > MaxTokenBytes)) ErrEnrollMalformed (
     let r = request_of_parts parts in
     ensure (q_AgentCredentialVersion r \<noteq> 0) ErrEnrollMalformed (
     ensure (q_ChallengeHash r = challengeHash) ErrEnrollChallenge (
     check_signature k (q_AgentPublicKey r) (request_SigningBytes r) sig r)))))))"

record EnrollResult =
  s_ControllerInstanceID :: bytes
  s_ControllerKeyID :: string
  s_NodeID :: bytes
  s_AgentPublicKeyHash :: bytes
  s_AgentCredentialVersion :: u32
  s_EnrollmentResultID :: bytes
  s_ExpiryUnix :: u64

definition result_fields :: "EnrollResult \<Rightarrow> bytes list" where
  "result_fields r =
     [s_ControllerInstanceID r, str_bytes (s_ControllerKeyID r), s_NodeID r, s_AgentPublicKeyHash r,
      enrollU32 (s_AgentCredentialVersion r), s_EnrollmentResultID r, enrollU64 (s_ExpiryUnix r)]"

definition result_SigningBytes :: "EnrollResult \<Rightarrow> bytes option" where
  "result_SigningBytes r =
     map_option (enrollSignatureInput EnrollDomain) (enrollEncode (result_fields r))"

definition result_of_parts :: "bytes list \<Rightarrow> EnrollResult" where
  "result_of_parts parts =
     \<lparr> s_ControllerInstanceID = parts ! 0, s_ControllerKeyID = bytes_str (parts ! 1),
               s_NodeID = parts ! 2, s_AgentPublicKeyHash = parts ! 3,
               s_AgentCredentialVersion = get_u32 (parts ! 4), s_EnrollmentResultID = parts ! 5,
               s_ExpiryUnix = get_u64 (parts ! 6) \<rparr>"

definition ParseEnrollResult :: "crypto \<Rightarrow> bytes \<Rightarrow> bytes \<Rightarrow> enroll_error + EnrollResult" where
  "ParseEnrollResult k raw controllerPub =
     ensure (length raw \<le> EnrollResultMax) ErrEnrollMalformed (
     ebind (enrollSplit raw) (\<lambda>(fields, sig).
     ebind (enrollReadFields 7 fields) (\<lambda>parts.
     ensure (\<not> (length (parts ! 0) \<noteq> EnrollIDSize \<or> length (parts ! 2) \<noteq> EnrollIDSize \<or>
                length (parts ! 3) \<noteq> EnrollHashSize \<or> length (parts ! 4) \<noteq> 4 \<or>
                length (parts ! 5) \<noteq> EnrollIDSize \<or> length (parts ! 6) \<noteq> 8)) ErrEnrollMalformed (
     ensure (length (parts ! 1) \<noteq> 0) ErrEnrollMalformed (
     let r = result_of_parts parts in
     ensure (s_AgentCredentialVersion r \<noteq> 0) ErrEnrollMalformed (
     check_signature k controllerPub (result_SigningBytes r) sig r))))))"

section \<open>The field codec\<close>

interpretation enc: field_codec enrollEncode enrollReadFields
proof unfold_locales
  fix fs b
  assume "enrollEncode fs = Some b"
  from take_fields_put_fields [OF this [unfolded enrollEncode_def], of ErrEnrollMalformed ErrEnrollMalformed "[]"]
  show "enrollReadFields (length fs) b = Inr fs"
    by (simp add: enrollReadFields_def)
next
  fix n b fs
  assume "enrollReadFields n b = Inr fs"
  then have "take_fields ErrEnrollMalformed ErrEnrollMalformed n b = Inr (fs, [])"
    by (auto simp: enrollReadFields_def ebind_Inr_iff split: if_splits)
  from put_fields_take_fields [OF this] show "enrollEncode fs = Some b" "length fs = n"
    by (auto simp: enrollEncode_def)
qed

lemma enrollSplit_iff: "enrollSplit raw = Inr (f, s) \<longleftrightarrow> raw = f @ s \<and> length s = 64 \<and> f \<noteq> []"
  by (auto simp: enrollSplit_def Let_def)

lemma check_signature_iff:
  "check_signature k pub m sig r = Inr r' \<longleftrightarrow>
     r' = r \<and> (case m of None \<Rightarrow> False | Some bs \<Rightarrow> Verify k pub bs sig)"
  by (auto simp: check_signature_def split: option.splits)

lemma enrollEncode_nonempty: "enrollEncode (f # fs) = Some b \<Longrightarrow> b \<noteq> []"
  by (auto simp: enrollEncode_def put_field_Some_iff split: option.splits
      dest!: arg_cong [where f = length])

lemma length_enrollEncode:
  "enrollEncode fs = Some b \<Longrightarrow> length b = 4 * length fs + sum_list (map length fs)"
  unfolding enrollEncode_def by (rule length_put_fields)

section \<open>What the parsers accept\<close>

definition challenge_ok :: "EnrollChallenge \<Rightarrow> bool" where
  "challenge_ok c \<longleftrightarrow> length (c_ControllerInstanceID c) = 16 \<and>
     1 \<le> length (c_ControllerKeyID c) \<and> length (c_ControllerKeyID c) \<le> 255 \<and>
     length (c_NodeID c) = 16 \<and> length (c_ServerNonce c) = 32 \<and> c_ProtocolVersions c = ''1''"

definition request_ok :: "EnrollRequest \<Rightarrow> bool" where
  "request_ok r \<longleftrightarrow> length (q_ChallengeHash r) = 32 \<and> length (q_AgentNonce r) = 32 \<and>
     length (q_AgentPublicKey r) = 32 \<and> q_AgentCredentialVersion r \<noteq> 0 \<and>
     1 \<le> length (q_Token r) \<and> length (q_Token r) \<le> 256 \<and> length (q_CapabilityHash r) = 32"

definition result_ok :: "EnrollResult \<Rightarrow> bool" where
  "result_ok r \<longleftrightarrow> length (s_ControllerInstanceID r) = 16 \<and>
     1 \<le> length (s_ControllerKeyID r) \<and> length (s_ControllerKeyID r) \<le> 255 \<and>
     length (s_NodeID r) = 16 \<and> length (s_AgentPublicKeyHash r) = 32 \<and>
     s_AgentCredentialVersion r \<noteq> 0 \<and> length (s_EnrollmentResultID r) = 16"

text \<open>\<open>signed_by k pub fs raw\<close>: \<open>raw\<close> is the encoding of the fields \<open>fs\<close> and a signature of them.\<close>

definition signed_by :: "crypto \<Rightarrow> bytes \<Rightarrow> bytes list \<Rightarrow> bytes \<Rightarrow> bool" where
  "signed_by k pub fs raw \<longleftrightarrow>
     (\<exists>f s. enrollEncode fs = Some f \<and> raw = f @ s \<and>
        Verify k pub (enrollSignatureInput EnrollDomain f) s)"

lemma length_signed_by:
  "signed_by k pub fs raw \<Longrightarrow> length raw = 4 * length fs + sum_list (map length fs) + 64"
  by (auto simp: signed_by_def length_enrollEncode dest!: Verify_size)

lemma signed_byE:
  assumes "signed_by k pub (x # xs) raw"
  obtains f s where "raw = f @ s" "length s = 64" "f \<noteq> []" "enrollEncode (x # xs) = Some f"
    "Verify k pub (enrollSignatureInput EnrollDomain f) s"
proof -
  from assms obtain f s where h: "enrollEncode (x # xs) = Some f" "raw = f @ s"
    "Verify k pub (enrollSignatureInput EnrollDomain f) s"
    unfolding signed_by_def by blast
  from Verify_size [OF h(3)] enrollEncode_nonempty [OF h(1)] show ?thesis
    by (intro that [OF h(2) _ _ h(1,3)]) simp_all
qed

lemma signed_fields:
  "(ebind (enrollSplit raw) (\<lambda>(f, s). ebind (enrollReadFields n f) (\<lambda>parts. g parts f s)) = Inr r) \<longleftrightarrow>
     (\<exists>f s parts. raw = f @ s \<and> length s = 64 \<and> f \<noteq> [] \<and> length parts = n \<and>
        enrollEncode parts = Some f \<and> g parts f s = Inr r)"
  by (auto simp: ebind_Inr_iff enrollSplit_iff enc.dec_iff)

lemma signed_fieldsI:
  assumes "raw = f @ s" "length s = 64" "f \<noteq> []" "enrollEncode parts = Some f" "length parts = n"
    and "g parts f s = Inr r"
  shows "ebind (enrollSplit raw) (\<lambda>(f, s). ebind (enrollReadFields n f) (\<lambda>parts. g parts f s)) = Inr r"
  unfolding signed_fields using assms by blast

lemma list6: "length xs = 6 \<Longrightarrow> xs = [xs ! 0, xs ! 1, xs ! 2, xs ! 3, xs ! 4, xs ! 5]"
  by (auto simp: numeral_eq_Suc length_Suc_conv)

lemma list7: "length xs = 7 \<Longrightarrow> xs = [xs ! 0, xs ! 1, xs ! 2, xs ! 3, xs ! 4, xs ! 5, xs ! 6]"
  by (auto simp: numeral_eq_Suc length_Suc_conv)

lemma challenge_fields_of_parts:
  "length p = 6 \<Longrightarrow> length (p ! 5) = 8 \<Longrightarrow> challenge_fields (challenge_of_parts p) = p"
  by (rule trans [OF _ list6 [symmetric]]) (simp_all add: challenge_of_parts_def challenge_fields_def enrollU64_def)

lemma ParseEnrollChallenge_iff:
  "ParseEnrollChallenge k raw pub = Inr c \<longleftrightarrow> challenge_ok c \<and> signed_by k pub (challenge_fields c) raw"
proof
  assume "ParseEnrollChallenge k raw pub = Inr c"
  then obtain f s p where h: "length raw \<le> EnrollChallengeMax" "raw = f @ s" "length p = 6"
    "enrollEncode p = Some f"
    "\<not> (length (p ! 0) \<noteq> 16 \<or> length (p ! 2) \<noteq> 16 \<or> length (p ! 3) \<noteq> 32 \<or> length (p ! 5) \<noteq> 8)"
    "length (p ! 1) \<noteq> 0" "bytes_str (p ! 4) = ''1''"
    and c: "c = challenge_of_parts p"
    and sg: "case challenge_SigningBytes (challenge_of_parts p) of None \<Rightarrow> False | Some bs \<Rightarrow> Verify k pub bs s"
    unfolding ParseEnrollChallenge_def signed_fields ensure_Inr_iff Let_def check_signature_iff
    by - (elim exE conjE, rule that; assumption)
  have f: "challenge_fields (challenge_of_parts p) = p"
    using challenge_fields_of_parts h(3,5) by simp
  from sg h have sb: "signed_by k pub (challenge_fields c) raw"
    unfolding c f by (auto simp: signed_by_def challenge_SigningBytes_def f split: option.splits)
  with length_signed_by [OF sb] h c show "challenge_ok c \<and> signed_by k pub (challenge_fields c) raw"
    by (auto simp: challenge_of_parts_def challenge_ok_def challenge_fields_def EnrollChallengeMax_def enrollU64_def Suc_le_eq)
next
  assume a: "challenge_ok c \<and> signed_by k pub (challenge_fields c) raw"
  have len: "length raw \<le> EnrollChallengeMax"
    using a length_signed_by [OF a [THEN conjunct2]]
    by (auto simp: challenge_of_parts_def challenge_ok_def challenge_fields_def EnrollChallengeMax_def enrollU64_def)
  from a [THEN conjunct2] obtain f s where "raw = f @ s" "length s = 64" "f \<noteq> []"
    "enrollEncode (challenge_fields c) = Some f" "Verify k pub (enrollSignatureInput EnrollDomain f) s"
    unfolding challenge_fields_def by (rule signed_byE)
  with a len show "ParseEnrollChallenge k raw pub = Inr c"
    unfolding ParseEnrollChallenge_def ensure_Inr_iff
    by (cases c, intro conjI signed_fieldsI [where parts = "challenge_fields c"])
      (simp_all add: challenge_of_parts_def challenge_ok_def challenge_fields_def challenge_SigningBytes_def enrollU64_def
        check_signature_iff ensure_Inr_iff Suc_le_eq)
qed

lemma request_fields_of_parts:
  "length p = 6 \<Longrightarrow> length (p ! 3) = 4 \<Longrightarrow> request_fields (request_of_parts p) = p"
  by (rule trans [OF _ list6 [symmetric]]) (simp_all add: request_of_parts_def request_fields_def enrollU32_def)

lemma ParseEnrollRequest_iff:
  "ParseEnrollRequest k raw h = Inr r \<longleftrightarrow> request_ok r \<and> q_ChallengeHash r = h \<and> signed_by k (q_AgentPublicKey r) (request_fields r) raw"
proof
  assume "ParseEnrollRequest k raw h = Inr r"
  then obtain f s p where g: "length raw \<le> EnrollRequestMax" "raw = f @ s" "length p = 6"
    "enrollEncode p = Some f"
    "\<not> (length (p ! 0) \<noteq> 32 \<or> length (p ! 1) \<noteq> 32 \<or> length (p ! 2) \<noteq> 32 \<or> length (p ! 3) \<noteq> 4 \<or>
        length (p ! 5) \<noteq> 32)"
    "\<not> (length (p ! 4) = 0 \<or> length (p ! 4) > 256)"
    and v: "q_AgentCredentialVersion (request_of_parts p) \<noteq> 0" and ch: "q_ChallengeHash (request_of_parts p) = h"
    and r: "r = request_of_parts p"
    and sg: "case request_SigningBytes (request_of_parts p) of None \<Rightarrow> False
             | Some bs \<Rightarrow> Verify k (q_AgentPublicKey (request_of_parts p)) bs s"
    unfolding ParseEnrollRequest_def signed_fields ensure_Inr_iff Let_def check_signature_iff
    by - (elim exE conjE, rule that; assumption)
  have f: "request_fields (request_of_parts p) = p"
    using request_fields_of_parts g(3,5) by simp
  from sg g have sb: "signed_by k (q_AgentPublicKey r) (request_fields r) raw"
    unfolding r f by (auto simp: signed_by_def request_SigningBytes_def f split: option.splits)
  with length_signed_by [OF sb] g v ch r show "request_ok r \<and> q_ChallengeHash r = h \<and> signed_by k (q_AgentPublicKey r) (request_fields r) raw"
    by (auto simp: request_of_parts_def request_ok_def request_fields_def EnrollRequestMax_def enrollU32_def Suc_le_eq)
next
  assume a: "request_ok r \<and> q_ChallengeHash r = h \<and> signed_by k (q_AgentPublicKey r) (request_fields r) raw"
  have len: "length raw \<le> EnrollRequestMax"
    using a length_signed_by [OF a [THEN conjunct2, THEN conjunct2]]
    by (auto simp: request_of_parts_def request_ok_def request_fields_def EnrollRequestMax_def enrollU32_def)
  from a [THEN conjunct2, THEN conjunct2] obtain f s where "raw = f @ s" "length s = 64" "f \<noteq> []"
    "enrollEncode (request_fields r) = Some f" "Verify k (q_AgentPublicKey r) (enrollSignatureInput EnrollDomain f) s"
    unfolding request_fields_def by (rule signed_byE)
  with a len show "ParseEnrollRequest k raw h = Inr r"
    unfolding ParseEnrollRequest_def ensure_Inr_iff
    by (cases r, intro conjI signed_fieldsI [where parts = "request_fields r"])
      (simp_all add: request_of_parts_def request_ok_def request_fields_def request_SigningBytes_def enrollU32_def
        check_signature_iff ensure_Inr_iff Suc_le_eq)
qed

lemma result_fields_of_parts:
  "length p = 7 \<Longrightarrow> length (p ! 4) = 4 \<Longrightarrow> length (p ! 6) = 8 \<Longrightarrow> result_fields (result_of_parts p) = p"
  by (rule trans [OF _ list7 [symmetric]]) (simp_all add: result_of_parts_def result_fields_def enrollU32_def enrollU64_def)

lemma ParseEnrollResult_iff:
  "ParseEnrollResult k raw pub = Inr r \<longleftrightarrow> result_ok r \<and> signed_by k pub (result_fields r) raw"
proof
  assume "ParseEnrollResult k raw pub = Inr r"
  then obtain f s p where h: "length raw \<le> EnrollResultMax" "raw = f @ s" "length p = 7"
    "enrollEncode p = Some f"
    "\<not> (length (p ! 0) \<noteq> 16 \<or> length (p ! 2) \<noteq> 16 \<or> length (p ! 3) \<noteq> 32 \<or> length (p ! 4) \<noteq> 4 \<or>
        length (p ! 5) \<noteq> 16 \<or> length (p ! 6) \<noteq> 8)"
    "length (p ! 1) \<noteq> 0"
    and v: "s_AgentCredentialVersion (result_of_parts p) \<noteq> 0"
    and r: "r = result_of_parts p"
    and sg: "case result_SigningBytes (result_of_parts p) of None \<Rightarrow> False | Some bs \<Rightarrow> Verify k pub bs s"
    unfolding ParseEnrollResult_def signed_fields ensure_Inr_iff Let_def check_signature_iff
    by - (elim exE conjE, rule that; assumption)
  have f: "result_fields (result_of_parts p) = p"
    using result_fields_of_parts h(3,5) by simp
  from sg h have sb: "signed_by k pub (result_fields r) raw"
    unfolding r f by (auto simp: signed_by_def result_SigningBytes_def f split: option.splits)
  with length_signed_by [OF sb] h v r show "result_ok r \<and> signed_by k pub (result_fields r) raw"
    by (auto simp: result_of_parts_def result_ok_def result_fields_def EnrollResultMax_def enrollU32_def enrollU64_def Suc_le_eq)
next
  assume a: "result_ok r \<and> signed_by k pub (result_fields r) raw"
  have len: "length raw \<le> EnrollResultMax"
    using a length_signed_by [OF a [THEN conjunct2]]
    by (auto simp: result_of_parts_def result_ok_def result_fields_def EnrollResultMax_def enrollU32_def enrollU64_def)
  from a [THEN conjunct2] obtain f s where "raw = f @ s" "length s = 64" "f \<noteq> []"
    "enrollEncode (result_fields r) = Some f" "Verify k pub (enrollSignatureInput EnrollDomain f) s"
    unfolding result_fields_def by (rule signed_byE)
  with a len show "ParseEnrollResult k raw pub = Inr r"
    unfolding ParseEnrollResult_def ensure_Inr_iff
    by (cases r, intro conjI signed_fieldsI [where parts = "result_fields r"])
      (simp_all add: result_of_parts_def result_ok_def result_fields_def result_SigningBytes_def enrollU32_def enrollU64_def
        check_signature_iff ensure_Inr_iff Suc_le_eq)
qed

section \<open>The parsers do not panic\<close>

lemma take_fields_Inl: "take_fields e e n b = Inl x \<Longrightarrow> x = e"
  by (induction n arbitrary: b)
    (auto simp: take_field_def Let_def ensure_def ebind_def split: sum.splits if_splits prod.splits)

lemma parse_Inl_EnrollPanic:
  assumes "ebind (enrollSplit raw) (\<lambda>(f, s). ebind (enrollReadFields n f) (\<lambda>parts. g parts f s)) = Inl EnrollPanic"
  shows "\<exists>f s parts. length parts = n \<and> enrollEncode parts = Some f \<and> g parts f s = Inl EnrollPanic"
proof -
  have "enrollReadFields n f \<noteq> Inl EnrollPanic" for f
    using take_fields_Inl [of ErrEnrollMalformed n f]
    by (auto simp: enrollReadFields_def ebind_def split: sum.splits)
  moreover have "enrollSplit raw \<noteq> Inl EnrollPanic"
    by (simp add: enrollSplit_def Let_def)
  ultimately show ?thesis
    using assms by (auto simp: ebind_def enc.dec_iff split: sum.splits prod.splits)
qed

lemma no_panic:
  "ParseEnrollChallenge k raw pub \<noteq> Inl EnrollPanic"
  "ParseEnrollRequest k raw h \<noteq> Inl EnrollPanic"
  "ParseEnrollResult k raw pub \<noteq> Inl EnrollPanic"
  by (auto simp: ParseEnrollChallenge_def ParseEnrollRequest_def ParseEnrollResult_def Let_def
      ensure_Inl_iff check_signature_def challenge_SigningBytes_def request_SigningBytes_def
      result_SigningBytes_def challenge_fields_of_parts request_fields_of_parts result_fields_of_parts
      dest!: parse_Inl_EnrollPanic split: option.splits if_splits)

section \<open>No two messages share their signed bytes\<close>

datatype enroll_message = MChallenge EnrollChallenge | MRequest EnrollRequest | MResult EnrollResult

fun message_fields :: "enroll_message \<Rightarrow> bytes list" where
  "message_fields (MChallenge c) = challenge_fields c"
| "message_fields (MRequest r) = request_fields r"
| "message_fields (MResult r) = result_fields r"

fun message_ok :: "enroll_message \<Rightarrow> bool" where
  "message_ok (MChallenge c) = challenge_ok c"
| "message_ok (MRequest r) = request_ok r"
| "message_ok (MResult r) = result_ok r"

definition signing_bytes :: "enroll_message \<Rightarrow> bytes option" where
  "signing_bytes m = map_option (enrollSignatureInput EnrollDomain) (enrollEncode (message_fields m))"

lemma put_fields_Cons:
  "put_fields (f # fs) = Some b \<longleftrightarrow>
     (\<exists>p q. put_field f = Some p \<and> put_fields fs = Some q \<and> b = p @ q)"
  by (auto split: option.splits)

lemma put_field_nonempty: "put_field f \<noteq> Some []"
  by (auto simp: put_field_Some_iff dest!: arg_cong [where f = length])

lemma put_fields_inj: "put_fields fs = Some b \<Longrightarrow> put_fields gs = Some b \<Longrightarrow> fs = gs"
proof (induction fs arbitrary: gs b)
  case Nil
  then show ?case by (cases gs) (auto simp: put_fields_Cons put_field_nonempty simp del: put_fields.simps(2))
next
  case (Cons f fs)
  from Cons.prems(1) obtain p q where f: "put_field f = Some p" "put_fields fs = Some q" "b = p @ q"
    unfolding put_fields_Cons by blast
  with Cons.prems(2) obtain g gs' p' q' where g: "gs = g # gs'" "put_field g = Some p'"
    "put_fields gs' = Some q'" "b = p' @ q'"
    by (cases gs) (auto simp: put_fields_Cons put_field_nonempty simp del: put_fields.simps(2))
  from take_field_put_field [OF f(1), of "()" "()" q] take_field_put_field [OF g(2), of "()" "()" q']
  have "f = g" "q = q'" using f g by auto
  with Cons.IH [OF f(2)] g show ?case by simp
qed

lemma message_fields_inj:
  "message_ok m \<Longrightarrow> message_ok m' \<Longrightarrow> message_fields m = message_fields m' \<Longrightarrow> m = m'"
  by (cases m; cases m')
    (auto simp: challenge_fields_def request_fields_def result_fields_def challenge_ok_def request_ok_def
      result_ok_def enrollU32_def enrollU64_def)

lemma signing_bytes_inj:
  assumes "message_ok m" "message_ok m'" "signing_bytes m = Some b" "signing_bytes m' = Some b"
  shows "m = m'"
  using assms put_fields_inj message_fields_inj
  by (fastforce simp: signing_bytes_def enrollEncode_def enrollSignatureInput_def DomainSeparatedMessage_def)

lemma message_encodes: "message_ok m \<Longrightarrow> \<exists>f. enrollEncode (message_fields m) = Some f"
  unfolding enrollEncode_def
  by (rule put_fields_defined, cases m)
    (auto simp: challenge_fields_def request_fields_def result_fields_def challenge_ok_def request_ok_def
      result_ok_def enrollU32_def enrollU64_def)

lemma signed_message:
  assumes "crypto_ok k" "length seed = 32" "message_ok m"
  shows "\<exists>f sig. enrollEncode (message_fields m) = Some f \<and>
    Sign k (new_key_from_seed k seed) (enrollSignatureInput EnrollDomain f) = Inr sig \<and>
    signed_by k (ed_public k seed) (message_fields m) (f @ sig)"
proof -
  from message_encodes [OF assms(3)] obtain f where f: "enrollEncode (message_fields m) = Some f" ..
  obtain sig where s: "Sign k (new_key_from_seed k seed) (enrollSignatureInput EnrollDomain f) = Inr sig"
    using length_new_key [OF assms(1,2)] by (simp add: Sign_def)
  from Sign_Verify [OF assms(1,2) s] f s show ?thesis
    by (auto simp: signed_by_def)
qed

section \<open>Properties\<close>

text \<open>
  C21. Enrollment messages survive the wire: every well-formed challenge, request and result can be
  encoded and signed, and its parser returns it unchanged under the matching public key (for a
  request: the key it carries, and the challenge hash it answers). In particular the three size
  limits reject no well-formed message.
\<close>

theorem enroll_roundtrip:
  assumes "crypto_ok k" "length seed = 32" "message_ok m"
  shows "\<exists>f sig. enrollEncode (message_fields m) = Some f \<and>
    Sign k (new_key_from_seed k seed) (enrollSignatureInput EnrollDomain f) = Inr sig \<and>
    (case m of
       MChallenge c \<Rightarrow> ParseEnrollChallenge k (f @ sig) (ed_public k seed) = Inr c
     | MRequest r \<Rightarrow> q_AgentPublicKey r = ed_public k seed \<longrightarrow>
         ParseEnrollRequest k (f @ sig) (q_ChallengeHash r) = Inr r
     | MResult r \<Rightarrow> ParseEnrollResult k (f @ sig) (ed_public k seed) = Inr r)"
  using signed_message [OF assms] assms(3)
  by (cases m) (auto simp: ParseEnrollChallenge_iff ParseEnrollRequest_iff ParseEnrollResult_iff)

text \<open>
  C22. Enrollment messages are authentic and cannot be confused: if, of the signed messages seen on
  the wire, the controller's key verifies only those the controller signed, then an accepted challenge
  was signed by the controller as that challenge and an accepted result as that result, never as
  another kind of message, although all of them are signed under one domain.
\<close>

theorem enroll_authentic:
  assumes "\<forall>m \<in> sent. message_ok m"
    and "unforgeable k pub {b. \<exists>m \<in> sent. signing_bytes m = Some b} seen"
    and "\<forall>b s. b @ s = raw \<and> length s = 64 \<longrightarrow> (enrollSignatureInput EnrollDomain b, s) \<in> seen"
  shows "(ParseEnrollChallenge k raw pub = Inr c \<longrightarrow> MChallenge c \<in> sent) \<and>
    (ParseEnrollResult k raw pub = Inr r \<longrightarrow> MResult r \<in> sent)"
proof -
  have main: "m \<in> sent" if m: "message_ok m" "signed_by k pub (message_fields m) raw" for m
  proof -
    from m obtain f s where f: "enrollEncode (message_fields m) = Some f" "raw = f @ s"
      "Verify k pub (enrollSignatureInput EnrollDomain f) s"
      by (auto simp: signed_by_def)
    with assms(3) Verify_size [OF f(3)] have "(enrollSignatureInput EnrollDomain f, s) \<in> seen"
      by simp
    from Verify_unforgeable [OF assms(2) this f(3)] obtain m' where
      "m' \<in> sent" "signing_bytes m' = Some (enrollSignatureInput EnrollDomain f)"
      by blast
    moreover have "signing_bytes m = Some (enrollSignatureInput EnrollDomain f)"
      using f by (simp add: signing_bytes_def)
    ultimately show ?thesis using assms(1) m(1) signing_bytes_inj by metis
  qed
  from main [of "MChallenge c"] main [of "MResult r"] show ?thesis
    by (simp add: ParseEnrollChallenge_iff ParseEnrollResult_iff)
qed

text \<open>
  The enrollment parsers never panic when they re-encode what they read, and whatever they accept
  is well-formed: key ids have 1 to 255 bytes, tokens 1 to 256, the credential version is not zero and
  a request answers exactly the challenge that was issued.
\<close>

theorem enroll_parsers_safe:
  "ParseEnrollChallenge k raw pub \<noteq> Inl EnrollPanic \<and> ParseEnrollRequest k raw h \<noteq> Inl EnrollPanic \<and>
   ParseEnrollResult k raw pub \<noteq> Inl EnrollPanic \<and>
   (case ParseEnrollChallenge k raw pub of Inr c \<Rightarrow> challenge_ok c | Inl _ \<Rightarrow> True) \<and>
   (case ParseEnrollRequest k raw h of Inr r \<Rightarrow> request_ok r \<and> q_ChallengeHash r = h | Inl _ \<Rightarrow> True) \<and>
   (case ParseEnrollResult k raw pub of Inr r \<Rightarrow> result_ok r | Inl _ \<Rightarrow> True)"
  using no_panic
  by (auto simp: ParseEnrollChallenge_iff ParseEnrollRequest_iff ParseEnrollResult_iff split: sum.splits)

section \<open>Witnesses\<close>

definition demo_result :: EnrollResult where
  "demo_result = \<lparr> s_ControllerInstanceID = replicate 16 1, s_ControllerKeyID = ''k1'',
     s_NodeID = replicate 16 2, s_AgentPublicKeyHash = replicate 32 3, s_AgentCredentialVersion = 1,
     s_EnrollmentResultID = replicate 16 4, s_ExpiryUnix = 1700000000 \<rparr>"

lemma demo_result_ok: "message_ok (MResult demo_result)"
  by (simp add: demo_result_def result_ok_def)

theorem enroll_roundtrip_witness:
  "\<exists>f sig. ParseEnrollResult demo_crypto (f @ sig) (ed_public demo_crypto demo_seed) = Inr demo_result"
  using enroll_roundtrip [OF demo_crypto_ok demo_result_ok] by auto

theorem enroll_authentic_witness:
  "\<exists>raw. ParseEnrollResult demo_crypto raw (ed_public demo_crypto demo_seed) = Inr demo_result \<and>
     MResult demo_result \<in> {MResult demo_result}"
proof -
  from signed_message [OF demo_crypto_ok demo_result_ok] obtain f sig where
    f: "enrollEncode (message_fields (MResult demo_result)) = Some f" and
    sb: "signed_by demo_crypto (ed_public demo_crypto demo_seed) (message_fields (MResult demo_result)) (f @ sig)"
    by blast
  let ?seen = "{(enrollSignatureInput EnrollDomain f, sig)}"
  have len: "length sig = 64"
    using length_signed_by [OF sb] length_enrollEncode [OF f] by simp
  have "unforgeable demo_crypto (ed_public demo_crypto demo_seed)
      {b. \<exists>m \<in> {MResult demo_result}. signing_bytes m = Some b} ?seen"
    using f by (simp add: unforgeable_def signing_bytes_def)
  moreover have "\<forall>b s. b @ s = f @ sig \<and> length s = 64 \<longrightarrow> (enrollSignatureInput EnrollDomain b, s) \<in> ?seen"
    using len by auto
  moreover have "ParseEnrollResult demo_crypto (f @ sig) (ed_public demo_crypto demo_seed) = Inr demo_result"
    using sb demo_result_ok by (simp add: ParseEnrollResult_iff)
  ultimately show ?thesis
    using enroll_authentic [of "{MResult demo_result}" demo_crypto "ed_public demo_crypto demo_seed" ?seen
        "f @ sig" undefined demo_result] demo_result_ok by auto
qed

end
