(* ===== verification/Domain.thy ===== *)
theory Domain
  imports Endpoint
begin

text \<open>
  \<^verbatim>\<open>src/internal/protocol/domain.go\<close>: the validators of the desired state, of the activation axes
  and their publication rules, of the agent's applied record, and the transition tables of the five
  durable control machines.

  The enumerations are Go string types that hold whatever arrived on the wire, so they stay strings
  and \<open>Valid\<close> decides membership. A Go map literal is an association list with distinct keys. A
  validator returns the error as \<open>Inl\<close>, and \<open>Inr ()\<close> for a nil error.
\<close>

datatype domain_error =
    EmptyForwardID | UnknownProtocol string | BadTarget endpoint_error | UnknownStrategy string
  | UnknownPublishScheme string | UnknownPresence string | AbsentNeedsDeletionID
  | PresentWithDeletionID | EmptyNodeID | BadForward string domain_error | DuplicateForwardID string
  | EmptyActivationID
  | AxisCount nat | AxisMissing string | AxisIllegalValue string string
  | VerifiedNeedsOpen | VerifiedNeedsReturnPath | UnverifiedClaimsOpen
  | PublishedWithoutEndpoint | CandidateNotEndpoint | CandidateNotIPv4 | CandidateNotGlobal
  | FirstHopNeverVerified | VerifiedOnFirstHop
  | DesiredBeforeSpec | BindNotConcrete | AppliedAtUnset
  | UnknownFSM string | UnknownFSMState string string | IllegalTransition string string string
  | UnknownOutcome string | UnknownCapability string

section \<open>Forward specifications\<close>

definition Protocol_Valid :: "string \<Rightarrow> bool" where
  "Protocol_Valid p \<longleftrightarrow> p = ''tcp'' \<or> p = ''udp''"

definition ValidStrategies :: "string list" where
  "ValidStrategies = [''direct-v4'', ''manual-static-v4'', ''explicit-gateway'', ''stun-only'', ''auto'']"

definition Strategy_Valid :: "string \<Rightarrow> bool" where
  "Strategy_Valid s = list_ex (\<lambda>v. s = v) ValidStrategies"

definition ParseStrategy :: "string \<Rightarrow> domain_error + string" where
  "ParseStrategy s = (if \<not> Strategy_Valid s then Inl (UnknownStrategy s) else Inr s)"

abbreviation PresencePresent :: string where "PresencePresent \<equiv> ''PRESENT''"
abbreviation PresenceAbsent :: string where "PresenceAbsent \<equiv> ''ABSENT''"

definition Presence_Valid :: "string \<Rightarrow> bool" where
  "Presence_Valid p \<longleftrightarrow> p = PresencePresent \<or> p = PresenceAbsent"

record ForwardSpec =
  f_ForwardID :: string
  f_Name :: string
  f_Protocol :: string
  f_Target :: string
  f_Strategy :: string
  f_SourceInterface :: string
  f_RequestedLocalPort :: u16
  f_RequestedPublicPort :: u16
  f_ManualExpectedEndpoint :: string
  f_RateLimitBPS :: u64
  f_DetailedStats :: bool
  f_PublishScheme :: string
  f_PublishedHost :: string
  f_CustomURITemplate :: string
  f_DesiredRevision :: u64
  f_Presence :: string
  f_DeletionOperationID :: string

definition ForwardSpec_Validate :: "ForwardSpec \<Rightarrow> domain_error + unit" where
  "ForwardSpec_Validate s =
     (if f_ForwardID s = [] then Inl EmptyForwardID
      else if \<not> Protocol_Valid (f_Protocol s) then Inl (UnknownProtocol (f_Protocol s))
      else case validateIPv4Target (f_Target s) of Inl e \<Rightarrow> Inl (BadTarget e) | Inr _ \<Rightarrow>
      if \<not> Strategy_Valid (f_Strategy s) then Inl (UnknownStrategy (f_Strategy s))
      else if f_PublishScheme s \<noteq> [] \<and> f_PublishScheme s \<noteq> ''http'' \<and> f_PublishScheme s \<noteq> ''https''
        then Inl (UnknownPublishScheme (f_PublishScheme s))
      else if \<not> Presence_Valid (f_Presence s) then Inl (UnknownPresence (f_Presence s))
      else if f_Presence s = PresenceAbsent then
        (if f_DeletionOperationID s = [] then Inl AbsentNeedsDeletionID else Inr ())
      else if f_Presence s = PresencePresent then
        (if f_DeletionOperationID s \<noteq> [] then Inl PresentWithDeletionID else Inr ())
      else Inr ())"

record DesiredState =
  d_NodeID :: string
  d_Forwards :: "ForwardSpec list"

fun validate_forwards :: "string list \<Rightarrow> ForwardSpec list \<Rightarrow> domain_error + unit" where
  "validate_forwards seen [] = Inr ()"
| "validate_forwards seen (f # fs) =
     (case ForwardSpec_Validate f of
        Inl e \<Rightarrow> Inl (BadForward (f_ForwardID f) e)
      | Inr _ \<Rightarrow>
          if f_ForwardID f \<in> set seen then Inl (DuplicateForwardID (f_ForwardID f))
          else validate_forwards (f_ForwardID f # seen) fs)"

definition DesiredState_Validate :: "DesiredState \<Rightarrow> domain_error + unit" where
  "DesiredState_Validate d =
     (if d_NodeID d = [] then Inl EmptyNodeID else validate_forwards [] (d_Forwards d))"

record ForwardActivation =
  a_ActivationID :: string
  a_Generation :: u64
  a_SpecRevision :: u64
  a_ForwardID :: string

definition ForwardActivation_Validate :: "ForwardActivation \<Rightarrow> domain_error + unit" where
  "ForwardActivation_Validate a =
     (if a_ActivationID a = [] then Inl EmptyActivationID
      else if a_ForwardID a = [] then Inl EmptyForwardID else Inr ())"

section \<open>The activation axes\<close>

definition activationAxes :: "(string \<times> string list) list" where
  "activationAxes =
     [(''control_state'', [''ONLINE'', ''OFFLINE'']),
      (''listener_state'', [''STOPPED'', ''STARTING'', ''READY'', ''ERROR'']),
      (''mapping_state'', [''NOT_REQUIRED'', ''ACQUIRING'', ''FIRST_HOP_MAPPED'', ''PUBLIC_CANDIDATE'',
         ''LOST'', ''ERROR'']),
      (''keepalive_state'', [''NOT_REQUIRED'', ''HEALTHY'', ''DEGRADED'', ''LOST'']),
      (''wan_reachability_state'', [''NOT_TESTED'', ''PROBING'', ''OPEN_FROM_VANTAGE'', ''REJECTED'',
         ''TIMEOUT'', ''NO_INDEPENDENT_VANTAGE'', ''PROBE_INFRA_UNAVAILABLE'', ''UNKNOWN'']),
      (''return_path_state'', [''NOT_TESTED'', ''VERIFIED'', ''FAILED'', ''UNKNOWN'']),
      (''target_health_state'', [''PASS'', ''FAIL'', ''SKIPPED'', ''UNSUPPORTED'', ''UNKNOWN'']),
      (''publication_state'', [''NONE'', ''PUBLISHED_VERIFIED'', ''PUBLISHED_UNVERIFIED'', ''STALE'',
         ''UNPUBLISHED'']),
      (''data_plane_state'', [''STOPPED'', ''READY'', ''DEGRADED'', ''ERROR''])]"

definition ValidAxisValue :: "string \<Rightarrow> string \<Rightarrow> bool" where
  "ValidAxisValue axisName value =
     (case find (\<lambda>a. fst a = axisName) activationAxes of
        Some a \<Rightarrow> value \<in> set (snd a) | None \<Rightarrow> False)"

fun check_axes :: "(string \<times> string list) list \<Rightarrow> (string \<times> string) list \<Rightarrow> domain_error + unit" where
  "check_axes [] s = Inr ()"
| "check_axes (a # as) s =
     (case map_of s (fst a) of
        None \<Rightarrow> Inl (AxisMissing (fst a))
      | Some v \<Rightarrow> if v \<notin> set (snd a) then Inl (AxisIllegalValue (fst a) v) else check_axes as s)"

definition ValidActivationSnapshot :: "(string \<times> string) list \<Rightarrow> domain_error + unit" where
  "ValidActivationSnapshot s =
     (if length s \<noteq> length activationAxes then Inl (AxisCount (length s))
      else check_axes activationAxes s)"

record ActivationStates =
  ControlState :: string
  ListenerState :: string
  MappingState :: string
  KeepaliveState :: string
  WanReachabilityState :: string
  ReturnPathState :: string
  TargetHealthState :: string
  PublicationState :: string
  DataPlaneState :: string

definition snapshot_of :: "ActivationStates \<Rightarrow> (string \<times> string) list" where
  "snapshot_of s =
     [(''control_state'', ControlState s), (''listener_state'', ListenerState s),
      (''mapping_state'', MappingState s), (''keepalive_state'', KeepaliveState s),
      (''wan_reachability_state'', WanReachabilityState s), (''return_path_state'', ReturnPathState s),
      (''target_health_state'', TargetHealthState s), (''publication_state'', PublicationState s),
      (''data_plane_state'', DataPlaneState s)]"

definition ValidatePublication :: "string \<Rightarrow> string \<Rightarrow> string \<Rightarrow> domain_error + unit" where
  "ValidatePublication pubState wanReach returnPath =
     (if pubState = ''PUBLISHED_VERIFIED'' then
        (if wanReach \<noteq> ''OPEN_FROM_VANTAGE'' then Inl VerifiedNeedsOpen
         else if returnPath \<noteq> ''VERIFIED'' then Inl VerifiedNeedsReturnPath else Inr ())
      else if pubState = ''PUBLISHED_UNVERIFIED'' then
        (if wanReach = ''OPEN_FROM_VANTAGE'' then Inl UnverifiedClaimsOpen else Inr ())
      else Inr ())"

definition ValidatePublicationCandidate :: "string \<Rightarrow> string \<Rightarrow> domain_error + unit" where
  "ValidatePublicationCandidate pubState candidate =
     (if pubState \<noteq> ''PUBLISHED_VERIFIED'' \<and> pubState \<noteq> ''PUBLISHED_UNVERIFIED'' then Inr ()
      else if candidate = [] then Inl PublishedWithoutEndpoint
      else case SplitHostPort candidate of
        None \<Rightarrow> Inl CandidateNotEndpoint
      | Some (host, _) \<Rightarrow>
          (case ParseAddr4 host of
             None \<Rightarrow> Inl CandidateNotIPv4
           | Some ip \<Rightarrow> if \<not> IsGlobalEndpoint ip then Inl CandidateNotGlobal else Inr ()))"

definition ValidateAxisRelations :: "string \<Rightarrow> string \<Rightarrow> string \<Rightarrow> string \<Rightarrow> domain_error + unit" where
  "ValidateAxisRelations mappingState wanReach returnPath pubState =
     (if mappingState = ''FIRST_HOP_MAPPED'' \<and> returnPath = ''VERIFIED'' then Inl FirstHopNeverVerified
      else ebind (ValidatePublication pubState wanReach returnPath) (\<lambda>_.
        if pubState = ''PUBLISHED_VERIFIED'' \<and> mappingState = ''FIRST_HOP_MAPPED''
        then Inl VerifiedOnFirstHop else Inr ()))"

definition ActivationStates_Validate :: "ActivationStates \<Rightarrow> domain_error + unit" where
  "ActivationStates_Validate s =
     ebind (ValidActivationSnapshot (snapshot_of s)) (\<lambda>_.
       ValidateAxisRelations (MappingState s) (WanReachabilityState s) (ReturnPathState s)
         (PublicationState s))"

section \<open>The applied record\<close>

record AppliedForwardState =
  af_ForwardID :: string
  af_SpecRevision :: u64
  af_DesiredRevision :: u64
  af_ActualBindHost :: string
  af_ActualBindPort :: u16
  af_AssignedGatewayPort :: u16
  af_PublicPort :: u16
  af_Strategy :: string
  af_LayerVersion :: u64
  af_ActivationRecovery :: string
  af_MappingJournalRef :: string
  af_HookDefinitionVersion :: u64
  af_HookSecretVersion :: u64
  af_AppliedAtUnix :: int

definition validStrategies :: "string list" where
  "validStrategies = [''direct-v4'', ''manual-static-v4'', ''explicit-gateway'', ''stun-only'', ''auto'']"

definition AppliedForwardState_Validate :: "AppliedForwardState \<Rightarrow> domain_error + unit" where
  "AppliedForwardState_Validate a =
     (if af_ForwardID a = [] then Inl EmptyForwardID
      else if af_DesiredRevision a < af_SpecRevision a then Inl DesiredBeforeSpec
      else if af_ActualBindHost a = [] \<or> af_ActualBindPort a = 0 then Inl BindNotConcrete
      else if af_Strategy a \<notin> set validStrategies then Inl (UnknownStrategy (af_Strategy a))
      else if af_AppliedAtUnix a \<le> 0 then Inl AppliedAtUnset else Inr ())"

section \<open>The durable control machines\<close>

definition frozenFSMs :: "(string \<times> (string \<times> string) list) list" where
  "frozenFSMs =
     [(''outbox'',
        [(''PENDING'', ''CLAIMED''), (''CLAIMED'', ''SENT''), (''SENT'', ''SEMANTIC_ACKED''),
         (''SEMANTIC_ACKED'', ''RECEIPTED''), (''RECEIPTED'', ''GC'')]),
      (''inbox'',
        [(''RECEIVED'', ''INTENT_PERSISTED''), (''INTENT_PERSISTED'', ''APPLYING''),
         (''APPLYING'', ''APPLIED''), (''APPLYING'', ''NACKED'')]),
      (''key_rotation'',
        [(''PREPARED'', ''ANNOUNCED''), (''ANNOUNCED'', ''ACKED''), (''ACKED'', ''ACTIVE''),
         (''ACTIVE'', ''RETIRED'')]),
      (''decommission'',
        [(''ACTIVE'', ''DECOMMISSIONING''), (''DECOMMISSIONING'', ''DECOMMISSIONED''),
         (''DECOMMISSIONED'', ''CLEANUP_ONLY'')]),
      (''restore'',
        [(''RESTORED'', ''RECOVERY_QUARANTINE''), (''RECOVERY_QUARANTINE'', ''RECONCILING''),
         (''RECONCILING'', ''AUTHORIZED'')])]"

definition frozenFSMStates :: "(string \<times> string list) list" where
  "frozenFSMStates =
     [(''outbox'', [''PENDING'', ''CLAIMED'', ''SENT'', ''SEMANTIC_ACKED'', ''RECEIPTED'', ''GC'']),
      (''inbox'', [''RECEIVED'', ''INTENT_PERSISTED'', ''APPLYING'', ''APPLIED'', ''NACKED'']),
      (''key_rotation'', [''PREPARED'', ''ANNOUNCED'', ''ACKED'', ''ACTIVE'', ''RETIRED'']),
      (''decommission'', [''ACTIVE'', ''DECOMMISSIONING'', ''DECOMMISSIONED'', ''CLEANUP_ONLY'']),
      (''restore'', [''RESTORED'', ''RECOVERY_QUARANTINE'', ''RECONCILING'', ''AUTHORIZED''])]"

definition ValidFSMState :: "string \<Rightarrow> string \<Rightarrow> bool" where
  "ValidFSMState fsm state =
     (case map_of frozenFSMStates fsm of None \<Rightarrow> False | Some states \<Rightarrow> state \<in> set states)"

definition ValidateFSMTransition :: "string \<Rightarrow> string \<Rightarrow> string \<Rightarrow> domain_error + unit" where
  "ValidateFSMTransition fsm from to =
     (case map_of frozenFSMs fsm of
        None \<Rightarrow> Inl (UnknownFSM fsm)
      | Some table \<Rightarrow>
          if \<not> ValidFSMState fsm from then Inl (UnknownFSMState fsm from)
          else if \<not> ValidFSMState fsm to then Inl (UnknownFSMState fsm to)
          else if (from, to) \<notin> set table then Inl (IllegalTransition fsm from to)
          else Inr ())"

section \<open>Outcomes\<close>

definition OperationKind_Valid :: "string \<Rightarrow> bool" where
  "OperationKind_Valid k \<longleftrightarrow> k \<in> set [''forward_deletion'', ''node_deletion'', ''node_decommission'',
     ''force_cutover'', ''retry'', ''detection'']"

definition probeOutcomes :: "string list" where
  "probeOutcomes = [''ARMED'', ''ACCEPTED'', ''REJECTED'', ''DROPPED'', ''OPEN_FROM_VANTAGE'',
     ''TIMEOUT'', ''NO_INDEPENDENT_VANTAGE'', ''PROBE_INFRA_UNAVAILABLE'', ''UNKNOWN'']"

definition ParseProbeOutcome :: "string \<Rightarrow> domain_error + string" where
  "ParseProbeOutcome s = (if s \<notin> set probeOutcomes then Inl (UnknownOutcome s) else Inr s)"

definition MayDriveVerifiedPublication :: "string \<Rightarrow> bool" where
  "MayDriveVerifiedPublication o' \<longleftrightarrow> o' = ''OPEN_FROM_VANTAGE''"

definition capabilityResults :: "string list" where
  "capabilityResults = [''PASS'', ''SUPPORTED_WITH_LIMITS'', ''NO_GO'', ''UNKNOWN'']"

definition ParseCapabilityResult :: "string \<Rightarrow> domain_error + string" where
  "ParseCapabilityResult s = (if s \<notin> set capabilityResults then Inl (UnknownCapability s) else Inr s)"

section \<open>Validator lemmas\<close>

lemma transition_iff:
  "ValidateFSMTransition fsm a b = Inr () \<longleftrightarrow>
     ValidFSMState fsm a \<and> ValidFSMState fsm b \<and> (\<exists>t. map_of frozenFSMs fsm = Some t \<and> (a, b) \<in> set t)"
  by (auto simp: ValidateFSMTransition_def split: option.splits if_splits)

lemma validate_forwards_iff:
  "validate_forwards seen fs = Inr () \<longleftrightarrow>
     (\<forall>f \<in> set fs. ForwardSpec_Validate f = Inr ()) \<and> distinct (map f_ForwardID fs) \<and>
     set (map f_ForwardID fs) \<inter> set seen = {}"
  by (induction seen fs rule: validate_forwards.induct) (auto split: sum.splits)

lemma check_axes_iff:
  "check_axes as s = Inr () \<longleftrightarrow> (\<forall>(n, vs) \<in> set as. \<exists>v \<in> set vs. map_of s n = Some v)"
  by (induction as) (auto split: option.splits)

lemma find_fst_map_of:
  "(case find (\<lambda>a. fst a = n) as of Some a \<Rightarrow> v \<in> set (snd a) | None \<Rightarrow> False) =
   (case map_of as n of Some vs \<Rightarrow> v \<in> set vs | None \<Rightarrow> False)"
  by (induction as) auto

lemma check_axes_snapshot:
  assumes "map fst s = map fst as" "distinct (map fst as)"
  shows "check_axes as s = Inr () \<longleftrightarrow>
    (\<forall>(n, v) \<in> set s. case map_of as n of Some vs \<Rightarrow> v \<in> set vs | None \<Rightarrow> False)"
proof -
  have keys: "fst ` set s = fst ` set as"
    using assms(1) by (metis set_map)
  have s: "map_of s n = Some v \<longleftrightarrow> (n, v) \<in> set s" for n v
    using assms by simp
  have as: "map_of as n = Some vs \<longleftrightarrow> (n, vs) \<in> set as" for n vs
    using assms by simp
  have sa: "\<exists>vs. map_of as n = Some vs" if "map_of s n = Some v" for n v
    using that keys by (metis map_of_eq_None_iff option.exhaust option.distinct(1))
  have "\<exists>v. map_of s n = Some v" if "map_of as n = Some vs" for n vs
    using that keys by (metis map_of_eq_None_iff option.exhaust option.distinct(1))
  note as' = this
  show ?thesis
    unfolding check_axes_iff
  proof (intro iffI ballI; clarify)
    fix n v
    assume A: "\<forall>(n, vs) \<in> set as. \<exists>v \<in> set vs. map_of s n = Some v" and "(n, v) \<in> set s"
    then have nv: "map_of s n = Some v" by (simp only: s)
    with sa obtain vs where vs: "map_of as n = Some vs" by blast
    with A as have "\<exists>v \<in> set vs. map_of s n = Some v" by blast
    with nv vs show "case map_of as n of None \<Rightarrow> False | Some vs \<Rightarrow> v \<in> set vs" by simp
  next
    fix n vs
    assume A: "\<forall>(n, v) \<in> set s. case map_of as n of None \<Rightarrow> False | Some vs \<Rightarrow> v \<in> set vs"
      and "(n, vs) \<in> set as"
    then have vs: "map_of as n = Some vs" by (simp only: as)
    with as' obtain v where v: "map_of s n = Some v" by blast
    with A s have "case map_of as n of None \<Rightarrow> False | Some vs \<Rightarrow> v \<in> set vs" by blast
    with v vs show "\<exists>v \<in> set vs. map_of s n = Some v" by simp
  qed
qed

lemma ForwardSpec_Validate_deletion:
  assumes "ForwardSpec_Validate f = Inr ()"
  shows "f_ForwardID f \<noteq> [] \<and> (f_Presence f = ''ABSENT'' \<longleftrightarrow> f_DeletionOperationID f \<noteq> []) \<and>
    validateIPv4Target (f_Target f) = Inr ()"
  using assms by (auto simp: ForwardSpec_Validate_def Presence_Valid_def split: if_splits sum.splits)

lemma ValidateAxisRelations_iff:
  "ValidateAxisRelations m w r p = Inr () \<longleftrightarrow>
     \<not> (m = ''FIRST_HOP_MAPPED'' \<and> r = ''VERIFIED'') \<and>
     (p = ''PUBLISHED_VERIFIED'' \<longrightarrow> w = ''OPEN_FROM_VANTAGE'' \<and> r = ''VERIFIED'') \<and>
     (p = ''PUBLISHED_UNVERIFIED'' \<longrightarrow> w \<noteq> ''OPEN_FROM_VANTAGE'')"
  by (auto simp: ValidateAxisRelations_def ValidatePublication_def ebind_Inr_iff)

section \<open>Properties\<close>

text \<open>
  Publication truth: an activation snapshot passes validation exactly if every axis has one of
  its legal values, a first-hop mapping is never combined with a verified return path, a verified
  publication has an open vantage and a verified return path, and an unverified one does not claim an
  open vantage. The validator's last rule (no verified publication on a first-hop mapping) never
  decides: it follows from the others.
\<close>

theorem ActivationStates_Validate_iff:
  "(ActivationStates_Validate s = Inr () \<longleftrightarrow>
     list_all (\<lambda>(axis, value). ValidAxisValue axis value) (snapshot_of s) \<and>
     \<not> (MappingState s = ''FIRST_HOP_MAPPED'' \<and> ReturnPathState s = ''VERIFIED'') \<and>
     (PublicationState s = ''PUBLISHED_VERIFIED'' \<longrightarrow>
        WanReachabilityState s = ''OPEN_FROM_VANTAGE'' \<and> ReturnPathState s = ''VERIFIED'') \<and>
     (PublicationState s = ''PUBLISHED_UNVERIFIED'' \<longrightarrow> WanReachabilityState s \<noteq> ''OPEN_FROM_VANTAGE'')) \<and>
   ActivationStates_Validate s \<noteq> Inl VerifiedOnFirstHop"
proof -
  have snap: "ValidActivationSnapshot (snapshot_of s) = Inr () \<longleftrightarrow>
      list_all (\<lambda>(axis, value). ValidAxisValue axis value) (snapshot_of s)"
    unfolding ValidAxisValue_def find_fst_map_of list_all_iff
    by (subst check_axes_snapshot [symmetric])
      (simp_all add: ValidActivationSnapshot_def snapshot_of_def activationAxes_def)
  have axes: "check_axes as m \<noteq> Inl VerifiedOnFirstHop" for as m
    by (induction as) (auto split: option.splits)
  have "ValidActivationSnapshot m \<noteq> Inl VerifiedOnFirstHop" for m
    by (simp add: ValidActivationSnapshot_def axes)
  then show ?thesis
    unfolding snap [symmetric] ValidateAxisRelations_iff [symmetric]
    by (auto simp: ActivationStates_Validate_def ebind_def ValidateAxisRelations_def
        ValidatePublication_def split: sum.splits if_splits)
qed

text \<open>
  A desired state passes validation exactly if it names a node, every forward in it is valid and
  no forward id occurs twice; then a forward is absent exactly if it carries a deletion operation, and
  every target is an IPv4 literal with a port in range.
\<close>

theorem DesiredState_Validate_iff:
  "(DesiredState_Validate d = Inr () \<longleftrightarrow>
     d_NodeID d \<noteq> [] \<and> (\<forall>f \<in> set (d_Forwards d). ForwardSpec_Validate f = Inr ()) \<and>
     distinct (map f_ForwardID (d_Forwards d))) \<and>
   (DesiredState_Validate d = Inr () \<longrightarrow> (\<forall>f \<in> set (d_Forwards d).
      (f_Presence f = ''ABSENT'' \<longleftrightarrow> f_DeletionOperationID f \<noteq> []) \<and>
      (\<exists>ip port. split_literal (f_Target f) = Inr (ip, port) \<and> Is4 ip \<and> (\<exists>p. check_port port = Inr p))))"
proof -
  have "\<exists>ip port. split_literal t = Inr (ip, port) \<and> Is4 ip \<and> (\<exists>p. check_port port = Inr p)"
    if "validateIPv4Target t = Inr ()" for t
    using that ParseAddr4_Is4 by (fastforce simp: validateIPv4Target_def ebind_Inr_iff split_literal_Inr)
  then show ?thesis
    using ForwardSpec_Validate_deletion by (auto simp: DesiredState_Validate_def validate_forwards_iff)
qed

section \<open>Witnesses\<close>

definition demo_states :: ActivationStates where
  "demo_states = \<lparr> ControlState = ''ONLINE'', ListenerState = ''READY'', MappingState = ''PUBLIC_CANDIDATE'',
     KeepaliveState = ''HEALTHY'', WanReachabilityState = ''OPEN_FROM_VANTAGE'',
     ReturnPathState = ''VERIFIED'', TargetHealthState = ''PASS'',
     PublicationState = ''PUBLISHED_VERIFIED'', DataPlaneState = ''READY'' \<rparr>"

theorem ActivationStates_Validate_witness:
  "ActivationStates_Validate demo_states = Inr () \<and>
   ActivationStates_Validate (demo_states \<lparr> MappingState := ''FIRST_HOP_MAPPED'' \<rparr>) \<noteq> Inr ()"
  using ActivationStates_Validate_iff [of demo_states]
    ActivationStates_Validate_iff [of "demo_states \<lparr> MappingState := ''FIRST_HOP_MAPPED'' \<rparr>"]
  by (simp add: demo_states_def snapshot_of_def ValidAxisValue_def activationAxes_def)

definition demo_spec :: ForwardSpec where
  "demo_spec = \<lparr> f_ForwardID = ''f1'', f_Name = ''web'', f_Protocol = ''tcp'',
     f_Target = AddrPort_String (V4 10 0 0 2) 80, f_Strategy = ''auto'', f_SourceInterface = [],
     f_RequestedLocalPort = 0, f_RequestedPublicPort = 0, f_ManualExpectedEndpoint = [],
     f_RateLimitBPS = 0, f_DetailedStats = False, f_PublishScheme = ''https'', f_PublishedHost = [],
     f_CustomURITemplate = [], f_DesiredRevision = 1, f_Presence = ''PRESENT'',
     f_DeletionOperationID = [] \<rparr>"

theorem DesiredState_Validate_witness:
  "DesiredState_Validate \<lparr> d_NodeID = ''n'', d_Forwards = [demo_spec] \<rparr> = Inr () \<and>
   DesiredState_Validate \<lparr> d_NodeID = ''n'', d_Forwards = [demo_spec, demo_spec] \<rparr> \<noteq> Inr ()"
proof -
  have "ForwardSpec_Validate demo_spec = Inr ()"
    using check_port_dec [of 80]
    by (simp add: demo_spec_def ForwardSpec_Validate_def Protocol_Valid_def Strategy_Valid_def
        ValidStrategies_def Presence_Valid_def validateIPv4Target_def split_literal_AddrPort_String
        check_port_dec del: AddrPort_String.simps)
  then show ?thesis
    using DesiredState_Validate_iff [of "\<lparr> d_NodeID = ''n'', d_Forwards = [demo_spec] \<rparr>"]
      DesiredState_Validate_iff [of "\<lparr> d_NodeID = ''n'', d_Forwards = [demo_spec, demo_spec] \<rparr>"]
    by simp
qed

end
