(* ===== verification/Probe_Frames.thy ===== *)
theory Probe_Frames
  imports Framecrypto Endpoint
begin

text \<open>
  The wire frames of \<^verbatim>\<open>src/internal/protocol/probe.go\<close>: the arm command (ARM1), the agent's armed
  response (RDY1), the provider's WAN frame (WAN1), the same-path acknowledgement (ACK1) and the
  control receipt (RCT1).

  Fixed-size arrays are byte lists whose lengths the \<open>*_arrays\<close> predicates state. The parsers are
  modelled with the same length checks and the same slices as the code; \<open>byte(len(Endpoint))\<close> wraps
  as in Go.
\<close>

datatype probe_error = ErrProbeMalformed | ErrProbeSignature | ErrProbeReplay | ErrProbeIDConflict
  | ErrProbeStateFull | ErrProbeEndpoint

abbreviation ProbeMagicArm :: bytes where "ProbeMagicArm \<equiv> str_bytes ''ARM1''"
abbreviation ProbeMagicArmed :: bytes where "ProbeMagicArmed \<equiv> str_bytes ''RDY1''"
abbreviation ProbeMagicWAN :: bytes where "ProbeMagicWAN \<equiv> str_bytes ''WAN1''"
abbreviation ProbeMagicACK :: bytes where "ProbeMagicACK \<equiv> str_bytes ''ACK1''"
abbreviation ProbeMagicReceipt :: bytes where "ProbeMagicReceipt \<equiv> str_bytes ''RCT1''"

definition probeFrameMax :: nat where
  "probeFrameMax = 4 + 32 + 16 + 16 + 16 + 1 + ProbeEndpointMax + 16 + 32 + SignatureSize"

definition ProbeTTLMax_ms :: nat where "ProbeTTLMax_ms = 24 * 60 * 60 * 1000"

section \<open>ARM1\<close>

record ProbeArm =
  arm_ProbeID :: bytes
  arm_ProviderID :: bytes
  arm_ProviderPublicKey :: bytes
  arm_ExpectedSourceIP :: bytes
  arm_Activation :: bytes
  arm_Endpoint :: string
  arm_TTLMS :: u64
  arm_ExpiryOpaque :: bytes

definition arm_Canonical :: "ProbeArm \<Rightarrow> bytes" where
  "arm_Canonical arm =
     ProbeMagicArm @ arm_ProbeID arm @ arm_ProviderID arm @ arm_ProviderPublicKey arm @
     arm_ExpectedSourceIP arm @ arm_Activation arm @ [of_nat (length (arm_Endpoint arm))] @
     str_bytes (arm_Endpoint arm) @ put_u64 (arm_TTLMS arm) @ arm_ExpiryOpaque arm"

definition arm_Digest :: "crypto \<Rightarrow> ProbeArm \<Rightarrow> bytes" where
  "arm_Digest c arm = sha256 c (arm_Canonical arm)"

definition arm_Validate :: "ProbeArm \<Rightarrow> probe_error + unit" where
  "arm_Validate arm =
     (if arm_ProviderID arm = replicate 16 0 \<or> arm_ProbeID arm = replicate 16 0 then Inl ErrProbeMalformed
      else if arm_TTLMS arm = 0 \<or> unat (arm_TTLMS arm) > ProbeTTLMax_ms then Inl ErrProbeMalformed
      else if length (arm_Endpoint arm) = 0 \<or> length (arm_Endpoint arm) > ProbeEndpointMax
        then Inl ErrProbeMalformed
      else if \<not> ValidateProbeEndpoint (arm_Endpoint arm) then Inl ErrProbeEndpoint
      else Inr ())"

definition ParseProbeArm :: "bytes \<Rightarrow> probe_error + ProbeArm" where
  "ParseProbeArm raw =
     ensure (\<not> (length raw < 89 \<or> length raw > probeFrameMax \<or> take 4 raw \<noteq> ProbeMagicArm)) ErrProbeMalformed (
     let endpointLen = unat (raw ! 88) in
     ensure (\<not> (endpointLen = 0 \<or> length raw \<noteq> 89 + endpointLen + 8 + 16)) ErrProbeMalformed (
     let arm = \<lparr> arm_ProbeID = subslice 4 20 raw, arm_ProviderID = subslice 20 36 raw,
                 arm_ProviderPublicKey = subslice 36 68 raw, arm_ExpectedSourceIP = subslice 68 72 raw,
                 arm_Activation = subslice 72 88 raw,
                 arm_Endpoint = bytes_str (subslice 89 (89 + endpointLen) raw),
                 arm_TTLMS = get_u64 (subslice (89 + endpointLen) (89 + endpointLen + 8) raw),
                 arm_ExpiryOpaque = drop (89 + endpointLen + 8) raw \<rparr>
     in ebind (arm_Validate arm) (\<lambda>_. Inr arm)))"

section \<open>RDY1\<close>

record ProbeArmed =
  rdy_ArmDigest :: bytes
  rdy_Signature :: bytes

definition rdy_SigningBytes :: "ProbeArmed \<Rightarrow> bytes" where
  "rdy_SigningBytes a = ProbeMagicArmed @ rdy_ArmDigest a"

definition ParseProbeArmed :: "crypto \<Rightarrow> bytes \<Rightarrow> bytes \<Rightarrow> bytes \<Rightarrow> probe_error + ProbeArmed" where
  "ParseProbeArmed c raw nodePub wantDigest =
     ensure (\<not> (length raw \<noteq> 36 + SignatureSize \<or> take 4 raw \<noteq> ProbeMagicArmed)) ErrProbeMalformed (
     let a = \<lparr> rdy_ArmDigest = subslice 4 36 raw, rdy_Signature = drop 36 raw \<rparr> in
     ensure (rdy_ArmDigest a = wantDigest) ErrProbeMalformed (
     ensure (Verify c nodePub (rdy_SigningBytes a) (rdy_Signature a)) ErrProbeSignature (Inr a)))"

section \<open>WAN1\<close>

record ProviderFrame =
  wan_ArmDigest :: bytes
  wan_ProbeID :: bytes
  wan_ProviderID :: bytes
  wan_Activation :: bytes
  wan_Endpoint :: string
  wan_ExpiryOpaque :: bytes
  wan_Challenge :: bytes
  wan_Signature :: bytes

definition wan_Canonical :: "ProviderFrame \<Rightarrow> bytes" where
  "wan_Canonical f =
     ProbeMagicWAN @ wan_ArmDigest f @ wan_ProbeID f @ wan_ProviderID f @ wan_Activation f @
     [of_nat (length (wan_Endpoint f))] @ str_bytes (wan_Endpoint f) @ wan_ExpiryOpaque f @ wan_Challenge f"

definition wan_SigningBytes :: "ProviderFrame \<Rightarrow> bytes" where
  "wan_SigningBytes f = wan_Canonical f"

definition wan_ChallengeHash :: "crypto \<Rightarrow> ProviderFrame \<Rightarrow> bytes" where
  "wan_ChallengeHash c f = sha256 c (wan_Challenge f)"

definition ParseProviderFrame :: "bytes \<Rightarrow> probe_error + ProviderFrame" where
  "ParseProviderFrame raw =
     ensure (\<not> (length raw < 85 \<or> length raw > probeFrameMax \<or> take 4 raw \<noteq> ProbeMagicWAN)) ErrProbeMalformed (
     let endpointLen = unat (raw ! 84) in
     ensure (\<not> (endpointLen = 0 \<or> length raw \<noteq> 85 + endpointLen + (16 + 32 + SignatureSize)))
       ErrProbeMalformed (
     let endpoint = bytes_str (subslice 85 (85 + endpointLen) raw); tr = 85 + endpointLen in
     ensure (ValidateProbeEndpoint endpoint) ErrProbeEndpoint (
     Inr \<lparr> wan_ArmDigest = subslice 4 36 raw, wan_ProbeID = subslice 36 52 raw,
           wan_ProviderID = subslice 52 68 raw, wan_Activation = subslice 68 84 raw,
           wan_Endpoint = endpoint, wan_ExpiryOpaque = subslice tr (tr + 16) raw,
           wan_Challenge = subslice (tr + 16) (tr + 16 + 32) raw,
           wan_Signature = drop (tr + 16 + 32) raw \<rparr>)))"

section \<open>ACK1 and RCT1\<close>

record ProbeACK =
  ack_ArmDigest :: bytes
  ack_ChallengeHash :: bytes
  ack_Signature :: bytes

definition ack_SigningBytes :: "ProbeACK \<Rightarrow> bytes" where
  "ack_SigningBytes a = ProbeMagicACK @ ack_ArmDigest a @ ack_ChallengeHash a"

definition ParseProbeACK :: "crypto \<Rightarrow> bytes \<Rightarrow> bytes \<Rightarrow> probe_error + ProbeACK" where
  "ParseProbeACK c raw nodePub =
     ensure (\<not> (length raw \<noteq> 68 + SignatureSize \<or> take 4 raw \<noteq> ProbeMagicACK)) ErrProbeMalformed (
     let a = \<lparr> ack_ArmDigest = subslice 4 36 raw, ack_ChallengeHash = subslice 36 68 raw,
               ack_Signature = drop 68 raw \<rparr> in
     ensure (Verify c nodePub (ack_SigningBytes a) (ack_Signature a)) ErrProbeSignature (Inr a))"

record ProbeReceipt =
  rct_ArmDigest :: bytes
  rct_ChallengeHash :: bytes
  rct_ProviderID :: bytes
  rct_Signature :: bytes

definition rct_SigningBytes :: "ProbeReceipt \<Rightarrow> bytes" where
  "rct_SigningBytes r = ProbeMagicReceipt @ rct_ArmDigest r @ rct_ChallengeHash r @ rct_ProviderID r"

definition ParseProbeReceipt :: "crypto \<Rightarrow> bytes \<Rightarrow> bytes \<Rightarrow> probe_error + ProbeReceipt" where
  "ParseProbeReceipt c raw nodePub =
     ensure (\<not> (length raw \<noteq> 84 + SignatureSize \<or> take 4 raw \<noteq> ProbeMagicReceipt)) ErrProbeMalformed (
     let r = \<lparr> rct_ArmDigest = subslice 4 36 raw, rct_ChallengeHash = subslice 36 68 raw,
               rct_ProviderID = subslice 68 84 raw, rct_Signature = drop 84 raw \<rparr> in
     ensure (Verify c nodePub (rct_SigningBytes r) (rct_Signature r)) ErrProbeSignature (Inr r))"

section \<open>The parsers invert the encoders\<close>

definition arm_arrays :: "ProbeArm \<Rightarrow> bool" where
  "arm_arrays arm \<longleftrightarrow> length (arm_ProbeID arm) = 16 \<and> length (arm_ProviderID arm) = 16 \<and>
     length (arm_ProviderPublicKey arm) = 32 \<and> length (arm_ExpectedSourceIP arm) = 4 \<and>
     length (arm_Activation arm) = 16 \<and> length (arm_ExpiryOpaque arm) = 16"

definition wan_arrays :: "ProviderFrame \<Rightarrow> bool" where
  "wan_arrays f \<longleftrightarrow> length (wan_ArmDigest f) = 32 \<and> length (wan_ProbeID f) = 16 \<and>
     length (wan_ProviderID f) = 16 \<and> length (wan_Activation f) = 16 \<and>
     length (wan_ExpiryOpaque f) = 16 \<and> length (wan_Challenge f) = 32"

lemma unat_of_nat_u8: "n \<le> 255 \<Longrightarrow> unat (of_nat n :: u8) = n"
  by (simp add: unat_of_nat take_bit_eq_mod)

lemma of_nat_unat_u8 [simp]: "of_nat (unat (b :: u8)) = b"
  by simp

lemma arm_Validate_iff:
  "arm_Validate arm = Inr () \<longleftrightarrow>
     arm_ProviderID arm \<noteq> replicate 16 0 \<and> arm_ProbeID arm \<noteq> replicate 16 0 \<and>
     arm_TTLMS arm \<noteq> 0 \<and> unat (arm_TTLMS arm) \<le> ProbeTTLMax_ms \<and>
     1 \<le> length (arm_Endpoint arm) \<and> length (arm_Endpoint arm) \<le> 255 \<and>
     ValidateProbeEndpoint (arm_Endpoint arm)"
  by (auto simp: arm_Validate_def ProbeEndpointMax_def Suc_le_eq)

lemma ParseProbeArm_Canonical:
  assumes "arm_arrays arm" "arm_Validate arm = Inr ()"
  shows "ParseProbeArm (arm_Canonical arm) = Inr arm"
proof -
  have l: "unat (of_nat (length (arm_Endpoint arm)) :: u8) = length (arm_Endpoint arm)"
    and e: "arm_Endpoint arm \<noteq> []" "length (arm_Endpoint arm) \<le> 255"
    using assms(2) by (auto simp: arm_Validate_iff unat_of_nat_u8)
  have n: "arm_Canonical arm ! 88 = of_nat (length (arm_Endpoint arm))"
    using assms(1) by (simp add: arm_Canonical_def arm_arrays_def nth_append)
  show ?thesis
    unfolding ParseProbeArm_def n l Let_def ensure_Inr_iff
    using assms e
    by (cases arm)
      (simp add: arm_Canonical_def arm_arrays_def subslice_def probeFrameMax_def ProbeEndpointMax_def
        drop_Cons')
qed

lemma Canonical_ParseProbeArm:
  assumes "ParseProbeArm raw = Inr arm"
  shows "arm_arrays arm \<and> arm_Validate arm = Inr () \<and> raw = arm_Canonical arm"
proof -
  define e where "e = unat (raw ! 88)"
  from assms have h: "take 4 raw = ProbeMagicArm" "length raw = 113 + e" "e \<noteq> 0"
    "arm_Validate arm = Inr ()"
    and arm: "arm = \<lparr> arm_ProbeID = subslice 4 20 raw, arm_ProviderID = subslice 20 36 raw,
                 arm_ProviderPublicKey = subslice 36 68 raw, arm_ExpectedSourceIP = subslice 68 72 raw,
                 arm_Activation = subslice 72 88 raw, arm_Endpoint = bytes_str (subslice 89 (89 + e) raw),
                 arm_TTLMS = get_u64 (subslice (89 + e) (89 + e + 8) raw),
                 arm_ExpiryOpaque = drop (89 + e + 8) raw \<rparr>"
    by (auto simp: ParseProbeArm_def Let_def err_Inr_iff e_def)
  have "raw = take 4 raw @ drop 4 raw" by simp
  also have "drop 4 raw = subslice 4 20 raw @ subslice 20 36 raw @ subslice 36 68 raw @
      subslice 68 72 raw @ subslice 72 88 raw @ drop 88 raw"
    by (simp only: drop_subslice [of 4 20] drop_subslice [of 20 36] drop_subslice [of 36 68]
        drop_subslice [of 68 72] drop_subslice [of 72 88])
  also have "drop 88 raw = [raw ! 88] @ drop 89 raw"
    using Cons_nth_drop_Suc [of 88 raw] h(2) by simp
  also have "drop 89 raw = subslice 89 (89 + e) raw @ subslice (89 + e) (89 + e + 8) raw @ drop (89 + e + 8) raw"
    by (simp only: drop_subslice [of 89 "89 + e"] drop_subslice [of "89 + e" "89 + e + 8"] le_add1)
  finally have "raw = arm_Canonical arm"
    using h by (simp add: arm arm_Canonical_def e_def)
  moreover have "arm_arrays arm" using h by (simp add: arm arm_arrays_def)
  ultimately show ?thesis using h by simp
qed

lemma ParseProbeArm_iff:
  "ParseProbeArm raw = Inr arm \<longleftrightarrow> arm_arrays arm \<and> arm_Validate arm = Inr () \<and> raw = arm_Canonical arm"
  using Canonical_ParseProbeArm ParseProbeArm_Canonical by blast

lemma ParseProviderFrame_Canonical:
  assumes "wan_arrays f" "length (wan_Signature f) = 64" "ValidateProbeEndpoint (wan_Endpoint f)"
  shows "ParseProviderFrame (wan_Canonical f @ wan_Signature f) = Inr f"
proof -
  have e: "wan_Endpoint f \<noteq> []" "length (wan_Endpoint f) \<le> 255"
    using assms(3) by (auto simp: ValidateProbeEndpoint_def ProbeEndpointMax_def split: if_splits)
  then have l: "unat (of_nat (length (wan_Endpoint f)) :: u8) = length (wan_Endpoint f)"
    by (simp add: unat_of_nat_u8)
  have n: "(wan_Canonical f @ wan_Signature f) ! 84 = of_nat (length (wan_Endpoint f))"
    using assms(1) by (simp add: wan_Canonical_def wan_arrays_def nth_append)
  show ?thesis
    unfolding ParseProviderFrame_def n l Let_def ensure_Inr_iff
    using assms e
    by (cases f)
      (simp add: wan_Canonical_def wan_arrays_def subslice_def probeFrameMax_def ProbeEndpointMax_def
        drop_Cons' ensure_def)
qed

lemma Canonical_ParseProviderFrame:
  assumes "ParseProviderFrame raw = Inr f"
  shows "wan_arrays f \<and> length (wan_Signature f) = 64 \<and> ValidateProbeEndpoint (wan_Endpoint f) \<and>
    raw = wan_Canonical f @ wan_Signature f"
proof -
  define e where "e = unat (raw ! 84)"
  from assms have h: "take 4 raw = ProbeMagicWAN" "length raw = 197 + e" "e \<noteq> 0"
    "ValidateProbeEndpoint (wan_Endpoint f)"
    and f: "f = \<lparr> wan_ArmDigest = subslice 4 36 raw, wan_ProbeID = subslice 36 52 raw,
           wan_ProviderID = subslice 52 68 raw, wan_Activation = subslice 68 84 raw,
           wan_Endpoint = bytes_str (subslice 85 (85 + e) raw),
           wan_ExpiryOpaque = subslice (85 + e) (85 + e + 16) raw,
           wan_Challenge = subslice (85 + e + 16) (85 + e + 16 + 32) raw,
           wan_Signature = drop (85 + e + 16 + 32) raw \<rparr>"
    by (auto simp: ParseProviderFrame_def Let_def err_Inr_iff e_def)
  have "raw = take 4 raw @ drop 4 raw" by simp
  also have "drop 4 raw = subslice 4 36 raw @ subslice 36 52 raw @ subslice 52 68 raw @
      subslice 68 84 raw @ drop 84 raw"
    by (simp only: drop_subslice [of 4 36] drop_subslice [of 36 52] drop_subslice [of 52 68]
        drop_subslice [of 68 84])
  also have "drop 84 raw = [raw ! 84] @ drop 85 raw"
    using Cons_nth_drop_Suc [of 84 raw] h(2) by simp
  also have "drop 85 raw = subslice 85 (85 + e) raw @ subslice (85 + e) (85 + e + 16) raw @
      subslice (85 + e + 16) (85 + e + 16 + 32) raw @ drop (85 + e + 16 + 32) raw"
    by (simp only: drop_subslice [of 85 "85 + e"] drop_subslice [of "85 + e" "85 + e + 16"]
        drop_subslice [of "85 + e + 16" "85 + e + 16 + 32"] le_add1)
  finally have "raw = wan_Canonical f @ wan_Signature f"
    using h by (simp add: f wan_Canonical_def e_def)
  moreover have "wan_arrays f" "length (wan_Signature f) = 64" using h by (simp_all add: f wan_arrays_def)
  ultimately show ?thesis using h by simp
qed

lemma ParseProviderFrame_iff:
  "ParseProviderFrame raw = Inr f \<longleftrightarrow>
     wan_arrays f \<and> length (wan_Signature f) = 64 \<and> ValidateProbeEndpoint (wan_Endpoint f) \<and>
     raw = wan_Canonical f @ wan_Signature f"
  using Canonical_ParseProviderFrame ParseProviderFrame_Canonical by blast

text \<open>The three short frames: magic, fixed fields, signature.\<close>

lemma ParseProbeArmed_iff:
  "ParseProbeArmed c raw pub d = Inr a \<longleftrightarrow>
     length (rdy_ArmDigest a) = 32 \<and> rdy_ArmDigest a = d \<and> raw = rdy_SigningBytes a @ rdy_Signature a \<and>
     Verify c pub (rdy_SigningBytes a) (rdy_Signature a)" (is "?l = ?r")
proof
  assume ?l
  then have h: "take 4 raw = ProbeMagicArmed" "length raw = 100"
    and a: "a = \<lparr> rdy_ArmDigest = subslice 4 36 raw, rdy_Signature = drop 36 raw \<rparr>"
    and v: "rdy_ArmDigest a = d" "Verify c pub (rdy_SigningBytes a) (rdy_Signature a)"
    by (auto simp: ParseProbeArmed_def Let_def ensure_Inr_iff)
  have "raw = take 4 raw @ subslice 4 36 raw @ drop 36 raw"
    by (simp add: take_subslice_drop)
  then have raw: "raw = rdy_SigningBytes a @ rdy_Signature a"
    by (simp add: a rdy_SigningBytes_def h)
  have "length (rdy_ArmDigest a) = 32" using h by (simp add: a)
  with v raw show ?r by blast
next
  assume ?r
  then show ?l
    using Verify_size [of c pub "rdy_SigningBytes a" "rdy_Signature a"]
    by (cases a) (auto simp: ParseProbeArmed_def Let_def ensure_Inr_iff rdy_SigningBytes_def subslice_def)
qed

lemma ParseProbeACK_iff:
  "ParseProbeACK c raw pub = Inr a \<longleftrightarrow>
     length (ack_ArmDigest a) = 32 \<and> length (ack_ChallengeHash a) = 32 \<and>
     raw = ack_SigningBytes a @ ack_Signature a \<and> Verify c pub (ack_SigningBytes a) (ack_Signature a)"
    (is "?l = ?r")
proof
  assume ?l
  then have h: "take 4 raw = ProbeMagicACK" "length raw = 132"
    and a: "a = \<lparr> ack_ArmDigest = subslice 4 36 raw, ack_ChallengeHash = subslice 36 68 raw,
               ack_Signature = drop 68 raw \<rparr>"
    and v: "Verify c pub (ack_SigningBytes a) (ack_Signature a)"
    by (auto simp: ParseProbeACK_def Let_def ensure_Inr_iff)
  have "raw = take 4 raw @ drop 4 raw" by simp
  also have "drop 4 raw = subslice 4 36 raw @ subslice 36 68 raw @ drop 68 raw"
    by (simp only: drop_subslice [of 4 36] drop_subslice [of 36 68])
  finally have raw: "raw = ack_SigningBytes a @ ack_Signature a"
    by (simp add: a ack_SigningBytes_def h)
  have "length (ack_ArmDigest a) = 32" "length (ack_ChallengeHash a) = 32" using h by (simp_all add: a)
  with v raw show ?r by blast
next
  assume ?r
  then show ?l
    using Verify_size [of c pub "ack_SigningBytes a" "ack_Signature a"]
    by (cases a) (auto simp: ParseProbeACK_def Let_def ensure_Inr_iff ack_SigningBytes_def subslice_def)
qed

lemma ParseProbeReceipt_iff:
  "ParseProbeReceipt c raw pub = Inr r \<longleftrightarrow>
     length (rct_ArmDigest r) = 32 \<and> length (rct_ChallengeHash r) = 32 \<and> length (rct_ProviderID r) = 16 \<and>
     raw = rct_SigningBytes r @ rct_Signature r \<and> Verify c pub (rct_SigningBytes r) (rct_Signature r)"
    (is "?l = ?r")
proof
  assume ?l
  then have h: "take 4 raw = ProbeMagicReceipt" "length raw = 148"
    and r: "r = \<lparr> rct_ArmDigest = subslice 4 36 raw, rct_ChallengeHash = subslice 36 68 raw,
               rct_ProviderID = subslice 68 84 raw, rct_Signature = drop 84 raw \<rparr>"
    and v: "Verify c pub (rct_SigningBytes r) (rct_Signature r)"
    by (auto simp: ParseProbeReceipt_def Let_def ensure_Inr_iff)
  have "raw = take 4 raw @ drop 4 raw" by simp
  also have "drop 4 raw = subslice 4 36 raw @ subslice 36 68 raw @ subslice 68 84 raw @ drop 84 raw"
    by (simp only: drop_subslice [of 4 36] drop_subslice [of 36 68] drop_subslice [of 68 84])
  finally have raw: "raw = rct_SigningBytes r @ rct_Signature r"
    by (simp add: r rct_SigningBytes_def h)
  have "length (rct_ArmDigest r) = 32" "length (rct_ChallengeHash r) = 32" "length (rct_ProviderID r) = 16"
    using h by (simp_all add: r)
  with v raw show ?r by blast
next
  assume ?r
  then show ?l
    using Verify_size [of c pub "rct_SigningBytes r" "rct_Signature r"]
    by (cases r) (auto simp: ParseProbeReceipt_def Let_def ensure_Inr_iff rct_SigningBytes_def subslice_def)
qed

section \<open>Injectivity of the signed bytes\<close>

lemma arm_Canonical_inj:
  assumes "arm_arrays a" "arm_arrays b" "length (arm_Endpoint a) \<le> 255" "length (arm_Endpoint b) \<le> 255"
    and "arm_Canonical a = arm_Canonical b"
  shows "a = b"
proof -
  have "(of_nat (length (arm_Endpoint a)) :: u8) = of_nat (length (arm_Endpoint b)) \<Longrightarrow>
      length (arm_Endpoint a) = length (arm_Endpoint b)"
    using assms(3,4) unat_of_nat_u8 by metis
  with assms show ?thesis
    by (cases a; cases b) (auto simp: arm_Canonical_def arm_arrays_def)
qed

text \<open>
  The arm command and the provider frame have one wire form each: parsing accepts exactly the
  encodings of valid messages, and returns the message that was encoded.
\<close>

theorem probe_frames_canonical:
  "(ParseProbeArm raw = Inr arm \<longleftrightarrow>
      arm_arrays arm \<and> arm_Validate arm = Inr () \<and> raw = arm_Canonical arm) \<and>
   (ParseProviderFrame raw = Inr f \<longleftrightarrow>
      wan_arrays f \<and> length (wan_Signature f) = 64 \<and> ValidateProbeEndpoint (wan_Endpoint f) \<and>
      raw = wan_Canonical f @ wan_Signature f)"
  by (simp only: ParseProbeArm_iff ParseProviderFrame_iff)

end
