(* ===== verification/Probe_Agent.thy ===== *)
theory Probe_Agent
  imports Probe_Frames "HOL-Library.AList"
begin

text \<open>
  The agent's probe state machine of \<^verbatim>\<open>src/internal/protocol/probe.go\<close> (\<open>ProbeAgent\<close>: \<open>ArmProbe\<close>,
  \<open>sweep\<close>, \<open>HandleProbeIngress\<close>), the controller's \<open>VerifyProbeJoin\<close> and the derivation
  \<open>ActivationID\<close> of \<^verbatim>\<open>probe_adapter.go\<close>.

  The two Go maps are association lists; \<open>agent_inv\<close> says their keys are distinct, so that the length
  of the list is \<open>len\<close> of the map. Times are nanoseconds. An operation's time to live is at most 24
  hours, so \<open>time.Duration(TTLMS) * time.Millisecond\<close> does not overflow.

  A run is a sequence of the two operations with non-decreasing times; the consumption theorem speaks
  about every run. The agreement theorem speaks about the list of the events of a run (\<open>probe_trace\<close>).
\<close>

record armedProbeState =
  op_arm :: ProbeArm
  op_digest :: bytes
  op_deadline :: int
  op_used :: bool

record ProbeAgent =
  nodeKey :: bytes
  ops :: "(bytes \<times> armedProbeState) list"
  replay :: "(bytes \<times> int) list"

definition ProbeReplayWindow :: int where "ProbeReplayWindow = 5 * 60 * 1000000000"

definition ProbeOpMax :: nat where "ProbeOpMax = 1024"

definition NewProbeAgent :: "bytes \<Rightarrow> ProbeAgent" where
  "NewProbeAgent key = \<lparr> nodeKey = key, ops = [], replay = [] \<rparr>"

definition sweep :: "int \<Rightarrow> ProbeAgent \<Rightarrow> ProbeAgent" where
  "sweep now s = s \<lparr> ops := filter (\<lambda>(_, op). \<not> now > op_deadline op) (ops s),
                     replay := filter (\<lambda>(_, expire). now < expire) (replay s) \<rparr>"

definition signArmed :: "crypto \<Rightarrow> ProbeAgent \<Rightarrow> bytes \<Rightarrow> ProbeArmed" where
  "signArmed c s digest =
     (let armed = \<lparr> rdy_ArmDigest = digest, rdy_Signature = [] \<rparr> in
      case Sign c (nodeKey s) (rdy_SigningBytes armed) of
        Inl _ \<Rightarrow> armed
      | Inr sig \<Rightarrow> armed \<lparr> rdy_Signature := sig \<rparr>)"

definition arm_insert :: "crypto \<Rightarrow> ProbeArm \<Rightarrow> int \<Rightarrow> ProbeAgent \<Rightarrow> (probe_error + ProbeArmed) \<times> ProbeAgent" where
  "arm_insert c arm now s =
     (let digest = arm_Digest c arm in
      case map_of (ops s) (arm_ProbeID arm) of
        Some old \<Rightarrow>
          if op_digest old \<noteq> digest then (Inl ErrProbeIDConflict, s) else (Inr (signArmed c s digest), s)
      | None \<Rightarrow>
          if length (ops s) \<ge> ProbeOpMax then (Inl ErrProbeStateFull, s)
          else (let s' = s \<lparr> ops := AList.update (arm_ProbeID arm)
                    \<lparr> op_arm = arm, op_digest = digest,
                      op_deadline = now + int (unat (arm_TTLMS arm)) * 1000000, op_used = False \<rparr> (ops s) \<rparr>
                in (Inr (signArmed c s' digest), s')))"

definition ArmProbe :: "crypto \<Rightarrow> ProbeArm \<Rightarrow> int \<Rightarrow> ProbeAgent \<Rightarrow> (probe_error + ProbeArmed) \<times> ProbeAgent" where
  "ArmProbe c arm now s0 =
     (case arm_Validate arm of
        Inl e \<Rightarrow> (Inl e, s0)
      | Inr _ \<Rightarrow>
          let digest = arm_Digest c arm; s = sweep now s0 in
          case map_of (replay s) (arm_ProbeID arm) of
            Some expire \<Rightarrow>
              if now < expire then
                (case map_of (ops s) (arm_ProbeID arm) of
                   Some old \<Rightarrow> (Inl (if op_digest old = digest then ErrProbeReplay else ErrProbeIDConflict), s)
                 | None \<Rightarrow> (Inl ErrProbeIDConflict, s))
              else arm_insert c arm now (s \<lparr> replay := AList.delete (arm_ProbeID arm) (replay s) \<rparr>)
          | None \<Rightarrow> arm_insert c arm now s)"

definition frame_matches :: "crypto \<Rightarrow> armedProbeState \<Rightarrow> ProviderFrame \<Rightarrow> bytes \<Rightarrow> bool" where
  "frame_matches c op frame sourceIP \<longleftrightarrow>
     \<not> (sourceIP \<noteq> arm_ExpectedSourceIP (op_arm op) \<or>
        wan_ArmDigest frame \<noteq> op_digest op \<or>
        wan_ProviderID frame \<noteq> arm_ProviderID (op_arm op) \<or>
        wan_Activation frame \<noteq> arm_Activation (op_arm op) \<or>
        wan_Endpoint frame \<noteq> arm_Endpoint (op_arm op) \<or>
        wan_ExpiryOpaque frame \<noteq> arm_ExpiryOpaque (op_arm op) \<or>
        \<not> Verify c (arm_ProviderPublicKey (op_arm op)) (wan_SigningBytes frame) (wan_Signature frame))"

definition HandleProbeIngress ::
  "crypto \<Rightarrow> ProviderFrame \<Rightarrow> bytes \<Rightarrow> int \<Rightarrow> ProbeAgent \<Rightarrow> bool \<times> ProbeAgent" where
  "HandleProbeIngress c frame sourceIP now s =
     (case map_of (ops s) (wan_ProbeID frame) of
        None \<Rightarrow> (False, s)
      | Some op \<Rightarrow>
          if op_used op \<or> now > op_deadline op then (False, s)
          else if \<not> frame_matches c op frame sourceIP then (False, s)
          else (True, s \<lparr> ops := AList.update (wan_ProbeID frame) (op \<lparr> op_used := True \<rparr>) (ops s),
                         replay := AList.update (wan_ProbeID frame) (now + ProbeReplayWindow) (replay s) \<rparr>))"

definition VerifyProbeJoin ::
  "crypto \<Rightarrow> ProbeArm \<Rightarrow> ProviderFrame \<Rightarrow> ProbeACK \<Rightarrow> ProbeReceipt \<Rightarrow> bytes \<Rightarrow> bool" where
  "VerifyProbeJoin c arm frame ack receipt nodePub =
     (case arm_Validate arm of Inl _ \<Rightarrow> False | Inr _ \<Rightarrow>
      let digest = arm_Digest c arm; ch = wan_ChallengeHash c frame in
      if wan_ArmDigest frame \<noteq> digest \<or> ack_ArmDigest ack \<noteq> digest \<or> rct_ArmDigest receipt \<noteq> digest then False
      else if wan_ProbeID frame \<noteq> arm_ProbeID arm \<or> wan_ProviderID frame \<noteq> arm_ProviderID arm \<or>
        wan_Activation frame \<noteq> arm_Activation arm \<or> wan_Endpoint frame \<noteq> arm_Endpoint arm \<or>
        wan_ExpiryOpaque frame \<noteq> arm_ExpiryOpaque arm then False
      else if rct_ProviderID receipt \<noteq> arm_ProviderID arm then False
      else if \<not> Verify c (arm_ProviderPublicKey arm) (wan_SigningBytes frame) (wan_Signature frame) then False
      else if ack_ChallengeHash ack \<noteq> ch \<or> rct_ChallengeHash receipt \<noteq> ch then False
      else if \<not> Verify c nodePub (ack_SigningBytes ack) (ack_Signature ack) \<or>
        \<not> Verify c nodePub (rct_SigningBytes receipt) (rct_Signature receipt) then False
      else True)"

definition ActivationID :: "crypto \<Rightarrow> string \<Rightarrow> u64 \<Rightarrow> bytes" where
  "ActivationID c forwardID specRevision =
     take 16 (sha256 c (str_bytes ''antinat-activation-v1'' @ [0] @ str_bytes forwardID @ [0] @
       put_u64 specRevision))"

section \<open>Runs\<close>

datatype probe_event = Arm ProbeArm | Ingress ProviderFrame bytes

fun probe_step :: "crypto \<Rightarrow> int \<Rightarrow> probe_event \<Rightarrow> ProbeAgent \<Rightarrow> ProbeAgent" where
  "probe_step c now (Arm arm) s = snd (ArmProbe c arm now s)"
| "probe_step c now (Ingress frame ip) s = snd (HandleProbeIngress c frame ip now s)"

inductive probe_run :: "crypto \<Rightarrow> int \<Rightarrow> ProbeAgent \<Rightarrow> int \<Rightarrow> ProbeAgent \<Rightarrow> bool" for c t0 s0 where
  start: "probe_run c t0 s0 t0 s0"
| event: "probe_run c t0 s0 t s \<Longrightarrow> t \<le> now \<Longrightarrow> probe_run c t0 s0 now (probe_step c now e s)"

section \<open>The invariant\<close>

definition agent_inv :: "crypto \<Rightarrow> ProbeAgent \<Rightarrow> bool" where
  "agent_inv c s \<longleftrightarrow> distinct (map fst (ops s)) \<and> distinct (map fst (replay s)) \<and>
     length (ops s) \<le> ProbeOpMax \<and>
     (\<forall>(pid, op) \<in> set (ops s). arm_ProbeID (op_arm op) = pid \<and> arm_Validate (op_arm op) = Inr () \<and>
        op_digest op = arm_Digest c (op_arm op))"

lemma distinct_fst_filter: "distinct (map fst xs) \<Longrightarrow> distinct (map fst (filter P xs))"
  by (induction xs) auto

lemma length_update_le: "length (AList.update k v xs) \<le> Suc (length xs)"
  by (induction xs) auto

lemma length_update_present: "map_of xs k = Some w \<Longrightarrow> length (AList.update k v xs) = length xs"
  by (induction xs) auto

lemma set_update_subset: "set (AList.update k v xs) \<subseteq> insert (k, v) (set xs)"
  by (induction xs) auto

lemma sweep_inv: "agent_inv c s \<Longrightarrow> agent_inv c (sweep now s)"
  by (auto simp: agent_inv_def sweep_def distinct_fst_filter intro: le_trans [OF length_filter_le])

lemma update_ops_inv:
  assumes "agent_inv c s" "length (AList.update k op (ops s)) \<le> ProbeOpMax"
    and "arm_ProbeID (op_arm op) = k" "arm_Validate (op_arm op) = Inr ()"
    and "op_digest op = arm_Digest c (op_arm op)"
  shows "agent_inv c (s \<lparr> ops := AList.update k op (ops s) \<rparr>)"
  using assms set_update_subset [of k op "ops s"]
  by (auto simp: agent_inv_def distinct_update)

lemma update_replay_inv:
  "agent_inv c s \<Longrightarrow> agent_inv c (s \<lparr> replay := AList.update k e (replay s) \<rparr>)"
  "agent_inv c s \<Longrightarrow> agent_inv c (s \<lparr> replay := AList.delete k (replay s) \<rparr>)"
  by (simp_all add: agent_inv_def distinct_update distinct_delete)

lemma arm_insert_inv:
  assumes "agent_inv c s" "arm_Validate arm = Inr ()"
  shows "agent_inv c (snd (arm_insert c arm now s))"
proof (cases "map_of (ops s) (arm_ProbeID arm) = None \<and> length (ops s) < ProbeOpMax")
  case True
  then have "length (AList.update (arm_ProbeID arm) v (ops s)) \<le> ProbeOpMax" for v
    using length_update_le [of "arm_ProbeID arm" v "ops s"] by simp
  with True assms show ?thesis
    by (auto simp: arm_insert_def Let_def intro!: update_ops_inv)
next
  case False
  with assms show ?thesis by (auto simp: arm_insert_def Let_def split: option.splits)
qed

lemma ArmProbe_inv: "agent_inv c s \<Longrightarrow> agent_inv c (snd (ArmProbe c arm now s))"
  by (auto simp: ArmProbe_def Let_def sweep_inv arm_insert_inv update_replay_inv
      split: sum.splits option.splits)

lemma HandleProbeIngress_inv:
  assumes "agent_inv c s"
  shows "agent_inv c (snd (HandleProbeIngress c frame ip now s))"
proof (cases "map_of (ops s) (wan_ProbeID frame)")
  case (Some op)
  then have "(wan_ProbeID frame, op) \<in> set (ops s)" by (rule map_of_SomeD)
  with assms have "agent_inv c (s \<lparr> ops := AList.update (wan_ProbeID frame) (op \<lparr> op_used := True \<rparr>) (ops s) \<rparr>)"
    using length_update_present [OF Some] by (intro update_ops_inv) (auto simp: agent_inv_def)
  from update_replay_inv(1) [OF this, of "wan_ProbeID frame" "now + ProbeReplayWindow"] Some assms
  show ?thesis by (simp add: HandleProbeIngress_def)
qed (simp add: HandleProbeIngress_def assms)

lemma probe_run_inv: "probe_run c t0 s0 t s \<Longrightarrow> agent_inv c s0 \<Longrightarrow> agent_inv c s"
proof (induction rule: probe_run.induct)
  case (event t s now e)
  then show ?case by (cases e) (simp_all add: ArmProbe_inv HandleProbeIngress_inv)
qed simp

lemma NewProbeAgent_inv: "agent_inv c (NewProbeAgent key)"
  by (simp add: agent_inv_def NewProbeAgent_def)

section \<open>A consumed identifier stays consumed\<close>

text \<open>
  \<open>consumed x e d now s\<close>: the identifier \<open>x\<close> was consumed by an operation with deadline \<open>d\<close>, with a
  replay entry that ends at \<open>e\<close>. Until \<open>e\<close> the entry is there, until \<open>d\<close> the operation is there, and
  as long as one of them is there \<open>x\<close> has no operation that could accept.
\<close>

definition consumed :: "bytes \<Rightarrow> int \<Rightarrow> int \<Rightarrow> int \<Rightarrow> ProbeAgent \<Rightarrow> bool" where
  "consumed x e d now s \<longleftrightarrow>
     (now < e \<longrightarrow> map_of (replay s) x = Some e) \<and>
     (now \<le> d \<longrightarrow> (\<exists>op. map_of (ops s) x = Some op \<and> op_deadline op = d)) \<and>
     (now < e \<or> now \<le> d \<longrightarrow> (\<forall>op. map_of (ops s) x = Some op \<longrightarrow> op_used op \<and> op_deadline op = d))"

lemma map_of_filter_Some:
  "distinct (map fst xs) \<Longrightarrow> map_of (filter P xs) k = Some v \<longleftrightarrow> map_of xs k = Some v \<and> P (k, v)"
  by (simp add: distinct_fst_filter)

lemma sweep_maps:
  assumes "agent_inv c s"
  shows "map_of (ops (sweep now s)) k = Some op \<longleftrightarrow> map_of (ops s) k = Some op \<and> now \<le> op_deadline op"
    and "map_of (replay (sweep now s)) k = Some e \<longleftrightarrow> map_of (replay s) k = Some e \<and> now < e"
  using assms map_of_filter_Some [of "ops s"] map_of_filter_Some [of "replay s"]
  by (auto simp: sweep_def agent_inv_def not_less)

lemma consumed_entry: "consumed x e d now s \<Longrightarrow> now < e \<Longrightarrow> map_of (replay s) x = Some e"
  by (simp add: consumed_def)

lemma consumed_later: "consumed x e d now s \<Longrightarrow> now \<le> now' \<Longrightarrow> consumed x e d now' s"
  by (auto simp: consumed_def)

lemma consumed_sweep: "agent_inv c s \<Longrightarrow> consumed x e d now s \<Longrightarrow> consumed x e d now (sweep now s)"
  by (auto simp: consumed_def sweep_maps)

lemma arm_insert_cases:
  "snd (arm_insert c arm now s) = s \<or>
   map_of (ops s) (arm_ProbeID arm) = None \<and>
   (\<exists>op. snd (arm_insert c arm now s) = s \<lparr> ops := AList.update (arm_ProbeID arm) op (ops s) \<rparr>)"
  by (auto simp: arm_insert_def Let_def split: option.splits)

lemma consumed_arm_insert:
  assumes "consumed x e d now s" "arm_ProbeID arm = x \<longrightarrow> \<not> now < e"
  shows "consumed x e d now (snd (arm_insert c arm now s))"
  using arm_insert_cases [of c arm now s]
proof
  assume "map_of (ops s) (arm_ProbeID arm) = None \<and>
    (\<exists>op. snd (arm_insert c arm now s) = s \<lparr> ops := AList.update (arm_ProbeID arm) op (ops s) \<rparr>)"
  then obtain op where n: "map_of (ops s) (arm_ProbeID arm) = None"
    and u: "snd (arm_insert c arm now s) = s \<lparr> ops := AList.update (arm_ProbeID arm) op (ops s) \<rparr>"
    by blast
  show ?thesis
  proof (cases "arm_ProbeID arm = x")
    case True
    with n assms have "\<not> now \<le> d" by (auto simp: consumed_def)
    with True assms show ?thesis by (simp add: u consumed_def)
  next
    case False
    with assms(1) show ?thesis by (simp add: u consumed_def update_conv')
  qed
qed (simp add: assms)

lemma consumed_ArmProbe:
  assumes inv: "agent_inv c s" and con: "consumed x e d now s"
  shows "consumed x e d now (snd (ArmProbe c arm now s))"
proof -
  have sw: "consumed x e d now (sweep now s)" by (rule consumed_sweep [OF inv con])
  have del: "consumed x e d now (sweep now s \<lparr> replay := AList.delete k (replay (sweep now s)) \<rparr>)"
    if "k = x \<longrightarrow> \<not> now < e" for k
    using sw that by (auto simp: consumed_def delete_conv')
  show ?thesis
    using sw con
    by (auto simp: ArmProbe_def Let_def intro!: consumed_arm_insert del dest: consumed_entry
        split: sum.splits option.splits)
qed

lemma Ingress_accepts:
  "HandleProbeIngress c frame ip now s = (True, s') \<longleftrightarrow>
     (\<exists>op. map_of (ops s) (wan_ProbeID frame) = Some op \<and> \<not> op_used op \<and> now \<le> op_deadline op \<and>
        frame_matches c op frame ip \<and>
        s' = s \<lparr> ops := AList.update (wan_ProbeID frame) (op \<lparr> op_used := True \<rparr>) (ops s),
                 replay := AList.update (wan_ProbeID frame) (now + ProbeReplayWindow) (replay s) \<rparr>)"
  by (auto simp: HandleProbeIngress_def not_less split: option.splits)

lemma Ingress_rejects:
  "fst (HandleProbeIngress c frame ip now s) = False \<Longrightarrow> snd (HandleProbeIngress c frame ip now s) = s"
  by (auto simp: HandleProbeIngress_def split: option.splits)

lemma consumed_Ingress:
  assumes con: "consumed x e d now s"
  shows "consumed x e d now (snd (HandleProbeIngress c frame ip now s))"
proof (cases "fst (HandleProbeIngress c frame ip now s)")
  case True
  then have "HandleProbeIngress c frame ip now s = (True, snd (HandleProbeIngress c frame ip now s))"
    by (metis prod.collapse)
  then obtain op where op: "map_of (ops s) (wan_ProbeID frame) = Some op" "\<not> op_used op"
    and s': "snd (HandleProbeIngress c frame ip now s) =
      s \<lparr> ops := AList.update (wan_ProbeID frame) (op \<lparr> op_used := True \<rparr>) (ops s),
          replay := AList.update (wan_ProbeID frame) (now + ProbeReplayWindow) (replay s) \<rparr>"
    unfolding Ingress_accepts by blast
  show ?thesis
  proof (cases "wan_ProbeID frame = x")
    case True
    with con op have "\<not> (now < e \<or> now \<le> d)" by (auto simp: consumed_def)
    then show ?thesis by (simp add: consumed_def)
  next
    case False
    with con show ?thesis unfolding s' by (simp add: consumed_def update_conv')
  qed
qed (simp add: Ingress_rejects con)

lemma consumed_run:
  assumes "probe_run c t0 s0 t s" "agent_inv c s0" "consumed x e d t0 s0"
  shows "t0 \<le> t \<and> consumed x e d t s"
  using assms
proof (induction rule: probe_run.induct)
  case (event t s now ev)
  then have inv: "agent_inv c s" and con: "consumed x e d now s"
    using probe_run_inv consumed_later by blast+
  show ?case
    using event consumed_ArmProbe [OF inv con] consumed_Ingress [OF con] by (cases ev) auto
qed simp

lemma accepted_consumes:
  assumes "HandleProbeIngress c frame ip now s = (True, s')"
    and "map_of (ops s) (wan_ProbeID frame) = Some op"
  shows "consumed (wan_ProbeID frame) (now + ProbeReplayWindow) (op_deadline op) now s'"
  using assms by (auto simp: Ingress_accepts consumed_def update_conv')

section \<open>Where an accepted frame comes from\<close>

text \<open>
  A run as the list of its events, and the identifiers it accepted. \<open>armed_op c es s0 arm deadline used\<close>: an operation with these values was made
  by the arm of the run \<open>es\<close> that the agent answered; while it is unused, no frame for its identifier has been accepted
  since.
\<close>

fun probe_trace :: "crypto \<Rightarrow> (int \<times> probe_event) list \<Rightarrow> ProbeAgent \<Rightarrow> ProbeAgent" where
  "probe_trace c [] s = s"
| "probe_trace c ((now, e) # es) s = probe_trace c es (probe_step c now e s)"

fun accepted_ids :: "crypto \<Rightarrow> (int \<times> probe_event) list \<Rightarrow> ProbeAgent \<Rightarrow> bytes list" where
  "accepted_ids c [] s = []"
| "accepted_ids c ((now, Arm arm) # es) s = accepted_ids c es (probe_step c now (Arm arm) s)"
| "accepted_ids c ((now, Ingress frame ip) # es) s =
     (if fst (HandleProbeIngress c frame ip now s) then [wan_ProbeID frame] else []) @
     accepted_ids c es (probe_step c now (Ingress frame ip) s)"

definition armed_op :: "crypto \<Rightarrow> (int \<times> probe_event) list \<Rightarrow> ProbeAgent \<Rightarrow> ProbeArm \<Rightarrow> int \<Rightarrow> bool \<Rightarrow> bool" where
  "armed_op c es s0 arm deadline used \<longleftrightarrow> arm_Validate arm = Inr () \<and>
     (\<exists>es1 t0 es2. es = es1 @ (t0, Arm arm) # es2 \<and> (\<exists>rdy. fst (ArmProbe c arm t0 (probe_trace c es1 s0)) = Inr rdy) \<and>
        deadline = t0 + int (unat (arm_TTLMS arm)) * 1000000 \<and>
        (\<not> used \<longrightarrow> arm_ProbeID arm \<notin> set (accepted_ids c es2 (probe_trace c (es1 @ [(t0, Arm arm)]) s0))))"

lemma probe_trace_append: "probe_trace c (es1 @ es2) s = probe_trace c es2 (probe_trace c es1 s)"
  by (induction c es1 s rule: probe_trace.induct) simp_all

lemma accepted_ids_append:
  "accepted_ids c (es1 @ es2) s = accepted_ids c es1 s @ accepted_ids c es2 (probe_trace c es1 s)"
  by (induction c es1 s rule: accepted_ids.induct) simp_all

lemma probe_trace_inv: "agent_inv c s \<Longrightarrow> agent_inv c (probe_trace c es s)"
proof (induction c es s rule: probe_trace.induct)
  case (2 c now e es s)
  then show ?case by (cases e) (simp_all add: ArmProbe_inv HandleProbeIngress_inv)
qed simp

lemma ArmProbe_ops:
  assumes "map_of (ops (snd (ArmProbe c arm now s))) pid = Some op" "agent_inv c s"
  shows "map_of (ops s) pid = Some op \<or> pid = arm_ProbeID arm \<and> arm_Validate arm = Inr () \<and>
    (\<exists>rdy. fst (ArmProbe c arm now s) = Inr rdy) \<and>
    op = \<lparr> op_arm = arm, op_digest = arm_Digest c arm, op_deadline = now + int (unat (arm_TTLMS arm)) * 1000000,
      op_used = False \<rparr>"
proof -
  have ins: "map_of (ops s1) pid = Some op \<or> pid = arm_ProbeID arm \<and> (\<exists>rdy. fst (arm_insert c arm now s1) = Inr rdy) \<and>
      op = \<lparr> op_arm = arm, op_digest = arm_Digest c arm, op_deadline = now + int (unat (arm_TTLMS arm)) * 1000000,
        op_used = False \<rparr>"
    if "map_of (ops (snd (arm_insert c arm now s1))) pid = Some op" for s1
    using that by (auto simp: arm_insert_def Let_def update_conv' split: option.splits if_splits)
  have old: "map_of (ops (sweep now s)) pid = Some op \<Longrightarrow> map_of (ops s) pid = Some op" for op
    using sweep_maps(1) [OF assms(2)] by simp
  show ?thesis
  proof (cases "arm_Validate arm")
    case (Inl e)
    with assms(1) show ?thesis by (simp add: ArmProbe_def)
  next
    case (Inr u)
    let ?s = "sweep now s" and ?d = "\<lambda>s. s\<lparr>replay := AList.delete (arm_ProbeID arm) (replay s)\<rparr>"
    have "ArmProbe c arm now s = arm_insert c arm now ?s \<or> ArmProbe c arm now s = arm_insert c arm now (?d ?s) \<or>
        snd (ArmProbe c arm now s) = ?s"
      using Inr by (simp add: ArmProbe_def Let_def split: option.split)
    then show ?thesis
      using assms(1) ins [of ?s] ins [of "?d ?s"] old Inr by auto
  qed
qed

lemma Ingress_ops:
  assumes "map_of (ops (snd (HandleProbeIngress c frame ip now s))) pid = Some op"
  shows "\<exists>op'. map_of (ops s) pid = Some op' \<and> op_arm op = op_arm op' \<and> op_deadline op = op_deadline op' \<and>
    (\<not> op_used op \<longrightarrow> \<not> op_used op' \<and> \<not> (fst (HandleProbeIngress c frame ip now s) \<and> wan_ProbeID frame = pid))"
  using assms by (auto simp: HandleProbeIngress_def update_conv' split: option.splits if_splits)

lemma armed_op_step:
  assumes "armed_op c es s0 arm d used" "\<not> used' \<Longrightarrow> \<not> used"
    and "\<not> used' \<Longrightarrow> arm_ProbeID arm \<notin> set (accepted_ids c [ev] (probe_trace c es s0))"
  shows "armed_op c (es @ [ev]) s0 arm d used'"
proof -
  from assms(1) obtain es1 t0 es2 where h: "es = es1 @ (t0, Arm arm) # es2" "arm_Validate arm = Inr ()"
    "\<exists>rdy. fst (ArmProbe c arm t0 (probe_trace c es1 s0)) = Inr rdy" "d = t0 + int (unat (arm_TTLMS arm)) * 1000000"
    "\<not> used \<Longrightarrow> arm_ProbeID arm \<notin> set (accepted_ids c es2 (probe_trace c (es1 @ [(t0, Arm arm)]) s0))"
    by (auto simp: armed_op_def)
  have "probe_trace c es s0 = probe_trace c es2 (probe_trace c (es1 @ [(t0, Arm arm)]) s0)"
    by (simp add: h(1) probe_trace_append)
  then have "\<not> used' \<Longrightarrow> arm_ProbeID arm \<notin> set (accepted_ids c (es2 @ [ev]) (probe_trace c (es1 @ [(t0, Arm arm)]) s0))"
    using h(5) assms(2,3) by (simp add: accepted_ids_append)
  with h(1-4) show ?thesis unfolding armed_op_def by (intro conjI exI [of _ es1] exI [of _ t0] exI [of _ "es2 @ [ev]"]) auto
qed

lemma ops_armed:
  assumes "agent_inv c s0" "ops s0 = []" "map_of (ops (probe_trace c es s0)) pid = Some op"
  shows "armed_op c es s0 (op_arm op) (op_deadline op) (op_used op)"
  using assms(3)
proof (induction es arbitrary: op rule: rev_induct)
  case (snoc ev es)
  obtain now e where ev: "ev = (now, e)" by (cases ev)
  let ?s = "probe_trace c es s0"
  have inv: "agent_inv c ?s" by (rule probe_trace_inv [OF assms(1)])
  have pid: "arm_ProbeID (op_arm op') = pid" if "map_of (ops ?s) pid = Some op'" for op'
    using inv map_of_SomeD [OF that] by (auto simp: agent_inv_def)
  show ?case
  proof (cases e)
    case (Arm arm)
    with snoc.prems have "map_of (ops (snd (ArmProbe c arm now ?s))) pid = Some op" by (simp add: ev probe_trace_append)
    from ArmProbe_ops [OF this inv] show ?thesis
    proof
      assume "map_of (ops ?s) pid = Some op"
      from snoc.IH [OF this] show ?thesis by (rule armed_op_step) (simp_all add: ev Arm)
    next
      assume "pid = arm_ProbeID arm \<and> arm_Validate arm = Inr () \<and> (\<exists>rdy. fst (ArmProbe c arm now ?s) = Inr rdy) \<and>
        op = \<lparr> op_arm = arm, op_digest = arm_Digest c arm, op_deadline = now + int (unat (arm_TTLMS arm)) * 1000000,
          op_used = False \<rparr>"
      then show ?thesis
        unfolding armed_op_def ev Arm by (intro conjI exI [of _ es] exI [of _ now] exI [of _ "[]"]) simp_all
    qed
  next
    case (Ingress frame ip)
    with snoc.prems have "map_of (ops (snd (HandleProbeIngress c frame ip now ?s))) pid = Some op"
      by (simp add: ev probe_trace_append)
    from Ingress_ops [OF this] obtain op' where op': "map_of (ops ?s) pid = Some op'" "op_arm op = op_arm op'"
      "op_deadline op = op_deadline op'"
      "\<not> op_used op \<longrightarrow> \<not> op_used op' \<and> \<not> (fst (HandleProbeIngress c frame ip now ?s) \<and> wan_ProbeID frame = pid)" by blast
    from snoc.IH [OF op'(1)] have "armed_op c es s0 (op_arm op) (op_deadline op) (op_used op')" by (simp add: op'(2,3))
    then show ?thesis by (rule armed_op_step) (use op'(2,4) pid [OF op'(1)] in \<open>auto simp: ev Ingress\<close>)
  qed
qed (simp add: assms(2))

text \<open>What a provider signs for an arm and a challenge.\<close>

definition provider_bytes :: "crypto \<Rightarrow> ProbeArm \<times> bytes \<Rightarrow> bytes" where
  "provider_bytes c = (\<lambda>(arm, challenge). ProbeMagicWAN @ arm_Digest c arm @ arm_ProbeID arm @ arm_ProviderID arm @
     arm_Activation arm @ [of_nat (length (arm_Endpoint arm))] @ str_bytes (arm_Endpoint arm) @ arm_ExpiryOpaque arm @ challenge)"

lemma frame_agrees:
  assumes "crypto_ok c" "frame_matches c op frame ip" "wan_ProbeID frame = arm_ProbeID (op_arm op)"
    and "op_digest op = arm_Digest c (op_arm op)" "wan_Canonical frame = provider_bytes c (a, ch)"
    and "arm_Canonical a \<in> A" "arm_Canonical (op_arm op) \<in> A" "collision_free c A"
    and "arm_arrays a" "arm_arrays (op_arm op)" "length (arm_Endpoint a) \<le> 255" "length (arm_Endpoint (op_arm op)) \<le> 255"
  shows "a = op_arm op \<and> ch = wan_Challenge frame"
proof -
  have len: "length (arm_Digest c x) = 32" for x using assms(1) by (simp add: arm_Digest_def crypto_ok_def)
  have m: "wan_ArmDigest frame = arm_Digest c (op_arm op)" "wan_ProviderID frame = arm_ProviderID (op_arm op)"
    "wan_Activation frame = arm_Activation (op_arm op)" "wan_Endpoint frame = arm_Endpoint (op_arm op)"
    "wan_ExpiryOpaque frame = arm_ExpiryOpaque (op_arm op)"
    using assms(2,4) by (simp_all add: frame_matches_def)
  have "arm_Digest c a = arm_Digest c (op_arm op)"
    using assms(5) len by (simp add: wan_Canonical_def provider_bytes_def m(1))
  then have "arm_Canonical a = arm_Canonical (op_arm op)"
    using assms(6-8) by (auto simp: arm_Digest_def collision_free_def inj_on_def)
  with assms(9-12) have "a = op_arm op" by (intro arm_Canonical_inj)
  with assms(3,5) m show ?thesis by (simp add: wan_Canonical_def provider_bytes_def)
qed

section \<open>Properties\<close>

text \<open>
  C24. Exactly once: in every run of the agent with non-decreasing times, after a probe identifier has
  been accepted once, no frame for the same identifier is accepted until both the replay window of five
  minutes has elapsed and the deadline of the consumed operation has passed, whatever arms, re-arms and
  frames arrive in between.
\<close>

theorem probe_consumed_once:
  assumes "agent_inv c s"
    and "map_of (ops s) (wan_ProbeID frame) = Some op"
    and "HandleProbeIngress c frame ip t s = (True, s1)"
    and "probe_run c t s1 t2 s2" "t2 \<le> t'"
    and "HandleProbeIngress c frame' ip' t' s2 = (True, s3)"
    and "wan_ProbeID frame' = wan_ProbeID frame"
  shows "t + ProbeReplayWindow \<le> t' \<and> op_deadline op < t'"
proof -
  let ?c = "consumed (wan_ProbeID frame) (t + ProbeReplayWindow) (op_deadline op)"
  have "agent_inv c s1" using HandleProbeIngress_inv [OF assms(1), of frame ip t] assms(3) by simp
  then have "?c t2 s2"
    using consumed_run [OF assms(4)] accepted_consumes [OF assms(3,2)] by blast
  then have "?c t' s2" using assms(5) by (rule consumed_later)
  with assms(6,7) show ?thesis by (auto simp: Ingress_accepts consumed_def not_less)
qed

text \<open>
  C25. Bounded state: an agent that starts empty never holds more than 1024 operations, whatever the
  sequence of arms and frames; each operation it holds is a valid arm stored under its own identifier
  with its own digest.
\<close>

theorem probe_state_bounded:
  assumes "probe_run c t0 (NewProbeAgent key) t s"
  shows "length (ops s) \<le> 1024 \<and> distinct (map fst (ops s)) \<and>
    (\<forall>(pid, op) \<in> set (ops s). arm_ProbeID (op_arm op) = pid \<and> arm_Validate (op_arm op) = Inr () \<and>
       op_digest op = arm_Digest c (op_arm op))"
  using probe_run_inv [OF assms NewProbeAgent_inv] by (simp add: agent_inv_def ProbeOpMax_def)

text \<open>
  C26. An accepted frame agrees with the arm and the provider. Take any run of an agent that starts empty, with any arms,
  re-arms and frames at any times, and a frame that it accepts at the end. Then the run contains an arm that the agent
  answered, with this identifier, this source address and this digest, whose time to live has not passed, and no frame
  for the identifier has been accepted since that arm. Suppose further that, among the signatures seen, the key pinned by
  the arm verifies only frames that its provider signed for the arms and challenges it was asked to probe, and that the
  hash separates these arms. Then the provider was asked to probe exactly this arm with exactly this challenge.
\<close>

theorem probe_ingress_agreement:
  assumes "HandleProbeIngress c frame ip t (probe_trace c es (NewProbeAgent key)) = (True, s')"
  shows "\<exists>es1 t0 arm es2. es = es1 @ (t0, Arm arm) # es2 \<and>
    (\<exists>rdy. fst (ArmProbe c arm t0 (probe_trace c es1 (NewProbeAgent key))) = Inr rdy) \<and>
    arm_ProbeID arm = wan_ProbeID frame \<and> arm_ExpectedSourceIP arm = ip \<and> arm_Digest c arm = wan_ArmDigest frame \<and>
    t \<le> t0 + int (unat (arm_TTLMS arm)) * 1000000 \<and>
    wan_ProbeID frame \<notin> set (accepted_ids c es2 (probe_trace c (es1 @ [(t0, Arm arm)]) (NewProbeAgent key))) \<and>
    (\<forall>asked seen. crypto_ok c \<longrightarrow> unforgeable c (arm_ProviderPublicKey arm) (provider_bytes c ` asked) seen \<longrightarrow>
       (wan_Canonical frame, wan_Signature frame) \<in> seen \<longrightarrow>
       collision_free c (arm_Canonical ` insert arm (fst ` asked)) \<longrightarrow>
       (\<forall>a \<in> insert arm (fst ` asked). arm_arrays a \<and> length (arm_Endpoint a) \<le> 255) \<longrightarrow>
       (arm, wan_Challenge frame) \<in> asked)"
proof -
  let ?s0 = "NewProbeAgent key"
  note inv = probe_trace_inv [OF NewProbeAgent_inv, of c es key]
  from assms obtain op where op: "map_of (ops (probe_trace c es ?s0)) (wan_ProbeID frame) = Some op" "\<not> op_used op"
    "t \<le> op_deadline op" "frame_matches c op frame ip" unfolding Ingress_accepts by blast
  have id: "arm_ProbeID (op_arm op) = wan_ProbeID frame" "op_digest op = arm_Digest c (op_arm op)"
    using inv map_of_SomeD [OF op(1)] by (auto simp: agent_inv_def)
  have "armed_op c es ?s0 (op_arm op) (op_deadline op) (op_used op)"
    using op(1) by (intro ops_armed [OF NewProbeAgent_inv]) (simp_all add: NewProbeAgent_def)
  with op(2) obtain es1 t0 es2 where tr: "es = es1 @ (t0, Arm (op_arm op)) # es2"
    "\<exists>rdy. fst (ArmProbe c (op_arm op) t0 (probe_trace c es1 ?s0)) = Inr rdy"
    "op_deadline op = t0 + int (unat (arm_TTLMS (op_arm op))) * 1000000"
    "arm_ProbeID (op_arm op) \<notin> set (accepted_ids c es2 (probe_trace c (es1 @ [(t0, Arm (op_arm op))]) ?s0))"
    unfolding armed_op_def by blast
  have v: "Verify c (arm_ProviderPublicKey (op_arm op)) (wan_Canonical frame) (wan_Signature frame)"
    using op(4) by (simp add: frame_matches_def wan_SigningBytes_def)
  have "(op_arm op, wan_Challenge frame) \<in> asked"
    if "crypto_ok c" and u: "unforgeable c (arm_ProviderPublicKey (op_arm op)) (provider_bytes c ` asked) seen"
      "(wan_Canonical frame, wan_Signature frame) \<in> seen"
      and cf: "collision_free c (arm_Canonical ` insert (op_arm op) (fst ` asked))"
      and arr: "\<forall>a \<in> insert (op_arm op) (fst ` asked). arm_arrays a \<and> length (arm_Endpoint a) \<le> 255" for asked seen
  proof -
    obtain a ch where a: "(a, ch) \<in> asked" "wan_Canonical frame = provider_bytes c (a, ch)"
      using Verify_unforgeable [OF u v] by auto
    then have "a \<in> insert (op_arm op) (fst ` asked)" by force
    with frame_agrees [OF that(1) op(4) id(1) [symmetric] id(2) a(2) _ _ cf] arr a(1) show ?thesis by blast
  qed
  moreover have "arm_ExpectedSourceIP (op_arm op) = ip" "arm_Digest c (op_arm op) = wan_ArmDigest frame"
    using op(4) id(2) by (simp_all add: frame_matches_def)
  ultimately show ?thesis
    using tr op(3) id(1) by (intro exI [of _ es1] exI [of _ t0] exI [of _ "op_arm op"] exI [of _ es2]) simp
qed

section \<open>The join\<close>

text \<open>What the agent signs for a probe: the armed response, the acknowledgement and the receipt.\<close>

definition rdy_bytes :: "crypto \<Rightarrow> ProbeArm \<Rightarrow> bytes" where
  "rdy_bytes c arm = ProbeMagicArmed @ arm_Digest c arm"

definition ack_bytes :: "crypto \<Rightarrow> ProbeArm \<Rightarrow> bytes \<Rightarrow> bytes" where
  "ack_bytes c arm challenge = ProbeMagicACK @ arm_Digest c arm @ sha256 c challenge"

definition rct_bytes :: "crypto \<Rightarrow> ProbeArm \<Rightarrow> bytes \<Rightarrow> bytes" where
  "rct_bytes c arm challenge = ProbeMagicReceipt @ arm_Digest c arm @ sha256 c challenge @ arm_ProviderID arm"

definition node_signed :: "crypto \<Rightarrow> ProbeArm set \<Rightarrow> (ProbeArm \<times> bytes) set \<Rightarrow> bytes set" where
  "node_signed c armed answered =
     rdy_bytes c ` armed \<union> (\<lambda>(a, ch). ack_bytes c a ch) ` answered \<union> (\<lambda>(a, ch). rct_bytes c a ch) ` answered"

lemma magics_differ:
  "ProbeMagicArmed \<noteq> ProbeMagicACK" "ProbeMagicReceipt \<noteq> ProbeMagicACK"
  "length ProbeMagicArmed = 4" "length ProbeMagicACK = 4" "length ProbeMagicReceipt = 4"
  by simp_all

lemma ack_bytes_signed:
  assumes "crypto_ok c" "ack_bytes c arm ch \<in> node_signed c armed answered"
  shows "\<exists>(a, ch') \<in> answered. arm_Digest c a = arm_Digest c arm \<and> sha256 c ch' = sha256 c ch"
proof -
  have len: "length (arm_Digest c a) = 32" for a
    using assms(1) by (simp add: arm_Digest_def crypto_ok_def)
  from assms(2) consider a where "ack_bytes c arm ch = rdy_bytes c a"
    | a ch' where "(a, ch') \<in> answered" "ack_bytes c arm ch = ack_bytes c a ch'"
    | a ch' where "ack_bytes c arm ch = rct_bytes c a ch'"
    by (auto simp: node_signed_def)
  then show ?thesis
  proof cases
    case 1
    then have "ProbeMagicACK = ProbeMagicArmed"
      by (metis ack_bytes_def rdy_bytes_def append_eq_append_conv magics_differ(3,4))
    then show ?thesis using magics_differ(1) by simp
  next
    case 2
    then show ?thesis using len by (auto simp: ack_bytes_def intro!: bexI [of _ "(a, ch')"])
  next
    case 3
    then have "ProbeMagicACK = ProbeMagicReceipt"
      by (metis ack_bytes_def rct_bytes_def append_eq_append_conv magics_differ(4,5))
    then show ?thesis using magics_differ(2) by simp
  qed
qed

text \<open>
  C27. The controller's join is sound: suppose the node's key verifies, among the signatures seen, only
  what the node signed (armed responses, acknowledgements and receipts), and the hash separates the arms
  and the challenges involved. If the join succeeds, then the node did answer this very challenge for
  this very arm, and the provider key pinned by the arm verifies the frame.
\<close>

theorem VerifyProbeJoin_sound:
  assumes "crypto_ok c"
    and "VerifyProbeJoin c arm frame ack receipt nodePub"
    and "unforgeable c nodePub (node_signed c armed answered) seen"
    and "(ack_SigningBytes ack, ack_Signature ack) \<in> seen"
    and "collision_free c (insert (arm_Canonical arm) (arm_Canonical ` fst ` answered))"
    and "collision_free c (insert (wan_Challenge frame) (snd ` answered))"
    and "\<forall>a \<in> insert arm (fst ` answered). arm_arrays a \<and> length (arm_Endpoint a) \<le> 255"
  shows "(arm, wan_Challenge frame) \<in> answered \<and>
    Verify c (arm_ProviderPublicKey arm) (wan_Canonical frame) (wan_Signature frame)"
proof -
  from assms(2) have j: "Verify c nodePub (ack_SigningBytes ack) (ack_Signature ack)"
    "ack_SigningBytes ack = ack_bytes c arm (wan_Challenge frame)"
    "Verify c (arm_ProviderPublicKey arm) (wan_Canonical frame) (wan_Signature frame)"
    by (auto simp: VerifyProbeJoin_def Let_def ack_SigningBytes_def ack_bytes_def wan_SigningBytes_def
        wan_ChallengeHash_def split: sum.splits if_splits)
  from Verify_unforgeable [OF assms(3,4) j(1)] j(2)
  have "ack_bytes c arm (wan_Challenge frame) \<in> node_signed c armed answered" by simp
  from ack_bytes_signed [OF assms(1) this] obtain a ch where a: "(a, ch) \<in> answered"
    "sha256 c (arm_Canonical a) = sha256 c (arm_Canonical arm)" "sha256 c ch = sha256 c (wan_Challenge frame)"
    by (auto simp: arm_Digest_def)
  have "arm_Canonical a = arm_Canonical arm"
    using assms(5) a by (force simp: collision_free_def inj_on_def)
  then have "a = arm" using assms(7) a by (force intro: arm_Canonical_inj)
  moreover have "ch = wan_Challenge frame"
    using assms(6) a by (force simp: collision_free_def inj_on_def)
  ultimately show ?thesis using a j by simp
qed

section \<open>The honest exchange\<close>

definition honest_frame :: "crypto \<Rightarrow> ProbeArm \<Rightarrow> bytes \<Rightarrow> bytes \<Rightarrow> ProviderFrame" where
  "honest_frame c arm challenge priv =
     (let f = \<lparr> wan_ArmDigest = arm_Digest c arm, wan_ProbeID = arm_ProbeID arm,
                wan_ProviderID = arm_ProviderID arm, wan_Activation = arm_Activation arm,
                wan_Endpoint = arm_Endpoint arm, wan_ExpiryOpaque = arm_ExpiryOpaque arm,
                wan_Challenge = challenge, wan_Signature = [] \<rparr>
      in f \<lparr> wan_Signature := ed_sign c priv (wan_Canonical f) \<rparr>)"

definition honest_ack :: "crypto \<Rightarrow> ProbeArm \<Rightarrow> bytes \<Rightarrow> bytes \<Rightarrow> ProbeACK" where
  "honest_ack c arm challenge priv =
     \<lparr> ack_ArmDigest = arm_Digest c arm, ack_ChallengeHash = sha256 c challenge,
       ack_Signature = ed_sign c priv (ack_bytes c arm challenge) \<rparr>"

definition honest_receipt :: "crypto \<Rightarrow> ProbeArm \<Rightarrow> bytes \<Rightarrow> bytes \<Rightarrow> ProbeReceipt" where
  "honest_receipt c arm challenge priv =
     \<lparr> rct_ArmDigest = arm_Digest c arm, rct_ChallengeHash = sha256 c challenge,
       rct_ProviderID = arm_ProviderID arm,
       rct_Signature = ed_sign c priv (rct_bytes c arm challenge) \<rparr>"

lemma honest_frame_simps [simp]:
  "wan_ArmDigest (honest_frame c arm ch k) = arm_Digest c arm"
  "wan_ProbeID (honest_frame c arm ch k) = arm_ProbeID arm"
  "wan_ProviderID (honest_frame c arm ch k) = arm_ProviderID arm"
  "wan_Activation (honest_frame c arm ch k) = arm_Activation arm"
  "wan_Endpoint (honest_frame c arm ch k) = arm_Endpoint arm"
  "wan_ExpiryOpaque (honest_frame c arm ch k) = arm_ExpiryOpaque arm"
  "wan_Challenge (honest_frame c arm ch k) = ch"
  by (simp_all add: honest_frame_def Let_def)

lemma Verify_ed_sign:
  assumes "crypto_ok c" "length seed = 32"
  shows "Verify c (ed_public c seed) m (ed_sign c (new_key_from_seed c seed) m)"
  using Sign_Verify [OF assms, of m] length_new_key [OF assms] by (simp add: Sign_def)

lemma honest_frame_verifies:
  assumes "crypto_ok c" "length seed = 32"
  shows "Verify c (ed_public c seed) (wan_SigningBytes (honest_frame c arm ch (new_key_from_seed c seed)))
    (wan_Signature (honest_frame c arm ch (new_key_from_seed c seed)))"
  using Verify_ed_sign [OF assms]
  by (simp add: honest_frame_def Let_def wan_SigningBytes_def wan_Canonical_def)

lemma ArmProbe_fresh:
  assumes "arm_Validate arm = Inr ()" "map_of (ops (sweep now s)) (arm_ProbeID arm) = None"
    and "map_of (replay (sweep now s)) (arm_ProbeID arm) = None" "length (ops (sweep now s)) < ProbeOpMax"
  shows "\<exists>s1. ArmProbe c arm now s = (Inr (signArmed c s (arm_Digest c arm)), s1) \<and> nodeKey s1 = nodeKey s \<and>
    map_of (ops s1) (arm_ProbeID arm) = Some \<lparr> op_arm = arm, op_digest = arm_Digest c arm,
      op_deadline = now + int (unat (arm_TTLMS arm)) * 1000000, op_used = False \<rparr>"
  using assms
  by (simp add: ArmProbe_def arm_insert_def Let_def update_conv' signArmed_def sweep_def)

lemma honest_join:
  assumes "crypto_ok c" "length pseed = 32" "length nseed = 32"
    and "arm_Validate arm = Inr ()" "arm_ProviderPublicKey arm = ed_public c pseed"
  shows "VerifyProbeJoin c arm (honest_frame c arm ch (new_key_from_seed c pseed))
    (honest_ack c arm ch (new_key_from_seed c nseed)) (honest_receipt c arm ch (new_key_from_seed c nseed))
    (ed_public c nseed)"
  using honest_frame_verifies [OF assms(1,2), of arm ch] Verify_ed_sign [OF assms(1,3)] assms(4,5)
  by (simp add: VerifyProbeJoin_def honest_ack_def honest_receipt_def ack_SigningBytes_def
      rct_SigningBytes_def ack_bytes_def rct_bytes_def wan_ChallengeHash_def)

lemma signArmed_verifies:
  assumes "crypto_ok c" "length nseed = 32" "nodeKey s = new_key_from_seed c nseed" "length d = 32"
  shows "ParseProbeArmed c (rdy_SigningBytes (signArmed c s d) @ rdy_Signature (signArmed c s d))
    (ed_public c nseed) d = Inr (signArmed c s d)"
  unfolding ParseProbeArmed_iff
  using assms Verify_ed_sign [OF assms(1,2)] length_new_key [OF assms(1,2)]
  by (simp add: signArmed_def Let_def Sign_def rdy_SigningBytes_def)

lemma honest_ingress:
  assumes "crypto_ok c" "length pseed = 32" "arm_ProviderPublicKey arm = ed_public c pseed"
    and "map_of (ops s) (arm_ProbeID arm) = Some op" "op_arm op = arm" "op_digest op = arm_Digest c arm"
    and "\<not> op_used op" "t \<le> op_deadline op"
  shows "fst (HandleProbeIngress c (honest_frame c arm ch (new_key_from_seed c pseed))
    (arm_ExpectedSourceIP arm) t s)"
  using honest_frame_verifies [OF assms(1,2), of arm ch] assms(3-8)
  by (simp add: HandleProbeIngress_def frame_matches_def)

text \<open>
  C28. The honest exchange completes: an agent with room and no live entry for the identifier arms a
  valid arm and returns an armed response that the controller's parser accepts for that arm; a frame
  signed by the pinned provider that arrives from the expected address before the deadline is accepted;
  and the controller's join of that frame with the node's acknowledgement and receipt succeeds.
\<close>

theorem probe_flow_complete:
  assumes "crypto_ok c" "length pseed = 32" "length nseed = 32"
    and "arm_Validate arm = Inr ()" "arm_ProviderPublicKey arm = ed_public c pseed"
    and "nodeKey s = new_key_from_seed c nseed"
    and "map_of (ops (sweep now s)) (arm_ProbeID arm) = None"
    and "map_of (replay (sweep now s)) (arm_ProbeID arm) = None" "length (ops (sweep now s)) < ProbeOpMax"
    and "t \<le> now + int (unat (arm_TTLMS arm)) * 1000000"
  shows "\<exists>rdy s1. ArmProbe c arm now s = (Inr rdy, s1) \<and>
    ParseProbeArmed c (rdy_SigningBytes rdy @ rdy_Signature rdy) (ed_public c nseed) (arm_Digest c arm) = Inr rdy \<and>
    fst (HandleProbeIngress c (honest_frame c arm ch (new_key_from_seed c pseed))
      (arm_ExpectedSourceIP arm) t s1) \<and>
    VerifyProbeJoin c arm (honest_frame c arm ch (new_key_from_seed c pseed))
      (honest_ack c arm ch (new_key_from_seed c nseed)) (honest_receipt c arm ch (new_key_from_seed c nseed))
      (ed_public c nseed)"
proof -
  from ArmProbe_fresh [OF assms(4,7,8,9), of c] obtain s1 where
    a: "ArmProbe c arm now s = (Inr (signArmed c s (arm_Digest c arm)), s1)"
    and op: "map_of (ops s1) (arm_ProbeID arm) = Some \<lparr> op_arm = arm, op_digest = arm_Digest c arm,
      op_deadline = now + int (unat (arm_TTLMS arm)) * 1000000, op_used = False \<rparr>"
    by blast
  have "length (arm_Digest c arm) = 32" using assms(1) by (simp add: arm_Digest_def crypto_ok_def)
  with a show ?thesis
    using honest_ingress [OF assms(1,2,5) op, of t ch] assms(10)
      honest_join [OF assms(1-5), of ch] signArmed_verifies [OF assms(1,3,6), of "arm_Digest c arm"]
    by simp
qed

section \<open>Witnesses\<close>

definition demo_arm :: ProbeArm where
  "demo_arm = \<lparr> arm_ProbeID = replicate 16 1, arm_ProviderID = replicate 16 2,
     arm_ProviderPublicKey = ed_public demo_crypto demo_seed, arm_ExpectedSourceIP = [8, 8, 4, 4],
     arm_Activation = replicate 16 3, arm_Endpoint = AddrPort_String (V4 8 8 4 4) 443, arm_TTLMS = 1,
     arm_ExpiryOpaque = replicate 16 4 \<rparr>"

definition demo_agent :: ProbeAgent where
  "demo_agent = NewProbeAgent (new_key_from_seed demo_crypto demo_seed)"

lemma demo_global: "IsGlobalEndpoint (V4 8 8 4 4)"
  by (simp add: IsGlobalEndpoint_def ClassifyIP_def v4_classes classifyIPv4_def)

lemma dec_443: "dec 443 = ''443''" "dec 8 = ''8''" "dec 4 = ''4''"
  by (simp_all add: dec_small char_of_def bit_Suc_0_iff)

lemma demo_endpoint: "ValidateProbeEndpoint (AddrPort_String (V4 8 8 4 4) 443)"
  "length (AddrPort_String (V4 8 8 4 4) 443) = 11"
proof -
  show "length (AddrPort_String (V4 8 8 4 4) 443) = 11"
    by (simp add: dec_443)
  have "split_literal (AddrPort_String (V4 8 8 4 4) 443) = Inr (V4 8 8 4 4, dec (unat (443 :: u16)))"
    by (rule split_literal_AddrPort_String)
  moreover have "check_port (dec (unat (443 :: u16))) = Inr (int (unat (443 :: u16)))"
    by (rule check_port_dec) simp
  ultimately show "ValidateProbeEndpoint (AddrPort_String (V4 8 8 4 4) 443)"
    using demo_global
    by (auto simp: ValidateProbeEndpoint_def ProbeEndpointMax_def dec_443 split_literal_Inr check_port_Inr
        simp del: AddrPort_String.simps) (simp_all add: dec_443)
qed

lemma demo_arm_ok: "arm_Validate demo_arm = Inr ()" "arm_arrays demo_arm"
  "arm_ProviderPublicKey demo_arm = ed_public demo_crypto demo_seed"
  using demo_endpoint demo_crypto_ok
  by (simp_all add: arm_Validate_iff demo_arm_def arm_arrays_def ProbeTTLMax_ms_def crypto_ok_def
      replicate_numeral del: AddrPort_String.simps)

definition demo_challenge :: bytes where "demo_challenge = replicate 32 9"

abbreviation demo_key :: bytes where "demo_key \<equiv> new_key_from_seed demo_crypto demo_seed"

abbreviation demo_frame :: ProviderFrame where
  "demo_frame \<equiv> honest_frame demo_crypto demo_arm demo_challenge demo_key"

lemma demo_fresh:
  "nodeKey demo_agent = demo_key" "map_of (ops (sweep now demo_agent)) k = None"
  "map_of (replay (sweep now demo_agent)) k = None" "length (ops (sweep now demo_agent)) < ProbeOpMax"
  by (simp_all add: demo_agent_def NewProbeAgent_def sweep_def ProbeOpMax_def)

theorem probe_flow_complete_witness:
  "\<exists>rdy s1. ArmProbe demo_crypto demo_arm 0 demo_agent = (Inr rdy, s1) \<and>
     fst (HandleProbeIngress demo_crypto demo_frame [8, 8, 4, 4] 0 s1)"
proof -
  have "(0 :: int) \<le> 0 + int (unat (arm_TTLMS demo_arm)) * 1000000" by simp
  moreover have "arm_ExpectedSourceIP demo_arm = [8, 8, 4, 4]" by (simp add: demo_arm_def)
  ultimately show ?thesis
    using probe_flow_complete [OF demo_crypto_ok(1,2,2) demo_arm_ok(1,3) demo_fresh, of 0 0 demo_challenge]
    by auto
qed

theorem VerifyProbeJoin_sound_witness:
  "VerifyProbeJoin demo_crypto demo_arm demo_frame (honest_ack demo_crypto demo_arm demo_challenge demo_key)
     (honest_receipt demo_crypto demo_arm demo_challenge demo_key) (ed_public demo_crypto demo_seed) \<and>
   (demo_arm, demo_challenge) \<in> {(demo_arm, demo_challenge)}"
proof -
  let ?ack = "honest_ack demo_crypto demo_arm demo_challenge demo_key"
  let ?seen = "{(ack_SigningBytes ?ack, ack_Signature ?ack)}" and ?ans = "{(demo_arm, demo_challenge)}"
  have j: "VerifyProbeJoin demo_crypto demo_arm demo_frame ?ack
      (honest_receipt demo_crypto demo_arm demo_challenge demo_key) (ed_public demo_crypto demo_seed)"
    by (rule honest_join [OF demo_crypto_ok(1,2,2) demo_arm_ok(1,3)])
  have u: "unforgeable demo_crypto (ed_public demo_crypto demo_seed) (node_signed demo_crypto {} ?ans) ?seen"
    by (simp add: unforgeable_def node_signed_def honest_ack_def ack_SigningBytes_def ack_bytes_def)
  have "collision_free demo_crypto (insert (arm_Canonical demo_arm) (arm_Canonical ` fst ` ?ans))"
    "collision_free demo_crypto (insert (wan_Challenge demo_frame) (snd ` ?ans))"
    "\<forall>a \<in> insert demo_arm (fst ` ?ans). arm_arrays a \<and> length (arm_Endpoint a) \<le> 255"
    using demo_arm_ok by (simp_all add: collision_free_def arm_Validate_iff)
  from VerifyProbeJoin_sound [OF demo_crypto_ok(1) j u _ this] j show ?thesis by simp
qed

theorem probe_state_bounded_witness:
  "probe_run demo_crypto 0 demo_agent 5 (probe_step demo_crypto 5 (Arm demo_arm) demo_agent) \<and>
   length (ops (probe_step demo_crypto 5 (Arm demo_arm) demo_agent)) \<le> 1024"
proof -
  have "probe_run demo_crypto 0 demo_agent 5 (probe_step demo_crypto 5 (Arm demo_arm) demo_agent)"
    by (rule probe_run.event [OF probe_run.start]) simp
  with probe_state_bounded [of demo_crypto 0 demo_key 5] show ?thesis
    unfolding demo_agent_def by blast
qed

theorem probe_consumed_once_witness:
  "\<exists>s s1 s2 s3. HandleProbeIngress demo_crypto demo_frame [8, 8, 4, 4] 0 s = (True, s1) \<and>
     probe_run demo_crypto 0 s1 300000000000 s2 \<and>
     HandleProbeIngress demo_crypto demo_frame [8, 8, 4, 4] 300000000000 s2 = (True, s3) \<and>
     0 + ProbeReplayWindow \<le> 300000000000"
proof -
  let ?T = "300000000000 :: int" and ?pid = "arm_ProbeID demo_arm"
  let ?op = "\<lparr> op_arm = demo_arm, op_digest = arm_Digest demo_crypto demo_arm, op_deadline = 1000000,
      op_used = False \<rparr>"
  note accept = honest_ingress [OF demo_crypto_ok(1,2) demo_arm_ok(3), where ch = demo_challenge]
  have ip: "arm_ExpectedSourceIP demo_arm = [8, 8, 4, 4]" and ttl: "arm_TTLMS demo_arm = 1"
    by (simp_all add: demo_arm_def)
  define s where "s = demo_agent \<lparr> ops := [(?pid, ?op)] \<rparr>"
  define s1 where "s1 = demo_agent \<lparr> ops := [(?pid, ?op \<lparr> op_used := True \<rparr>)], replay := [(?pid, ?T)] \<rparr>"
  have inv: "agent_inv demo_crypto s"
    using demo_arm_ok by (simp add: s_def agent_inv_def demo_agent_def NewProbeAgent_def ProbeOpMax_def)
  have op: "map_of (ops s) (wan_ProbeID demo_frame) = Some ?op" by (simp add: s_def)
  have "fst (HandleProbeIngress demo_crypto demo_frame [8, 8, 4, 4] 0 s)"
    using accept [of s ?op 0] op by (simp add: ip)
  then have a1: "HandleProbeIngress demo_crypto demo_frame [8, 8, 4, 4] 0 s = (True, s1)"
    by (auto simp: HandleProbeIngress_def s_def s1_def demo_agent_def NewProbeAgent_def
        ProbeReplayWindow_def split: if_splits)
  have "map_of (ops (sweep ?T s1)) ?pid = None" "map_of (replay (sweep ?T s1)) ?pid = None"
    "length (ops (sweep ?T s1)) < ProbeOpMax"
    by (simp_all add: s1_def sweep_def ProbeOpMax_def)
  from ArmProbe_fresh [OF demo_arm_ok(1) this, of demo_crypto] obtain s2 where
    s2: "probe_step demo_crypto ?T (Arm demo_arm) s1 = s2"
    "map_of (ops s2) ?pid = Some (?op \<lparr> op_deadline := ?T + 1000000 \<rparr>)"
    by (auto simp: ttl)
  have r: "probe_run demo_crypto 0 s1 ?T s2"
    using probe_run.event [OF probe_run.start, of 0 ?T demo_crypto s1 "Arm demo_arm"] s2(1) by simp
  have "fst (HandleProbeIngress demo_crypto demo_frame [8, 8, 4, 4] ?T s2)"
    using accept [OF s2(2)] by (simp add: ip)
  then obtain s3 where a3: "HandleProbeIngress demo_crypto demo_frame [8, 8, 4, 4] ?T s2 = (True, s3)"
    by (metis prod.collapse)
  from probe_consumed_once [OF inv op a1 r _ a3] a1 r a3 show ?thesis by blast
qed

theorem probe_ingress_agreement_witness:
  "\<exists>es1 t0 es2 s'. HandleProbeIngress demo_crypto demo_frame [8, 8, 4, 4] 0
      (probe_trace demo_crypto [(0, Arm demo_arm)] demo_agent) = (True, s') \<and> [(0, Arm demo_arm)] = es1 @ (t0, Arm demo_arm) # es2 \<and>
     wan_ProbeID demo_frame \<notin> set (accepted_ids demo_crypto es2 (probe_trace demo_crypto (es1 @ [(t0, Arm demo_arm)]) demo_agent)) \<and>
     (demo_arm, wan_Challenge demo_frame) \<in> {(demo_arm, demo_challenge)}"
proof -
  let ?asked = "{(demo_arm, demo_challenge)}" and ?es = "[(0 :: int, Arm demo_arm)]"
  let ?seen = "{(wan_Canonical demo_frame, wan_Signature demo_frame)}"
  note op = ArmProbe_fresh [OF demo_arm_ok(1) demo_fresh(2-4), of demo_crypto 0]
  have ip: "arm_ExpectedSourceIP demo_arm = [8, 8, 4, 4]" by (simp add: demo_arm_def)
  have "fst (HandleProbeIngress demo_crypto demo_frame [8, 8, 4, 4] 0 (probe_trace demo_crypto ?es demo_agent))"
    using op honest_ingress [OF demo_crypto_ok(1,2) demo_arm_ok(3), where ch = demo_challenge] by (auto simp: ip)
  then obtain s' where acc: "HandleProbeIngress demo_crypto demo_frame [8, 8, 4, 4] 0
      (probe_trace demo_crypto ?es demo_agent) = (True, s')" by (metis prod.collapse)
  have u: "unforgeable demo_crypto (arm_ProviderPublicKey demo_arm) (provider_bytes demo_crypto ` ?asked) ?seen"
    by (simp add: unforgeable_def provider_bytes_def wan_Canonical_def)
  have h: "collision_free demo_crypto (arm_Canonical ` insert demo_arm (fst ` ?asked))"
    "\<forall>a \<in> insert demo_arm (fst ` ?asked). arm_arrays a \<and> length (arm_Endpoint a) \<le> 255"
    using demo_arm_ok by (simp_all add: collision_free_def arm_Validate_iff)
  obtain es1 t0 arm es2 where r: "?es = es1 @ (t0, Arm arm) # es2"
    "wan_ProbeID demo_frame \<notin> set (accepted_ids demo_crypto es2 (probe_trace demo_crypto (es1 @ [(t0, Arm arm)]) demo_agent))"
    "unforgeable demo_crypto (arm_ProviderPublicKey arm) (provider_bytes demo_crypto ` ?asked) ?seen \<longrightarrow>
      collision_free demo_crypto (arm_Canonical ` insert arm (fst ` ?asked)) \<longrightarrow>
      (\<forall>a \<in> insert arm (fst ` ?asked). arm_arrays a \<and> length (arm_Endpoint a) \<le> 255) \<longrightarrow>
      (arm, wan_Challenge demo_frame) \<in> ?asked"
    using probe_ingress_agreement [OF acc [unfolded demo_agent_def]] demo_crypto_ok(1) unfolding demo_agent_def by blast
  have "arm = demo_arm" using r(1) by (auto simp: Cons_eq_append_conv)
  with acc r u h show ?thesis by blast
qed

end
