(* ===== verification/Stun_Message.thy ===== *)
theory Stun_Message
  imports Netip
begin

text \<open>
  \<^verbatim>\<open>src/internal/traversal/stun/message.go\<close>: the bounded STUN message codec (RFC 8489).

  A message is its type, transaction id, attributes in wire order and, when it was parsed, the exact
  wire bytes (\<open>m_raw\<close>, empty for a message under construction). The attribute loop of \<open>ParseMessage\<close>
  re-slices the rest of the buffer; a re-slice out of range would panic in Go and is the error
  \<open>SlicePanic\<close> here. \<open>(n + 3) &^ 3\<close> on a Go int is the next multiple of four, \<open>pad4\<close>.

  HMAC-SHA1 is a parameter (of which only the digest length is used); CRC-32 is written out.
\<close>

unbundle bit_operations_syntax

datatype stun_error = ErrTruncated | ErrMalformed | ErrBadCookie | ErrOversize | ErrNoIntegrity
  | ErrNoFingerprint | ErrUnknownFamily | ErrDuplicateAddressAttr | ErrorCodeRange
  | AlreadyIntegrity | AlreadyFingerprint | SlicePanic

abbreviation MagicCookie :: u32 where "MagicCookie \<equiv> 0x2112A442"
abbreviation HeaderSize :: nat where "HeaderSize \<equiv> 20"
abbreviation MaxMessageSize :: nat where "MaxMessageSize \<equiv> 65535"
abbreviation fingerprintXor :: u32 where "fingerprintXor \<equiv> 0x5354554E"
abbreviation integrityLength :: nat where "integrityLength \<equiv> 20"

section \<open>Message types\<close>

definition mt_Method :: "u16 \<Rightarrow> u16" where
  "mt_Method v = (v AND 0x000F) OR (drop_bit 1 v AND 0x0070) OR (drop_bit 2 v AND 0x0F80)"

definition mt_Class :: "u16 \<Rightarrow> u8" where
  "mt_Class v = ucast ((drop_bit 7 v AND 0x2) OR (drop_bit 4 v AND 0x1))"

definition NewMessageType :: "u16 \<Rightarrow> u8 \<Rightarrow> u16" where
  "NewMessageType m class =
     (let c = ucast class :: u16 in
      (m AND 0x000F) OR push_bit 1 (m AND 0x0070) OR push_bit 2 (m AND 0x0F80) OR
      push_bit 7 (c AND 0x2) OR push_bit 4 (c AND 0x1))"

abbreviation MessageTypeBindingRequest :: u16 where "MessageTypeBindingRequest \<equiv> 0x0001"
abbreviation MessageTypeBindingError :: u16 where "MessageTypeBindingError \<equiv> 0x0111"

abbreviation AttrMappedAddress :: u16 where "AttrMappedAddress \<equiv> 0x0001"
abbreviation AttrUsername :: u16 where "AttrUsername \<equiv> 0x0006"
abbreviation AttrMessageIntegrity :: u16 where "AttrMessageIntegrity \<equiv> 0x0008"
abbreviation AttrErrorCode :: u16 where "AttrErrorCode \<equiv> 0x0009"
abbreviation AttrUnknownAttributes :: u16 where "AttrUnknownAttributes \<equiv> 0x000A"
abbreviation AttrXORMappedAddress :: u16 where "AttrXORMappedAddress \<equiv> 0x0020"
abbreviation AttrAlternateServer :: u16 where "AttrAlternateServer \<equiv> 0x0023"
abbreviation AttrPriority :: u16 where "AttrPriority \<equiv> 0x0024"
abbreviation AttrSoftware :: u16 where "AttrSoftware \<equiv> 0x8022"
abbreviation AttrIceControlled :: u16 where "AttrIceControlled \<equiv> 0x8029"
abbreviation AttrFingerprint :: u16 where "AttrFingerprint \<equiv> 0x8028"

definition comprehensionRequired :: "u16 \<Rightarrow> bool" where
  "comprehensionRequired t \<longleftrightarrow> t AND 0x8000 = 0"

definition attr_known :: "u16 \<Rightarrow> bool" where
  "attr_known t \<longleftrightarrow> t \<in> set [AttrMappedAddress, AttrUsername, AttrMessageIntegrity, AttrErrorCode,
     AttrUnknownAttributes, AttrXORMappedAddress, AttrAlternateServer, AttrPriority, AttrSoftware,
     AttrIceControlled, AttrFingerprint]"

section \<open>Messages\<close>

type_synonym Attribute = "u16 \<times> bytes"

record Message =
  m_Type :: u16
  m_TransactionID :: bytes
  m_Attributes :: "Attribute list"
  m_raw :: bytes

definition NewBindingRequest :: "bytes \<Rightarrow> Message" where
  "NewBindingRequest txid =
     \<lparr> m_Type = MessageTypeBindingRequest, m_TransactionID = txid, m_Attributes = [], m_raw = [] \<rparr>"

definition Add :: "u16 \<Rightarrow> bytes \<Rightarrow> Message \<Rightarrow> Message" where
  "Add t value m = m \<lparr> m_Attributes := m_Attributes m @ [(t, value)] \<rparr>"

definition Get :: "u16 \<Rightarrow> Message \<Rightarrow> bytes option" where
  "Get t m = map_option snd (find (\<lambda>attr. fst attr = t) (m_Attributes m))"

definition Count :: "u16 \<Rightarrow> Message \<Rightarrow> nat" where
  "Count t m = length (filter (\<lambda>attr. fst attr = t) (m_Attributes m))"

fun unknown_loop :: "u16 list \<Rightarrow> Attribute list \<Rightarrow> u16 list" where
  "unknown_loop seen [] = []"
| "unknown_loop seen ((t, _) # attrs) =
     (if comprehensionRequired t \<and> \<not> attr_known t \<and> t \<notin> set seen
      then t # unknown_loop (t # seen) attrs else unknown_loop seen attrs)"

definition UnknownComprehensionRequired :: "Message \<Rightarrow> u16 list" where
  "UnknownComprehensionRequired m = unknown_loop [] (m_Attributes m)"

section \<open>Parsing\<close>

definition pad4 :: "nat \<Rightarrow> nat" where
  "pad4 n = (n + 3) div 4 * 4"

function parse_attrs :: "bytes \<Rightarrow> stun_error + Attribute list" where
  "parse_attrs rest =
     (if rest = [] then Inr []
      else if length rest < 4 then Inl ErrMalformed
      else let attrType = get_u16 (take 2 rest); attrLen = unat (get_u16 (subslice 2 4 rest)) in
        if attrLen > length rest - 4 then Inl ErrTruncated
        else if pad4 (4 + attrLen) > length rest then Inl SlicePanic
        else ebind (parse_attrs (drop (pad4 (4 + attrLen)) rest)) (\<lambda>attrs.
          Inr ((attrType, subslice 4 (4 + attrLen) rest) # attrs)))"
  by auto
termination
  by (relation "measure length") (auto simp: pad4_def)

declare parse_attrs.simps [simp del]

definition ParseMessage :: "bytes \<Rightarrow> stun_error + Message" where
  "ParseMessage data =
     ensure (\<not> length data < HeaderSize) ErrTruncated (
     ensure (get_u32 (subslice 4 8 data) = MagicCookie) ErrBadCookie (
     let declared = unat (get_u16 (subslice 2 4 data)) in
     ensure (\<not> declared > MaxMessageSize) ErrOversize (
     ensure (declared mod 4 = 0) ErrMalformed (
     ensure (\<not> length data - HeaderSize < declared) ErrTruncated (
     ebind (parse_attrs (subslice HeaderSize (HeaderSize + declared) data)) (\<lambda>attrs.
     let msg = \<lparr> m_Type = get_u16 (take 2 data), m_TransactionID = subslice 8 20 data,
                 m_Attributes = attrs, m_raw = take (HeaderSize + declared) data \<rparr> in
     ensure (\<not> (Count AttrFingerprint msg > 0 \<and> fst (last (m_Attributes msg)) \<noteq> AttrFingerprint))
       ErrMalformed (Inr msg)))))))"

section \<open>Encoding\<close>

definition attributeSectionLength :: "Attribute list \<Rightarrow> nat" where
  "attributeSectionLength attrs = sum_list (map (\<lambda>(_, v). 4 + pad4 (length v)) attrs)"

definition put_attr :: "Attribute \<Rightarrow> bytes" where
  "put_attr attr = (case attr of (t, v) \<Rightarrow>
     put_u16 t @ put_u16 (of_nat (length v)) @ v @ replicate (pad4 (length v) - length v) 0)"

text \<open>The header with a given Length field, followed by the attributes: the buffer that \<open>Marshal\<close>,
  \<open>AddMessageIntegrity\<close>, \<open>integrityInput\<close>, \<open>AddFingerprint\<close> and \<open>VerifyFingerprint\<close> all fill.\<close>

definition wire_of :: "Message \<Rightarrow> nat \<Rightarrow> Attribute list \<Rightarrow> bytes" where
  "wire_of m len attrs =
     put_u16 (m_Type m) @ put_u16 (of_nat len) @ put_u32 MagicCookie @ m_TransactionID m @
     concat (map put_attr attrs)"

definition Marshal :: "Message \<Rightarrow> stun_error + bytes" where
  "Marshal m =
     (let section = attributeSectionLength (m_Attributes m) in
      if section > MaxMessageSize then Inl ErrOversize
      else Inr (wire_of m section (m_Attributes m)))"

section \<open>Address attributes\<close>

definition cookie_bytes :: bytes where "cookie_bytes = [0x21, 0x12, 0xA4, 0x42]"

definition xor_bytes :: "bytes \<Rightarrow> bytes \<Rightarrow> bytes" where
  "xor_bytes a b = map2 (XOR) a b"

fun encode_address :: "bool \<Rightarrow> bytes \<Rightarrow> Addr \<times> u16 \<Rightarrow> stun_error + bytes" where
  "encode_address x txid (V4 a b c d, port) =
     (if x then Inr ([0, 1] @ put_u16 (port XOR 0x2112) @ xor_bytes [a, b, c, d] cookie_bytes)
      else Inr ([0, 1] @ put_u16 port @ [a, b, c, d]))"
| "encode_address x txid (V6 bs zone, port) =
     (if Is4In6 (V6 bs zone) then Inl ErrUnknownFamily
      else if x then Inr ([0, 2] @ put_u16 (port XOR 0x2112) @ xor_bytes bs (cookie_bytes @ txid))
      else Inr ([0, 2] @ put_u16 port @ bs))"
| "encode_address x txid (InvalidAddr, port) = Inl ErrUnknownFamily"

definition AddXORMappedAddress :: "Addr \<times> u16 \<Rightarrow> Message \<Rightarrow> stun_error + Message" where
  "AddXORMappedAddress addr m =
     (if Count AttrXORMappedAddress m > 0 then Inl ErrDuplicateAddressAttr
      else ebind (encode_address True (m_TransactionID m) addr) (\<lambda>value.
        Inr (Add AttrXORMappedAddress value m)))"

definition AddAlternateServer :: "Addr \<times> u16 \<Rightarrow> Message \<Rightarrow> stun_error + Message" where
  "AddAlternateServer addr m =
     ebind (encode_address False (m_TransactionID m) addr) (\<lambda>value. Inr (Add AttrAlternateServer value m))"

definition decodeAddressAttribute :: "bytes \<Rightarrow> bytes \<Rightarrow> bool \<Rightarrow> stun_error + Addr \<times> u16" where
  "decodeAddressAttribute value txid x =
     (if length value < 4 then Inl ErrMalformed
      else let p = get_u16 (subslice 2 4 value); port = (if x then p XOR 0x2112 else p) in
        if value ! 1 = 1 then
          (if length value < 8 then Inl ErrMalformed
           else let ip4 = subslice 4 8 value; ip = (if x then xor_bytes ip4 cookie_bytes else ip4)
                in Inr (V4 (ip ! 0) (ip ! 1) (ip ! 2) (ip ! 3), port))
        else if value ! 1 = 2 then
          (if length value < 20 then Inl ErrMalformed
           else let ip16 = subslice 4 20 value; ip = (if x then xor_bytes ip16 (cookie_bytes @ txid) else ip16)
                in Inr (V6 ip [], port))
        else Inl ErrUnknownFamily)"

definition XORMappedAddress :: "Message \<Rightarrow> stun_error + Addr \<times> u16" where
  "XORMappedAddress m =
     (case Get AttrXORMappedAddress m of
        None \<Rightarrow> Inl ErrUnknownFamily
      | Some value \<Rightarrow>
          if Count AttrXORMappedAddress m > 1 then Inl ErrDuplicateAddressAttr
          else decodeAddressAttribute value (m_TransactionID m) True)"

definition AlternateServer :: "Message \<Rightarrow> stun_error + Addr \<times> u16" where
  "AlternateServer m =
     (case Get AttrAlternateServer m of
        None \<Rightarrow> Inl ErrUnknownFamily
      | Some value \<Rightarrow>
          if Count AttrAlternateServer m > 1 then Inl ErrDuplicateAddressAttr
          else decodeAddressAttribute value (m_TransactionID m) False)"

section \<open>Error codes and unknown attributes\<close>

definition SetErrorCode :: "int \<Rightarrow> string \<Rightarrow> Message \<Rightarrow> stun_error + Message" where
  "SetErrorCode code reason m =
     (if code < 300 \<or> code > 699 then Inl ErrorCodeRange
      else Inr (Add AttrErrorCode ([0, 0, of_int (code div 100), of_int (code mod 100)] @ str_bytes reason) m))"

definition NewErrorResponse :: "bytes \<Rightarrow> int \<Rightarrow> string \<Rightarrow> Message" where
  "NewErrorResponse txid code reason =
     (let msg = \<lparr> m_Type = MessageTypeBindingError, m_TransactionID = txid, m_Attributes = [], m_raw = [] \<rparr>
      in case SetErrorCode code reason msg of Inl _ \<Rightarrow> msg | Inr msg' \<Rightarrow> msg')"

definition ErrorCode :: "Message \<Rightarrow> stun_error + int \<times> string" where
  "ErrorCode m =
     (case Get AttrErrorCode m of
        None \<Rightarrow> Inl ErrMalformed
      | Some value \<Rightarrow>
          if Count AttrErrorCode m > 1 \<or> length value < 4 then Inl ErrMalformed
          else let code = uint (value ! 2) * 100 + uint (value ! 3) in
            if code < 300 \<or> code > 699 then Inl ErrMalformed
            else Inr (code, bytes_str (drop 4 value)))"

definition AddUnknownAttributes :: "u16 list \<Rightarrow> Message \<Rightarrow> Message" where
  "AddUnknownAttributes types m = Add AttrUnknownAttributes (concat (map put_u16 types)) m"

fun read_types :: "bytes \<Rightarrow> u16 list" where
  "read_types (a # b # rest) = get_u16 [a, b] # read_types rest"
| "read_types _ = []"

definition UnknownAttributes :: "Message \<Rightarrow> stun_error + u16 list" where
  "UnknownAttributes m =
     (case Get AttrUnknownAttributes m of
        None \<Rightarrow> Inr []
      | Some value \<Rightarrow> if length value mod 2 \<noteq> 0 then Inl ErrMalformed else Inr (read_types value))"

section \<open>MESSAGE-INTEGRITY\<close>

definition AddMessageIntegrity ::
  "(bytes \<Rightarrow> bytes \<Rightarrow> bytes) \<Rightarrow> bytes \<Rightarrow> Message \<Rightarrow> stun_error + Message" where
  "AddMessageIntegrity hmac key m =
     (if Count AttrMessageIntegrity m > 0 then Inl AlreadyIntegrity
      else let section = attributeSectionLength (m_Attributes m) in
        if section + 4 + integrityLength > MaxMessageSize then Inl ErrOversize
        else Inr (Add AttrMessageIntegrity
               (hmac key (wire_of m (section + 4 + integrityLength) (m_Attributes m))) m))"

definition integrityInput :: "Message \<Rightarrow> nat \<Rightarrow> stun_error + bytes" where
  "integrityInput m idx =
     (let attrs = take idx (m_Attributes m); section = attributeSectionLength attrs;
          wire = wire_of m (section + 4 + integrityLength) attrs in
      if m_raw m = [] then Inr wire
      else if length (m_raw m) \<ge> length wire \<and> take (length wire) (m_raw m) = wire
        then Inr (take (length wire) (m_raw m))
      else if length (m_raw m) \<ge> HeaderSize + section then
        (let raw = take (HeaderSize + section) (m_raw m) in
         Inr (take 2 raw @ put_u16 (of_nat (section + 4 + integrityLength)) @ drop 4 raw))
      else Inl ErrTruncated)"

definition find_index :: "u16 \<Rightarrow> Attribute list \<Rightarrow> nat option" where
  "find_index t attrs =
     (let n = length (takeWhile (\<lambda>attr. fst attr \<noteq> t) attrs) in if n < length attrs then Some n else None)"

definition VerifyMessageIntegrity ::
  "(bytes \<Rightarrow> bytes \<Rightarrow> bytes) \<Rightarrow> bytes \<Rightarrow> Message \<Rightarrow> stun_error + bool" where
  "VerifyMessageIntegrity hmac key m =
     (case find_index AttrMessageIntegrity (m_Attributes m) of
        None \<Rightarrow> Inl ErrNoIntegrity
      | Some idx \<Rightarrow>
          if Count AttrMessageIntegrity m > 1 then Inl ErrMalformed
          else let stored = snd (m_Attributes m ! idx) in
            if length stored \<noteq> integrityLength then Inl ErrMalformed
            else ebind (integrityInput m idx) (\<lambda>wire. Inr (hmac key wire = stored)))"

section \<open>FINGERPRINT\<close>

definition crc_bit :: "u32 \<Rightarrow> u32" where
  "crc_bit c = (if bit c 0 then drop_bit 1 c XOR 0xEDB88320 else drop_bit 1 c)"

definition crc_byte :: "u32 \<Rightarrow> u8 \<Rightarrow> u32" where
  "crc_byte c b = (crc_bit ^^ 8) (c XOR ucast b)"

definition ChecksumIEEE :: "bytes \<Rightarrow> u32" where
  "ChecksumIEEE bs = NOT (foldl crc_byte (NOT 0) bs)"

definition AddFingerprint :: "Message \<Rightarrow> stun_error + Message" where
  "AddFingerprint m =
     (if Count AttrFingerprint m > 0 then Inl AlreadyFingerprint
      else let section = attributeSectionLength (m_Attributes m) in
        if section + 8 > MaxMessageSize then Inl ErrOversize
        else let crc = ChecksumIEEE (wire_of m (section + 8) (m_Attributes m)) XOR fingerprintXor
             in Inr (Add AttrFingerprint (put_u32 crc) m))"

definition VerifyFingerprint :: "Message \<Rightarrow> stun_error + bool" where
  "VerifyFingerprint m =
     (if Count AttrFingerprint m = 0 then Inl ErrNoFingerprint
      else let lst = last (m_Attributes m) in
        if fst lst \<noteq> AttrFingerprint then Inl ErrMalformed
        else if length (snd lst) \<noteq> 4 then Inl ErrMalformed
        else let attrs = butlast (m_Attributes m); section = attributeSectionLength attrs;
                 check = (\<lambda>wire. Inr (get_u32 (snd lst) = ChecksumIEEE wire XOR fingerprintXor)) in
          if length (m_raw m) \<ge> HeaderSize + section then check (take (HeaderSize + section) (m_raw m))
          else if m_raw m \<noteq> [] then Inl ErrTruncated
          else check (wire_of m (section + 8) attrs))"

section \<open>Padding and the attribute list\<close>

lemma pad4_bounds: "n \<le> pad4 n" "pad4 n < n + 4" "pad4 n mod 4 = 0" "pad4 (4 + n) = 4 + pad4 n"
  unfolding pad4_def by presburger+

lemma pad4_le: "m mod 4 = 0 \<Longrightarrow> n \<le> m \<Longrightarrow> pad4 n \<le> m"
  unfolding pad4_def by presburger

lemma length_put_attr [simp]: "length (put_attr a) = 4 + pad4 (length (snd a))"
  using pad4_bounds(1) [of "length (snd a)"] by (cases a) (simp add: put_attr_def)

lemma length_attrs [simp]: "length (concat (map put_attr attrs)) = attributeSectionLength attrs"
  by (induction attrs) (auto simp: attributeSectionLength_def)

lemma attributeSectionLength_append [simp]:
  "attributeSectionLength (a @ b) = attributeSectionLength a + attributeSectionLength b"
  "attributeSectionLength [] = 0" "attributeSectionLength [(t, v)] = 4 + pad4 (length v)"
  by (simp_all add: attributeSectionLength_def)

lemma attributeSectionLength_mod4: "attributeSectionLength attrs mod 4 = 0"
proof (induction attrs)
  case (Cons a attrs)
  have "4 dvd pad4 (length (snd a))" using pad4_bounds(3) by (simp add: mod_eq_0_iff_dvd)
  with Cons show ?case
    by (cases a) (simp add: attributeSectionLength_def mod_eq_0_iff_dvd)
qed (simp add: attributeSectionLength_def)

lemma value_le_section: "(t, v) \<in> set attrs \<Longrightarrow> length v \<le> attributeSectionLength attrs"
proof (induction attrs)
  case (Cons a attrs)
  then show ?case
    using pad4_bounds(1) [of "length v"] by (auto simp: attributeSectionLength_def)
qed simp

lemma unat_of_nat_u16: "n < 65536 \<Longrightarrow> unat (of_nat n :: u16) = n"
  by (simp add: unat_of_nat take_bit_eq_mod)

lemma put_u16_nonempty [simp]: "put_u16 t \<noteq> []"
  using u16c.length_put [of t] by (auto simp del: int_codec_simps)

lemma parse_put_attr:
  assumes "length v < 65536"
  shows "parse_attrs (put_attr (t, v) @ rest) = ebind (parse_attrs rest) (\<lambda>attrs. Inr ((t, v) # attrs))"
proof -
  let ?p = "put_attr (t, v) @ rest"
  have len: "length ?p = 4 + pad4 (length v) + length rest" by simp
  have v: "length v \<le> pad4 (length v)" by (rule pad4_bounds)
  have h: "take 2 ?p = put_u16 t" "subslice 2 4 ?p = put_u16 (of_nat (length v))"
    "subslice 4 (4 + length v) ?p = v" "drop (4 + pad4 (length v)) ?p = rest"
    using v by (simp_all add: put_attr_def subslice_def)
  have "put_attr (t, v) \<noteq> []" "take 2 (put_attr (t, v)) = put_u16 t"
    by (simp_all add: put_attr_def)
  then show ?thesis
    by (subst parse_attrs.simps)
      (use v in \<open>simp add: h len unat_of_nat_u16 assms pad4_bounds(4) Let_def\<close>)
qed

lemma parse_attrs_concat:
  "\<forall>(t, v) \<in> set attrs. length v < 65536 \<Longrightarrow> parse_attrs (concat (map put_attr attrs)) = Inr attrs"
proof (induction attrs)
  case Nil
  show ?case by (simp add: parse_attrs.simps)
next
  case (Cons a attrs)
  then show ?case by (cases a) (simp add: parse_put_attr)
qed

lemma parse_attrs_no_panic: "length rest mod 4 = 0 \<Longrightarrow> parse_attrs rest \<noteq> Inl SlicePanic"
proof (induction rest rule: parse_attrs.induct)
  case (1 rest)
  let ?l = "unat (get_u16 (subslice 2 4 rest))"
  show ?case
  proof (cases "rest = [] \<or> length rest < 4 \<or> ?l > length rest - 4")
    case True
    then show ?thesis by (auto simp: parse_attrs.simps [of rest] Let_def)
  next
    case False
    then have fits: "pad4 (4 + ?l) \<le> length rest"
      using 1(2) by (intro pad4_le) auto
    have "length (drop (pad4 (4 + ?l)) rest) mod 4 = 0"
      using fits 1(2) pad4_bounds(3) [of "4 + ?l"] by (simp add: mod_diff_eq) presburger
    with 1(1) False fits have "parse_attrs (drop (pad4 (4 + ?l)) rest) \<noteq> Inl SlicePanic" by simp
    with False fits show ?thesis
      by (auto simp: parse_attrs.simps [of rest] Let_def ebind_def split: sum.splits)
  qed
qed

lemma parse_attrs_length:
  "parse_attrs rest = Inr attrs \<Longrightarrow> length rest mod 4 = 0 \<Longrightarrow> attributeSectionLength attrs = length rest"
proof (induction rest arbitrary: attrs rule: parse_attrs.induct)
  case (1 rest)
  let ?l = "unat (get_u16 (subslice 2 4 rest))"
  let ?p = "pad4 (4 + ?l)"
  show ?case
  proof (cases "rest = []")
    case True
    with 1(2) show ?thesis by (simp add: parse_attrs.simps)
  next
    case False
    with 1(2) obtain as where h: "\<not> length rest < 4" "\<not> ?l > length rest - 4" "\<not> ?p > length rest"
      "parse_attrs (drop ?p rest) = Inr as"
      "attrs = (get_u16 (take 2 rest), subslice 4 (4 + ?l) rest) # as"
      by (auto simp: parse_attrs.simps [of rest] Let_def ebind_Inr_iff split: if_splits)
    have m: "length (drop ?p rest) mod 4 = 0"
      using h(3) 1(3) pad4_bounds(3) [of "4 + ?l"] by (simp add: mod_diff_eq) presburger
    from 1(1) [OF False h(1) refl refl h(2,3,4) m] h(2,3,5) h(1) show ?thesis
      by (simp add: attributeSectionLength_def pad4_bounds(4))
  qed
qed

section \<open>Whole messages\<close>

lemma length_wire_of [simp]:
  "length (m_TransactionID m) = 12 \<Longrightarrow> length (wire_of m n attrs) = 20 + attributeSectionLength attrs"
  by (simp add: wire_of_def)

lemma wire_of_raw [simp]: "wire_of (m \<lparr> m_raw := r \<rparr>) = wire_of m"
  "wire_of (m \<lparr> m_Attributes := a \<rparr>) = wire_of m"
  by (simp_all add: wire_of_def fun_eq_iff)

lemma wire_of_fields:
  assumes "length (m_TransactionID m) = 12"
  shows "take 2 (wire_of m n attrs @ x) = put_u16 (m_Type m)"
    and "subslice 2 4 (wire_of m n attrs @ x) = put_u16 (of_nat n)"
    and "subslice 4 8 (wire_of m n attrs @ x) = put_u32 MagicCookie"
    and "subslice 8 20 (wire_of m n attrs @ x) = m_TransactionID m"
    and "subslice 20 (20 + attributeSectionLength attrs) (wire_of m n attrs @ x) = concat (map put_attr attrs)"
  using assms by (simp_all add: wire_of_def subslice_def)

definition fingerprint_last :: "Message \<Rightarrow> bool" where
  "fingerprint_last m \<longleftrightarrow> \<not> (Count AttrFingerprint m > 0 \<and> fst (last (m_Attributes m)) \<noteq> AttrFingerprint)"

lemma message_eta:
  "m \<lparr> m_raw := r \<rparr> = \<lparr> m_Type = m_Type m, m_TransactionID = m_TransactionID m,
     m_Attributes = m_Attributes m, m_raw = r \<rparr>"
  by (cases m) simp

lemma Parse_Marshal:
  assumes "Marshal m = Inr data" "length (m_TransactionID m) = 12" "fingerprint_last m"
  shows "ParseMessage (data @ extra) = Inr (m \<lparr> m_raw := data \<rparr>)"
proof -
  let ?n = "attributeSectionLength (m_Attributes m)"
  from assms(1) have n: "?n \<le> 65535" and d: "data = wire_of m ?n (m_Attributes m)"
    by (auto simp: Marshal_def Let_def split: if_splits)
  have u: "unat (of_nat ?n :: u16) = ?n" using n by (simp add: unat_of_nat_u16)
  have "\<forall>(t, v) \<in> set (m_Attributes m). length v < 65536"
    using n value_le_section by fastforce
  from parse_attrs_concat [OF this] show ?thesis
    using assms(2,3) n wire_of_fields [OF assms(2), where n = ?n and attrs = "m_Attributes m" and x = extra]
      attributeSectionLength_mod4 [of "m_Attributes m"]
    unfolding message_eta [of data m]
    by (simp add: ParseMessage_def d u Let_def ensure_Inr_iff fingerprint_last_def Count_def)
qed

lemma find_snoc: "filter P xs = [] \<Longrightarrow> P x \<Longrightarrow> find P (xs @ [x]) = Some x"
  by (induction xs) (auto split: if_splits)

lemma Get_Add: "Count t m = 0 \<Longrightarrow> Get t (Add t v m) = Some v"
  by (simp add: Get_def Add_def Count_def find_snoc)

lemma Count_Add: "Count t (Add u v m) = Count t m + (if t = u then 1 else 0)"
  by (simp add: Count_def Add_def)

lemma Add_simps [simp]:
  "m_Type (Add t v m) = m_Type m" "m_TransactionID (Add t v m) = m_TransactionID m"
  "m_Attributes (Add t v m) = m_Attributes m @ [(t, v)]" "m_raw (Add t v m) = m_raw m"
  "wire_of (Add t v m) = wire_of m"
  by (simp_all add: Add_def)

section \<open>Addresses\<close>

lemma xor_bytes_involutive: "length a = length b \<Longrightarrow> xor_bytes (xor_bytes a b) b = a"
  unfolding xor_bytes_def
  by (induction a b rule: list_induct2) (simp_all add: xor.assoc)

lemma length_xor_bytes [simp]: "length (xor_bytes a b) = min (length a) (length b)"
  by (simp add: xor_bytes_def)

definition wire_addr :: "Addr \<Rightarrow> bool" where
  "wire_addr ip \<longleftrightarrow> (case ip of InvalidAddr \<Rightarrow> False | V4 _ _ _ _ \<Rightarrow> True
     | V6 bs zone \<Rightarrow> length bs = 16 \<and> zone = [] \<and> \<not> Is4In6 ip)"

lemma decode_encode_address:
  assumes "wire_addr ip" "length txid = 12"
  shows "\<exists>v. encode_address x txid (ip, port) = Inr v \<and> decodeAddressAttribute v txid x = Inr (ip, port)"
proof (cases ip)
  case (V4 a b c d)
  have "xor_bytes (xor_bytes [a, b, c, d] cookie_bytes) cookie_bytes = [a, b, c, d]"
    by (simp add: xor_bytes_involutive cookie_bytes_def)
  then show ?thesis
    by (simp add: V4 decodeAddressAttribute_def subslice_def Let_def xor.assoc cookie_bytes_def)
next
  case (V6 bs zone)
  with assms have l: "length bs = 16" "zone = []" "\<not> Is4In6 ip" by (simp_all add: wire_addr_def)
  have "xor_bytes (xor_bytes bs (cookie_bytes @ txid)) (cookie_bytes @ txid) = bs"
    using l assms by (intro xor_bytes_involutive) (simp add: cookie_bytes_def)
  with l assms(2) V6 show ?thesis
    by (simp add: decodeAddressAttribute_def subslice_def Let_def xor.assoc cookie_bytes_def)
qed (use assms in \<open>simp add: wire_addr_def\<close>)

section \<open>Integrity and fingerprint\<close>

lemma find_index_first:
  assumes "filter (\<lambda>a. fst a = t) xs = []"
  shows "find_index t (xs @ (t, v) # ys) = Some (length xs)"
proof -
  have "takeWhile (\<lambda>a. fst a \<noteq> t) (xs @ (t, v) # ys) = xs"
    using assms by (induction xs) (auto split: if_splits)
  then show ?thesis by (simp add: find_index_def Let_def)
qed

text \<open>The HMAC input of a parsed message is its wire prefix with the Length field replaced.\<close>

lemma integrityInput_raw:
  assumes "length (m_TransactionID m) = 12" "m_raw m \<noteq> []"
    and "20 + attributeSectionLength (take idx (m_Attributes m)) \<le> length (m_raw m)"
  shows "integrityInput m idx =
    (let n = attributeSectionLength (take idx (m_Attributes m)) in
     Inr (take 2 (m_raw m) @ put_u16 (of_nat (n + 24)) @ subslice 4 (20 + n) (m_raw m)))"
proof -
  let ?as = "take idx (m_Attributes m)"
  let ?n = "attributeSectionLength ?as"
  let ?w = "wire_of m (?n + 24) ?as"
  have patched: "take 2 ?w @ put_u16 (of_nat (?n + 24)) @ drop 4 ?w = ?w"
    by (simp add: wire_of_def)
  have "take (20 + ?n) (m_raw m) = take 2 (m_raw m) @ put_u16 (of_nat (?n + 24)) @ subslice 4 (20 + ?n) (m_raw m)"
    if "take (20 + ?n) (m_raw m) = ?w"
  proof -
    from that have "take 2 (m_raw m) = take 2 ?w" "subslice 4 (20 + ?n) (m_raw m) = drop 4 ?w"
      by (metis min.absorb1 take_take one_le_numeral trans_le_add1 numeral_le_iff semiring_norm(68,71))
        (metis that drop_take subslice_def)
    with that patched show ?thesis by simp
  qed
  then show ?thesis
    using assms by (auto simp: integrityInput_def Let_def subslice_def drop_take add.commute)
qed

lemma subslice_take: "b \<le> n \<Longrightarrow> subslice a b (take n xs) = subslice a b xs"
  by (simp add: subslice_def drop_take)

lemma wire_of_append: "wire_of m n (a @ b) = wire_of m n a @ concat (map put_attr b)"
  by (simp add: wire_of_def)

lemma integrityInput_marshalled:
  assumes "length (m_TransactionID m) = 12" "m_Attributes m = attrs @ rest" "m_raw m = wire_of m n (attrs @ rest)"
  shows "integrityInput m (length attrs) = Inr (wire_of m (attributeSectionLength attrs + 24) attrs)"
proof -
  let ?k = "attributeSectionLength attrs"
  have raw: "m_raw m = wire_of m n attrs @ concat (map put_attr rest)"
    by (simp add: assms wire_of_append)
  have "take 2 (m_raw m) @ put_u16 (of_nat (?k + 24)) @ subslice 4 (20 + ?k) (m_raw m) = wire_of m (?k + 24) attrs"
    using assms(1) by (simp add: raw wire_of_def subslice_def)
  moreover have "m_raw m \<noteq> []" by (simp add: raw wire_of_def)
  ultimately show ?thesis
    using assms(1,2) integrityInput_raw [of m "length attrs"] by (simp add: raw Let_def)
qed

lemma AddMessageIntegrity_Inr:
  "AddMessageIntegrity hmac key m = Inr m1 \<longleftrightarrow> Count AttrMessageIntegrity m = 0 \<and>
     attributeSectionLength (m_Attributes m) + 24 \<le> 65535 \<and>
     m1 = Add AttrMessageIntegrity
       (hmac key (wire_of m (attributeSectionLength (m_Attributes m) + 24) (m_Attributes m))) m"
  by (auto simp: AddMessageIntegrity_def Let_def add.commute)

lemma AddFingerprint_Inr:
  "AddFingerprint m = Inr m1 \<longleftrightarrow> Count AttrFingerprint m = 0 \<and>
     attributeSectionLength (m_Attributes m) + 8 \<le> 65535 \<and>
     m1 = Add AttrFingerprint (put_u32 (ChecksumIEEE (wire_of m (attributeSectionLength (m_Attributes m) + 8)
       (m_Attributes m)) XOR fingerprintXor)) m"
  by (auto simp: AddFingerprint_def Let_def)

lemma VerifyFingerprint_marshalled:
  assumes "AddFingerprint m1 = Inr m2" "length (m_TransactionID m1) = 12"
    and "data = wire_of m1 (attributeSectionLength (m_Attributes m2)) (m_Attributes m2)"
  shows "VerifyFingerprint (m2 \<lparr> m_raw := data \<rparr>) = Inr True"
  using assms
  by (auto simp: AddFingerprint_Inr VerifyFingerprint_def Let_def wire_of_append Count_def pad4_def)

section \<open>Properties\<close>

text \<open>
  C29. Wire round trip: a message with a 96-bit transaction id whose FINGERPRINT, if any, comes last is
  parsed back unchanged from its encoding. Bytes after the declared length are ignored, although the
  parser's comment asks for an exact length.
\<close>

theorem stun_roundtrip:
  assumes "Marshal m = Inr data" "length (m_TransactionID m) = 12" "fingerprint_last m"
  shows "ParseMessage (data @ extra) = Inr (m \<lparr> m_raw := data \<rparr>)"
  by (rule Parse_Marshal [OF assms])

text \<open>
  C30. Parsing is safe on every input: the attribute loop never slices out of range, and the attributes
  of an accepted message fill the declared length exactly, inside the received bytes.
\<close>

theorem ParseMessage_safe:
  "ParseMessage data \<noteq> Inl SlicePanic \<and>
   (case ParseMessage data of
      Inl _ \<Rightarrow> True
    | Inr m \<Rightarrow> length (m_raw m) = 20 + attributeSectionLength (m_Attributes m) \<and>
        m_raw m = take (length (m_raw m)) data \<and> length (m_TransactionID m) = 12 \<and> fingerprint_last m)"
proof -
  let ?n = "unat (get_u16 (subslice 2 4 data))"
  have "parse_attrs (subslice 20 (20 + ?n) data) \<noteq> Inl SlicePanic"
    if "20 + ?n \<le> length data" "?n mod 4 = 0"
    using that by (intro parse_attrs_no_panic) simp
  moreover have "attributeSectionLength attrs = ?n"
    if "parse_attrs (subslice 20 (20 + ?n) data) = Inr attrs" "20 + ?n \<le> length data" "?n mod 4 = 0" for attrs
    using parse_attrs_length [OF that(1)] that by simp
  ultimately show ?thesis
    by (auto simp: ParseMessage_def Let_def ensure_def ebind_def fingerprint_last_def min_def
        split: sum.splits if_splits)
qed

text \<open>
  XOR-MAPPED-ADDRESS and ALTERNATE-SERVER return the address and port that were added: IPv4, and
  IPv6 without a zone that is not IPv4-mapped.
\<close>

theorem stun_address_roundtrip:
  assumes "wire_addr ip" "length (m_TransactionID m) = 12"
  shows "(Count AttrXORMappedAddress m = 0 \<longrightarrow>
      (\<exists>m'. AddXORMappedAddress (ip, port) m = Inr m' \<and> XORMappedAddress m' = Inr (ip, port))) \<and>
    (Count AttrAlternateServer m = 0 \<longrightarrow>
      (\<exists>m'. AddAlternateServer (ip, port) m = Inr m' \<and> AlternateServer m' = Inr (ip, port)))"
  using decode_encode_address [OF assms, of True port] decode_encode_address [OF assms, of False port]
  by (auto simp: AddXORMappedAddress_def XORMappedAddress_def AddAlternateServer_def AlternateServer_def
      Get_Add Count_Add)

text \<open>
  C31. Integrity and fingerprint survive the wire: a message that was given MESSAGE-INTEGRITY under a key
  and then FINGERPRINT, encoded and parsed, verifies under both checks.
\<close>

theorem stun_integrity_roundtrip:
  assumes "\<forall>k x. length (hmac k x) = 20" "length (m_TransactionID m) = 12"
    and "AddMessageIntegrity hmac key m = Inr m1" "AddFingerprint m1 = Inr m2" "Marshal m2 = Inr data"
  shows "\<exists>p. ParseMessage data = Inr p \<and> VerifyMessageIntegrity hmac key p = Inr True \<and>
    VerifyFingerprint p = Inr True"
proof -
  let ?a = "m_Attributes m" and ?p = "m2 \<lparr> m_raw := data \<rparr>"
  let ?mac = "hmac key (wire_of m (attributeSectionLength ?a + 24) ?a)"
  from assms(3) have m1: "m1 = Add AttrMessageIntegrity ?mac m" "Count AttrMessageIntegrity m = 0"
    by (simp_all add: AddMessageIntegrity_Inr)
  from assms(4) obtain fp where m2: "m2 = Add AttrFingerprint (put_u32 fp) m1" "Count AttrFingerprint m1 = 0"
    and fp: "fp = ChecksumIEEE (wire_of m1 (attributeSectionLength (m_Attributes m1) + 8) (m_Attributes m1))
      XOR fingerprintXor"
    by (auto simp: AddFingerprint_Inr)
  have data: "data = wire_of m (attributeSectionLength (m_Attributes m2)) (m_Attributes m2)"
    using assms(5) by (auto simp: Marshal_def Let_def m2 m1 split: if_splits)
  have "ParseMessage data = Inr ?p"
    using Parse_Marshal [OF assms(5), of "[]"] assms(2) by (simp add: m1 m2 fingerprint_last_def)
  moreover have "VerifyMessageIntegrity hmac key ?p = Inr True"
  proof -
    have "find_index AttrMessageIntegrity (m_Attributes ?p) = Some (length ?a)"
      using m1(2) by (simp add: m1 m2 find_index_first Count_def)
    moreover have "integrityInput ?p (length ?a) = Inr (wire_of m (attributeSectionLength ?a + 24) ?a)"
      using integrityInput_marshalled [of ?p ?a "[(AttrMessageIntegrity, ?mac), (AttrFingerprint, put_u32 fp)]"
          "attributeSectionLength (m_Attributes m2)"] assms(2) data by (simp add: m1 m2)
    ultimately show ?thesis
      using assms(1) m1(2) by (simp add: VerifyMessageIntegrity_def m1(1) m2(1) Count_def)
  qed
  moreover have "VerifyFingerprint ?p = Inr True"
    using assms(2,4) data by (intro VerifyFingerprint_marshalled [of m1]) (simp_all add: m1)
  ultimately show ?thesis by blast
qed

section \<open>The bits of a message type\<close>

lemma high_bits:
  fixes m :: "'a::len word"
  assumes "unat m < 2 ^ k" "k \<le> n"
  shows "\<not> bit m n"
proof -
  have "unat m < 2 ^ n" using assms by (meson less_le_trans power_increasing one_le_numeral)
  then have "\<not> bit (unat m) n" by (simp add: bit_iff_odd)
  then show ?thesis by (auto simp: bit_unsigned_iff dest: bit_imp_le_length)
qed

lemma type_masks:
  "(0x000F :: u16) = mask 4" "(0x0070 :: u16) = push_bit 4 (mask 3)"
  "(0x0F80 :: u16) = push_bit 7 (mask 5)" "(2 :: u16) = push_bit 1 (mask 1)" "(1 :: u16) = mask 1"
  by (simp_all add: mask_eq_exp_minus_1 push_bit_eq_mult)

lemma bit_type_masks:
  "bit (0x000F :: u16) n \<longleftrightarrow> n < 4" "bit (0x0070 :: u16) n \<longleftrightarrow> 4 \<le> n \<and> n < 7"
  "bit (0x0F80 :: u16) n \<longleftrightarrow> 7 \<le> n \<and> n < 12" "bit (2 :: u16) n \<longleftrightarrow> n = 1" "bit (1 :: u16) n \<longleftrightarrow> n = 0"
  unfolding type_masks bit_push_bit_iff bit_mask_iff by auto

lemmas type_bits = bit_or_iff bit_and_iff bit_push_bit_iff bit_drop_bit_eq bit_type_masks bit_unsigned_iff
  o_apply

lemma bit_NewMessageType:
  "bit (NewMessageType m c) n \<longleftrightarrow>
     (if n < 4 then bit m n else if n = 4 then bit c 0 else if n < 8 then bit m (n - 1)
      else if n = 8 then bit c 1 else if n < 14 then bit m (n - 2) else False)"
  unfolding NewMessageType_def Let_def type_bits by (auto simp: le_Suc_eq)

lemma bit_mt_Method:
  "bit (mt_Method v) n \<longleftrightarrow>
     (if n < 4 then bit v n else if n < 7 then bit v (n + 1) else if n < 12 then bit v (n + 2) else False)"
  unfolding mt_Method_def type_bits by (auto simp: add.commute)

lemma bit_mt_Class:
  "bit (mt_Class v) n \<longleftrightarrow> (if n = 0 then bit v 4 else if n = 1 then bit v 8 else False)"
  unfolding mt_Class_def type_bits by auto

lemma method_of_type: "unat m < 2 ^ 12 \<Longrightarrow> mt_Method (NewMessageType m c) = m"
proof (rule bit_word_eqI)
  fix n
  assume "unat m < 2 ^ 12"
  from high_bits [OF this, of n] show "bit (mt_Method (NewMessageType m c)) n \<longleftrightarrow> bit m n"
    by (auto simp: bit_mt_Method bit_NewMessageType)
qed

lemma class_of_type: "unat c < 2 ^ 2 \<Longrightarrow> mt_Class (NewMessageType m c) = c"
proof (rule bit_word_eqI)
  fix n
  assume "unat c < 2 ^ 2"
  from high_bits [OF this, of n] show "bit (mt_Class (NewMessageType m c)) n \<longleftrightarrow> bit c n"
    by (auto simp: bit_mt_Class bit_NewMessageType)
qed

lemma type_of_parts: "unat t < 2 ^ 14 \<Longrightarrow> NewMessageType (mt_Method t) (mt_Class t) = t"
proof (rule bit_word_eqI)
  fix n
  assume "unat t < 2 ^ 14"
  moreover have "8 \<le> n \<Longrightarrow> Suc (Suc (n - 2)) = n" by simp
  ultimately show "bit (NewMessageType (mt_Method t) (mt_Class t)) n \<longleftrightarrow> bit t n"
    using high_bits [of t 14 n] by (auto simp: bit_mt_Method bit_mt_Class bit_NewMessageType)
qed

text \<open>
  The interleaved message type: method (12 bits) and class (2 bits) are recovered from the type they
  are encoded into, and every 14-bit type is the encoding of its own method and class.
\<close>

theorem message_type_codec:
  "(m < 0x1000 \<and> c < 4 \<longrightarrow> mt_Method (NewMessageType m c) = m \<and> mt_Class (NewMessageType m c) = c) \<and>
   (t < 0x4000 \<longrightarrow> NewMessageType (mt_Method t) (mt_Class t) = t)"
  using method_of_type [of m c] class_of_type [of c m] type_of_parts [of t]
  by (simp add: word_less_nat_alt)

text \<open>
  Error responses: a code in 300..699 and its reason are read back from the ERROR-CODE attribute
  they were encoded into, any other code adds nothing, and the list of unknown attribute types of a 420
  response is read back in order.
\<close>

theorem stun_error_roundtrip:
  "(if 300 \<le> code \<and> code \<le> 699
    then ErrorCode (NewErrorResponse txid code reason) = Inr (code, reason)
    else m_Attributes (NewErrorResponse txid code reason) = []) \<and>
   UnknownAttributes (AddUnknownAttributes types (NewErrorResponse txid code reason)) = Inr types"
proof -
  have byte: "uint (of_int k :: u8) = k" if "0 \<le> k" "k < 256" for k
    using that by (simp add: uint_word_of_int_eq take_bit_eq_mod)
  have types: "read_types (concat (map put_u16 types)) = types"
  proof (induction types)
    case (Cons t types)
    obtain a b where "put_u16 t = [a, b]"
      using u16c.length_put [of t] by (auto simp: numeral_2_eq_2 length_Suc_conv simp del: int_codec_simps)
    with Cons u16c.get_put [of t] show ?case by simp
  qed simp
  have even: "even (length (concat (map put_u16 types)))"
    by (induction types) auto
  have code: "uint (of_int (code div 100) :: u8) * 100 + uint (of_int (code mod 100) :: u8) = code"
    if "300 \<le> code" "code \<le> 699"
    using that by (subst (1 2) byte) auto
  show ?thesis
    using code types even
    by (auto simp: NewErrorResponse_def SetErrorCode_def ErrorCode_def UnknownAttributes_def
        AddUnknownAttributes_def Let_def Get_def Add_def Count_def)
qed

section \<open>Witnesses\<close>

definition demo_message :: Message where
  "demo_message = NewBindingRequest (replicate 12 5)"

definition demo_hmac :: "bytes \<Rightarrow> bytes \<Rightarrow> bytes" where
  "demo_hmac key x = take 20 (key @ x @ replicate 20 0)"

lemma demo_hmac_length: "\<forall>k x. length (demo_hmac k x) = 20"
  by (auto simp: demo_hmac_def min_def)

theorem stun_roundtrip_witness:
  "\<exists>data. Marshal demo_message = Inr data \<and>
     ParseMessage (data @ [1, 2, 3]) = Inr (demo_message \<lparr> m_raw := data \<rparr>)"
proof -
  obtain data where d: "Marshal demo_message = Inr data"
    by (simp add: Marshal_def demo_message_def NewBindingRequest_def)
  have "length (m_TransactionID demo_message) = 12" "fingerprint_last demo_message"
    by (simp_all add: demo_message_def NewBindingRequest_def fingerprint_last_def Count_def)
  from stun_roundtrip [OF d this] d show ?thesis by blast
qed

theorem stun_address_roundtrip_witness:
  "\<exists>m'. AddXORMappedAddress (V4 203 0 113 9, 4242) demo_message = Inr m' \<and>
     XORMappedAddress m' = Inr (V4 203 0 113 9, 4242)"
  using stun_address_roundtrip [of "V4 203 0 113 9" demo_message 4242]
  by (simp add: wire_addr_def demo_message_def NewBindingRequest_def Count_def)

theorem stun_integrity_roundtrip_witness:
  "\<exists>m1 m2 data p. AddMessageIntegrity demo_hmac [1] demo_message = Inr m1 \<and> AddFingerprint m1 = Inr m2 \<and>
     Marshal m2 = Inr data \<and> ParseMessage data = Inr p \<and> VerifyMessageIntegrity demo_hmac [1] p = Inr True"
proof -
  have txid: "length (m_TransactionID demo_message) = 12"
    and attrs: "m_Attributes demo_message = []"
    by (simp_all add: demo_message_def NewBindingRequest_def)
  obtain m1 where m1: "AddMessageIntegrity demo_hmac [1] demo_message = Inr m1"
    by (simp add: AddMessageIntegrity_def Count_def attrs)
  then have a1: "\<exists>v. m_Attributes m1 = [(AttrMessageIntegrity, v)] \<and> length v = 20"
    using demo_hmac_length by (auto simp: AddMessageIntegrity_Inr attrs)
  then obtain m2 where m2: "AddFingerprint m1 = Inr m2"
    by (auto simp: AddFingerprint_def Count_def pad4_def)
  with a1 obtain data where d: "Marshal m2 = Inr data"
    by (auto simp: Marshal_def AddFingerprint_Inr pad4_def)
  from stun_integrity_roundtrip [OF demo_hmac_length txid m1 m2 d] m1 m2 d show ?thesis by blast
qed

theorem message_type_codec_witness:
  "mt_Method (NewMessageType 1 3) = 1 \<and> mt_Class (NewMessageType 1 3) = 3 \<and>
   NewMessageType (mt_Method 0x0111) (mt_Class 0x0111) = 0x0111"
  using message_type_codec [of 1 3 "0x0111"] by simp

end
