(* ===== verification/Port_Registry.thy ===== *)
theory Port_Registry
  imports Prelude "HOL-Library.AList" "HOL-Library.Multiset"
begin

text \<open>
  \<^verbatim>\<open>src/internal/traversal/portregistry.go\<close>: the agent-global table of socket ownership.

  The table maps a tuple (family, protocol, address, port) to its owner. A lease is compared by pointer
  in the code, so it carries an identity \<open>l_ref\<close> that \<open>Acquire\<close> allocates; the uint64 generation wraps
  as in Go and nothing depends on it not wrapping. The operating system is the argument of \<open>Acquire\<close>:
  the error of the bind, or the port it assigned.

  \<open>Acquire\<close> is one critical section. \<open>release\<close> has two, with the close of the socket in between, and
  other callers may run there; it is modelled as three steps of a machine that also records which
  releases are under way and which sockets are open (\<open>sys\<close>).
\<close>

record TupleKey =
  k_Family :: string
  k_Protocol :: string
  k_Address :: string
  k_Port :: u16

datatype 'os reg_error = ErrTupleOverlap | ErrStaleLease | ErrUnsupportedTuple | ErrOwnerRequired
  | ErrListen 'os | ErrClose 'os

definition normalize :: "TupleKey \<Rightarrow> TupleKey" where
  "normalize k = (if k_Address k = [] \<or> k_Address k = ''::'' \<or> k_Address k = ''0.0.0.0''
                  then k \<lparr> k_Address := ''0.0.0.0'' \<rparr> else k)"

definition overlaps :: "TupleKey \<Rightarrow> TupleKey \<Rightarrow> bool" where
  "overlaps k other =
     (if k_Family k \<noteq> k_Family other \<or> k_Protocol k \<noteq> k_Protocol other \<or> k_Port k \<noteq> k_Port other then False
      else if k_Address k = k_Address other \<or> k_Address k = ''0.0.0.0'' \<or> k_Address other = ''0.0.0.0''
        then True
      else False)"

record Lease =
  l_ref :: nat
  l_Actual :: TupleKey
  l_owner :: string
  l_generation :: u64

record leaseEntry =
  e_owner :: string
  e_generation :: u64
  e_lease :: nat

record PortRegistry =
  entries :: "(TupleKey \<times> leaseEntry) list"
  generation :: u64
  next_ref :: nat

definition NewPortRegistry :: PortRegistry where
  "NewPortRegistry = \<lparr> entries = [], generation = 0, next_ref = 0 \<rparr>"

definition overlapsLocked :: "TupleKey \<Rightarrow> PortRegistry \<Rightarrow> bool" where
  "overlapsLocked candidate r = list_ex (\<lambda>(existing, _). overlaps existing candidate) (entries r)"

definition validateAcquireLocked :: "string \<Rightarrow> TupleKey \<Rightarrow> string \<Rightarrow> PortRegistry \<Rightarrow> 'os reg_error option" where
  "validateAcquireLocked owner key protocol r =
     (if owner = [] then Some ErrOwnerRequired
      else if k_Family key \<noteq> ''ipv4'' \<or> k_Protocol key \<noteq> protocol then Some ErrUnsupportedTuple
      else if k_Port key \<noteq> 0 \<and> overlapsLocked (normalize key) r then Some ErrTupleOverlap
      else None)"

text \<open>\<open>Acquire\<close> is \<open>acquire ''tcp''\<close> and \<open>AcquireUDP\<close> is \<open>acquire ''udp''\<close>; the two bodies differ in the
  protocol and the socket type only.\<close>

definition acquire ::
  "string \<Rightarrow> string \<Rightarrow> TupleKey \<Rightarrow> 'os + u16 \<Rightarrow> PortRegistry \<Rightarrow> ('os reg_error + Lease) \<times> PortRegistry" where
  "acquire protocol owner key0 listen r =
     (case validateAcquireLocked owner key0 protocol r of
        Some e \<Rightarrow> (Inl e, r)
      | None \<Rightarrow>
          let key = normalize key0 in
          case listen of
            Inl e \<Rightarrow> (Inl (ErrListen e), r)
          | Inr port \<Rightarrow>
              let actual = key \<lparr> k_Port := port \<rparr> in
              if overlapsLocked actual r then (Inl ErrTupleOverlap, r)
              else
                let g = generation r + 1;
                    lease = \<lparr> l_ref = next_ref r, l_Actual = actual, l_owner = owner, l_generation = g \<rparr>;
                    entry = \<lparr> e_owner = owner, e_generation = g, e_lease = next_ref r \<rparr>
                in (Inr lease, r \<lparr> entries := AList.update actual entry (entries r), generation := g,
                                  next_ref := Suc (next_ref r) \<rparr>))"

definition Acquire :: "string \<Rightarrow> TupleKey \<Rightarrow> 'os + u16 \<Rightarrow> PortRegistry \<Rightarrow> ('os reg_error + Lease) \<times> PortRegistry" where
  "Acquire = acquire ''tcp''"

definition AcquireUDP :: "string \<Rightarrow> TupleKey \<Rightarrow> 'os + u16 \<Rightarrow> PortRegistry \<Rightarrow> ('os reg_error + Lease) \<times> PortRegistry" where
  "AcquireUDP = acquire ''udp''"

definition current :: "Lease \<Rightarrow> PortRegistry \<Rightarrow> bool" where
  "current l r = (case map_of (entries r) (l_Actual l) of
     None \<Rightarrow> False
   | Some entry \<Rightarrow> \<not> (e_owner entry \<noteq> l_owner l \<or> e_generation entry \<noteq> l_generation l \<or> e_lease entry \<noteq> l_ref l))"

definition release_finish :: "Lease \<Rightarrow> PortRegistry \<Rightarrow> 'os reg_error option \<times> PortRegistry" where
  "release_finish l r =
     (if \<not> current l r then (Some ErrStaleLease, r)
      else (None, r \<lparr> entries := AList.delete (l_Actual l) (entries r) \<rparr>))"

text \<open>The outcome of closing a socket: closed now, closed before (\<open>net.ErrClosed\<close>), or an error.\<close>

datatype 'os close_result = Closed | AlreadyClosed | CloseError 'os

text \<open>\<open>release\<close> when no other caller runs between its two critical sections.\<close>

definition release :: "Lease \<Rightarrow> 'os close_result \<Rightarrow> PortRegistry \<Rightarrow> 'os reg_error option \<times> PortRegistry" where
  "release l closed r =
     (if \<not> current l r then (Some ErrStaleLease, r)
      else case closed of
        CloseError e \<Rightarrow> (Some (ErrClose e), r)
      | _ \<Rightarrow> release_finish l r)"

definition reg_Len :: "PortRegistry \<Rightarrow> nat" where "reg_Len r = length (entries r)"

definition reg_Has :: "TupleKey \<Rightarrow> PortRegistry \<Rightarrow> bool" where
  "reg_Has key r \<longleftrightarrow> map_of (entries r) (normalize key) \<noteq> None"

section \<open>Concurrent callers\<close>

record sys =
  reg :: PortRegistry
  leases :: "Lease set"
  closing :: "Lease multiset"
  finishing :: "Lease multiset"
  sockets :: "nat set"

text \<open>
  The steps: an acquire by any caller with any outcome of the bind; the first critical section of a
  release by a caller that holds a lease; the close of the socket (which fails and ends the release, or
  succeeds, or finds the socket closed by another release of the same lease); the second critical
  section. The releases that are between two of these steps are in \<open>closing\<close> and \<open>finishing\<close>.
\<close>

inductive sys_step :: "sys \<Rightarrow> sys \<Rightarrow> bool" where
  acquired: "acquire proto owner key (listen :: unit + u16) (reg s) = (Inr l, r) \<Longrightarrow>
     sys_step s (s \<lparr> reg := r, leases := insert l (leases s), sockets := insert (l_ref l) (sockets s) \<rparr>)"
| refused: "acquire proto owner key (listen :: unit + u16) (reg s) = (Inl e, r) \<Longrightarrow> sys_step s (s \<lparr> reg := r \<rparr>)"
| begin_release: "l \<in> leases s \<Longrightarrow> current l (reg s) \<Longrightarrow> sys_step s (s \<lparr> closing := add_mset l (closing s) \<rparr>)"
| stale_release: "l \<in> leases s \<Longrightarrow> \<not> current l (reg s) \<Longrightarrow> sys_step s s"
| close_fails: "l \<in># closing s \<Longrightarrow> sys_step s (s \<lparr> closing := closing s - {#l#} \<rparr>)"
| close_done: "l \<in># closing s \<Longrightarrow>
     sys_step s (s \<lparr> closing := closing s - {#l#}, finishing := add_mset l (finishing s),
                    sockets := sockets s - {l_ref l} \<rparr>)"
| end_release: "l \<in># finishing s \<Longrightarrow> release_finish l (reg s) = (e :: unit reg_error option, r) \<Longrightarrow>
     sys_step s (s \<lparr> reg := r, finishing := finishing s - {#l#} \<rparr>)"

inductive_cases sys_stepE: "sys_step s t"

definition sys_init :: "sys \<Rightarrow> bool" where
  "sys_init s \<longleftrightarrow> s = \<lparr> reg = NewPortRegistry, leases = {}, closing = {#}, finishing = {#}, sockets = {} \<rparr>"

section \<open>The invariant\<close>

definition pairwise_apart :: "(TupleKey \<times> leaseEntry) list \<Rightarrow> bool" where
  "pairwise_apart es \<longleftrightarrow>
     (\<forall>k1 e1 k2 e2. (k1, e1) \<in> set es \<and> (k2, e2) \<in> set es \<and> overlaps k1 k2 \<longrightarrow> (k1, e1) = (k2, e2))"

definition reg_inv :: "PortRegistry \<Rightarrow> bool" where
  "reg_inv r \<longleftrightarrow> distinct (map fst (entries r)) \<and> pairwise_apart (entries r) \<and>
     (\<forall>(k, e) \<in> set (entries r). e_lease e < next_ref r) \<and>
     (\<forall>k1 e1 k2 e2. (k1, e1) \<in> set (entries r) \<and> (k2, e2) \<in> set (entries r) \<and> e_lease e1 = e_lease e2 \<longrightarrow> k1 = k2)"

lemma overlaps_refl: "overlaps k k"
  by (simp add: overlaps_def)

lemma overlaps_sym: "overlaps k j = overlaps j k"
  by (auto simp: overlaps_def)

lemma acquire_Inr:
  "acquire proto owner key listen r = (Inr l, r') \<Longrightarrow>
     l_ref l = next_ref r \<and> \<not> overlapsLocked (l_Actual l) r \<and>
     r' = r \<lparr> entries := AList.update (l_Actual l)
               \<lparr> e_owner = l_owner l, e_generation = l_generation l, e_lease = l_ref l \<rparr> (entries r),
             generation := generation r + 1, next_ref := Suc (next_ref r) \<rparr>"
  by (auto simp: acquire_def Let_def split: option.splits sum.splits if_splits)

lemma acquire_Inl: "acquire proto owner key listen r = (Inl e, r') \<Longrightarrow> r' = r"
  by (auto simp: acquire_def Let_def split: option.splits sum.splits if_splits)

lemma overlapsLocked_iff: "overlapsLocked c r \<longleftrightarrow> (\<exists>(k, e) \<in> set (entries r). overlaps k c)"
  by (auto simp: overlapsLocked_def list_ex_iff)

lemma set_update_fresh:
  "k \<notin> fst ` set xs \<Longrightarrow> set (AList.update k v xs) = insert (k, v) (set xs)"
  by (induction xs) auto

lemma fresh_key: "\<not> overlapsLocked k r \<Longrightarrow> k \<notin> fst ` set (entries r)"
  by (auto simp: overlapsLocked_iff overlaps_refl dest: bspec)

lemma acquire_inv:
  assumes inv: "reg_inv r" and a: "acquire proto owner key listen r = (Inr l, r')"
  shows "reg_inv r'"
proof -
  let ?e = "\<lparr> e_owner = l_owner l, e_generation = l_generation l, e_lease = l_ref l \<rparr>"
  from acquire_Inr [OF a] have ref: "l_ref l = next_ref r" and fresh: "\<not> overlapsLocked (l_Actual l) r"
    and r': "r' = r \<lparr> entries := AList.update (l_Actual l) ?e (entries r),
             generation := generation r + 1, next_ref := Suc (next_ref r) \<rparr>" by simp_all
  have set: "set (entries r') = insert (l_Actual l, ?e) (set (entries r))"
    using set_update_fresh [OF fresh_key [OF fresh]] by (simp add: r')
  have apart: "\<not> overlaps k (l_Actual l)" "\<not> overlaps (l_Actual l) k" "e_lease e < next_ref r"
    if "(k, e) \<in> set (entries r)" for k e
    using that fresh inv by (auto simp: overlapsLocked_iff overlaps_sym reg_inv_def)
  show ?thesis
    unfolding reg_inv_def pairwise_apart_def set
    using inv apart ref
    by (auto simp: r' distinct_update reg_inv_def pairwise_apart_def dest: less_imp_neq) fastforce+
qed

lemma set_AList_delete: "set (AList.delete k xs) = {x \<in> set xs. fst x \<noteq> k}"
  by (induction xs) auto

lemma delete_inv: "reg_inv r \<Longrightarrow> reg_inv (r \<lparr> entries := AList.delete k (entries r) \<rparr>)"
  unfolding reg_inv_def pairwise_apart_def by (auto simp: distinct_delete set_AList_delete) blast

definition sys_inv :: "sys \<Rightarrow> bool" where
  "sys_inv s \<longleftrightarrow> reg_inv (reg s) \<and> sockets s \<subseteq> l_ref ` leases s \<and>
     (\<forall>l \<in> leases s. l_ref l < next_ref (reg s) \<and> (l_ref l \<in> sockets s \<longrightarrow> current l (reg s))) \<and>
     set_mset (closing s) \<subseteq> leases s \<and>
     (\<forall>l \<in># finishing s. l \<in> leases s \<and> l_ref l \<notin> sockets s)"

lemma current_iff:
  "current l r \<longleftrightarrow> map_of (entries r) (l_Actual l) =
     Some \<lparr> e_owner = l_owner l, e_generation = l_generation l, e_lease = l_ref l \<rparr>"
  by (auto simp: current_def split: option.splits)

lemma acquire_current:
  assumes a: "acquire proto owner key listen r = (Inr l, r')"
  shows "current l r'" "current l' r \<Longrightarrow> current l' r'"
  using acquire_Inr [OF a] fresh_key [of "l_Actual l" r]
  by (auto simp: current_iff update_conv' dest: map_of_SomeD intro: rev_image_eqI)

lemma release_finish_current:
  "release_finish l r = (e, r') \<Longrightarrow> current l' r \<Longrightarrow> l_ref l' \<noteq> l_ref l \<Longrightarrow> current l' r'"
  by (auto simp: release_finish_def current_iff delete_conv' split: if_splits)

lemma release_finish_inv: "reg_inv r \<Longrightarrow> release_finish l r = (e, r') \<Longrightarrow> reg_inv r' \<and> next_ref r' = next_ref r"
  by (auto simp: release_finish_def delete_inv split: if_splits)

lemma sys_inv_step: "sys_inv s \<Longrightarrow> sys_step s t \<Longrightarrow> sys_inv t"
proof (erule sys_stepE)
  fix proto owner key listen l r
  assume inv: "sys_inv s" and a: "acquire proto owner key (listen :: unit + u16) (reg s) = (Inr l, r)"
    and t: "t = s \<lparr> reg := r, leases := insert l (leases s), sockets := insert (l_ref l) (sockets s) \<rparr>"
  have "l_ref l = next_ref (reg s)" "next_ref r = Suc (next_ref (reg s))"
    using acquire_Inr [OF a] by simp_all
  thus "sys_inv t"
    using inv acquire_current [OF a] acquire_inv [OF _ a]
    unfolding sys_inv_def t by (auto simp: less_Suc_eq) fastforce
next
  fix l e r
  assume inv: "sys_inv s" and l: "l \<in># finishing s"
    and e: "release_finish l (reg s) = (e :: unit reg_error option, r)"
    and t: "t = s \<lparr> reg := r, finishing := finishing s - {#l#} \<rparr>"
  have "current l' r" if "l' \<in> leases s" "l_ref l' \<in> sockets s" for l'
    using inv l that release_finish_current [OF e, of l'] unfolding sys_inv_def by metis
  thus "sys_inv t"
    using inv release_finish_inv [OF _ e] by (auto simp: sys_inv_def t dest: in_diffD)
qed (auto simp: sys_inv_def dest: in_diffD acquire_Inl)

lemma sys_inv_init: "sys_init s \<Longrightarrow> sys_inv s"
  by (simp add: sys_init_def sys_inv_def reg_inv_def pairwise_apart_def NewPortRegistry_def)

interpretation preg: step_system sys_init sys_step sys_inv
  by unfold_locales (auto intro: sys_inv_init sys_inv_step)

lemma current_apart:
  assumes "reg_inv r" "current l r" "current m r" "overlaps (l_Actual l) (l_Actual m)"
  shows "l = m"
proof -
  have "l_Actual l = l_Actual m"
    using assms by (auto simp: reg_inv_def pairwise_apart_def current_iff dest!: map_of_SomeD)
  thus ?thesis using assms(2,3) by (cases l, cases m) (auto simp: current_iff)
qed

section \<open>Ownership, abstractly\<close>

text \<open>
  What the registry promises: a table of who owns which tuple, and the sockets that are open. A tuple may
  be claimed for a new socket when it overlaps no owned tuple; a socket may be closed; a tuple may be
  given up only after its socket is closed.
\<close>

record ownership =
  owned :: "TupleKey \<rightharpoonup> nat"
  live :: "nat set"

inductive own_step :: "ownership \<Rightarrow> ownership \<Rightarrow> bool" where
  own_skip: "own_step m m"
| own_claim: "(\<forall>j \<in> dom (owned m). \<not> overlaps j k) \<Longrightarrow> n \<notin> ran (owned m) \<Longrightarrow> n \<notin> live m \<Longrightarrow>
     own_step m (m \<lparr> owned := (owned m)(k \<mapsto> n), live := insert n (live m) \<rparr>)"
| own_close: "own_step m (m \<lparr> live := live m - {n} \<rparr>)"
| own_drop: "owned m k = Some n \<Longrightarrow> n \<notin> live m \<Longrightarrow> own_step m (m \<lparr> owned := (owned m)(k := None) \<rparr>)"

definition ownership_of :: "sys \<Rightarrow> ownership" where
  "ownership_of s = \<lparr> owned = (\<lambda>k. map_option e_lease (map_of (entries (reg s)) k)), live = sockets s \<rparr>"

lemma ran_owned:
  "reg_inv (reg s) \<Longrightarrow> n \<in> ran (owned (ownership_of s)) \<Longrightarrow> n < next_ref (reg s)"
  by (auto simp: ran_def ownership_of_def reg_inv_def dest!: map_of_SomeD)

lemma sockets_bound: "sys_inv s \<Longrightarrow> n \<in> sockets s \<Longrightarrow> n < next_ref (reg s)"
  unfolding sys_inv_def by (metis (no_types, lifting) image_iff subsetD)

lemma acquired_refines:
  assumes inv: "sys_inv s" and a: "acquire proto owner key (listen :: unit + u16) (reg s) = (Inr l, r)"
  shows "own_step (ownership_of s)
    (ownership_of (s \<lparr> reg := r, leases := insert l (leases s), sockets := insert (l_ref l) (sockets s) \<rparr>))"
proof -
  let ?m = "ownership_of s"
  have ref: "l_ref l = next_ref (reg s)" and fresh: "\<not> overlapsLocked (l_Actual l) (reg s)"
    using acquire_Inr [OF a] by simp_all
  have apart: "\<forall>j \<in> dom (owned ?m). \<not> overlaps j (l_Actual l)"
    using fresh by (auto simp: ownership_of_def overlapsLocked_iff dest!: map_of_SomeD)
  have new: "l_ref l \<notin> ran (owned ?m)" "l_ref l \<notin> live ?m"
    using inv ran_owned [of s] ref sockets_bound [OF inv] by (auto simp: sys_inv_def ownership_of_def)
  have "ownership_of (s \<lparr> reg := r, leases := insert l (leases s), sockets := insert (l_ref l) (sockets s) \<rparr>)
      = ?m \<lparr> owned := (owned ?m)(l_Actual l \<mapsto> l_ref l), live := insert (l_ref l) (live ?m) \<rparr>"
    using acquire_Inr [OF a] by (auto simp: ownership_of_def update_conv')
  thus ?thesis using own_claim [OF apart new] by simp
qed

lemma end_release_refines:
  assumes inv: "sys_inv s" and l: "l \<in># finishing s"
    and e: "release_finish l (reg s) = (e :: unit reg_error option, r)"
  shows "own_step (ownership_of s) (ownership_of (s \<lparr> reg := r, finishing := finishing s - {#l#} \<rparr>))"
proof (cases "current l (reg s)")
  case True
  let ?m = "ownership_of s"
  have m: "owned ?m (l_Actual l) = Some (l_ref l)" "l_ref l \<notin> live ?m"
    using True inv l by (auto simp: ownership_of_def current_iff sys_inv_def)
  have "ownership_of (s \<lparr> reg := r, finishing := finishing s - {#l#} \<rparr>)
      = ?m \<lparr> owned := (owned ?m)(l_Actual l := None) \<rparr>"
    using True e by (auto simp: release_finish_def ownership_of_def delete_conv')
  thus ?thesis using own_drop [OF m] by simp
next
  case False
  thus ?thesis using e by (auto simp: release_finish_def ownership_of_def intro: own_skip)
qed

lemma ownership_same:
  "ownership_of (s \<lparr> closing := c \<rparr>) = ownership_of s" "ownership_of (s \<lparr> reg := reg s \<rparr>) = ownership_of s"
  by (simp_all add: ownership_of_def)

lemma sys_step_refines: "sys_inv s \<Longrightarrow> sys_step s t \<Longrightarrow> own_step (ownership_of s) (ownership_of t)"
proof (erule sys_stepE)
  fix l assume "t = s \<lparr> closing := closing s - {#l#}, finishing := add_mset l (finishing s),
                       sockets := sockets s - {l_ref l} \<rparr>"
  hence "ownership_of t = ownership_of s \<lparr> live := live (ownership_of s) - {l_ref l} \<rparr>"
    by (simp add: ownership_of_def)
  thus ?thesis using own_close by simp
qed (auto intro: acquired_refines end_release_refines own_skip simp: ownership_same dest!: acquire_Inl)

section \<open>Properties\<close>

text \<open>
  C32. In every state that any interleaving of acquires and releases reaches, a lease whose socket is
  open still owns its registry entry, every open socket belongs to a lease, and no two different leases
  with open sockets have overlapping tuples.
\<close>

theorem open_sockets_exclusive:
  assumes "sys_init s0" and "sys_step\<^sup>*\<^sup>* s0 s"
  shows "sockets s \<subseteq> l_ref ` leases s \<and>
    (\<forall>l \<in> leases s. l_ref l \<in> sockets s \<longrightarrow> current l (reg s)) \<and>
    (\<forall>l \<in> leases s. \<forall>m \<in> leases s. l_ref l \<in> sockets s \<longrightarrow> m \<noteq> l \<longrightarrow> l_ref m \<in> sockets s \<longrightarrow>
       \<not> overlaps (l_Actual l) (l_Actual m))"
proof -
  have inv: "sys_inv s" using assms by (rule preg.inv_reachable)
  moreover have "reg_inv (reg s)" using inv by (simp add: sys_inv_def)
  ultimately show ?thesis using current_apart [of "reg s"] by (auto simp: sys_inv_def)
qed

text \<open>
  C33. The registry implements the ownership table: every run of the code's critical sections is, step by
  step, a run of the abstract table. In particular a tuple is given up only after its socket is closed.
\<close>

theorem registry_refines_ownership:
  assumes "sys_init s0" and "sys_step\<^sup>*\<^sup>* s0 s"
  shows "own_step\<^sup>*\<^sup>* (ownership_of s0) (ownership_of s) \<and> ownership_of s0 = \<lparr> owned = Map.empty, live = {} \<rparr>"
proof
  show "own_step\<^sup>*\<^sup>* (ownership_of s0) (ownership_of s)"
    using assms(2)
  proof (induction rule: rtranclp_induct)
    case (step t u)
    thus ?case
      using preg.inv_reachable [OF assms(1) step.hyps(1)] sys_step_refines [of t u] by (meson rtranclp.rtrancl_into_rtrancl)
  qed simp
  show "ownership_of s0 = \<lparr> owned = Map.empty, live = {} \<rparr>"
    using assms(1) by (simp add: sys_init_def ownership_of_def NewPortRegistry_def)
qed

text \<open>
  A release by a lease that no longer owns its tuple answers \<open>ErrStaleLease\<close> and changes nothing; a
  failed close keeps the entry; a successful release removes exactly the lease's own tuple, so that
  every other tuple keeps its owner, and the freed tuple can be acquired again.
\<close>

theorem release_touches_only_own:
  shows "(if \<not> current l r then release l c r = (Some ErrStaleLease, r)
     else case c of CloseError x \<Rightarrow> release l c r = (Some (ErrClose x), r)
      | _ \<Rightarrow> fst (release l c r) = None \<and>
          map_of (entries (snd (release l c r))) = (map_of (entries r))(l_Actual l := None) \<and>
          (reg_inv r \<longrightarrow> \<not> overlapsLocked (l_Actual l) (snd (release l c r))))"
proof (cases "current l r \<and> (\<forall>x. c \<noteq> CloseError x)")
  case True
  hence *: "release l c r = (None, r \<lparr> entries := AList.delete (l_Actual l) (entries r) \<rparr>)"
    by (auto simp: release_def release_finish_def split: close_result.splits)
  have "\<not> overlapsLocked (l_Actual l) (snd (release l c r))" if "reg_inv r"
    using that True unfolding * by (auto simp: overlapsLocked_iff set_AList_delete reg_inv_def pairwise_apart_def current_iff dest!: map_of_SomeD)
  thus ?thesis using True * by (auto simp: delete_conv' split: close_result.splits)
next
  case False
  thus ?thesis by (auto simp: release_def split: close_result.splits)
qed

section \<open>Witnesses\<close>

text \<open>Two listeners on different ports of one address, the first of them in the middle of its release.\<close>

definition demo_key :: "u16 \<Rightarrow> TupleKey" where
  "demo_key port = \<lparr> k_Family = ''ipv4'', k_Protocol = ''tcp'', k_Address = ''10.0.0.1'', k_Port = port \<rparr>"

definition demo_lease :: "nat \<Rightarrow> u16 \<Rightarrow> u64 \<Rightarrow> Lease" where
  "demo_lease n port g = \<lparr> l_ref = n, l_Actual = demo_key port, l_owner = ''a'', l_generation = g \<rparr>"

definition demo0 :: sys where
  "demo0 = \<lparr> reg = NewPortRegistry, leases = {}, closing = {#}, finishing = {#}, sockets = {} \<rparr>"

definition demo1 :: sys where
  "demo1 = demo0 \<lparr> reg := snd (acquire ''tcp'' ''a'' (demo_key 80) (Inr 80 :: unit + u16) NewPortRegistry),
                   leases := {demo_lease 0 80 1}, sockets := {0} \<rparr>"

definition demo2 :: sys where
  "demo2 = demo1 \<lparr> reg := snd (acquire ''tcp'' ''a'' (demo_key 0) (Inr 81 :: unit + u16) (reg demo1)),
                   leases := {demo_lease 1 81 2, demo_lease 0 80 1}, sockets := {1, 0} \<rparr>"

definition demo3 :: sys where
  "demo3 = demo2 \<lparr> closing := {#demo_lease 0 80 1#} \<rparr>"

lemmas demo_defs = demo_key_def demo_lease_def demo0_def demo1_def demo2_def NewPortRegistry_def
  acquire_def Let_def validateAcquireLocked_def normalize_def overlapsLocked_def overlaps_def current_def

lemma demo_run: "sys_init demo0" "sys_step\<^sup>*\<^sup>* demo0 demo3"
proof -
  show "sys_init demo0" by (simp add: sys_init_def demo0_def)
  have a1: "acquire ''tcp'' ''a'' (demo_key 80) (Inr 80 :: unit + u16) (reg demo0)
      = (Inr (demo_lease 0 80 1), reg demo1)"
    by (simp add: demo_defs)
  have a2: "acquire ''tcp'' ''a'' (demo_key 0) (Inr 81 :: unit + u16) (reg demo1)
      = (Inr (demo_lease 1 81 2), reg demo2)"
    by (simp add: demo_defs)
  have "sys_step demo0 demo1"
    using acquired [OF a1] by (simp add: demo1_def demo0_def demo_lease_def)
  moreover have "sys_step demo1 demo2"
    using acquired [OF a2] by (simp add: demo2_def demo1_def demo0_def demo_lease_def)
  moreover have "sys_step demo2 demo3"
    using begin_release [of "demo_lease 0 80 1" demo2] by (simp add: demo3_def demo_defs)
  ultimately show "sys_step\<^sup>*\<^sup>* demo0 demo3" by (meson converse_rtranclp_into_rtranclp rtranclp.rtrancl_refl)
qed

theorem open_sockets_exclusive_witness:
  "current (demo_lease 0 80 1) (reg demo3) \<and> \<not> overlaps (demo_key 80) (demo_key 81)"
  using open_sockets_exclusive [OF demo_run]
  by (auto simp: demo3_def demo2_def demo_lease_def)

theorem registry_refines_ownership_witness:
  "own_step\<^sup>*\<^sup>* \<lparr> owned = Map.empty, live = {} \<rparr> (ownership_of demo3) \<and>
   owned (ownership_of demo3) (demo_key 81) = Some 1"
  using registry_refines_ownership [OF demo_run] by (simp add: ownership_of_def demo3_def demo_defs)

theorem release_touches_only_own_witness:
  "reg_inv (reg demo3) \<and>
   \<not> overlapsLocked (demo_key 80) (snd (release (demo_lease 0 80 1) (Closed :: unit close_result) (reg demo3)))"
proof -
  have "sys_inv demo3" using demo_run by (rule preg.inv_reachable)
  hence "reg_inv (reg demo3)" by (simp add: sys_inv_def)
  moreover have "current (demo_lease 0 80 1) (reg demo3)" by (simp add: demo3_def demo_defs)
  ultimately show ?thesis
    using release_touches_only_own [of "demo_lease 0 80 1" "reg demo3" "Closed :: unit close_result"]
    by (simp add: demo_lease_def)
qed

end
