(* ===== verification/Budget.thy ===== *)
theory Budget
  imports Prelude
begin

text \<open>
  \<^verbatim>\<open>src/internal/forward/budget.go\<close>: the resource accounting of one forward. The counters are Go's
  64-bit \<open>int\<close> and \<open>int64\<close>: additions and subtractions wrap (\<open>i64\<close>).
\<close>

definition i64 :: "int \<Rightarrow> int" where
  "i64 x = (x + 2 ^ 63) mod 2 ^ 64 - 2 ^ 63"

lemma i64_id: "- (2 ^ 63) \<le> x \<Longrightarrow> x < 2 ^ 63 \<Longrightarrow> i64 x = x"
  by (simp add: i64_def)

definition PessimisticBufferBytesPerConnection :: int where
  "PessimisticBufferBytesPerConnection = 2 * 32 * 1024"

datatype LimitKind = LimitConnections | LimitFDs | LimitPessimisticBuffer

datatype budget_error = BudgetExceededError LimitKind int int | NegativeLimit

record Limits =
  MaxConnections :: int
  MaxFDs :: int
  MaxPessimisticBufferBytes :: int

record Budget =
  limits :: Limits
  connections :: int
  fds :: int
  bufferBytes :: int

definition NewBudget :: "Limits \<Rightarrow> budget_error + Budget" where
  "NewBudget l =
     (if MaxConnections l < 0 \<or> MaxFDs l < 0 \<or> MaxPessimisticBufferBytes l < 0 then Inl NegativeLimit
      else Inr \<lparr> limits = l, connections = 0, fds = 0, bufferBytes = 0 \<rparr>)"

definition Reserve :: "Budget \<Rightarrow> budget_error option \<times> Budget" where
  "Reserve b =
     (if MaxConnections (limits b) > 0 \<and> connections b \<ge> MaxConnections (limits b)
        then (Some (BudgetExceededError LimitConnections (MaxConnections (limits b)) (connections b)), b)
      else if MaxFDs (limits b) > 0 \<and> fds b \<ge> MaxFDs (limits b)
        then (Some (BudgetExceededError LimitFDs (MaxFDs (limits b)) (fds b)), b)
      else if MaxPessimisticBufferBytes (limits b) > 0 \<and>
              i64 (bufferBytes b + PessimisticBufferBytesPerConnection) > MaxPessimisticBufferBytes (limits b)
        then (Some (BudgetExceededError LimitPessimisticBuffer (MaxPessimisticBufferBytes (limits b)) (bufferBytes b)), b)
      else (None, b \<lparr> connections := i64 (connections b + 1), fds := i64 (fds b + 1),
                     bufferBytes := i64 (bufferBytes b + PessimisticBufferBytesPerConnection) \<rparr>))"

definition Release :: "Budget \<Rightarrow> Budget" where
  "Release b =
     (let c = (if connections b > 0 then connections b - 1 else connections b);
          f = (if fds b > 0 then fds b - 1 else fds b);
          y = i64 (bufferBytes b - PessimisticBufferBytesPerConnection)
      in b \<lparr> connections := c, fds := f, bufferBytes := (if y < 0 then 0 else y) \<rparr>)"

record BudgetSnapshot =
  s_Connections :: int
  s_FDs :: int
  s_PessimisticBufferBytes :: int

definition Snapshot :: "Budget \<Rightarrow> BudgetSnapshot" where
  "Snapshot b = \<lparr> s_Connections = connections b, s_FDs = fds b, s_PessimisticBufferBytes = bufferBytes b \<rparr>"

section \<open>The abstract budget: a number of sessions and a capacity\<close>

text \<open>The state of a budget that holds the charges of \<open>n\<close> sessions.\<close>

definition charged :: "Limits \<Rightarrow> nat \<Rightarrow> Budget" where
  "charged l n = \<lparr> limits = l, connections = int n, fds = int n,
                   bufferBytes = int n * PessimisticBufferBytesPerConnection \<rparr>"

definition room :: "Limits \<Rightarrow> nat \<Rightarrow> bool" where
  "room l n \<longleftrightarrow> (MaxConnections l = 0 \<or> int n < MaxConnections l) \<and> (MaxFDs l = 0 \<or> int n < MaxFDs l) \<and>
     (MaxPessimisticBufferBytes l = 0 \<or>
      (int n + 1) * PessimisticBufferBytesPerConnection \<le> MaxPessimisticBufferBytes l)"

definition valid_limits :: "Limits \<Rightarrow> bool" where
  "valid_limits l \<longleftrightarrow> 0 \<le> MaxConnections l \<and> 0 \<le> MaxFDs l \<and> 0 \<le> MaxPessimisticBufferBytes l"

text \<open>\<open>2 ^ 46\<close> sessions would be the first to overflow the buffer counter.\<close>

lemma Reserve_charged:
  assumes "valid_limits l" "n < 2 ^ 46"
  shows "snd (Reserve (charged l n)) = charged l (if room l n then Suc n else n)"
    and "fst (Reserve (charged l n)) = None \<longleftrightarrow> room l n"
proof -
  have *: "i64 (int n * 65536 + 65536) = int n * 65536 + 65536" "i64 (int n + 1) = int n + 1"
    using assms(2) by (auto intro!: i64_id)
  show "snd (Reserve (charged l n)) = charged l (if room l n then Suc n else n)"
    "fst (Reserve (charged l n)) = None \<longleftrightarrow> room l n"
    using assms(1) *
    by (auto simp: Reserve_def charged_def room_def valid_limits_def PessimisticBufferBytesPerConnection_def
        algebra_simps)
qed

lemma Release_charged:
  assumes "n < 2 ^ 46" shows "Release (charged l n) = charged l (n - 1)"
proof -
  have "i64 (int n * 65536 - 65536) = int n * 65536 - 65536"
    using assms by (auto intro!: i64_id)
  thus ?thesis
    by (cases n) (auto simp: Release_def charged_def PessimisticBufferBytesPerConnection_def Let_def algebra_simps)
qed

datatype budget_op = OpReserve | OpRelease

primrec budget_exec :: "budget_op \<Rightarrow> Budget \<Rightarrow> Budget" where
  "budget_exec OpReserve b = snd (Reserve b)"
| "budget_exec OpRelease b = Release b"

primrec sessions_exec :: "Limits \<Rightarrow> budget_op \<Rightarrow> nat \<Rightarrow> nat" where
  "sessions_exec l OpReserve n = (if room l n then Suc n else n)"
| "sessions_exec l OpRelease n = n - 1"

lemma budget_exec_charged:
  "valid_limits l \<Longrightarrow> n < 2 ^ 46 \<Longrightarrow> budget_exec op (charged l n) = charged l (sessions_exec l op n)"
  by (cases op) (simp_all add: Reserve_charged Release_charged)

lemma sessions_le: "fold (sessions_exec l) ops n \<le> n + length ops"
proof (induction ops arbitrary: n)
  case (Cons op ops)
  have "sessions_exec l op n \<le> Suc n" by (cases op) simp_all
  thus ?case using Cons [of "sessions_exec l op n"] by simp
qed simp

lemma budget_fold:
  "valid_limits l \<Longrightarrow> n + length ops < 2 ^ 46 \<Longrightarrow>
     fold budget_exec ops (charged l n) = charged l (fold (sessions_exec l) ops n)"
proof (induction ops arbitrary: n)
  case (Cons op ops)
  have "sessions_exec l op n + length ops < 2 ^ 46"
    using Cons.prems(2) by (cases op) auto
  moreover have "budget_exec op (charged l n) = charged l (sessions_exec l op n)"
    using Cons.prems by (intro budget_exec_charged) simp_all
  ultimately show ?case using Cons.IH [OF Cons.prems(1)] by simp
qed simp

definition within :: "Limits \<Rightarrow> nat \<Rightarrow> bool" where
  "within l n \<longleftrightarrow> (MaxConnections l = 0 \<or> int n \<le> MaxConnections l) \<and> (MaxFDs l = 0 \<or> int n \<le> MaxFDs l) \<and>
     (MaxPessimisticBufferBytes l = 0 \<or> int n * PessimisticBufferBytesPerConnection \<le> MaxPessimisticBufferBytes l)"

lemma sessions_within:
  assumes "valid_limits l" shows "within l n \<Longrightarrow> within l (fold (sessions_exec l) ops n)"
proof (induction ops arbitrary: n)
  case (Cons op ops)
  have "within l (sessions_exec l op n)"
    using Cons.prems assms
    by (cases op) (auto simp: within_def room_def PessimisticBufferBytesPerConnection_def algebra_simps)
  thus ?case using Cons.IH by simp
qed simp

section \<open>Property\<close>

text \<open>
  C34. A budget that starts empty refines a counter of sessions: after any sequence of reserves and
  releases (fewer than \<open>2 ^ 46\<close>, so that no counter wraps) the three axes hold the charges of exactly as
  many sessions as the counter, a reserve succeeds exactly when every axis has room for one more
  session, a refused reserve charges nothing, and no configured limit is ever exceeded.
\<close>

theorem budget_refines_sessions:
  assumes "NewBudget l = Inr b" and "length ops < 2 ^ 46 - 1"
  shows "\<exists>n. fold budget_exec ops b = charged l n \<and> n = fold (sessions_exec l) ops 0 \<and> within l n \<and>
     (fst (Reserve (charged l n)) = None \<longleftrightarrow> room l n) \<and>
     snd (Reserve (charged l n)) = charged l (if room l n then Suc n else n)"
proof -
  let ?n = "fold (sessions_exec l) ops 0"
  have l: "valid_limits l" and b: "b = charged l 0"
    using assms(1) by (auto simp: NewBudget_def valid_limits_def charged_def split: if_splits)
  have n: "?n < 2 ^ 46" using sessions_le [of l ops 0] assms(2) by simp
  have "within l ?n"
    using l by (intro sessions_within) (auto simp: within_def valid_limits_def)
  thus ?thesis
    using budget_fold [OF l, of 0 ops] assms(2) Reserve_charged [OF l n] b by auto
qed

theorem budget_refines_sessions_witness:
  "let l = \<lparr> MaxConnections = 2, MaxFDs = 0, MaxPessimisticBufferBytes = 100000 \<rparr>;
       b = \<lparr> limits = l, connections = 0, fds = 0, bufferBytes = 0 \<rparr>
   in NewBudget l = Inr b \<and> fold budget_exec [OpReserve, OpReserve] b = charged l 1"
proof -
  let ?l = "\<lparr> MaxConnections = 2, MaxFDs = 0, MaxPessimisticBufferBytes = 100000 \<rparr>"
  let ?b = "\<lparr> limits = ?l, connections = 0, fds = 0, bufferBytes = 0 \<rparr>"
  have new: "NewBudget ?l = Inr ?b" by (simp add: NewBudget_def)
  have "fold (sessions_exec ?l) [OpReserve, OpReserve] 0 = 1"
    by (simp add: room_def PessimisticBufferBytesPerConnection_def)
  thus ?thesis
    using budget_refines_sessions [OF new, of "[OpReserve, OpReserve]"] new unfolding Let_def by force
qed

end
