(* ===== verification/Gateway_Client.thy ===== *)
theory Gateway_Client
  imports Netip
begin

text \<open>
  What the NAT-PMP and PCP clients (\<^verbatim>\<open>src/internal/traversal/natpmp/client.go\<close> and
  \<^verbatim>\<open>src/internal/traversal/pcp/client.go\<close>) have in common: the retransmission loop, the loop that
  reads datagrams until the attempt's deadline, the filter on the gateway's address, and the tracking of
  the gateway's epoch. Both files contain these loops once per exchange; they differ in the classifier of
  a datagram, which is an argument here.

  The network, the clock and the caller's context are the environment: per attempt, whether the context
  is done, whether the send fails, and what the reads return until one of them fails, which a read does
  at the latest at the deadline that the code sets before it (the end of \<open>at_reads\<close>).
\<close>

section \<open>Source addresses\<close>

datatype net_Addr = UDPAddr bytes int | OtherNetAddr

definition AddrFromSlice :: "bytes \<Rightarrow> Addr option" where
  "AddrFromSlice b =
     (if length b = 4 then Some (V4 (b ! 0) (b ! 1) (b ! 2) (b ! 3))
      else if length b = 16 then Some (V6 b []) else None)"

type_synonym AddrPort = "Addr \<times> u16"

definition addrPortOf :: "net_Addr \<Rightarrow> AddrPort option" where
  "addrPortOf addr = (case addr of
      OtherNetAddr \<Rightarrow> None
    | UDPAddr ip port \<Rightarrow> (case AddrFromSlice ip of
         None \<Rightarrow> None
       | Some a \<Rightarrow> Some (Unmap a, of_int port)))"

lemma take2: "2 \<le> length xs \<Longrightarrow> take 2 xs = [xs ! 0, xs ! 1]"
  by (cases xs; cases "tl xs") auto

section \<open>Durations\<close>

text \<open>A \<open>time.Duration\<close> is a 64-bit count of nanoseconds; \<open>d / time.Second\<close> truncates towards zero.\<close>

definition seconds :: "int \<Rightarrow> int" where
  "seconds d = (if d < 0 then - (- d div 1000000000) else d div 1000000000)"

definition of_seconds :: "u32 \<Rightarrow> int" where
  "of_seconds s = uint s * 1000000000"

lemma of_seconds_int64: "0 \<le> of_seconds s \<and> of_seconds s < 2 ^ 63"
proof -
  have "uint s < 2 ^ LENGTH(32)" by (rule unsigned_less)
  thus ?thesis by (simp add: of_seconds_def)
qed

lemma seconds_of_seconds: "of_int (seconds (of_seconds s)) = s"
  by (simp add: seconds_def of_seconds_def)

section \<open>The client\<close>

record ClientOptions =
  o_Timeout :: int
  o_MaxAttempts :: int
  o_Backoff :: int
  o_EpochBaseline :: u32
  o_EpochSeen :: bool

record Client =
  server :: AddrPort
  opts :: ClientOptions
  lastEpoch :: u32
  sawEpoch :: bool

definition NewClient :: "AddrPort \<Rightarrow> ClientOptions \<Rightarrow> Client" where
  "NewClient s o0 =
     (let o1 = (if o_Timeout o0 \<le> 0 then o0 \<lparr> o_Timeout := 2000000000 \<rparr> else o0);
          o2 = (if o_MaxAttempts o1 \<le> 0 then o1 \<lparr> o_MaxAttempts := 3 \<rparr> else o1);
          o3 = (if o_Backoff o2 \<le> 0 then o2 \<lparr> o_Backoff := 500000000 \<rparr> else o2)
      in \<lparr> server = s, opts = o3, lastEpoch = o_EpochBaseline o3, sawEpoch = o_EpochSeen o3 \<rparr>)"

definition observeEpoch :: "u32 \<Rightarrow> Client \<Rightarrow> bool \<times> Client" where
  "observeEpoch epoch c =
     (sawEpoch c \<and> uint epoch - uint (lastEpoch c) < - 2, c \<lparr> lastEpoch := epoch, sawEpoch := True \<rparr>)"

datatype ('x, 'k) gw_error = CtxErr 'x | DeadlineErr 'x | SendErr 'x | ErrNoResponse | Refused 'k

datatype ('k, 'r) verdict = Definitive "'k + 'r" | TransientRetry

record 'x read_event =
  rd_ctx :: "'x option"
  rd_deadline :: "'x option"
  rd_data :: "(net_Addr \<times> bytes) option"

record 'x attempt =
  at_ctx :: "'x option"
  at_write :: "'x option"
  at_reads :: "'x read_event list"
  at_backoff :: "'x option"

record 'x gw_env =
  attempt_at :: "nat \<Rightarrow> 'x attempt"
  final_ctx :: "'x option"

type_synonym ('k, 'r) classifier = "bytes \<Rightarrow> Client \<Rightarrow> ('k, 'r) verdict \<times> Client"

text \<open>The read loop: a buffer of 1500 bytes, and only datagrams whose source is exactly the gateway.\<close>

primrec await ::
  "('k, 'r) classifier \<Rightarrow> Client \<Rightarrow> 'x read_event list \<Rightarrow> (('x, 'k) gw_error, 'r) verdict \<times> Client" where
  "await classify c [] = (TransientRetry, c)"
| "await classify c (ev # evs) =
     (case rd_ctx ev of Some e \<Rightarrow> (Definitive (Inl (CtxErr e)), c)
      | None \<Rightarrow> (case rd_deadline ev of Some e \<Rightarrow> (Definitive (Inl (DeadlineErr e)), c)
      | None \<Rightarrow> (case rd_data ev of None \<Rightarrow> (TransientRetry, c)
      | Some (from, datagram) \<Rightarrow>
          if addrPortOf from \<noteq> Some (server c) then await classify c evs
          else (case classify (take 1500 datagram) c of
                  (Definitive (Inl k), c') \<Rightarrow> (Definitive (Inl (Refused k)), c')
                | (Definitive (Inr r), c') \<Rightarrow> (Definitive (Inr r), c')
                | (TransientRetry, c') \<Rightarrow> (TransientRetry, c')))))"

text \<open>
  The retransmission loop with \<open>n\<close> attempts left; the result carries the packets that were sent. The
  first of \<open>n\<close> attempts is number \<open>n\<close>, the last one number 1.
\<close>

primrec exchange ::
  "('k, 'r) classifier \<Rightarrow> 'x gw_env \<Rightarrow> bytes \<Rightarrow> nat \<Rightarrow> Client \<Rightarrow> (('x, 'k) gw_error + 'r) \<times> Client \<times> bytes list"
where
  "exchange classify env packet 0 c =
     (Inl (case final_ctx env of Some e \<Rightarrow> CtxErr e | None \<Rightarrow> ErrNoResponse), c, [])"
| "exchange classify env packet (Suc n) c =
     (let at = attempt_at env (Suc n) in
      case at_ctx at of Some e \<Rightarrow> (Inl (CtxErr e), c, [])
      | None \<Rightarrow> (case at_write at of Some e \<Rightarrow> (Inl (SendErr e), c, [])
      | None \<Rightarrow> (case await classify c (at_reads at) of
          (Definitive r, c') \<Rightarrow> (r, c', [packet])
        | (TransientRetry, c') \<Rightarrow>
            (case (if 0 < n then at_backoff at else None) of
               Some e \<Rightarrow> (Inl (CtxErr e), c', [packet])
             | None \<Rightarrow> (let (r, c'', sent) = exchange classify env packet n c' in (r, c'', packet # sent))))))"

definition attempts_of :: "Client \<Rightarrow> nat" where
  "attempts_of c = nat (o_MaxAttempts (opts c))"

lemma NewClient_attempts: "0 < attempts_of (NewClient s os)"
  by (auto simp: NewClient_def attempts_of_def Let_def)

section \<open>What every exchange guarantees\<close>

text \<open>Some datagram that was read came from exactly the address \<open>srv\<close> and satisfies \<open>P\<close>.\<close>

definition heard :: "AddrPort \<Rightarrow> (bytes \<Rightarrow> bool) \<Rightarrow> 'x read_event list \<Rightarrow> bool" where
  "heard srv P evs \<longleftrightarrow>
     (\<exists>ev \<in> set evs. \<exists>src d. rd_data ev = Some (src, d) \<and> addrPortOf src = Some srv \<and> P (take 1500 d))"

text \<open>Bounded retransmission: at most \<open>n\<close> copies of one packet.\<close>

lemma exchange_sends:
  "exchange classify env packet n c = (r, c', sent) \<Longrightarrow> length sent \<le> n \<and> set sent \<subseteq> {packet}"
  by (induction n arbitrary: c r c' sent)
    (fastforce simp: Let_def split: option.splits prod.splits verdict.splits if_splits)+

text \<open>
  Progress: when the attempts before number \<open>i\<close> only time out and in attempt \<open>i\<close> the first datagram of
  the gateway is accepted, the exchange returns it.
\<close>

definition foreign :: "AddrPort \<Rightarrow> 'x read_event \<Rightarrow> bool" where
  "foreign srv ev \<longleftrightarrow> rd_ctx ev = None \<and> rd_deadline ev = None \<and>
     (case rd_data ev of None \<Rightarrow> False | Some (src, _) \<Rightarrow> addrPortOf src \<noteq> Some srv)"

lemma await_foreign: "foreign (server c) ev \<Longrightarrow> await classify c (ev # evs) = await classify c evs"
  by (auto simp: foreign_def split: option.splits)

lemma await_skips: "list_all (foreign (server c)) evs \<Longrightarrow> await classify c (evs @ rest) = await classify c rest"
  by (induction evs) (simp_all add: await_foreign del: await.simps)

lemma exchange_answers:
  assumes quiet: "\<And>k. i < k \<Longrightarrow> k \<le> n \<Longrightarrow> at_ctx (attempt_at env k) = None \<and>
      at_write (attempt_at env k) = None \<and> at_backoff (attempt_at env k) = None \<and>
      await classify c (at_reads (attempt_at env k)) = (TransientRetry, c)"
    and i: "0 < i" "i \<le> n"
    and go: "at_ctx (attempt_at env i) = None" "at_write (attempt_at env i) = None"
    and reply: "await classify c (at_reads (attempt_at env i)) = (Definitive (Inr r), c')"
  shows "exchange classify env packet n c = (Inr r, c', replicate (Suc (n - i)) packet)"
  using quiet i(2)
proof (induction n)
  case 0
  thus ?case using i by simp
next
  case (Suc n)
  show ?case
  proof (cases "i = Suc n")
    case True
    thus ?thesis using go reply by (auto simp: Let_def)
  next
    case False
    hence le: "i \<le> n" using Suc.prems by simp
    have "exchange classify env packet n c = (Inr r, c', replicate (Suc (n - i)) packet)"
      using Suc.IH Suc.prems(1) le by simp
    moreover have "Suc n - i = Suc (n - i)" using le by simp
    ultimately show ?thesis
      using Suc.prems(1) [of "Suc n"] False le i(1) by (auto simp: Let_def)
  qed
qed

text \<open>
  The contract of a classifier: \<open>granted d r\<close> says what a datagram must contain to be answered with
  \<open>r\<close>, and the classifier changes nothing of the client but the epoch.
\<close>

locale gateway_exchange =
  fixes classify :: "('k, 'r) classifier"
    and granted :: "bytes \<Rightarrow> 'r \<Rightarrow> bool"
  assumes classify_granted: "classify d c = (Definitive (Inr r), c') \<Longrightarrow> granted d r"
    and classify_server: "classify d c = (v, c') \<Longrightarrow> server c' = server c"
begin

lemma await_server: "await classify c evs = (v, c') \<Longrightarrow> server c' = server c"
  by (induction evs)
    (auto dest: classify_server split: option.splits prod.splits verdict.splits sum.splits if_splits)

lemma await_granted: "await classify c evs = (Definitive (Inr r), c') \<Longrightarrow> heard (server c) (\<lambda>d. granted d r) evs"
proof (induction evs)
  case (Cons ev evs)
  show ?case
  proof (cases "\<exists>src d. rd_data ev = Some (src, d) \<and> addrPortOf src = Some (server c)")
    case True
    with Cons.prems show ?thesis
      by (auto simp: heard_def dest!: classify_granted
          split: option.splits prod.splits verdict.splits sum.splits if_splits)
  next
    case False
    with Cons.prems have "await classify c evs = (Definitive (Inr r), c')"
      by (auto split: option.splits if_splits)
    with Cons.IH show ?thesis by (auto simp: heard_def)
  qed
qed simp

lemma exchange_granted:
  "exchange classify env packet n c = (Inr r, c', sent) \<Longrightarrow>
     \<exists>i \<in> {1..n}. heard (server c) (\<lambda>d. granted d r) (at_reads (attempt_at env i))"
proof (induction n arbitrary: c sent)
  case (Suc n)
  let ?at = "attempt_at env (Suc n)"
  obtain v c1 where aw: "await classify c (at_reads ?at) = (v, c1)" by fastforce
  note s = await_server [OF aw]
  show ?case
  proof (cases v)
    case (Definitive x)
    hence "x = Inr r" using Suc.prems aw by (auto simp: Let_def split: option.splits)
    with await_granted aw Definitive show ?thesis by (intro bexI [of _ "Suc n"]) auto
  next
    case TransientRetry
    then obtain sent' where "exchange classify env packet n c1 = (Inr r, c', sent')"
      using Suc.prems aw by (auto simp: Let_def split: option.splits prod.splits if_splits)
    from Suc.IH [OF this] s show ?thesis by force
  qed
qed simp

end

end
