(* ===== verification/Nat_Pmp.thy ===== *)
theory Nat_Pmp
  imports Gateway_Client
begin

text \<open>
  \<^verbatim>\<open>src/internal/traversal/natpmp/natpmp.go\<close> and \<^verbatim>\<open>src/internal/traversal/natpmp/client.go\<close>: the
  NAT-PMP codec (RFC 6886) and the client's operations. The loops are those of \<open>Gateway_Client\<close>.
\<close>

section \<open>Codec\<close>

datatype natpmp_error = ErrTruncated | ErrWrongVersion | ErrWrongOpcode | ErrInternalPort | ErrBadPublicAddress
  | ErrTrailing | ErrProtocolInvalid
  | ErrUnsupportedVersion | ErrNotAuthorized | ErrNetworkFailure | ErrOutOfResources | ErrUnsupportedOpcode
  | GatewayFailure u16 | ErrUnownedMapping

definition Protocol_Valid :: "u8 \<Rightarrow> bool" where
  "Protocol_Valid p \<longleftrightarrow> p = 1 \<or> p = 2"

definition opcode :: "u8 \<Rightarrow> u8" where
  "opcode p = (if p = 1 then 1 else if p = 2 then 2 else 0)"

record MapRequest =
  rq_Protocol :: u8
  rq_InternalPort :: u16
  rq_RequestedExternalPort :: u16
  rq_Lifetime :: int

definition buildMapRequest :: "MapRequest \<Rightarrow> natpmp_error + bytes" where
  "buildMapRequest req =
     (if \<not> Protocol_Valid (rq_Protocol req) then Inl ErrProtocolInvalid
      else Inr ([0, opcode (rq_Protocol req), 0, 0] @ put_u16 (rq_InternalPort req) @
                put_u16 (rq_RequestedExternalPort req) @ put_u32 (of_int (seconds (rq_Lifetime req)))))"

record mapResponse =
  mr_ResultCode :: u16
  mr_Epoch :: u32
  mr_InternalPort :: u16
  mr_AssignedExternalPort :: u16
  mr_LifetimeSeconds :: u32

definition parseMapResponse :: "bytes \<Rightarrow> u8 \<Rightarrow> u16 \<Rightarrow> natpmp_error + mapResponse" where
  "parseMapResponse packet wantOpcode wantInternalPort =
     (if length packet < 16 then Inl ErrTruncated
      else if packet ! 0 \<noteq> 0 then Inl ErrWrongVersion
      else if packet ! 1 \<noteq> wantOpcode + 128 then Inl ErrWrongOpcode
      else
        let response = \<lparr> mr_ResultCode = get_u16 (subslice 2 4 packet), mr_Epoch = get_u32 (subslice 4 8 packet),
              mr_InternalPort = get_u16 (subslice 8 10 packet),
              mr_AssignedExternalPort = get_u16 (subslice 10 12 packet),
              mr_LifetimeSeconds = get_u32 (subslice 12 16 packet) \<rparr>
        in if length packet \<noteq> 16 then Inl ErrTrailing
           else if mr_ResultCode response = 0 \<and> mr_InternalPort response \<noteq> wantInternalPort then Inl ErrInternalPort
           else Inr response)"

record publicResponse =
  pr_ResultCode :: u16
  pr_Epoch :: u32
  pr_Address :: Addr

definition parsePublicResponse :: "bytes \<Rightarrow> natpmp_error + publicResponse" where
  "parsePublicResponse packet =
     (if length packet < 12 then Inl ErrTruncated
      else if packet ! 0 \<noteq> 0 then Inl ErrWrongVersion
      else if packet ! 1 \<noteq> 0 + 128 then Inl ErrWrongOpcode
      else if length packet \<noteq> 12 then Inl ErrTrailing
      else case AddrFromSlice (subslice 8 12 packet) of
        None \<Rightarrow> Inl ErrBadPublicAddress
      | Some address \<Rightarrow>
          if \<not> Is4 address then Inl ErrBadPublicAddress
          else Inr \<lparr> pr_ResultCode = get_u16 (subslice 2 4 packet), pr_Epoch = get_u32 (subslice 4 8 packet),
                     pr_Address = address \<rparr>)"

section \<open>Client operations\<close>

definition resultErrors :: "u16 \<Rightarrow> natpmp_error" where
  "resultErrors code =
     (if code = 1 then ErrUnsupportedVersion else if code = 2 then ErrNotAuthorized
      else if code = 3 then ErrNetworkFailure else if code = 4 then ErrOutOfResources
      else if code = 5 then ErrUnsupportedOpcode else GatewayFailure code)"

record MapResult =
  ms_Protocol :: u8
  ms_InternalPort :: u16
  ms_AssignedExternalPort :: u16
  ms_Lifetime :: int
  ms_Epoch :: u32
  ms_ServerRebooted :: bool

text \<open>The classification of a datagram of the gateway in \<open>awaitMap\<close> and \<open>awaitPublic\<close>.\<close>

definition classifyMap :: "MapRequest \<Rightarrow> (natpmp_error, MapResult) classifier" where
  "classifyMap req d c =
     (case parseMapResponse d (opcode (rq_Protocol req)) (rq_InternalPort req) of
        Inl e \<Rightarrow> (Definitive (Inl e), c)
      | Inr response \<Rightarrow>
          if mr_ResultCode response \<noteq> 0 then (Definitive (Inl (resultErrors (mr_ResultCode response))), c)
          else let (reboot, c') = observeEpoch (mr_Epoch response) c in
            (Definitive (Inr \<lparr> ms_Protocol = rq_Protocol req, ms_InternalPort = rq_InternalPort req,
               ms_AssignedExternalPort = mr_AssignedExternalPort response,
               ms_Lifetime = of_seconds (mr_LifetimeSeconds response), ms_Epoch = mr_Epoch response,
               ms_ServerRebooted = reboot \<rparr>), c'))"

definition classifyPublic :: "(natpmp_error, Addr \<times> u32) classifier" where
  "classifyPublic d c =
     (case parsePublicResponse d of
        Inl e \<Rightarrow> (Definitive (Inl e), c)
      | Inr response \<Rightarrow>
          if pr_ResultCode response \<noteq> 0 then (Definitive (Inl (resultErrors (pr_ResultCode response))), c)
          else (Definitive (Inr (pr_Address response, pr_Epoch response)), snd (observeEpoch (pr_Epoch response) c)))"

type_synonym ('x, 'r) outcome = "(('x, natpmp_error) gw_error + 'r) \<times> Client \<times> bytes list"

definition PublicAddress :: "'x gw_env \<Rightarrow> Client \<Rightarrow> ('x, Addr \<times> u32) outcome" where
  "PublicAddress env c = exchange classifyPublic env [0, 0, 0, 0] (attempts_of c) c"

definition transaction :: "'x gw_env \<Rightarrow> MapRequest \<Rightarrow> Client \<Rightarrow> ('x, MapResult) outcome" where
  "transaction env req c =
     (case buildMapRequest req of
        Inl e \<Rightarrow> (Inl (Refused e), c, [])
      | Inr request \<Rightarrow> exchange (classifyMap req) env request (attempts_of c) c)"

definition Map :: "'x gw_env \<Rightarrow> MapRequest \<Rightarrow> Client \<Rightarrow> ('x, MapResult) outcome" where
  "Map env req c = transaction env req c"

definition Renew :: "'x gw_env \<Rightarrow> MapResult \<Rightarrow> int \<Rightarrow> Client \<Rightarrow> ('x, MapResult) outcome" where
  "Renew env mapping lifetime c =
     (if ms_InternalPort mapping = 0 then (Inl (Refused ErrUnownedMapping), c, [])
      else transaction env \<lparr> rq_Protocol = ms_Protocol mapping, rq_InternalPort = ms_InternalPort mapping,
             rq_RequestedExternalPort = ms_AssignedExternalPort mapping, rq_Lifetime = lifetime \<rparr> c)"

definition Delete :: "'x gw_env \<Rightarrow> MapResult \<Rightarrow> Client \<Rightarrow> ('x, MapResult) outcome" where
  "Delete env mapping c =
     (if ms_InternalPort mapping = 0 then (Inl (Refused ErrUnownedMapping), c, [])
      else transaction env \<lparr> rq_Protocol = ms_Protocol mapping, rq_InternalPort = ms_InternalPort mapping,
             rq_RequestedExternalPort = 0, rq_Lifetime = 0 \<rparr> c)"

section \<open>The wire forms\<close>

definition map_response_bytes :: "u8 \<Rightarrow> mapResponse \<Rightarrow> bytes" where
  "map_response_bytes op r = [0, op + 128] @ put_u16 (mr_ResultCode r) @ put_u32 (mr_Epoch r) @
     put_u16 (mr_InternalPort r) @ put_u16 (mr_AssignedExternalPort r) @ put_u32 (mr_LifetimeSeconds r)"

definition public_response_bytes :: "u16 \<Rightarrow> u32 \<Rightarrow> bytes \<Rightarrow> bytes" where
  "public_response_bytes code epoch ip = [0, 128] @ put_u16 code @ put_u32 epoch @ ip"

lemma layout12:
  assumes "length p = 12"
  shows "[p ! 0, p ! 1] @ subslice 2 4 p @ subslice 4 8 p @ subslice 8 12 p = p"
proof -
  have "subslice 2 4 p @ subslice 4 8 p @ subslice 8 12 p = drop 2 p"
    using drop_subslice [of 2 4 p] drop_subslice [of 4 8 p] drop_subslice [of 8 12 p] assms by simp
  moreover have "[p ! 0, p ! 1] = take 2 p" using take2 [of p] assms by simp
  ultimately show ?thesis by (simp only: append_take_drop_id)
qed

lemma layout16:
  assumes "length p = 16"
  shows "[p ! 0, p ! 1] @ subslice 2 4 p @ subslice 4 8 p @ subslice 8 10 p @
     subslice 10 12 p @ subslice 12 16 p = p"
proof -
  have "subslice 2 4 p @ subslice 4 8 p @ subslice 8 10 p @ subslice 10 12 p @ subslice 12 16 p = drop 2 p"
    using drop_subslice [of 2 4 p] drop_subslice [of 4 8 p] drop_subslice [of 8 10 p]
      drop_subslice [of 10 12 p] drop_subslice [of 12 16 p] assms by simp
  moreover have "[p ! 0, p ! 1] = take 2 p" using take2 [of p] assms by simp
  ultimately show ?thesis by (simp only: append_take_drop_id)
qed

lemma parse_map_response_bytes:
  "mr_ResultCode r = 0 \<longrightarrow> mr_InternalPort r = ip \<Longrightarrow> parseMapResponse (map_response_bytes op r) op ip = Inr r"
  by (simp add: parseMapResponse_def map_response_bytes_def subslice_def Let_def)

lemma parseMapResponse_iff:
  "parseMapResponse p op ip = Inr r \<longleftrightarrow>
     p = map_response_bytes op r \<and> (mr_ResultCode r = 0 \<longrightarrow> mr_InternalPort r = ip)"
proof
  assume a: "parseMapResponse p op ip = Inr r"
  hence len: "length p = 16" and hd: "p ! 0 = 0" "p ! 1 = op + 128"
    by (auto simp: parseMapResponse_def Let_def split: if_splits)
  from a len hd have "mr_ResultCode r = 0 \<longrightarrow> mr_InternalPort r = ip"
    and "map_response_bytes op r = [p ! 0, p ! 1] @ subslice 2 4 p @ subslice 4 8 p @ subslice 8 10 p @
     subslice 10 12 p @ subslice 12 16 p"
    by (auto simp: parseMapResponse_def map_response_bytes_def Let_def split: if_splits)
  thus "p = map_response_bytes op r \<and> (mr_ResultCode r = 0 \<longrightarrow> mr_InternalPort r = ip)"
    using layout16 [OF len] by simp
qed (auto intro: parse_map_response_bytes)

lemma length4: "length ip = 4 \<longleftrightarrow> (\<exists>a b c d. ip = [a, b, c, d])"
  by (auto simp: length_Suc_conv eval_nat_numeral)

lemma parsePublicResponse_iff:
  "parsePublicResponse p = Inr r \<longleftrightarrow>
     (\<exists>a b c d. pr_Address r = V4 a b c d \<and> p = public_response_bytes (pr_ResultCode r) (pr_Epoch r) [a, b, c, d])"
proof
  assume a: "parsePublicResponse p = Inr r"
  hence len: "length p = 12" and hd: "p ! 0 = 0" "p ! 1 = 128"
    by (auto simp: parsePublicResponse_def split: if_splits)
  obtain x y z w where ip: "subslice 8 12 p = [x, y, z, w]"
    using length4 [of "subslice 8 12 p"] len by auto
  have r: "r = \<lparr> pr_ResultCode = get_u16 (subslice 2 4 p), pr_Epoch = get_u32 (subslice 4 8 p),
                pr_Address = V4 x y z w \<rparr>"
    using a len hd ip by (auto simp: parsePublicResponse_def AddrFromSlice_def)
  have "public_response_bytes (pr_ResultCode r) (pr_Epoch r) [x, y, z, w] =
      [p ! 0, p ! 1] @ subslice 2 4 p @ subslice 4 8 p @ subslice 8 12 p"
    using len hd by (simp add: r public_response_bytes_def ip)
  thus "\<exists>a b c d. pr_Address r = V4 a b c d \<and> p = public_response_bytes (pr_ResultCode r) (pr_Epoch r) [a, b, c, d]"
    using layout12 [OF len] r by (intro exI [of _ x] exI [of _ y] exI [of _ z] exI [of _ w]) simp
qed (auto simp: parsePublicResponse_def public_response_bytes_def subslice_def AddrFromSlice_def nth_append)

definition map_granted :: "MapRequest \<Rightarrow> bytes \<Rightarrow> MapResult \<Rightarrow> bool" where
  "map_granted req d r \<longleftrightarrow> ms_Protocol r = rq_Protocol req \<and> ms_InternalPort r = rq_InternalPort req \<and>
     d = map_response_bytes (opcode (rq_Protocol req))
           \<lparr> mr_ResultCode = 0, mr_Epoch = ms_Epoch r, mr_InternalPort = rq_InternalPort req,
             mr_AssignedExternalPort = ms_AssignedExternalPort r,
             mr_LifetimeSeconds = of_int (seconds (ms_Lifetime r)) \<rparr>"

definition public_granted :: "bytes \<Rightarrow> Addr \<times> u32 \<Rightarrow> bool" where
  "public_granted d r \<longleftrightarrow> (\<exists>a b c e. fst r = V4 a b c e \<and> d = public_response_bytes 0 (snd r) [a, b, c, e])"

lemma classifyMap_granted: "classifyMap req d c = (Definitive (Inr r), c') \<Longrightarrow> map_granted req d r"
  by (cases "parseMapResponse d (opcode (rq_Protocol req)) (rq_InternalPort req)")
    (auto simp: classifyMap_def map_granted_def observeEpoch_def Let_def parseMapResponse_iff seconds_of_seconds
      map_response_bytes_def
      split: if_splits)

interpretation np_map: gateway_exchange "classifyMap req" "map_granted req" for req
  by unfold_locales
    (auto simp: classifyMap_granted, auto simp: classifyMap_def observeEpoch_def Let_def split: sum.splits if_splits)

interpretation np_public: gateway_exchange classifyPublic public_granted
  by unfold_locales
    (auto simp: classifyPublic_def observeEpoch_def public_granted_def parsePublicResponse_iff
      split: sum.splits if_splits)

lemma put_zero: "put_u16 0 = [0, 0]" "put_u32 0 = [0, 0, 0, 0]"
  using u16c.put_get [of "[0, 0]"] u32c.put_get [of "[0, 0, 0, 0]"]
  by (simp_all add: get_u16_def get_u32_def be_nat_def)

lemma natpmp_transaction_sends:
  "transaction env req c = (res, c', sent) \<Longrightarrow>
     length sent \<le> attempts_of c \<and> (\<forall>p \<in> set sent. buildMapRequest req = Inr p)"
  by (auto simp: transaction_def dest!: exchange_sends split: sum.splits)

section \<open>Properties\<close>

text \<open>
  C35. A transaction sends at most \<open>MaxAttempts\<close> copies of one request, and its result is the gateway's:
  it is decoded from a success response with the request's opcode and internal port that came from
  exactly the gateway's address and port. \<open>Renew\<close> and \<open>Delete\<close> send nothing for a mapping without an
  internal port. \<open>Map\<close> has no such guard: with internal port 0 and a lifetime below one second its
  request is the one that deletes all mappings of the protocol.
\<close>

theorem natpmp_transaction_sound:
  "(transaction env req c = (res, c', sent) \<longrightarrow>
      length sent \<le> attempts_of c \<and> (\<forall>p \<in> set sent. buildMapRequest req = Inr p) \<and>
      (\<forall>r. res = Inr r \<longrightarrow> (\<exists>i \<in> {1..attempts_of c}.
         heard (server c) (\<lambda>d. map_granted req d r) (at_reads (attempt_at env i))))) \<and>
   (ms_InternalPort m = 0 \<longrightarrow>
      Renew env m lifetime c = (Inl (Refused ErrUnownedMapping), c, []) \<and>
      Delete env m c = (Inl (Refused ErrUnownedMapping), c, [])) \<and>
   (Protocol_Valid p \<and> 0 \<le> l \<and> l < 1000000000 \<longrightarrow>
      buildMapRequest \<lparr> rq_Protocol = p, rq_InternalPort = 0, rq_RequestedExternalPort = 0, rq_Lifetime = l \<rparr> =
        Inr [0, p, 0, 0, 0, 0, 0, 0, 0, 0, 0, 0])"
proof (intro conjI impI)
  assume t: "transaction env req c = (res, c', sent)"
  show "length sent \<le> attempts_of c" "\<forall>p \<in> set sent. buildMapRequest req = Inr p"
    using natpmp_transaction_sends [OF t] by simp_all
  show "\<forall>r. res = Inr r \<longrightarrow> (\<exists>i \<in> {1..attempts_of c}.
         heard (server c) (\<lambda>d. map_granted req d r) (at_reads (attempt_at env i)))"
    using t by (auto simp: transaction_def simp del: One_nat_def dest: np_map.exchange_granted split: sum.splits)
next
  assume "Protocol_Valid p \<and> 0 \<le> l \<and> l < 1000000000"
  hence "opcode p = p" "Protocol_Valid p" "seconds l = 0"
    by (auto simp: opcode_def Protocol_Valid_def seconds_def div_pos_pos_trivial)
  thus "buildMapRequest \<lparr> rq_Protocol = p, rq_InternalPort = 0, rq_RequestedExternalPort = 0, rq_Lifetime = l \<rparr> =
        Inr [0, p, 0, 0, 0, 0, 0, 0, 0, 0, 0, 0]"
    by (simp add: buildMapRequest_def put_zero)
qed (simp_all add: Renew_def Delete_def)

text \<open>A gateway that answers the first request with external port 8080.\<close>

definition demo_client :: Client where
  "demo_client = NewClient (V4 10 0 0 1, 5351)
     \<lparr> o_Timeout = 0, o_MaxAttempts = 0, o_Backoff = 0, o_EpochBaseline = 0, o_EpochSeen = False \<rparr>"

definition demo_request :: MapRequest where
  "demo_request = \<lparr> rq_Protocol = 2, rq_InternalPort = 80, rq_RequestedExternalPort = 8080, rq_Lifetime = 60000000000 \<rparr>"

definition demo_reply :: bytes where
  "demo_reply = map_response_bytes 2 \<lparr> mr_ResultCode = 0, mr_Epoch = 7, mr_InternalPort = 80,
     mr_AssignedExternalPort = 8080, mr_LifetimeSeconds = 60 \<rparr>"

definition demo_env :: "unit gw_env" where
  "demo_env = \<lparr> attempt_at = (\<lambda>_. \<lparr> at_ctx = None, at_write = None,
     at_reads = [\<lparr> rd_ctx = None, rd_deadline = None, rd_data = Some (UDPAddr [10, 0, 0, 1] 5351, demo_reply) \<rparr>],
     at_backoff = None \<rparr>), final_ctx = None \<rparr>"

definition demo_result :: MapResult where
  "demo_result = \<lparr> ms_Protocol = 2, ms_InternalPort = 80, ms_AssignedExternalPort = 8080,
     ms_Lifetime = 60000000000, ms_Epoch = 7, ms_ServerRebooted = False \<rparr>"

lemma demo_reply_length: "length demo_reply = 16"
  by (simp add: demo_reply_def map_response_bytes_def)

lemma demo_classify:
  "classifyMap demo_request demo_reply demo_client =
     (Definitive (Inr demo_result), demo_client \<lparr> lastEpoch := 7, sawEpoch := True \<rparr>)"
  by (simp add: classifyMap_def demo_request_def demo_reply_def opcode_def parse_map_response_bytes
      observeEpoch_def demo_client_def NewClient_def Let_def demo_result_def of_seconds_def)

lemma demo_transaction:
  "\<exists>c' sent. transaction demo_env demo_request demo_client = (Inr demo_result, c', sent)"
proof -
  have n: "attempts_of demo_client = 3"
    by (simp add: attempts_of_def demo_client_def NewClient_def Let_def)
  have s: "addrPortOf (UDPAddr [10, 0, 0, 1] 5351) = Some (server demo_client)"
    by (simp add: addrPortOf_def AddrFromSlice_def demo_client_def NewClient_def Let_def)
  have "await (classifyMap demo_request) demo_client (at_reads (attempt_at demo_env 3)) =
      (Definitive (Inr demo_result), demo_client \<lparr> lastEpoch := 7, sawEpoch := True \<rparr>)"
    using s by (simp add: demo_env_def demo_reply_length demo_classify)
  moreover have "at_ctx (attempt_at demo_env 3) = None" "at_write (attempt_at demo_env 3) = None"
    by (simp_all add: demo_env_def)
  moreover obtain b where "buildMapRequest demo_request = Inr b"
    by (simp add: buildMapRequest_def demo_request_def Protocol_Valid_def)
  ultimately show ?thesis
    using exchange_answers [of 3 3 demo_env "classifyMap demo_request" demo_client demo_result _ b]
    by (simp add: transaction_def n)
qed

theorem natpmp_transaction_sound_witness:
  "(\<exists>i \<in> {1..attempts_of demo_client}.
      heard (server demo_client) (\<lambda>d. map_granted demo_request d demo_result) (at_reads (attempt_at demo_env i))) \<and>
   buildMapRequest \<lparr> rq_Protocol = 2, rq_InternalPort = 0, rq_RequestedExternalPort = 0, rq_Lifetime = 0 \<rparr> =
        Inr [0, 2, 0, 0, 0, 0, 0, 0, 0, 0, 0, 0] \<and>
   Delete demo_env (demo_result \<lparr> ms_InternalPort := 0 \<rparr>) demo_client =
     (Inl (Refused ErrUnownedMapping), demo_client, [])"
proof -
  obtain c' sent where t: "transaction demo_env demo_request demo_client = (Inr demo_result, c', sent)"
    using demo_transaction by auto
  show ?thesis
    using natpmp_transaction_sound [where env = demo_env and req = demo_request and c = demo_client
        and res = "Inr demo_result" and c' = c' and sent = sent and m = "demo_result \<lparr> ms_InternalPort := 0 \<rparr>"
        and p = 2 and l = 0] t
    by (simp add: Protocol_Valid_def)
qed

end
