(* ===== verification/Pcp.thy ===== *)
theory Pcp
  imports Gateway_Client
begin

text \<open>
  \<^verbatim>\<open>src/internal/traversal/pcp/pcp.go\<close> and \<^verbatim>\<open>src/internal/traversal/pcp/client.go\<close>: the PCP codec
  (RFC 6887) and the client's operations. The loops are those of \<open>Gateway_Client\<close>; the nonce generator
  is an argument of \<open>Map\<close>, which takes the nonce it returned.
\<close>

section \<open>Codec\<close>

datatype pcp_error = ErrTruncated | ErrWrongVersion | ErrWrongOpcode | ErrTrailingBytes | ErrInternalPort
  | ErrProtocol | ErrBadMappedAddr | ErrProtocolUnsupported | ErrPreferFailureRequiresPort
  | ErrInternalAddress | ErrLifetime
  | ErrUnsupportedVersion | ErrNotAuthorized | ErrMalformedRequest | ErrUnsupportedOpcode | ErrUnsupportedOption
  | ErrNetworkFailure | ErrNoResources | ErrUnsupportedProtocol | ErrUserExQuota | ErrCannotProvideExternal
  | ErrAddressMismatch | ErrExcessiveRemotePeers | PermanentFailure u8
  | ErrNonceMismatch | ErrUnownedMapping | ErrNonceGeneration

definition TransientResult :: "u8 \<Rightarrow> bool" where
  "TransientResult code \<longleftrightarrow> 128 \<le> unat code"

definition v4Mapped :: "Addr \<Rightarrow> bytes" where
  "v4Mapped addr = (case addr of
      V4 a b c d \<Rightarrow> replicate 10 0 @ [255, 255, a, b, c, d]
    | _ \<Rightarrow> replicate 16 0)"

definition mappedToV4 :: "bytes \<Rightarrow> pcp_error + Addr" where
  "mappedToV4 b =
     (if length b \<noteq> 16 then Inl ErrBadMappedAddr
      else if b ! 10 = 255 \<and> b ! 11 = 255 then Inr (V4 (b ! 12) (b ! 13) (b ! 14) (b ! 15))
      else if list_all (\<lambda>v. v = 0) (take 12 b) then Inr (V4 (b ! 12) (b ! 13) (b ! 14) (b ! 15))
      else Inl ErrBadMappedAddr)"

record MapRequest =
  rq_Protocol :: u8
  rq_InternalAddress :: Addr
  rq_InternalPort :: u16
  rq_SuggestedExternalPort :: u16
  rq_Lifetime :: int
  rq_PreferFailure :: bool

definition buildMapRequest :: "MapRequest \<Rightarrow> bytes \<Rightarrow> pcp_error + bytes" where
  "buildMapRequest req nonce =
     (if rq_Protocol req \<noteq> 6 \<and> rq_Protocol req \<noteq> 17 then Inl ErrProtocolUnsupported
      else if rq_PreferFailure req \<and> rq_SuggestedExternalPort req = 0 then Inl ErrPreferFailureRequiresPort
      else if \<not> IsValid (rq_InternalAddress req) \<or> \<not> Is4 (rq_InternalAddress req) then Inl ErrInternalAddress
      else if rq_Lifetime req < 0 \<or> seconds (rq_Lifetime req) > 4294967295 then Inl ErrLifetime
      else
        let packet = [2, 1, 0, 0] @ put_u32 (of_int (seconds (rq_Lifetime req))) @ v4Mapped (rq_InternalAddress req) @
              nonce @ [rq_Protocol req, 0, 0, 0] @ put_u16 (rq_InternalPort req) @
              put_u16 (rq_SuggestedExternalPort req) @ replicate 16 0
        in Inr (if rq_PreferFailure req then packet @ [2, 0, 0, 0] else packet))"

definition buildAnnounceRequest :: "Addr \<Rightarrow> pcp_error + bytes" where
  "buildAnnounceRequest clientAddr =
     (if \<not> IsValid clientAddr \<or> \<not> Is4 clientAddr then Inl ErrInternalAddress
      else Inr ([2, 0, 0, 0] @ replicate 4 0 @ v4Mapped clientAddr))"

record mapResponse =
  mr_ResultCode :: u8
  mr_LifetimeSeconds :: u32
  mr_Epoch :: u32
  mr_Nonce :: bytes
  mr_Protocol :: u8
  mr_InternalPort :: u16
  mr_AssignedExternalPort :: u16
  mr_AssignedExternalAddress :: Addr

text \<open>The response with the header fields only, the rest of the struct at its zero value.\<close>

definition header_response :: "bytes \<Rightarrow> mapResponse" where
  "header_response packet = \<lparr> mr_ResultCode = packet ! 3, mr_LifetimeSeconds = get_u32 (subslice 4 8 packet),
     mr_Epoch = get_u32 (subslice 8 12 packet), mr_Nonce = replicate 12 0, mr_Protocol = 0,
     mr_InternalPort = 0, mr_AssignedExternalPort = 0, mr_AssignedExternalAddress = InvalidAddr \<rparr>"

definition parseAnnounceResponse :: "bytes \<Rightarrow> pcp_error + mapResponse" where
  "parseAnnounceResponse packet =
     (if length packet < 24 then Inl ErrTruncated
      else if length packet \<noteq> 24 then Inl ErrTrailingBytes
      else if packet ! 0 \<noteq> 2 then Inl ErrWrongVersion
      else if packet ! 1 \<noteq> 128 then Inl ErrWrongOpcode
      else Inr (header_response packet))"

definition parseMapResponse :: "bytes \<Rightarrow> u8 \<Rightarrow> u16 \<Rightarrow> pcp_error + mapResponse" where
  "parseMapResponse packet wantProtocol wantInternalPort =
     (if length packet < 24 then Inl ErrTruncated
      else if length packet mod 4 \<noteq> 0 then Inl ErrTrailingBytes
      else if packet ! 0 \<noteq> 2 then Inl ErrWrongVersion
      else if packet ! 1 \<noteq> 129 then Inl ErrWrongOpcode
      else let response = header_response packet in
        if mr_ResultCode response \<noteq> 0 then Inr response
        else if length packet \<noteq> 60 then Inl ErrTrailingBytes
        else
          let payload = drop 24 packet in
          case mappedToV4 (subslice 20 36 payload) of
            Inl e \<Rightarrow> Inl e
          | Inr external \<Rightarrow>
              let response = response \<lparr> mr_Nonce := subslice 0 12 payload, mr_Protocol := payload ! 12,
                    mr_InternalPort := get_u16 (subslice 16 18 payload),
                    mr_AssignedExternalPort := get_u16 (subslice 18 20 payload),
                    mr_AssignedExternalAddress := external \<rparr>
              in if mr_Protocol response \<noteq> wantProtocol then Inl ErrProtocol
                 else if mr_InternalPort response \<noteq> wantInternalPort then Inl ErrInternalPort
                 else Inr response)"

section \<open>Client operations\<close>

definition resultErrors :: "u8 \<Rightarrow> pcp_error" where
  "resultErrors code =
     (if code = 1 then ErrUnsupportedVersion else if code = 2 then ErrNotAuthorized
      else if code = 3 then ErrMalformedRequest else if code = 4 then ErrUnsupportedOpcode
      else if code = 5 then ErrUnsupportedOption else if code = 6 then ErrMalformedRequest
      else if code = 7 then ErrNetworkFailure else if code = 8 then ErrNoResources
      else if code = 9 then ErrUnsupportedProtocol else if code = 10 then ErrUserExQuota
      else if code = 11 then ErrCannotProvideExternal else if code = 12 then ErrAddressMismatch
      else if code = 13 then ErrExcessiveRemotePeers else PermanentFailure code)"

record MapResult =
  ms_Nonce :: bytes
  ms_Protocol :: u8
  ms_InternalAddress :: Addr
  ms_InternalPort :: u16
  ms_AssignedExternalPort :: u16
  ms_AssignedExternalAddress :: Addr
  ms_Lifetime :: int
  ms_Epoch :: u32
  ms_ServerRebooted :: bool

text \<open>The classification of a datagram of the gateway in \<open>awaitResponse\<close> and \<open>awaitAnnounce\<close>.\<close>

definition classifyResponse :: "MapRequest \<Rightarrow> bytes \<Rightarrow> (pcp_error, MapResult) classifier" where
  "classifyResponse req nonce d c =
     (case parseMapResponse d (rq_Protocol req) (rq_InternalPort req) of
        Inl e \<Rightarrow> (Definitive (Inl e), c)
      | Inr response \<Rightarrow>
          if mr_ResultCode response \<noteq> 0 then
            (if TransientResult (mr_ResultCode response) then (TransientRetry, c)
             else (Definitive (Inl (resultErrors (mr_ResultCode response))), c))
          else if mr_Nonce response \<noteq> nonce then (Definitive (Inl ErrNonceMismatch), c)
          else let (reboot, c') = observeEpoch (mr_Epoch response) c in
            (Definitive (Inr \<lparr> ms_Nonce = mr_Nonce response, ms_Protocol = rq_Protocol req,
               ms_InternalAddress = rq_InternalAddress req, ms_InternalPort = rq_InternalPort req,
               ms_AssignedExternalPort = mr_AssignedExternalPort response,
               ms_AssignedExternalAddress = mr_AssignedExternalAddress response,
               ms_Lifetime = of_seconds (mr_LifetimeSeconds response), ms_Epoch = mr_Epoch response,
               ms_ServerRebooted = reboot \<rparr>), c'))"

definition classifyAnnounce :: "(pcp_error, u32) classifier" where
  "classifyAnnounce d c =
     (case parseAnnounceResponse d of
        Inl e \<Rightarrow> (Definitive (Inl e), c)
      | Inr response \<Rightarrow>
          if mr_ResultCode response \<noteq> 0 then
            (if TransientResult (mr_ResultCode response) then (TransientRetry, c)
             else (Definitive (Inl (resultErrors (mr_ResultCode response))), c))
          else (Definitive (Inr (mr_Epoch response)), snd (observeEpoch (mr_Epoch response) c)))"

type_synonym ('x, 'r) outcome = "(('x, pcp_error) gw_error + 'r) \<times> Client \<times> bytes list"

definition Announce :: "'x gw_env \<Rightarrow> Addr \<Rightarrow> Client \<Rightarrow> ('x, u32) outcome" where
  "Announce env clientAddr c =
     (case buildAnnounceRequest clientAddr of
        Inl e \<Rightarrow> (Inl (Refused e), c, [])
      | Inr packet \<Rightarrow> exchange classifyAnnounce env packet (attempts_of c) c)"

definition transaction :: "'x gw_env \<Rightarrow> MapRequest \<Rightarrow> bytes \<Rightarrow> Client \<Rightarrow> ('x, MapResult) outcome" where
  "transaction env req nonce c =
     (case buildMapRequest req nonce of
        Inl e \<Rightarrow> (Inl (Refused e), c, [])
      | Inr packet \<Rightarrow> exchange (classifyResponse req nonce) env packet (attempts_of c) c)"

definition Map :: "'x gw_env \<Rightarrow> MapRequest \<Rightarrow> bytes option \<Rightarrow> Client \<Rightarrow> ('x, MapResult) outcome" where
  "Map env req generated c =
     (case generated of
        None \<Rightarrow> (Inl (Refused ErrNonceGeneration), c, [])
      | Some nonce \<Rightarrow> transaction env req nonce c)"

definition owned_request :: "MapResult \<Rightarrow> int \<Rightarrow> MapRequest" where
  "owned_request mapping lifetime = \<lparr> rq_Protocol = ms_Protocol mapping,
     rq_InternalAddress = ms_InternalAddress mapping, rq_InternalPort = ms_InternalPort mapping,
     rq_SuggestedExternalPort = ms_AssignedExternalPort mapping, rq_Lifetime = lifetime, rq_PreferFailure = False \<rparr>"

definition Delete :: "'x gw_env \<Rightarrow> MapResult \<Rightarrow> Client \<Rightarrow> ('x, MapResult) outcome" where
  "Delete env mapping c =
     (if ms_InternalPort mapping = 0 then (Inl (Refused ErrUnownedMapping), c, [])
      else transaction env (owned_request mapping 0) (ms_Nonce mapping) c)"

definition Renew :: "'x gw_env \<Rightarrow> MapResult \<Rightarrow> int \<Rightarrow> Client \<Rightarrow> ('x, MapResult) outcome" where
  "Renew env mapping lifetime c =
     (if ms_InternalPort mapping = 0 then (Inl (Refused ErrUnownedMapping), c, [])
      else transaction env (owned_request mapping lifetime) (ms_Nonce mapping) c)"

section \<open>The wire form of a success response\<close>

definition success_bytes :: "u8 \<Rightarrow> bytes \<Rightarrow> bytes \<Rightarrow> bytes \<Rightarrow> mapResponse \<Rightarrow> bytes" where
  "success_bytes x rsv rsvb addr r = [2, 129, x, 0] @ put_u32 (mr_LifetimeSeconds r) @ put_u32 (mr_Epoch r) @ rsv @
     mr_Nonce r @ [mr_Protocol r] @ rsvb @ put_u16 (mr_InternalPort r) @ put_u16 (mr_AssignedExternalPort r) @ addr"

lemma mappedToV4_iff:
  "mappedToV4 b = Inr a \<longleftrightarrow> length b = 16 \<and> (b ! 10 = 255 \<and> b ! 11 = 255 \<or> take 12 b = replicate 12 0) \<and>
     a = V4 (b ! 12) (b ! 13) (b ! 14) (b ! 15)"
proof -
  have "list_all (\<lambda>v. v = 0) (take 12 b) \<longleftrightarrow> take 12 b = replicate 12 0" if "length b = 16"
    using that by (auto simp: list_all_iff intro!: replicate_eqI)
  thus ?thesis by (auto simp: mappedToV4_def)
qed

lemma take4: "4 \<le> length xs \<Longrightarrow> take 4 xs = [xs ! 0, xs ! 1, xs ! 2, xs ! 3]"
  by (cases xs; cases "tl xs"; cases "tl (tl xs)"; cases "tl (tl (tl xs))") auto

lemma subslice_1: "n < length xs \<Longrightarrow> subslice n (n + 1) xs = [xs ! n]"
  by (simp add: subslice_def take_Suc_conv_app_nth)

lemma layout60:
  assumes "length p = 60"
  shows "[p ! 0, p ! 1, p ! 2, p ! 3] @ subslice 4 8 p @ subslice 8 12 p @ subslice 12 24 p @ subslice 24 36 p @
     [p ! 36] @ subslice 37 40 p @ subslice 40 42 p @ subslice 42 44 p @ subslice 44 60 p = p"
proof -
  have "subslice 4 8 p @ subslice 8 12 p @ subslice 12 24 p @ subslice 24 36 p @ [p ! 36] @ subslice 37 40 p @
      subslice 40 42 p @ subslice 42 44 p @ subslice 44 60 p = drop 4 p"
    using drop_subslice [of 4 8 p] drop_subslice [of 8 12 p] drop_subslice [of 12 24 p] drop_subslice [of 24 36 p]
      drop_subslice [of 36 37 p] subslice_1 [of 36 p] drop_subslice [of 37 40 p] drop_subslice [of 40 42 p]
      drop_subslice [of 42 44 p] drop_subslice [of 44 60 p] assms by simp
  moreover have "[p ! 0, p ! 1, p ! 2, p ! 3] = take 4 p" using take4 [of p] assms by simp
  ultimately show ?thesis by (simp only: append_take_drop_id)
qed

lemma subslice_drop: "subslice a b (drop n xs) = subslice (n + a) (n + b) xs"
  by (simp add: subslice_def add.commute)

lemma parse_success_bytes:
  assumes "length rsv = 12" "length rsvb = 3" "length (mr_Nonce r) = 12" "mr_ResultCode r = 0"
    "mappedToV4 addr = Inr (mr_AssignedExternalAddress r)"
  shows "parseMapResponse (success_bytes x rsv rsvb addr r) (mr_Protocol r) (mr_InternalPort r) = Inr r"
proof -
  have "length addr = 16" using assms(5) by (simp add: mappedToV4_iff)
  thus ?thesis
    using assms
    by (simp add: parseMapResponse_def success_bytes_def header_response_def subslice_def Let_def nth_append)
qed

lemma parse_success_iff:
  "parseMapResponse p proto port = Inr r \<and> mr_ResultCode r = 0 \<longleftrightarrow>
     (\<exists>x rsv rsvb addr. length rsv = 12 \<and> length rsvb = 3 \<and> length (mr_Nonce r) = 12 \<and> mr_ResultCode r = 0 \<and>
        mappedToV4 addr = Inr (mr_AssignedExternalAddress r) \<and> mr_Protocol r = proto \<and> mr_InternalPort r = port \<and>
        p = success_bytes x rsv rsvb addr r)"
proof
  assume a: "parseMapResponse p proto port = Inr r \<and> mr_ResultCode r = 0"
  hence len: "length p = 60" and hd: "p ! 0 = 2" "p ! 1 = 129" "p ! 3 = 0"
    by (auto simp: parseMapResponse_def header_response_def Let_def split: if_splits)
  obtain ext where ext: "mappedToV4 (subslice 44 60 p) = Inr ext"
    using a len hd by (auto simp: parseMapResponse_def header_response_def Let_def subslice_drop split: sum.splits if_splits)
  have r: "r = \<lparr> mr_ResultCode = 0, mr_LifetimeSeconds = get_u32 (subslice 4 8 p),
     mr_Epoch = get_u32 (subslice 8 12 p), mr_Nonce = subslice 24 36 p, mr_Protocol = p ! 36,
     mr_InternalPort = get_u16 (subslice 40 42 p), mr_AssignedExternalPort = get_u16 (subslice 42 44 p),
     mr_AssignedExternalAddress = ext \<rparr>" and want: "mr_Protocol r = proto" "mr_InternalPort r = port"
    using a len hd ext
    by (auto simp: parseMapResponse_def header_response_def Let_def subslice_drop split: if_splits)
  have "success_bytes (p ! 2) (subslice 12 24 p) (subslice 37 40 p) (subslice 44 60 p) r = p"
    using len hd r layout60 [OF len] by (simp add: success_bytes_def)
  moreover have "length (mr_Nonce r) = 12" "mr_ResultCode r = 0" "mr_AssignedExternalAddress r = ext"
    using len by (simp_all add: r)
  ultimately show "\<exists>x rsv rsvb addr. length rsv = 12 \<and> length rsvb = 3 \<and> length (mr_Nonce r) = 12 \<and> mr_ResultCode r = 0 \<and>
        mappedToV4 addr = Inr (mr_AssignedExternalAddress r) \<and> mr_Protocol r = proto \<and> mr_InternalPort r = port \<and>
        p = success_bytes x rsv rsvb addr r"
    using len want ext
    by (intro exI [of _ "p ! 2"] exI [of _ "subslice 12 24 p"] exI [of _ "subslice 37 40 p"]
        exI [of _ "subslice 44 60 p"]) simp
next
  assume "\<exists>x rsv rsvb addr. length rsv = 12 \<and> length rsvb = 3 \<and> length (mr_Nonce r) = 12 \<and> mr_ResultCode r = 0 \<and>
        mappedToV4 addr = Inr (mr_AssignedExternalAddress r) \<and> mr_Protocol r = proto \<and> mr_InternalPort r = port \<and>
        p = success_bytes x rsv rsvb addr r"
  thus "parseMapResponse p proto port = Inr r \<and> mr_ResultCode r = 0"
    using parse_success_bytes by blast
qed

definition map_granted :: "MapRequest \<Rightarrow> bytes \<Rightarrow> bytes \<Rightarrow> MapResult \<Rightarrow> bool" where
  "map_granted req nonce d r \<longleftrightarrow> ms_Nonce r = nonce \<and> ms_Protocol r = rq_Protocol req \<and>
     ms_InternalAddress r = rq_InternalAddress req \<and> ms_InternalPort r = rq_InternalPort req \<and>
     (\<exists>x rsv rsvb addr. length rsv = 12 \<and> length rsvb = 3 \<and> length nonce = 12 \<and>
        mappedToV4 addr = Inr (ms_AssignedExternalAddress r) \<and>
        d = [2, 129, x, 0] @ put_u32 (of_int (seconds (ms_Lifetime r))) @ put_u32 (ms_Epoch r) @ rsv @ nonce @
            [rq_Protocol req] @ rsvb @ put_u16 (rq_InternalPort req) @ put_u16 (ms_AssignedExternalPort r) @ addr)"

lemma classifyResponse_granted:
  assumes "classifyResponse req nonce d c = (Definitive (Inr r), c')"
  shows "map_granted req nonce d r"
proof (cases "parseMapResponse d (rq_Protocol req) (rq_InternalPort req)")
  case (Inr m)
  with assms have m: "mr_ResultCode m = 0" "mr_Nonce m = nonce"
    by (auto simp: classifyResponse_def split: if_splits)
  from Inr m(1) parse_success_iff obtain x rsv rsvb addr where
    w: "length rsv = 12" "length rsvb = 3" "length (mr_Nonce m) = 12"
      "mappedToV4 addr = Inr (mr_AssignedExternalAddress m)" "mr_Protocol m = rq_Protocol req"
      "mr_InternalPort m = rq_InternalPort req" "d = success_bytes x rsv rsvb addr m" by blast
  show ?thesis
    unfolding map_granted_def
    using assms Inr m w
    by (intro conjI exI [of _ x] exI [of _ rsv] exI [of _ rsvb] exI [of _ addr])
      (auto simp: classifyResponse_def observeEpoch_def Let_def seconds_of_seconds success_bytes_def)
qed (use assms in \<open>simp add: classifyResponse_def\<close>)

interpretation pcp_map: gateway_exchange "classifyResponse req nonce" "map_granted req nonce" for req nonce
proof
  show "classifyResponse req nonce d c = (Definitive (Inr r), c') \<Longrightarrow> map_granted req nonce d r" for d c r c'
    by (rule classifyResponse_granted)
  show "classifyResponse req nonce d c = (v, c') \<Longrightarrow> server c' = server c" for d c v c'
    by (auto simp: classifyResponse_def observeEpoch_def Let_def split: sum.splits if_splits)
qed

interpretation pcp_announce: gateway_exchange classifyAnnounce
  "\<lambda>d r. \<exists>m. parseAnnounceResponse d = Inr m \<and> mr_ResultCode m = 0 \<and> mr_Epoch m = r"
  by unfold_locales (auto simp: classifyAnnounce_def observeEpoch_def split: sum.splits if_splits)

lemma pcp_transaction_sends:
  "transaction env req nonce c = (res, c', sent) \<Longrightarrow>
     length sent \<le> attempts_of c \<and> (\<forall>p \<in> set sent. buildMapRequest req nonce = Inr p)"
  by (auto simp: transaction_def dest!: exchange_sends split: sum.splits)

lemma request_nonce:
  assumes "buildMapRequest req nonce = Inr p" "length nonce = 12"
  shows "subslice 24 36 p = nonce \<and> subslice 4 8 p = put_u32 (of_int (seconds (rq_Lifetime req))) \<and>
     subslice 40 42 p = put_u16 (rq_InternalPort req)"
proof -
  obtain a b c d where v4: "rq_InternalAddress req = V4 a b c d"
    using assms by (cases "rq_InternalAddress req") (auto simp: buildMapRequest_def split: if_splits)
  show ?thesis
    using assms by (auto simp: buildMapRequest_def v4 v4Mapped_def subslice_def Let_def split: if_splits)
qed

text \<open>An attempt in which the gateway stays silent or answers with a transient result code.\<close>

definition transient_reply :: "Client \<Rightarrow> 'x read_event \<Rightarrow> bool" where
  "transient_reply c ev \<longleftrightarrow> rd_ctx ev = None \<and> rd_deadline ev = None \<and>
     (case rd_data ev of None \<Rightarrow> True
      | Some (src, d) \<Rightarrow> addrPortOf src = Some (server c) \<and> length d < 1500 \<and> 24 \<le> length d \<and> length d mod 4 = 0 \<and>
          d ! 0 = 2 \<and> d ! 1 = 129 \<and> TransientResult (d ! 3))"

definition unanswered :: "Client \<Rightarrow> 'x attempt \<Rightarrow> bool" where
  "unanswered c at \<longleftrightarrow> at_ctx at = None \<and> at_write at = None \<and> at_backoff at = None \<and>
     (\<exists>evs. list_all (foreign (server c)) evs \<and>
        (at_reads at = evs \<or> (\<exists>ev rest. transient_reply c ev \<and> at_reads at = evs @ ev # rest)))"

lemma transient_classify:
  assumes "24 \<le> length d" "length d mod 4 = 0" "d ! 0 = 2" "d ! 1 = 129" "TransientResult (d ! 3)"
  shows "classifyResponse req nonce d c = (TransientRetry, c)"
proof -
  have "d ! 3 \<noteq> 0" using assms(5) by (auto simp: TransientResult_def)
  thus ?thesis using assms by (simp add: classifyResponse_def parseMapResponse_def header_response_def Let_def)
qed

lemma unanswered_await:
  assumes "unanswered c at"
  shows "await (classifyResponse req nonce) c (at_reads at) = (TransientRetry, c)"
proof -
  from assms obtain evs where evs: "list_all (foreign (server c)) evs"
    and r: "at_reads at = evs \<or> (\<exists>ev rest. transient_reply c ev \<and> at_reads at = evs @ ev # rest)"
    by (auto simp: unanswered_def)
  have "await (classifyResponse req nonce) c (ev # rest) = (TransientRetry, c)" if "transient_reply c ev" for ev rest
    using that by (auto simp: transient_reply_def transient_classify split: option.splits)
  thus ?thesis
    using r await_skips [OF evs, of "classifyResponse req nonce" "[]"]
      await_skips [OF evs, of "classifyResponse req nonce"] by auto
qed

lemma unanswered_quiet:
  "unanswered c at \<Longrightarrow> at_ctx at = None \<and> at_write at = None \<and> at_backoff at = None \<and>
     await (classifyResponse req nonce) c (at_reads at) = (TransientRetry, c)"
  using unanswered_await by (simp add: unanswered_def)

section \<open>Properties\<close>

text \<open>
  A success response to MAP is accepted exactly when it is the 60-byte form with the wanted protocol
  and internal port and an external address that decodes to IPv4; the decoded fields, the nonce among
  them, are those of the form. An encoded IPv4 address is decoded to itself. The decoder looks at the
  \<open>0xffff\<close> marker and not at the ten bytes before it, so it also reads an IPv6 address such as
  \<open>2001:db8::ffff:102:304\<close> as IPv4.
\<close>

theorem pcp_success_canonical:
  "(parseMapResponse p proto port = Inr r \<and> mr_ResultCode r = 0 \<longleftrightarrow>
     (\<exists>x rsv rsvb addr. length rsv = 12 \<and> length rsvb = 3 \<and> length (mr_Nonce r) = 12 \<and> mr_ResultCode r = 0 \<and>
        mappedToV4 addr = Inr (mr_AssignedExternalAddress r) \<and> mr_Protocol r = proto \<and> mr_InternalPort r = port \<and>
        p = success_bytes x rsv rsvb addr r)) \<and>
   mappedToV4 (v4Mapped (V4 a b c d)) = Inr (V4 a b c d) \<and>
   mappedToV4 ([32, 1, 13, 184, 0, 0, 0, 0, 0, 0] @ [255, 255, a, b, c, d]) = Inr (V4 a b c d)"
  unfolding parse_success_iff by (simp add: mappedToV4_def v4Mapped_def nth_append)

text \<open>
  C36. Ownership by nonce. A transaction sends at most \<open>MaxAttempts\<close> copies of one request, which carries
  the nonce, the lifetime in seconds and the internal port; its result is decoded from a success response
  that echoes exactly this nonce and came from exactly the gateway. \<open>Renew\<close> and \<open>Delete\<close> use the nonce
  and the port of the mapping they are given, and send nothing for a mapping without an internal port.
\<close>

theorem pcp_transaction_sound:
  assumes "length nonce = 12" and "transaction env req nonce c = (res, c', sent)"
  shows "length sent \<le> attempts_of c \<and>
     (\<forall>p \<in> set sent. subslice 24 36 p = nonce \<and> subslice 40 42 p = put_u16 (rq_InternalPort req) \<and>
        subslice 4 8 p = put_u32 (of_int (seconds (rq_Lifetime req)))) \<and>
     (\<forall>r. res = Inr r \<longrightarrow> ms_Nonce r = nonce \<and> (\<exists>i \<in> {1..attempts_of c}.
         heard (server c) (\<lambda>d. map_granted req nonce d r) (at_reads (attempt_at env i)))) \<and>
     (\<forall>m lifetime. if ms_InternalPort m = 0
        then Renew env m lifetime c = (Inl (Refused ErrUnownedMapping), c, []) \<and>
             Delete env m c = (Inl (Refused ErrUnownedMapping), c, [])
        else Renew env m lifetime c = transaction env (owned_request m lifetime) (ms_Nonce m) c \<and>
             Delete env m c = transaction env (owned_request m 0) (ms_Nonce m) c)"
proof (intro conjI)
  show "length sent \<le> attempts_of c" using pcp_transaction_sends [OF assms(2)] by simp
  show "\<forall>p \<in> set sent. subslice 24 36 p = nonce \<and> subslice 40 42 p = put_u16 (rq_InternalPort req) \<and>
        subslice 4 8 p = put_u32 (of_int (seconds (rq_Lifetime req)))"
    using pcp_transaction_sends [OF assms(2)] request_nonce [OF _ assms(1)] by blast
  have "\<exists>i \<in> {1..attempts_of c}. heard (server c) (\<lambda>d. map_granted req nonce d r) (at_reads (attempt_at env i))"
    if "res = Inr r" for r
    using that assms(2)
    by (auto simp: transaction_def simp del: One_nat_def dest: pcp_map.exchange_granted split: sum.splits)
  thus "\<forall>r. res = Inr r \<longrightarrow> ms_Nonce r = nonce \<and> (\<exists>i \<in> {1..attempts_of c}.
         heard (server c) (\<lambda>d. map_granted req nonce d r) (at_reads (attempt_at env i)))"
    by (fastforce simp: heard_def map_granted_def)
qed (simp add: Renew_def Delete_def)

text \<open>
  C37. Retries end with the answer: when the first attempts go unanswered or get a transient result code
  and a later attempt, among the \<open>MaxAttempts\<close> of the client, gets a success response that echoes the
  nonce, the transaction returns it, after exactly as many sends as attempts were needed.
\<close>

theorem pcp_transaction_completes:
  assumes "buildMapRequest req nonce = Inr packet"
    and "0 < i" "i \<le> attempts_of c"
    and "\<forall>k. i < k \<and> k \<le> attempts_of c \<longrightarrow> unanswered c (attempt_at env k)"
    and "at_ctx (attempt_at env i) = None" "at_write (attempt_at env i) = None"
    and "at_reads (attempt_at env i) = evs @ \<lparr> rd_ctx = None, rd_deadline = None, rd_data = Some (src, d) \<rparr> # rest"
    and "list_all (foreign (server c)) evs" "addrPortOf src = Some (server c)"
    and "d = success_bytes x rsv rsvb addr m" "length rsv = 12" "length rsvb = 3" "length nonce = 12"
    and "mr_Nonce m = nonce" "mr_ResultCode m = 0" "mr_Protocol m = rq_Protocol req"
    and "mr_InternalPort m = rq_InternalPort req" "mappedToV4 addr = Inr (mr_AssignedExternalAddress m)"
  shows "\<exists>r c'. transaction env req nonce c = (Inr r, c', replicate (Suc (attempts_of c - i)) packet) \<and>
     ms_Nonce r = nonce \<and> ms_AssignedExternalPort r = mr_AssignedExternalPort m \<and>
     ms_AssignedExternalAddress r = mr_AssignedExternalAddress m \<and> ms_Epoch r = mr_Epoch m"
proof -
  have len: "length d < 1500"
    using assms by (simp add: success_bytes_def mappedToV4_iff)
  have parse: "parseMapResponse d (rq_Protocol req) (rq_InternalPort req) = Inr m"
    using parse_success_bytes [of rsv rsvb m addr x] assms by simp
  then obtain r c' where cl: "classifyResponse req nonce d c = (Definitive (Inr r), c')" and r: "ms_Nonce r = nonce"
    "ms_AssignedExternalPort r = mr_AssignedExternalPort m" "ms_Epoch r = mr_Epoch m"
    "ms_AssignedExternalAddress r = mr_AssignedExternalAddress m"
    using assms by (auto simp: classifyResponse_def observeEpoch_def Let_def)
  have "await (classifyResponse req nonce) c (at_reads (attempt_at env i)) = (Definitive (Inr r), c')"
    using assms len cl by (simp add: await_skips)
  hence "exchange (classifyResponse req nonce) env packet (attempts_of c) c =
      (Inr r, c', replicate (Suc (attempts_of c - i)) packet)"
    using assms(2,3,5,6) by (intro exchange_answers unanswered_quiet assms(4) [rule_format] conjI)
  thus ?thesis using assms(1) r by (simp add: transaction_def)
qed

section \<open>Witnesses\<close>

text \<open>A gateway that answers the first attempt with a transient code and the second with a mapping.\<close>

definition demo_nonce :: bytes where "demo_nonce = replicate 12 9"

definition demo_client :: Client where
  "demo_client = NewClient (V4 10 0 0 1, 5351)
     \<lparr> o_Timeout = 0, o_MaxAttempts = 0, o_Backoff = 0, o_EpochBaseline = 0, o_EpochSeen = False \<rparr>"

definition demo_request :: MapRequest where
  "demo_request = \<lparr> rq_Protocol = 6, rq_InternalAddress = V4 10 0 0 2, rq_InternalPort = 80,
     rq_SuggestedExternalPort = 8080, rq_Lifetime = 60000000000, rq_PreferFailure = False \<rparr>"

definition demo_response :: mapResponse where
  "demo_response = \<lparr> mr_ResultCode = 0, mr_LifetimeSeconds = 60, mr_Epoch = 7, mr_Nonce = demo_nonce,
     mr_Protocol = 6, mr_InternalPort = 80, mr_AssignedExternalPort = 8080,
     mr_AssignedExternalAddress = V4 203 0 113 5 \<rparr>"

definition demo_event :: "bytes \<Rightarrow> unit read_event" where
  "demo_event d = \<lparr> rd_ctx = None, rd_deadline = None, rd_data = Some (UDPAddr [10, 0, 0, 1] 5351, d) \<rparr>"

definition demo_reply :: bytes where
  "demo_reply = success_bytes 0 (replicate 12 0) [0, 0, 0] (v4Mapped (V4 203 0 113 5)) demo_response"

definition demo_env :: "unit gw_env" where
  "demo_env = \<lparr> attempt_at = (\<lambda>k. \<lparr> at_ctx = None, at_write = None,
     at_reads = [demo_event (if k = 3 then [2, 129, 0, 200] @ replicate 20 0 else demo_reply)],
     at_backoff = None \<rparr>), final_ctx = None \<rparr>"

lemma demo_attempts: "attempts_of demo_client = 3"
  by (simp add: attempts_of_def demo_client_def NewClient_def Let_def)

lemma demo_server: "addrPortOf (UDPAddr [10, 0, 0, 1] 5351) = Some (server demo_client)"
  by (simp add: addrPortOf_def AddrFromSlice_def demo_client_def NewClient_def Let_def)

lemma demo_unanswered: "unanswered demo_client (attempt_at demo_env 3)"
  using demo_server unfolding unanswered_def
  by (auto simp: demo_env_def transient_reply_def demo_event_def TransientResult_def intro!: exI [of _ "[]"])

lemma demo_build: "\<exists>p. buildMapRequest demo_request demo_nonce = Inr p"
  by (simp add: buildMapRequest_def demo_request_def seconds_def Let_def)

theorem pcp_success_canonical_witness:
  "parseMapResponse demo_reply 6 80 = Inr demo_response"
proof -
  have "\<exists>x rsv rsvb addr. length rsv = 12 \<and> length rsvb = 3 \<and> length (mr_Nonce demo_response) = 12 \<and>
        mr_ResultCode demo_response = 0 \<and>
        mappedToV4 addr = Inr (mr_AssignedExternalAddress demo_response) \<and> mr_Protocol demo_response = 6 \<and>
        mr_InternalPort demo_response = 80 \<and> demo_reply = success_bytes x rsv rsvb addr demo_response"
    by (rule exI [of _ 0], rule exI [of _ "replicate 12 0"], rule exI [of _ "[0, 0, 0]"],
        rule exI [of _ "v4Mapped (V4 203 0 113 5)"])
      (simp add: demo_reply_def demo_response_def demo_nonce_def mappedToV4_def v4Mapped_def nth_append)
  thus ?thesis using pcp_success_canonical [of demo_reply 6 80 demo_response] by blast
qed

theorem pcp_transaction_completes_witness:
  "\<exists>r c' packet. transaction demo_env demo_request demo_nonce demo_client = (Inr r, c', [packet, packet]) \<and>
     ms_Nonce r = demo_nonce \<and> ms_AssignedExternalPort r = 8080"
proof -
  obtain packet where b: "buildMapRequest demo_request demo_nonce = Inr packet" using demo_build by auto
  have later: "\<forall>k. 2 < k \<and> k \<le> attempts_of demo_client \<longrightarrow> unanswered demo_client (attempt_at demo_env k)"
  proof (intro allI impI)
    fix k assume "2 < k \<and> k \<le> attempts_of demo_client"
    hence "k = 3" by (simp add: demo_attempts)
    thus "unanswered demo_client (attempt_at demo_env k)" using demo_unanswered by simp
  qed
  have "\<exists>r c'. transaction demo_env demo_request demo_nonce demo_client =
      (Inr r, c', replicate (Suc (attempts_of demo_client - 2)) packet) \<and>
     ms_Nonce r = demo_nonce \<and> ms_AssignedExternalPort r = mr_AssignedExternalPort demo_response \<and>
     ms_AssignedExternalAddress r = mr_AssignedExternalAddress demo_response \<and> ms_Epoch r = mr_Epoch demo_response"
    by (rule pcp_transaction_completes [where i = 2 and evs = "[]" and rest = "[]" and d = demo_reply and x = 0
          and src = "UDPAddr [10, 0, 0, 1] 5351" and m = demo_response
          and rsv = "replicate 12 0" and rsvb = "[0, 0, 0]" and addr = "v4Mapped (V4 203 0 113 5)", OF b _ _ later])
      (simp_all add: demo_attempts demo_server demo_env_def demo_event_def demo_reply_def demo_response_def
        demo_nonce_def demo_request_def mappedToV4_def v4Mapped_def nth_append)
  thus ?thesis by (auto simp: demo_attempts demo_response_def numeral_2_eq_2)
qed

theorem pcp_transaction_sound_witness:
  "let (res, c', sent) = transaction demo_env demo_request demo_nonce demo_client in
     length sent \<le> 3 \<and> (\<forall>p \<in> set sent. subslice 24 36 p = demo_nonce) \<and>
     (\<forall>r. res = Inr r \<longrightarrow> ms_Nonce r = demo_nonce)"
proof -
  obtain res c' sent where t: "transaction demo_env demo_request demo_nonce demo_client = (res, c', sent)"
    using prod_cases3 by blast
  have "length demo_nonce = 12" by (simp add: demo_nonce_def)
  from pcp_transaction_sound [OF this t] show ?thesis
    using t by (simp add: demo_attempts)
qed

end
