(* ===== verification/Netip_Parse.thy ===== *)
theory Netip_Parse
  imports Netip
begin

text \<open>
  The rest of what the sources use of \<open>net/netip\<close>'s parsers: \<open>netip.ParseAddr\<close> for both families,
  with zones and embedded IPv4, and \<open>netip.ParseAddrPort\<close>.
\<close>

definition is_hex :: "char \<Rightarrow> bool" where
  "is_hex c \<longleftrightarrow> is_digit c \<or> 97 \<le> (of_char c :: nat) \<and> (of_char c :: nat) \<le> 102 \<or>
     65 \<le> (of_char c :: nat) \<and> (of_char c :: nat) \<le> 70"

definition hex_val :: "char \<Rightarrow> nat" where
  "hex_val c = (if is_digit c then of_char c - 48 else if 97 \<le> (of_char c :: nat) then of_char c - 87 else of_char c - 55)"

definition hex_group :: "string \<Rightarrow> bytes" where
  "hex_group ds = (let acc = foldl (\<lambda>v c. v * 16 + hex_val c) 0 ds in [of_nat (acc div 256), of_nat acc])"

lemma shorter_rest:
  "dropWhile P s \<noteq> [] \<Longrightarrow> length (dropWhile P s) - Suc n < length s"
  using length_dropWhile_le [of P s] by (cases "dropWhile P s") auto

text \<open>
  The loop of \<open>netip.parseIPv6\<close>: the bytes written so far, the position of the ellipsis, and the rest
  of the text. \<open>None\<close> is any of its errors.
\<close>

function ipv6_groups :: "bytes \<Rightarrow> nat option \<Rightarrow> string \<Rightarrow> (bytes \<times> nat option) option" where
  "ipv6_groups ip ellipsis s =
     (if length ip \<ge> 16 then (if s = [] then Some (ip, ellipsis) else None)
      else
        let ds = takeWhile is_hex s; rest = dropWhile is_hex s in
        if length ds > 4 \<or> ds = [] then None
        else if rest \<noteq> [] \<and> hd rest = CHR ''.'' then
          (if ellipsis = None \<and> length ip \<noteq> 12 then None
           else if length ip + 4 > 16 then None
           else case ipv4_fields 0 0 [] s of
               Some fs \<Rightarrow> Some (ip @ map of_nat fs, ellipsis)
             | None \<Rightarrow> None)
        else
          let ip' = ip @ hex_group ds in
          if rest = [] then Some (ip', ellipsis)
          else if hd rest \<noteq> colon then None
          else if length rest = 1 then None
          else if hd (tl rest) = colon then
            (if ellipsis \<noteq> None then None
             else if tl (tl rest) = [] then Some (ip', Some (length ip'))
             else ipv6_groups ip' (Some (length ip')) (tl (tl rest)))
          else ipv6_groups ip' ellipsis (tl rest))"
  by auto
termination
  by (relation "measure (\<lambda>(ip, e, s). length s)") (auto simp: Let_def shorter_rest)

declare ipv6_groups.simps [simp del]

definition expand_ellipsis :: "bytes \<Rightarrow> nat option \<Rightarrow> bytes option" where
  "expand_ellipsis ip ellipsis =
     (if length ip < 16 then
        (case ellipsis of None \<Rightarrow> None
         | Some e \<Rightarrow> Some (take e ip @ replicate (16 - length ip) 0 @ drop e ip))
      else if ellipsis \<noteq> None then None else Some ip)"

definition parseIPv6 :: "string \<Rightarrow> Addr option" where
  "parseIPv6 text =
     (let zoned = CHR 0x25 \<in> set text;
          s = takeWhile (\<lambda>c. c \<noteq> CHR 0x25) text;
          zone = drop (Suc (length s)) text in
      if zoned \<and> zone = [] then None
      else if length s \<ge> 2 \<and> s ! 0 = colon \<and> s ! 1 = colon then
        (if length s = 2 then Some (V6 (replicate 16 0) zone)
         else case ipv6_groups [] (Some 0) (drop 2 s) of
             None \<Rightarrow> None
           | Some (ip, e) \<Rightarrow> map_option (\<lambda>b. V6 b zone) (expand_ellipsis ip e))
      else case ipv6_groups [] None s of
          None \<Rightarrow> None
        | Some (ip, e) \<Rightarrow> map_option (\<lambda>b. V6 b zone) (expand_ellipsis ip e))"

definition ParseAddr :: "string \<Rightarrow> Addr option" where
  "ParseAddr s =
     (case dropWhile (\<lambda>c. c \<notin> {CHR ''.'', colon, CHR 0x25}) s of
        [] \<Rightarrow> None
      | c # _ \<Rightarrow> if c = CHR ''.'' then ParseAddr4 s else if c = colon then parseIPv6 s else None)"

text \<open>\<open>strconv.ParseUint(s, 10, 16)\<close>.\<close>

definition ParseUint16 :: "string \<Rightarrow> nat option" where
  "ParseUint16 s = (if s = [] \<or> \<not> list_all is_digit s \<or> digits_val s > 65535 then None else Some (digits_val s))"

definition splitAddrPort :: "string \<Rightarrow> (string \<times> string \<times> bool) option" where
  "splitAddrPort s =
     (case last_index_of colon s of
        None \<Rightarrow> None
      | Some i \<Rightarrow>
          let ip = take i s; port = drop (i + 1) s in
          if ip = [] \<or> port = [] then None
          else if ip ! 0 = lbracket then
            (if length ip < 2 \<or> last ip \<noteq> rbracket then None
             else Some (subslice 1 (length ip - 1) ip, port, True))
          else Some (ip, port, False))"

fun Is6 :: "Addr \<Rightarrow> bool" where
  "Is6 (V6 _ _) = True"
| "Is6 _ = False"

definition ParseAddrPort :: "string \<Rightarrow> (Addr \<times> u16) option" where
  "ParseAddrPort s =
     (case splitAddrPort s of
        None \<Rightarrow> None
      | Some (ip, port, v6) \<Rightarrow>
          (case ParseUint16 port of
             None \<Rightarrow> None
           | Some p \<Rightarrow>
               (case ParseAddr ip of
                  None \<Rightarrow> None
                | Some a \<Rightarrow>
                    if v6 \<and> Is4 a then None else if \<not> v6 \<and> Is6 a then None
                    else Some (a, of_nat p))))"

section \<open>Facts about the parsers\<close>

lemma length_hex_group: "length (hex_group ds) = 2"
  by (simp add: hex_group_def Let_def)

lemma ipv6_groups_bounds:
  "ipv6_groups ip e s = Some (ip', e') \<Longrightarrow> length ip \<le> 16 \<Longrightarrow> even (length ip) \<Longrightarrow> (\<forall>k. e = Some k \<longrightarrow> k \<le> length ip) \<Longrightarrow>
     length ip' \<le> 16 \<and> (\<forall>k. e' = Some k \<longrightarrow> k \<le> length ip')"
proof (induction ip e s rule: ipv6_groups.induct)
  case (1 ip e s)
  let ?ds = "takeWhile is_hex s" and ?rest = "dropWhile is_hex s"
  show ?case
  proof (cases "length ip \<ge> 16")
    case True
    thus ?thesis using "1.prems" by (auto simp: ipv6_groups.simps [of ip e s] split: if_splits)
  next
    case False
    hence room: "length ip + 2 \<le> 16" using "1.prems"(3) by presburger
    note ih = "1.IH" [OF False refl refl]
    show ?thesis
    proof (cases "?rest \<noteq> [] \<and> hd ?rest = CHR ''.''")
      case True
      with False "1.prems" show ?thesis
        by (auto simp: ipv6_groups.simps [of ip e s] Let_def dest: ipv4_fields_length split: if_splits option.splits)
    next
      case not_dot: False
      have ds: "\<not> (length ?ds > 4 \<or> ?ds = [])"
        using "1.prems"(1) False by (auto simp: ipv6_groups.simps [of ip e s] Let_def split: if_splits)
      have "\<forall>k. e = Some k \<longrightarrow> k \<le> Suc (Suc (length ip))" using "1.prems"(4) by auto
      thus ?thesis
        using "1.prems" False not_dot ds room ih [OF ds not_dot refl]
        by (auto simp: ipv6_groups.simps [of ip e s] Let_def length_hex_group split: if_splits)
    qed
  qed
qed

lemma expand_ellipsis_length:
  "expand_ellipsis ip e = Some b \<Longrightarrow> length ip \<le> 16 \<Longrightarrow> \<forall>k. e = Some k \<longrightarrow> k \<le> length ip \<Longrightarrow> length b = 16"
  by (auto simp: expand_ellipsis_def split: if_splits option.splits)

lemma parseIPv6_length: "parseIPv6 s = Some (V6 b z) \<Longrightarrow> length b = 16"
  by (auto simp: parseIPv6_def Let_def split: if_splits option.splits
      dest!: ipv6_groups_bounds dest: expand_ellipsis_length)

lemma ParseAddr_length: "ParseAddr s = Some (V6 b z) \<Longrightarrow> length b = 16"
  by (auto simp: ParseAddr_def parseIPv6_length dest: ParseAddr4_Is4 split: list.splits if_splits)

lemma ParseAddr_of_4:
  assumes "ParseAddr4 s = Some a" shows "ParseAddr s = Some a"
proof (cases "dropWhile (\<lambda>c. c \<notin> {CHR ''.'', colon, CHR 0x25}) s")
  case Nil
  show ?thesis using assms unfolding ParseAddr4_def Nil by simp
next
  case (Cons c r)
  have "c = CHR ''.''" using assms unfolding ParseAddr4_def Cons by (simp split: if_splits)
  thus ?thesis using assms unfolding ParseAddr_def Cons by simp
qed

lemma ParseAddr_valid: "ParseAddr s = Some a \<Longrightarrow> IsValid a"
  by (cases a) (auto simp: ParseAddr_def parseIPv6_def Let_def dest: ParseAddr4_Is4 split: list.splits if_splits option.splits)

lemma splitAddrPort_join:
  assumes "h \<noteq> []" "h ! 0 \<noteq> lbracket" "p \<noteq> []" "colon \<notin> set p"
  shows "splitAddrPort (h @ colon # p) = Some (h, p, False)"
proof -
  have "last_index_of colon (h @ colon # p) = Some (length h)"
    using index_of_app [of colon "rev p" "rev h"] assms(4) by (simp add: last_index_of_def)
  thus ?thesis using assms by (simp add: splitAddrPort_def Let_def)
qed

lemma ParseAddrPort_String4: "ParseAddrPort (AddrPort_String (V4 a b c d) p) = Some (V4 a b c d, p)"
proof -
  define h where "h = dec (unat a) @ CHR ''.'' # dec (unat b) @ CHR ''.'' # dec (unat c) @ CHR ''.'' # dec (unat d)"
  have p: "unat p < 65536" using unsigned_less [of p, where ?'a = nat] by simp
  have "h \<noteq> []" by (simp add: h_def)
  moreover have "h ! 0 \<noteq> lbracket"
    using host_chars(1) [of a b c d] \<open>h \<noteq> []\<close> unfolding h_def [symmetric] by (cases h) auto
  ultimately have "splitAddrPort (h @ colon # dec (unat p)) = Some (h, dec (unat p), False)"
    by (intro splitAddrPort_join) simp_all
  moreover have "ParseUint16 (dec (unat p)) = Some (unat p)"
    using p dec_digits [of "unat p"] by (simp add: ParseUint16_def digits_val_dec)
  moreover have "AddrPort_String (V4 a b c d) p = h @ colon # dec (unat p)" by (simp add: h_def)
  ultimately show ?thesis
    using ParseAddr_of_4 [OF ParseAddr4_dec [of a b c d]] unfolding h_def [symmetric]
    by (simp add: ParseAddrPort_def del: AddrPort_String.simps)
qed

lemma length_dec: "n < 10 ^ k \<Longrightarrow> 0 < k \<Longrightarrow> length (dec n) \<le> k"
proof (induction k arbitrary: n)
  case (Suc k)
  show ?case
  proof (cases "n < 10")
    case True
    thus ?thesis by (simp add: dec.simps [of n])
  next
    case False
    hence "0 < k" using Suc.prems by (cases k) auto
    hence "length (dec (n div 10)) \<le> k" using Suc.IH [of "n div 10"] Suc.prems by (simp add: div_less_iff_less_mult mult.commute)
    thus ?thesis using False by (simp add: dec.simps [of n])
  qed
qed simp

lemma length_AddrPort_String: "length (AddrPort_String (V4 a b c d) p) \<le> 21"
proof -
  have b: "length (dec (unat (x :: u8))) \<le> 3" for x using u8_unat_less [of x] by (intro length_dec) simp_all
  have "unat p < 2 ^ LENGTH(16)" by (rule unsigned_less)
  hence "length (dec (unat p)) \<le> 5" by (intro length_dec) simp_all
  thus ?thesis using b [of a] b [of b] b [of c] b [of d] by simp
qed

end
