(* ===== verification/Strategy.thy ===== *)
theory Strategy
  imports Netip_Parse Endpoint
begin

text \<open>
  \<^verbatim>\<open>src/internal/traversal/strategy.go\<close>: the classification of a completed layer chain, the planning of
  an acquisition, the capability table of the gateway mechanisms and the resolution of \<open>auto\<close>. The
  string types of the code (layer kinds, scopes, policies) are strings, so that values outside the
  declared constants are covered.
\<close>

section \<open>Data\<close>

abbreviation LayerPCP :: string where "LayerPCP \<equiv> ''pcp''"
abbreviation LayerNATPMP :: string where "LayerNATPMP \<equiv> ''nat-pmp''"
abbreviation LayerUPnP :: string where "LayerUPnP \<equiv> ''upnp-igd''"

definition MappingLayerKind_Valid :: "string \<Rightarrow> bool" where
  "MappingLayerKind_Valid k \<longleftrightarrow> k = LayerPCP \<or> k = LayerNATPMP \<or> k = LayerUPnP"

abbreviation LayerKindDirect :: string where "LayerKindDirect \<equiv> ''direct''"
abbreviation LayerKindManual :: string where "LayerKindManual \<equiv> ''manual''"
abbreviation LayerKindGateway :: string where "LayerKindGateway \<equiv> ''gateway''"
abbreviation LayerKindSTUN :: string where "LayerKindSTUN \<equiv> ''stun''"

datatype EndpointScope = ScopeGlobalPublic | ScopeFirstHop | ScopeOperatorInput | ScopeNonRoutable

abbreviation PortPolicyStrict :: string where "PortPolicyStrict \<equiv> ''strict''"
abbreviation PortPolicyAcceptAny :: string where "PortPolicyAcceptAny \<equiv> ''accept_any''"
abbreviation PortPolicyAcceptAssigned :: string where "PortPolicyAcceptAssigned \<equiv> ''accept_assigned''"

record PortControlCapability =
  c_Mechanism :: string
  c_CanRequestExact :: bool
  c_CanAcceptAssigned :: bool
  c_CanRetryCandidate :: bool
  c_FinalEndpointConstraint :: string

datatype strategy_error = ErrUnsupportedMultipleExplicitLayers | ErrFinalPortRewritten | ErrNoViableStrategy
  | ErrLayerCannotRequestExact | ErrOperatorEndpointRequired
  | UnknownLayerKind string | MultipleSTUN nat | InvalidEndpoint string | NoEndpoint
  | UnresolvedMappingLayer string | UnknownStrategy string | ManualNotIPv4 | ManualNoPort

record LayerEvidence =
  le_Kind :: string
  le_Mechanism :: string
  le_ControlServer :: string
  le_InternalEndpoint :: string
  le_AssignedEndpoint :: string
  le_Scope :: EndpointScope
  le_LeaseLifetime :: int
  le_Epoch :: u32
  le_Ownership :: string
  le_ParentLayer :: int
  le_Note :: string

record PipelineVerdict =
  v_Candidate :: "Addr \<times> u16"
  v_Scope :: EndpointScope
  v_PublicCandidate :: bool
  v_MappingStateFirstHop :: bool
  v_FinalPortObserved :: bool

section \<open>Endpoints\<close>

definition parseEndpoint :: "string \<Rightarrow> strategy_error + Addr \<times> u16" where
  "parseEndpoint endpoint =
     (case ParseAddrPort endpoint of
        None \<Rightarrow> Inl (InvalidEndpoint endpoint)
      | Some (a, p) \<Rightarrow> Inr (Unmap a, p))"

definition ParseManualEndpoint :: "string \<Rightarrow> strategy_error + Addr \<times> u16" where
  "ParseManualEndpoint endpoint =
     ebind (parseEndpoint endpoint) (\<lambda>parsed.
       ensure (Is4 (fst parsed)) ManualNotIPv4 (
       ensure (snd parsed \<noteq> 0) ManualNoPort (Inr parsed)))"

definition IsGlobalV4Endpoint :: "Addr \<times> u16 \<Rightarrow> bool" where
  "IsGlobalV4Endpoint endpoint \<longleftrightarrow> IsValid (fst endpoint) \<and> IsGlobalV4 (fst endpoint)"

section \<open>Evaluating a layer chain\<close>

text \<open>The counting loop: numbers and last indices of the gateway and STUN layers.\<close>

record layer_count =
  n_gateways :: nat
  n_stuns :: nat
  gatewayIdx :: "nat option"
  stunIdx :: "nat option"

fun count_layers :: "nat \<Rightarrow> LayerEvidence list \<Rightarrow> layer_count \<Rightarrow> strategy_error + layer_count" where
  "count_layers i [] n = Inr n"
| "count_layers i (l # ls) n =
     (if le_Kind l = LayerKindGateway then
        count_layers (Suc i) ls (n \<lparr> n_gateways := Suc (n_gateways n), gatewayIdx := Some i \<rparr>)
      else if le_Kind l = LayerKindSTUN then
        count_layers (Suc i) ls (n \<lparr> n_stuns := Suc (n_stuns n), stunIdx := Some i \<rparr>)
      else if le_Kind l = LayerKindDirect \<or> le_Kind l = LayerKindManual then count_layers (Suc i) ls n
      else Inl (UnknownLayerKind (le_Kind l)))"

text \<open>The candidate endpoint with the kind of its layer and whether it was observed.\<close>

definition pick_candidate ::
  "LayerEvidence list \<Rightarrow> layer_count \<Rightarrow> strategy_error + (Addr \<times> u16) \<times> string \<times> bool" where
  "pick_candidate layers n =
     (case stunIdx n of
        Some i \<Rightarrow> ebind (parseEndpoint (le_AssignedEndpoint (layers ! i))) (\<lambda>addr. Inr (addr, LayerKindSTUN, True))
      | None \<Rightarrow>
          (case gatewayIdx n of
             Some i \<Rightarrow> ebind (parseEndpoint (le_AssignedEndpoint (layers ! i))) (\<lambda>addr. Inr (addr, LayerKindGateway, False))
           | None \<Rightarrow>
               (case find (\<lambda>l. le_Kind l = LayerKindDirect \<or> le_Kind l = LayerKindManual) (rev layers) of
                  None \<Rightarrow> Inl NoEndpoint
                | Some l \<Rightarrow>
                    ebind (parseEndpoint (le_AssignedEndpoint l)) (\<lambda>addr.
                    ensure (IsValid (fst addr)) NoEndpoint (Inr (addr, le_Kind l, False))))))"

definition classify_candidate :: "bool \<Rightarrow> Addr \<times> u16 \<Rightarrow> string \<Rightarrow> bool \<Rightarrow> PipelineVerdict" where
  "classify_candidate gateway candidate candidateKind observed =
     (let verdict = \<lparr> v_Candidate = candidate, v_Scope = ScopeGlobalPublic, v_PublicCandidate = False,
                     v_MappingStateFirstHop = False, v_FinalPortObserved = observed \<rparr> in
      if candidateKind = LayerKindManual then
        (if \<not> IsGlobalV4Endpoint candidate then verdict \<lparr> v_Scope := ScopeNonRoutable \<rparr>
         else verdict \<lparr> v_Scope := ScopeOperatorInput, v_PublicCandidate := True \<rparr>)
      else if \<not> IsGlobalV4Endpoint candidate then
        verdict \<lparr> v_Scope := ScopeFirstHop, v_MappingStateFirstHop := gateway \<rparr>
      else verdict \<lparr> v_Scope := ScopeGlobalPublic, v_PublicCandidate := True \<rparr>)"

definition EvaluateLayers :: "LayerEvidence list \<Rightarrow> string \<Rightarrow> strategy_error + PipelineVerdict" where
  "EvaluateLayers layers finalConstraint =
     ebind (count_layers 0 layers \<lparr> n_gateways = 0, n_stuns = 0, gatewayIdx = None, stunIdx = None \<rparr>) (\<lambda>n.
     ensure (n_gateways n \<le> 1) ErrUnsupportedMultipleExplicitLayers (
     ensure (n_stuns n \<le> 1) (MultipleSTUN (n_stuns n)) (
     ebind (pick_candidate layers n) (\<lambda>(candidate, candidateKind, observed).
     ebind (case gatewayIdx n of
              Some g \<Rightarrow>
                if observed \<and> finalConstraint = PortPolicyStrict then
                  ebind (parseEndpoint (le_AssignedEndpoint (layers ! g))) (\<lambda>gatewayEndpoint.
                  ensure (snd candidate = snd gatewayEndpoint) ErrFinalPortRewritten (Inr ()))
                else Inr ()
            | None \<Rightarrow> Inr ()) (\<lambda>_.
     Inr (classify_candidate (gatewayIdx n \<noteq> None) candidate candidateKind observed))))))"

section \<open>Planning\<close>

record PlanRequest =
  pq_Strategy :: string
  pq_MappingLayer :: string
  pq_IGDv2 :: bool
  pq_GatewayPortPolicy :: string
  pq_FinalEndpointConstraint :: string
  pq_ManualExpectedEndpoint :: string

record StrategyPlan =
  sp_Strategy :: string
  sp_MappingLayer :: string
  sp_IGDv2 :: bool
  sp_GatewayPortPolicy :: string
  sp_FinalEndpointConstraint :: string
  sp_Capability :: PortControlCapability
  sp_ManualExpectedEndpoint :: string

definition PortControlCapabilityFor :: "string \<Rightarrow> bool \<Rightarrow> PortControlCapability" where
  "PortControlCapabilityFor kind igdV2 =
     (if kind = LayerPCP then
        \<lparr> c_Mechanism = LayerPCP, c_CanRequestExact = True, c_CanAcceptAssigned = True,
          c_CanRetryCandidate = True, c_FinalEndpointConstraint = PortPolicyStrict \<rparr>
      else if kind = LayerNATPMP then
        \<lparr> c_Mechanism = LayerNATPMP, c_CanRequestExact = False, c_CanAcceptAssigned = True,
          c_CanRetryCandidate = False, c_FinalEndpointConstraint = PortPolicyAcceptAssigned \<rparr>
      else if kind = LayerUPnP then
        (if igdV2 then
           \<lparr> c_Mechanism = LayerUPnP, c_CanRequestExact = True, c_CanAcceptAssigned = True,
             c_CanRetryCandidate = True, c_FinalEndpointConstraint = PortPolicyStrict \<rparr>
         else
           \<lparr> c_Mechanism = LayerUPnP, c_CanRequestExact = False, c_CanAcceptAssigned = True,
             c_CanRetryCandidate = True, c_FinalEndpointConstraint = PortPolicyAcceptAssigned \<rparr>)
      else \<lparr> c_Mechanism = [], c_CanRequestExact = False, c_CanAcceptAssigned = False,
             c_CanRetryCandidate = False, c_FinalEndpointConstraint = PortPolicyAcceptAssigned \<rparr>)"

definition no_capability :: PortControlCapability where
  "no_capability = \<lparr> c_Mechanism = [], c_CanRequestExact = False, c_CanAcceptAssigned = False,
     c_CanRetryCandidate = False, c_FinalEndpointConstraint = [] \<rparr>"

definition PlanStrategy :: "PlanRequest \<Rightarrow> strategy_error + StrategyPlan" where
  "PlanStrategy req =
     (let plan = \<lparr> sp_Strategy = pq_Strategy req, sp_MappingLayer = pq_MappingLayer req, sp_IGDv2 = pq_IGDv2 req,
            sp_GatewayPortPolicy = (if pq_GatewayPortPolicy req = [] then PortPolicyAcceptAny else pq_GatewayPortPolicy req),
            sp_FinalEndpointConstraint =
              (if pq_FinalEndpointConstraint req = [] then PortPolicyAcceptAssigned else pq_FinalEndpointConstraint req),
            sp_Capability = no_capability, sp_ManualExpectedEndpoint = pq_ManualExpectedEndpoint req \<rparr> in
      if pq_Strategy req = ''explicit-gateway'' then
        (if \<not> MappingLayerKind_Valid (pq_MappingLayer req) then Inl (UnresolvedMappingLayer (pq_MappingLayer req))
         else
           let capability = PortControlCapabilityFor (pq_MappingLayer req) (pq_IGDv2 req) in
           if sp_GatewayPortPolicy plan = PortPolicyStrict \<and> \<not> c_CanRequestExact capability
           then Inl ErrLayerCannotRequestExact
           else Inr (plan \<lparr> sp_Capability := capability \<rparr>))
      else if pq_Strategy req = ''manual-static-v4'' then
        (if pq_ManualExpectedEndpoint req = [] then Inl ErrOperatorEndpointRequired else Inr plan)
      else if pq_Strategy req = ''direct-v4'' \<or> pq_Strategy req = ''stun-only'' \<or> pq_Strategy req = ''auto'' then
        (if pq_MappingLayer req \<noteq> [] \<and> pq_Strategy req \<noteq> ''auto'' then Inr (plan \<lparr> sp_MappingLayer := [] \<rparr>)
         else Inr plan)
      else Inl (UnknownStrategy (pq_Strategy req)))"

fun ResolveAuto :: "string list \<Rightarrow> (string \<Rightarrow> bool) \<Rightarrow> strategy_error + string" where
  "ResolveAuto [] available = Inl ErrNoViableStrategy"
| "ResolveAuto (strategy # order) available =
     (if available strategy then Inr strategy else ResolveAuto order available)"

definition maxIGDDescriptionBytes :: nat where "maxIGDDescriptionBytes = 63"

definition Description :: "string \<Rightarrow> string" where
  "Description identity =
     (let description = (if identity \<noteq> [] then ''AntiNAT'' @ '' '' @ identity else ''AntiNAT'') in
      if length description \<le> maxIGDDescriptionBytes then description else take maxIGDDescriptionBytes description)"

section \<open>What the counting loop computes\<close>

definition of_kind :: "string \<Rightarrow> LayerEvidence list \<Rightarrow> LayerEvidence list" where
  "of_kind k layers = filter (\<lambda>l. le_Kind l = k) layers"

lemma of_kind_simps [simp]:
  "of_kind k [] = []" "of_kind k (l # ls) = (if le_Kind l = k then l # of_kind k ls else of_kind k ls)"
  by (simp_all add: of_kind_def)

definition idx_ok :: "string \<Rightarrow> nat option \<Rightarrow> LayerEvidence list \<Rightarrow> bool" where
  "idx_ok k i layers \<longleftrightarrow>
     (case i of None \<Rightarrow> of_kind k layers = []
      | Some j \<Rightarrow> j < length layers \<and> le_Kind (layers ! j) = k)"

definition counted :: "LayerEvidence list \<Rightarrow> layer_count \<Rightarrow> bool" where
  "counted layers n \<longleftrightarrow>
     n_gateways n = length (of_kind LayerKindGateway layers) \<and> n_stuns n = length (of_kind LayerKindSTUN layers) \<and>
     idx_ok LayerKindGateway (gatewayIdx n) layers \<and> idx_ok LayerKindSTUN (stunIdx n) layers"

lemma of_kind_snoc: "of_kind k (ls @ [l]) = of_kind k ls @ (if le_Kind l = k then [l] else [])"
  by (simp add: of_kind_def)

lemma idx_ok_snoc:
  "idx_ok k i ls \<Longrightarrow> le_Kind l \<noteq> k \<Longrightarrow> idx_ok k i (ls @ [l])"
  "le_Kind l = k \<Longrightarrow> idx_ok k (Some (length ls)) (ls @ [l])"
  by (auto simp: idx_ok_def of_kind_snoc nth_append split: option.splits)

lemma count_layers_counted:
  "counted seen n \<Longrightarrow> count_layers (length seen) ls n = Inr m \<Longrightarrow> counted (seen @ ls) m"
proof (induction ls arbitrary: seen n)
  case (Cons l ls)
  have step: "counted (seen @ [l]) n' \<Longrightarrow> count_layers (Suc (length seen)) ls n' = Inr m \<Longrightarrow> counted (seen @ l # ls) m" for n'
    using Cons.IH [of "seen @ [l]" n'] by simp
  consider "le_Kind l = LayerKindGateway" | "le_Kind l = LayerKindSTUN"
    | "le_Kind l \<noteq> LayerKindGateway" "le_Kind l \<noteq> LayerKindSTUN" by blast
  thus ?case
  proof cases
    case 1
    show ?thesis
      by (rule step [of "n \<lparr> n_gateways := Suc (n_gateways n), gatewayIdx := Some (length seen) \<rparr>"])
        (use Cons.prems 1 in \<open>auto simp: counted_def of_kind_snoc idx_ok_snoc\<close>)
  next
    case 2
    show ?thesis
      by (rule step [of "n \<lparr> n_stuns := Suc (n_stuns n), stunIdx := Some (length seen) \<rparr>"])
        (use Cons.prems 2 in \<open>auto simp: counted_def of_kind_snoc idx_ok_snoc\<close>)
  next
    case 3
    show ?thesis
      by (rule step [of n]) (use Cons.prems 3 in \<open>auto simp: counted_def of_kind_snoc idx_ok_snoc split: if_splits\<close>)
  qed
qed simp

lemma counted_initial: "counted [] \<lparr> n_gateways = 0, n_stuns = 0, gatewayIdx = None, stunIdx = None \<rparr>"
  by (simp add: counted_def idx_ok_def)

lemma find_rev_Some: "find P (rev xs) = Some x \<Longrightarrow> x \<in> set xs \<and> P x"
  by (metis (no_types, lifting) find_Some_iff nth_mem set_rev)

text \<open>Which layer the candidate comes from.\<close>

definition source_layer :: "LayerEvidence list \<Rightarrow> LayerEvidence \<Rightarrow> bool" where
  "source_layer layers l \<longleftrightarrow> l \<in> set layers \<and>
     (if of_kind LayerKindSTUN layers \<noteq> [] then le_Kind l = LayerKindSTUN
      else if of_kind LayerKindGateway layers \<noteq> [] then le_Kind l = LayerKindGateway
      else le_Kind l = LayerKindDirect \<or> le_Kind l = LayerKindManual)"

lemma of_kind_nonempty: "l \<in> set layers \<Longrightarrow> le_Kind l = k \<Longrightarrow> of_kind k layers \<noteq> []"
  by (auto simp: of_kind_def filter_empty_conv)

lemma idx_None: "idx_ok k i layers \<Longrightarrow> i = None \<longleftrightarrow> of_kind k layers = []"
  by (cases i) (auto simp: idx_ok_def dest: of_kind_nonempty [OF nth_mem])

lemma pick_candidate_source:
  assumes n: "counted layers n" and p: "pick_candidate layers n = Inr (cand, kind, obs)"
  shows "\<exists>l. source_layer layers l \<and> parseEndpoint (le_AssignedEndpoint l) = Inr cand \<and> le_Kind l = kind \<and>
     (obs \<longleftrightarrow> stunIdx n \<noteq> None)"
proof (cases "stunIdx n")
  case (Some i)
  hence i: "layers ! i \<in> set layers" "le_Kind (layers ! i) = LayerKindSTUN"
    using n by (auto simp: counted_def idx_ok_def)
  thus ?thesis
    using p Some of_kind_nonempty [OF i]
    by (intro exI [of _ "layers ! i"]) (auto simp: pick_candidate_def source_layer_def ebind_Inr_iff)
next
  case s: None
  hence ns: "of_kind LayerKindSTUN layers = []" using n by (simp add: counted_def idx_ok_def)
  show ?thesis
  proof (cases "gatewayIdx n")
    case (Some i)
    hence i: "layers ! i \<in> set layers" "le_Kind (layers ! i) = LayerKindGateway"
      using n by (auto simp: counted_def idx_ok_def)
    thus ?thesis
      using p s Some ns of_kind_nonempty [OF i]
      by (intro exI [of _ "layers ! i"]) (auto simp: pick_candidate_def source_layer_def ebind_Inr_iff)
  next
    case g: None
    hence ng: "of_kind LayerKindGateway layers = []" using n by (simp add: counted_def idx_ok_def)
    obtain l where l: "find (\<lambda>l. le_Kind l = LayerKindDirect \<or> le_Kind l = LayerKindManual) (rev layers) = Some l"
      and e: "parseEndpoint (le_AssignedEndpoint l) = Inr cand" "kind = le_Kind l" "\<not> obs"
      using p s g by (auto simp: pick_candidate_def err_Inr_iff split: option.splits)
    thus ?thesis
      using find_rev_Some [OF l] s ns ng by (intro exI [of _ l]) (auto simp: source_layer_def)
  qed
qed

lemma classify_candidate_simps:
  "v_Candidate (classify_candidate gw cand kind obs) = cand"
  "v_FinalPortObserved (classify_candidate gw cand kind obs) = obs"
  "v_PublicCandidate (classify_candidate gw cand kind obs) = IsGlobalV4Endpoint cand"
  "v_Scope (classify_candidate gw cand kind obs) = (if kind = LayerKindManual
       then (if IsGlobalV4Endpoint cand then ScopeOperatorInput else ScopeNonRoutable)
       else if IsGlobalV4Endpoint cand then ScopeGlobalPublic else ScopeFirstHop)"
  "v_MappingStateFirstHop (classify_candidate gw cand kind obs) = (kind \<noteq> LayerKindManual \<and> \<not> IsGlobalV4Endpoint cand \<and> gw)"
  by (simp_all add: classify_candidate_def Let_def)

lemma EvaluateLayers_Inr:
  assumes "EvaluateLayers layers fc = Inr v"
  obtains n cand kind obs where "counted layers n" "n_gateways n \<le> 1" "n_stuns n \<le> 1"
    "pick_candidate layers n = Inr (cand, kind, obs)"
    "\<And>g. gatewayIdx n = Some g \<Longrightarrow> obs \<Longrightarrow> fc = PortPolicyStrict \<Longrightarrow>
       \<exists>a. parseEndpoint (le_AssignedEndpoint (layers ! g)) = Inr (a, snd cand)"
    "v = classify_candidate (gatewayIdx n \<noteq> None) cand kind obs"
proof -
  from assms obtain n cand kind obs where
    c: "count_layers 0 layers \<lparr> n_gateways = 0, n_stuns = 0, gatewayIdx = None, stunIdx = None \<rparr> = Inr n"
    and le: "n_gateways n \<le> 1" "n_stuns n \<le> 1" and p: "pick_candidate layers n = Inr (cand, kind, obs)"
    by (auto simp: EvaluateLayers_def err_Inr_iff)
  have n: "counted layers n" using count_layers_counted [OF counted_initial, of layers n] c by simp
  show ?thesis
  proof (rule that [OF n le p])
    show "\<exists>a. parseEndpoint (le_AssignedEndpoint (layers ! g)) = Inr (a, snd cand)"
      if "gatewayIdx n = Some g" "obs" "fc = PortPolicyStrict" for g
      using assms that c p by (auto simp: EvaluateLayers_def err_Inr_iff)
    show "v = classify_candidate (gatewayIdx n \<noteq> None) cand kind obs"
      using assms c p by (auto simp: EvaluateLayers_def err_Inr_iff)
  qed
qed

lemma singleton_filter: "length (of_kind k layers) \<le> 1 \<Longrightarrow> g \<in> set (of_kind k layers) \<Longrightarrow> h \<in> set (of_kind k layers) \<Longrightarrow> g = h"
  by (cases "of_kind k layers") auto

section \<open>Properties\<close>

text \<open>
  C38. What a layer chain is classified as. A chain that is accepted has at most one gateway layer and at
  most one observed layer. Its candidate is the endpoint of the observed layer if there is one, else of
  the gateway layer, else of a direct or manual layer; it is a public candidate exactly when its address
  is a global IPv4 address, so a first-hop endpoint never is one; the scope follows from this and from
  whether an operator declared it; and under a strict final constraint an observed port equals the port
  that the gateway assigned. The first-hop flag is set when the candidate is not global and there is a
  gateway layer: it describes the candidate, not the gateway's own endpoint.
\<close>

theorem EvaluateLayers_verdict:
  assumes "EvaluateLayers layers fc = Inr v"
  shows "length (of_kind LayerKindGateway layers) \<le> 1 \<and> length (of_kind LayerKindSTUN layers) \<le> 1 \<and>
    (\<exists>l. source_layer layers l \<and> parseEndpoint (le_AssignedEndpoint l) = Inr (v_Candidate v) \<and>
       v_FinalPortObserved v = (le_Kind l = LayerKindSTUN) \<and>
       v_PublicCandidate v = IsGlobalV4Endpoint (v_Candidate v) \<and>
       v_Scope v = (if le_Kind l = LayerKindManual
         then (if v_PublicCandidate v then ScopeOperatorInput else ScopeNonRoutable)
         else if v_PublicCandidate v then ScopeGlobalPublic else ScopeFirstHop) \<and>
       v_MappingStateFirstHop v = (\<not> v_PublicCandidate v \<and> of_kind LayerKindGateway layers \<noteq> [])) \<and>
    (\<forall>g \<in> set (of_kind LayerKindGateway layers). v_FinalPortObserved v \<and> fc = PortPolicyStrict \<longrightarrow>
       (\<exists>a. parseEndpoint (le_AssignedEndpoint g) = Inr (a, snd (v_Candidate v))))"
proof -
  obtain n cand kind obs where n: "counted layers n" and le: "n_gateways n \<le> 1" "n_stuns n \<le> 1"
    and p: "pick_candidate layers n = Inr (cand, kind, obs)"
    and fc: "\<And>g. gatewayIdx n = Some g \<Longrightarrow> obs \<Longrightarrow> fc = PortPolicyStrict \<Longrightarrow>
       \<exists>a. parseEndpoint (le_AssignedEndpoint (layers ! g)) = Inr (a, snd cand)"
    and v: "v = classify_candidate (gatewayIdx n \<noteq> None) cand kind obs"
    by (rule EvaluateLayers_Inr [OF assms]) (rule that)
  have g: "gatewayIdx n = None \<longleftrightarrow> of_kind LayerKindGateway layers = []"
    and s: "stunIdx n = None \<longleftrightarrow> of_kind LayerKindSTUN layers = []"
    using n idx_None by (auto simp: counted_def)
  obtain l where l: "source_layer layers l" "parseEndpoint (le_AssignedEndpoint l) = Inr cand" "le_Kind l = kind"
    "obs \<longleftrightarrow> stunIdx n \<noteq> None"
    using pick_candidate_source [OF n p] by blast
  have one: "length (of_kind LayerKindGateway layers) \<le> 1" "length (of_kind LayerKindSTUN layers) \<le> 1"
    using n le by (simp_all add: counted_def)
  have strict: "\<exists>a. parseEndpoint (le_AssignedEndpoint h) = Inr (a, snd cand)"
    if h: "h \<in> set (of_kind LayerKindGateway layers)" and "obs" "fc = PortPolicyStrict" for h
  proof -
    obtain i where i: "gatewayIdx n = Some i" using g h by (cases "gatewayIdx n") auto
    hence "layers ! i \<in> set (of_kind LayerKindGateway layers)"
      using n by (auto simp: counted_def idx_ok_def of_kind_def)
    hence "layers ! i = h" using singleton_filter [OF one(1) _ h] by blast
    thus ?thesis using fc [OF i] that by blast
  qed
  show ?thesis
    using one strict g s l unfolding v classify_candidate_simps
    by (auto simp: source_layer_def intro!: exI [of _ l])
qed

text \<open>A gateway behind a second NAT: the mapping is first-hop only, the observed endpoint is public.\<close>

definition demo_layer :: "string \<Rightarrow> Addr \<Rightarrow> LayerEvidence" where
  "demo_layer kind a = \<lparr> le_Kind = kind, le_Mechanism = [], le_ControlServer = [], le_InternalEndpoint = [],
     le_AssignedEndpoint = AddrPort_String a 443, le_Scope = ScopeFirstHop, le_LeaseLifetime = 0, le_Epoch = 0,
     le_Ownership = [], le_ParentLayer = -1, le_Note = [] \<rparr>"

definition demo_layers :: "LayerEvidence list" where
  "demo_layers = [demo_layer LayerKindGateway (V4 10 0 0 5), demo_layer LayerKindSTUN (V4 8 8 4 4)]"

lemma demo_parse: "parseEndpoint (AddrPort_String (V4 a b c d) p) = Inr (V4 a b c d, p)"
  by (simp add: parseEndpoint_def ParseAddrPort_String4 del: AddrPort_String.simps)

lemma demo_evaluates:
  "EvaluateLayers demo_layers PortPolicyStrict = Inr (classify_candidate True (V4 8 8 4 4, 443) LayerKindSTUN True)"
  by (simp add: EvaluateLayers_def demo_layers_def demo_layer_def pick_candidate_def demo_parse del: AddrPort_String.simps)

theorem EvaluateLayers_verdict_witness:
  "\<exists>v. EvaluateLayers demo_layers PortPolicyStrict = Inr v \<and> v_Candidate v = (V4 8 8 4 4, 443) \<and>
     v_FinalPortObserved v \<and> v_MappingStateFirstHop v = (\<not> v_PublicCandidate v)"
proof -
  have "demo_layers \<noteq> []" "of_kind LayerKindGateway demo_layers \<noteq> []"
    by (simp_all add: demo_layers_def demo_layer_def)
  thus ?thesis
    using EvaluateLayers_verdict [OF demo_evaluates] demo_evaluates by (auto simp: classify_candidate_simps)
qed

definition first_available :: "string list \<Rightarrow> (string \<Rightarrow> bool) \<Rightarrow> string \<Rightarrow> bool" where
  "first_available order P s \<longleftrightarrow> (\<exists>before after. order = before @ s # after \<and> P s \<and> list_all (\<lambda>x. \<not> P x) before)"

lemma first_available_Cons:
  "first_available (x # order) P s \<longleftrightarrow> (if P x then x = s else first_available order P s)"
proof (cases "P x")
  case False
  have "first_available (x # order) P s" if "first_available order P s"
    using that False unfolding first_available_def by (metis append_Cons list.pred_inject(2))
  thus ?thesis using False by (auto simp: first_available_def Cons_eq_append_conv)
qed (auto simp: first_available_def Cons_eq_append_conv)

lemma ResolveAuto_iff: "ResolveAuto order available = Inr s \<longleftrightarrow> first_available order available s"
  by (induction order) (simp_all add: first_available_Cons, simp add: first_available_def)

lemma CanRequestExact_iff:
  "c_CanRequestExact (PortControlCapabilityFor k v2) \<longleftrightarrow> k = LayerPCP \<or> k = LayerUPnP \<and> v2"
  by (simp add: PortControlCapabilityFor_def)

text \<open>
  Which requests have a plan, and what the plan is: the strategy is one of the five; an explicit
  gateway needs a resolved mechanism, and a strict gateway port a mechanism that can request one (PCP, or
  UPnP with IGDv2); a manual endpoint needs the operator's endpoint. Unset policies take their defaults,
  and only an explicit gateway carries a capability, the one of its mechanism. The mapping layer is
  dropped for \<open>direct-v4\<close> and \<open>stun-only\<close>; \<open>manual-static-v4\<close> and \<open>auto\<close> keep what they were given.
  \<open>ResolveAuto\<close> returns the first available strategy of its list.
\<close>

theorem PlanStrategy_iff:
  "((\<exists>p. PlanStrategy req = Inr p) \<longleftrightarrow>
      (if pq_Strategy req = ''explicit-gateway'' then MappingLayerKind_Valid (pq_MappingLayer req) \<and>
         (if pq_GatewayPortPolicy req = PortPolicyStrict
          then pq_MappingLayer req = LayerPCP \<or> pq_MappingLayer req = LayerUPnP \<and> pq_IGDv2 req else True)
       else if pq_Strategy req = ''manual-static-v4'' then pq_ManualExpectedEndpoint req \<noteq> []
       else pq_Strategy req \<in> {''direct-v4'', ''stun-only'', ''auto''})) \<and>
   (case PlanStrategy req of
      Inl _ \<Rightarrow> True
    | Inr p \<Rightarrow> sp_Strategy p = pq_Strategy req \<and>
        sp_MappingLayer p = (if pq_Strategy req \<in> {''direct-v4'', ''stun-only''} then [] else pq_MappingLayer req) \<and>
        sp_GatewayPortPolicy p = (if pq_GatewayPortPolicy req = [] then PortPolicyAcceptAny else pq_GatewayPortPolicy req) \<and>
        sp_FinalEndpointConstraint p =
          (if pq_FinalEndpointConstraint req = [] then PortPolicyAcceptAssigned else pq_FinalEndpointConstraint req) \<and>
        sp_ManualExpectedEndpoint p = pq_ManualExpectedEndpoint req \<and>
        sp_Capability p = (if pq_Strategy req = ''explicit-gateway''
          then PortControlCapabilityFor (pq_MappingLayer req) (pq_IGDv2 req) else no_capability)) \<and>
   (ResolveAuto order available = Inr s \<longleftrightarrow> first_available order available s)"
  unfolding ResolveAuto_iff PlanStrategy_def Let_def CanRequestExact_iff by (simp split: sum.splits)

end
