(* ===== verification/Json_Token.thy ===== *)
theory Json_Token
  imports Netip_Parse
begin

text \<open>
  What \<^verbatim>\<open>src/internal/protocol/strictjson.go\<close> uses of Go's \<open>encoding/json\<close>: \<open>Decoder.Token\<close> with
  \<open>UseNumber\<close>. The decoder is its token state, its stack and the unread text; a value is read by the
  scanner's rules for literals, numbers and strings, and a string is unquoted with its escapes, its
  surrogate pairs and the replacement of invalid UTF-8. Text is a list of bytes, as characters.
\<close>

section \<open>Scanning a scalar\<close>

datatype token = TDelim char | TString string | TNumber string | TBool bool | TNull

definition isSpace :: "char \<Rightarrow> bool" where
  "isSpace c \<longleftrightarrow> (of_char c :: nat) \<in> {32, 9, 13, 10}"

abbreviation quote :: char where "quote \<equiv> CHR 0x22"
abbreviation backslash :: char where "backslash \<equiv> CHR 0x5C"
abbreviation lbrace :: char where "lbrace \<equiv> CHR 0x7B"
abbreviation rbrace :: char where "rbrace \<equiv> CHR 0x7D"

text \<open>Numbers: the integer part, then an optional fraction and exponent. The result is the length.\<close>

definition digits :: "string \<Rightarrow> string" where "digits s = takeWhile is_digit s"

definition scan_exponent :: "string \<Rightarrow> string option" where
  "scan_exponent s =
     (if s = [] \<or> hd s \<notin> {CHR ''e'', CHR ''E''} then Some []
      else
        let sign = (if tl s \<noteq> [] \<and> hd (tl s) \<in> {CHR ''+'', CHR ''-''} then [hd (tl s)] else []);
            ds = digits (drop (length sign) (tl s)) in
        if ds = [] then None else Some (hd s # sign @ ds))"

definition scan_fraction :: "string \<Rightarrow> string option" where
  "scan_fraction s =
     (if s = [] \<or> hd s \<noteq> CHR ''.'' then Some []
      else let ds = digits (tl s) in if ds = [] then None else Some (CHR ''.'' # ds))"

definition scan_int :: "string \<Rightarrow> string option" where
  "scan_int s =
     (let sign = (if s \<noteq> [] \<and> hd s = CHR ''-'' then ''-'' else []); r = drop (length sign) s in
      if r = [] \<or> \<not> is_digit (hd r) then None
      else if hd r = CHR ''0'' then Some (sign @ ''0'') else Some (sign @ digits r))"

definition scan_number :: "string \<Rightarrow> (string \<times> string) option" where
  "scan_number s =
     Option.bind (scan_int s) (\<lambda>a.
     Option.bind (scan_fraction (drop (length a) s)) (\<lambda>b.
     Option.bind (scan_exponent (drop (length a + length b) s)) (\<lambda>e.
       Some (a @ b @ e, drop (length a + length b + length e) s))))"

text \<open>The text of a string literal up to its closing quote, still quoted, and the text after it.\<close>

fun scan_string :: "string \<Rightarrow> (string \<times> string) option" where
  "scan_string [] = None"
| "scan_string (c # s) =
     (if c = quote then Some ([], s)
      else if c = backslash then
        (case s of
           [] \<Rightarrow> None
         | e # s' \<Rightarrow>
             if e \<in> {CHR ''b'', CHR ''f'', CHR ''n'', CHR ''r'', CHR ''t'', backslash, CHR ''/'', quote} then
               map_option (\<lambda>(b, r). (c # e # b, r)) (scan_string s')
             else if e = CHR ''u'' then
               (case s' of
                  h1 # h2 # h3 # h4 # s'' \<Rightarrow>
                    if is_hex h1 \<and> is_hex h2 \<and> is_hex h3 \<and> is_hex h4 then
                      map_option (\<lambda>(b, r). (c # e # h1 # h2 # h3 # h4 # b, r)) (scan_string s'')
                    else None
                | _ \<Rightarrow> None)
             else None)
      else if (of_char c :: nat) < 32 then None
      else map_option (\<lambda>(b, r). (c # b, r)) (scan_string s))"

section \<open>Unquoting\<close>

definition nat_char :: "nat \<Rightarrow> char" where "nat_char n = char_of n"

text \<open>\<open>utf8.AppendRune\<close> for a rune that is not a surrogate.\<close>

definition utf8_encode :: "nat \<Rightarrow> string" where
  "utf8_encode r =
     (if r < 128 then [nat_char r]
      else if r < 2048 then [nat_char (192 + r div 64), nat_char (128 + r mod 64)]
      else if r < 65536 then [nat_char (224 + r div 4096), nat_char (128 + r div 64 mod 64), nat_char (128 + r mod 64)]
      else [nat_char (240 + r div 262144), nat_char (128 + r div 4096 mod 64), nat_char (128 + r div 64 mod 64),
            nat_char (128 + r mod 64)])"

text \<open>The length of the valid UTF-8 sequence that the text starts with; 0 when the first byte starts none.\<close>

definition cont :: "nat \<Rightarrow> nat \<Rightarrow> string \<Rightarrow> nat \<Rightarrow> bool" where
  "cont lo hi s i \<longleftrightarrow> i < length s \<and> lo \<le> of_char (s ! i) \<and> of_char (s ! i) \<le> hi"

definition utf8_len :: "string \<Rightarrow> nat" where
  "utf8_len s =
     (if s = [] then 0
      else let b = of_char (s ! 0) :: nat in
        if b < 128 then 1
        else if 194 \<le> b \<and> b \<le> 223 \<and> cont 128 191 s 1 then 2
        else if b = 224 \<and> cont 160 191 s 1 \<and> cont 128 191 s 2 then 3
        else if (225 \<le> b \<and> b \<le> 236 \<or> b = 238 \<or> b = 239) \<and> cont 128 191 s 1 \<and> cont 128 191 s 2 then 3
        else if b = 237 \<and> cont 128 159 s 1 \<and> cont 128 191 s 2 then 3
        else if b = 240 \<and> cont 144 191 s 1 \<and> cont 128 191 s 2 \<and> cont 128 191 s 3 then 4
        else if 241 \<le> b \<and> b \<le> 243 \<and> cont 128 191 s 1 \<and> cont 128 191 s 2 \<and> cont 128 191 s 3 then 4
        else if b = 244 \<and> cont 128 143 s 1 \<and> cont 128 191 s 2 \<and> cont 128 191 s 3 then 4
        else 0)"

definition getu4 :: "string \<Rightarrow> nat option" where
  "getu4 s =
     (if length s < 6 \<or> s ! 0 \<noteq> backslash \<or> s ! 1 \<noteq> CHR ''u'' \<or> \<not> list_all is_hex (subslice 2 6 s) then None
      else Some (foldl (\<lambda>v c. v * 16 + hex_val c) 0 (subslice 2 6 s)))"

definition escape_char :: "char \<Rightarrow> char" where
  "escape_char e = (if e = CHR ''b'' then nat_char 8 else if e = CHR ''f'' then nat_char 12
     else if e = CHR ''n'' then nat_char 10 else if e = CHR ''r'' then nat_char 13
     else if e = CHR ''t'' then nat_char 9 else e)"

function unquote :: "string \<Rightarrow> string" where
  "unquote s =
     (if s = [] then []
      else if s ! 0 = backslash \<and> length s \<ge> 2 \<and> s ! 1 \<noteq> CHR ''u'' then escape_char (s ! 1) # unquote (drop 2 s)
      else if s ! 0 = backslash \<and> length s \<ge> 6 then
        (case getu4 s of
           None \<Rightarrow> []
         | Some rr \<Rightarrow>
             if 55296 \<le> rr \<and> rr < 57344 then
               (case getu4 (drop 6 s) of
                  Some rr1 \<Rightarrow>
                    if rr < 56320 \<and> 56320 \<le> rr1 \<and> rr1 < 57344
                    then utf8_encode ((rr - 55296) * 1024 + (rr1 - 56320) + 65536) @ unquote (drop 12 s)
                    else utf8_encode 65533 @ unquote (drop 6 s)
                | None \<Rightarrow> utf8_encode 65533 @ unquote (drop 6 s))
             else utf8_encode rr @ unquote (drop 6 s))
      else if utf8_len s = 0 then utf8_encode 65533 @ unquote (drop 1 s)
      else take (utf8_len s) s @ unquote (drop (utf8_len s) s))"
  by auto
termination by (relation "measure length") auto

declare unquote.simps [simp del]

definition scan_scalar :: "string \<Rightarrow> (token \<times> string) option" where
  "scan_scalar s =
     (if s = [] then None
      else if hd s = quote then map_option (\<lambda>(b, r). (TString (unquote b), r)) (scan_string (tl s))
      else if take 4 s = ''true'' then Some (TBool True, drop 4 s)
      else if take 5 s = ''false'' then Some (TBool False, drop 5 s)
      else if take 4 s = ''null'' then Some (TNull, drop 4 s)
      else map_option (\<lambda>(n, r). (TNumber n, r)) (scan_number s))"

section \<open>The token stream\<close>

datatype token_state = TopValue | ArrayStart | ArrayValue | ArrayComma
  | ObjectStart | ObjectKey | ObjectColon | ObjectValue | ObjectComma

record Decoder =
  tokenState :: token_state
  tokenStack :: "token_state list"
  unread :: string

definition NewDecoder :: "string \<Rightarrow> Decoder" where
  "NewDecoder payload = \<lparr> tokenState = TopValue, tokenStack = [], unread = payload \<rparr>"

definition tokenValueAllowed :: "token_state \<Rightarrow> bool" where
  "tokenValueAllowed st \<longleftrightarrow> st \<in> {TopValue, ArrayStart, ArrayValue, ObjectValue}"

definition tokenValueEnd :: "token_state \<Rightarrow> token_state" where
  "tokenValueEnd st = (case st of ArrayStart \<Rightarrow> ArrayComma | ArrayValue \<Rightarrow> ArrayComma | ObjectValue \<Rightarrow> ObjectComma | _ \<Rightarrow> st)"

lemma dropWhile_Cons_shorter: "dropWhile P xs = c # r \<Longrightarrow> length r < length xs"
  using length_dropWhile_le [of P xs] by simp

datatype token_result = EOF | SyntaxError | Tok token Decoder

definition pop_state :: "token \<Rightarrow> string \<Rightarrow> Decoder \<Rightarrow> token_result" where
  "pop_state t rest d =
     (case tokenStack d of
        [] \<Rightarrow> SyntaxError
      | st # stack \<Rightarrow> Tok t \<lparr> tokenState = tokenValueEnd st, tokenStack = stack, unread = rest \<rparr>)"

definition push_state :: "token \<Rightarrow> token_state \<Rightarrow> string \<Rightarrow> Decoder \<Rightarrow> token_result" where
  "push_state t st rest d = Tok t \<lparr> tokenState = st, tokenStack = tokenState d # tokenStack d, unread = rest \<rparr>"

function Token :: "Decoder \<Rightarrow> token_result" where
  "Token d =
     (case dropWhile isSpace (unread d) of
        [] \<Rightarrow> EOF
      | c # rest \<Rightarrow>
          if c = lbracket then
            (if tokenValueAllowed (tokenState d) then push_state (TDelim c) ArrayStart rest d else SyntaxError)
          else if c = rbracket then
            (if tokenState d \<in> {ArrayStart, ArrayComma} then pop_state (TDelim c) rest d else SyntaxError)
          else if c = lbrace then
            (if tokenValueAllowed (tokenState d) then push_state (TDelim c) ObjectStart rest d else SyntaxError)
          else if c = rbrace then
            (if tokenState d \<in> {ObjectStart, ObjectComma} then pop_state (TDelim c) rest d else SyntaxError)
          else if c = colon then
            (if tokenState d = ObjectColon then Token (d \<lparr> tokenState := ObjectValue, unread := rest \<rparr>) else SyntaxError)
          else if c = CHR '','' then
            (if tokenState d = ArrayComma then Token (d \<lparr> tokenState := ArrayValue, unread := rest \<rparr>)
             else if tokenState d = ObjectComma then Token (d \<lparr> tokenState := ObjectKey, unread := rest \<rparr>)
             else SyntaxError)
          else if c = quote \<and> tokenState d \<in> {ObjectStart, ObjectKey} then
            (case scan_scalar (c # rest) of
               None \<Rightarrow> SyntaxError
             | Some (t, r) \<Rightarrow> Tok t (d \<lparr> tokenState := ObjectColon, unread := r \<rparr>))
          else if \<not> tokenValueAllowed (tokenState d) then SyntaxError
          else
            (case scan_scalar (c # rest) of
               None \<Rightarrow> SyntaxError
             | Some (t, r) \<Rightarrow> Tok t (d \<lparr> tokenState := tokenValueEnd (tokenState d), unread := r \<rparr>)))"
  by auto
termination
  by (relation "measure (\<lambda>d. length (unread d))")
    (auto dest: dropWhile_Cons_shorter)

declare Token.simps [simp del]

text \<open>Unfolding rules that apply to concrete text only.\<close>

lemma Token_Nil: "Token \<lparr> tokenState = st, tokenStack = sk, unread = [] \<rparr> = EOF"
  by (simp add: Token.simps)

lemmas Token_Cons = Token.simps [of "\<lparr> tokenState = st, tokenStack = sk, unread = c # s \<rparr>" for st sk c s]
lemmas unquote_Nil = unquote.simps [of "[]"]
lemmas unquote_Cons = unquote.simps [of "c # s" for c s]

section \<open>Every token consumes text\<close>

lemma scan_string_shorter: "scan_string s = Some (b, r) \<Longrightarrow> length r < length s"
proof (induction s arbitrary: b r rule: scan_string.induct)
  case (2 c s)
  thus ?case by (fastforce split: if_splits list.splits simp: less_Suc_eq)
qed simp

lemma scan_int_nonempty: "scan_int s = Some a \<Longrightarrow> a \<noteq> [] \<and> s \<noteq> []"
  by (cases "drop 1 s") (auto simp: scan_int_def digits_def Let_def takeWhile_eq_Nil_iff split: if_splits)

lemma scan_number_shorter: "scan_number s = Some (n, r) \<Longrightarrow> length r < length s"
  by (auto simp: scan_number_def bind_eq_Some_conv dest!: scan_int_nonempty)

lemma scan_scalar_shorter: "scan_scalar s = Some (t, r) \<Longrightarrow> length r < length s"
  by (cases s)
    (auto simp: scan_scalar_def dest: scan_string_shorter scan_number_shorter split: if_splits)

lemma Token_shorter: "Token d = Tok t d' \<Longrightarrow> length (unread d') < length (unread d)"
proof (induction d rule: Token.induct)
  case (1 d)
  show ?case
  proof (cases "dropWhile isSpace (unread d)")
    case Nil
    show ?thesis using "1.prems" unfolding Token.simps [of d] Nil by simp
  next
    case (Cons c rest)
    note le = dropWhile_Cons_shorter [OF Cons]
    note ih = "1.IH" [OF Cons]
    have sc: "length r < length (unread d)" if "scan_scalar (c # rest) = Some (t, r)" for t r
      using scan_scalar_shorter [OF that] le by simp
    consider (colon) "c = colon" "tokenState d = ObjectColon"
        "Token (d \<lparr> tokenState := ObjectValue, unread := rest \<rparr>) = Tok t d'"
      | (comma) st where "c = CHR '',''" "tokenState d \<in> {ArrayComma, ObjectComma}"
        "Token (d \<lparr> tokenState := st, unread := rest \<rparr>) = Tok t d'" "st = (if tokenState d = ArrayComma then ArrayValue else ObjectKey)"
      | (delim) "unread d' = rest" | (scalar) r t' where "scan_scalar (c # rest) = Some (t', r)" "unread d' = r"
      using "1.prems" unfolding Token.simps [of d] Cons
      by (auto simp: push_state_def pop_state_def split: if_splits option.splits list.splits)
    thus ?thesis
    proof cases
      case colon
      thus ?thesis using ih(1) le by simp
    next
      case comma
      thus ?thesis using ih(2,3) le by (cases "tokenState d = ArrayComma") auto
    next
      case delim
      thus ?thesis using le by simp
    next
      case scalar
      thus ?thesis using sc by simp
    qed
  qed
qed

end
