(* ===== verification/Strict_Json.thy ===== *)
theory Strict_Json
  imports Json_Token
begin

text \<open>
  \<^verbatim>\<open>src/internal/protocol/strictjson.go\<close>: the structural pass over a JSON payload, with its checks on
  duplicate and unknown keys, kinds, nesting depth and number range. The recursive walkers carry fuel;
  \<open>decodeStrict\<close> gives them enough for every payload. The typed pass of \<open>DecodeStrictJSONInto\<close>
  (\<open>encoding/json\<close> by reflection on a Go type) is not modelled.
\<close>

abbreviation MaxJSONDepth :: nat where "MaxJSONDepth \<equiv> 16"
abbreviation MaxJSONBytes :: nat where "MaxJSONBytes \<equiv> 65536"

datatype json_error = ErrDuplicateKey string | ErrUnknownField string | ErrJSONTooDeep | ErrNumberOverflow
  | ErrTrailingGarbage | ErrMalformedJSON | ErrNotObject | ErrEmptyPayload | ErrKindMismatch
  | ErrUnexpectedToken | ErrPayloadTooLarge | OutOfFuel

datatype FieldKind = KindString | KindInt | KindBool | KindHex | KindStringArray | KindObject | KindAny

datatype json = JNull | JBool bool | JInt int | JStr string | JArr "json list" | JObj "(string \<times> json) list"

type_synonym schema = "(string \<times> FieldKind) list option"

section \<open>Scalars\<close>

definition maxI64 :: string where "maxI64 = ''9223372036854775807''"

fun str_le :: "string \<Rightarrow> string \<Rightarrow> bool" where
  "str_le [] t = True"
| "str_le (c # s) [] = False"
| "str_le (c # s) (e # t) = ((of_char c :: nat) < of_char e \<or> c = e \<and> str_le s t)"

definition IsBoundedJSONNumber :: "string \<Rightarrow> bool" where
  "IsBoundedJSONNumber n =
     (if list_ex (\<lambda>c. c \<in> {CHR ''.'', CHR ''e'', CHR ''E''}) n then False
      else
        let negative = (n \<noteq> [] \<and> hd n = CHR ''-''); s = (if negative then tl n else n) in
        if s = [] then False
        else if length s < length maxI64 \<or> length s = length maxI64 \<and> str_le s maxI64 then
          \<not> (negative \<and> length s = length maxI64 + 1 \<and> s = ''9223372036854775808'')
        else False)"

definition hex_decodes :: "string \<Rightarrow> bool" where
  "hex_decodes s \<longleftrightarrow> even (length s) \<and> list_all is_hex s"

definition checkScalarKind :: "FieldKind \<Rightarrow> string \<Rightarrow> json_error option" where
  "checkScalarKind kind value =
     (if kind = KindAny \<or> kind = KindString then None
      else if kind = KindHex then (if hex_decodes value then None else Some ErrKindMismatch)
      else Some ErrKindMismatch)"

definition walkScalar :: "FieldKind \<Rightarrow> token \<Rightarrow> json_error + json" where
  "walkScalar kind tok = (case tok of
      TString value \<Rightarrow> (case checkScalarKind kind value of Some e \<Rightarrow> Inl e | None \<Rightarrow> Inr (JStr value))
    | TNumber value \<Rightarrow>
        (if kind \<noteq> KindAny \<and> kind \<noteq> KindInt then Inl ErrKindMismatch
         else if \<not> IsBoundedJSONNumber value then Inl ErrNumberOverflow
         else case Atoi value of None \<Rightarrow> Inl ErrNumberOverflow | Some i \<Rightarrow> Inr (JInt i))
    | TBool value \<Rightarrow> (if kind \<noteq> KindAny \<and> kind \<noteq> KindBool then Inl ErrKindMismatch else Inr (JBool value))
    | TNull \<Rightarrow> Inr JNull
    | TDelim _ \<Rightarrow> Inl ErrUnexpectedToken)"

section \<open>The walkers\<close>

text \<open>
  \<open>objectLoop\<close> is the loop of \<open>walkObject\<close>; the keys seen so far are those of the members read so
  far. \<open>arrayLoop\<close> is the loop over the elements of an array, the same in \<open>walkValue\<close> and
  \<open>walkTokenValue\<close>.
\<close>

definition field_kind :: "schema \<Rightarrow> string \<Rightarrow> json_error + FieldKind" where
  "field_kind schema key = (case schema of
      None \<Rightarrow> Inr KindAny
    | Some sc \<Rightarrow> (case map_of sc key of Some kind \<Rightarrow> Inr kind | None \<Rightarrow> Inl (ErrUnknownField key)))"

function (sequential) walkObject :: "nat \<Rightarrow> schema \<Rightarrow> nat \<Rightarrow> Decoder \<Rightarrow> json_error + (string \<times> json) list \<times> Decoder"
  and objectLoop :: "nat \<Rightarrow> schema \<Rightarrow> nat \<Rightarrow> (string \<times> json) list \<Rightarrow> Decoder \<Rightarrow> json_error + (string \<times> json) list \<times> Decoder"
  and walkValue :: "nat \<Rightarrow> FieldKind \<Rightarrow> nat \<Rightarrow> Decoder \<Rightarrow> json_error + json \<times> Decoder"
  and walkTokenValue :: "nat \<Rightarrow> token \<Rightarrow> FieldKind \<Rightarrow> nat \<Rightarrow> Decoder \<Rightarrow> json_error + json \<times> Decoder"
  and arrayLoop :: "nat \<Rightarrow> FieldKind \<Rightarrow> nat \<Rightarrow> json list \<Rightarrow> Decoder \<Rightarrow> json_error + json list \<times> Decoder"
where
  "walkObject 0 schema depth d = Inl OutOfFuel"
| "walkObject (Suc n) schema depth d =
     (if depth > MaxJSONDepth then Inl ErrJSONTooDeep else objectLoop n schema depth [] d)"
| "objectLoop 0 schema depth out d = Inl OutOfFuel"
| "objectLoop (Suc n) schema depth out d =
     (case Token d of
        Tok tok d1 \<Rightarrow>
          (if tok = TDelim rbrace then Inr (out, d1)
           else case tok of
             TString key \<Rightarrow>
               (if key \<in> fst ` set out then Inl (ErrDuplicateKey key)
                else ebind (field_kind schema key) (\<lambda>kind.
                     ebind (walkValue n kind (depth + 1) d1) (\<lambda>(value, d2).
                     objectLoop n schema depth (out @ [(key, value)]) d2)))
           | _ \<Rightarrow> Inl ErrUnexpectedToken)
      | _ \<Rightarrow> Inl ErrMalformedJSON)"
| "walkValue 0 kind depth d = Inl OutOfFuel"
| "walkValue (Suc n) kind depth d =
     (if depth > MaxJSONDepth then Inl ErrJSONTooDeep
      else case Token d of
        Tok tok d1 \<Rightarrow>
          (if tok = TDelim lbrace then
             (if kind \<noteq> KindAny \<and> kind \<noteq> KindObject then Inl ErrKindMismatch
              else ebind (walkObject n None depth d1) (\<lambda>(obj, d2). Inr (JObj obj, d2)))
           else if tok = TDelim lbracket then
             (if kind \<noteq> KindAny \<and> kind \<noteq> KindStringArray then Inl ErrKindMismatch
              else ebind (arrayLoop n (if kind = KindStringArray then KindString else KindAny) (depth + 1) [] d1)
                (\<lambda>(arr, d2). Inr (JArr arr, d2)))
           else ebind (walkScalar kind tok) (\<lambda>v. Inr (v, d1)))
      | _ \<Rightarrow> Inl ErrMalformedJSON)"
| "walkTokenValue 0 tok kind depth d = Inl OutOfFuel"
| "walkTokenValue (Suc n) tok kind depth d =
     (if depth > MaxJSONDepth then Inl ErrJSONTooDeep
      else if tok = TDelim lbrace then
        (if kind \<noteq> KindAny \<and> kind \<noteq> KindObject then Inl ErrKindMismatch
         else ebind (walkObject n None depth d) (\<lambda>(obj, d2). Inr (JObj obj, d2)))
      else if tok = TDelim lbracket then
        (if kind \<noteq> KindAny then Inl ErrKindMismatch
         else ebind (arrayLoop n KindAny (depth + 1) [] d) (\<lambda>(arr, d2). Inr (JArr arr, d2)))
      else ebind (walkScalar kind tok) (\<lambda>v. Inr (v, d)))"
| "arrayLoop 0 kind depth arr d = Inl OutOfFuel"
| "arrayLoop (Suc n) kind depth arr d =
     (case Token d of
        Tok tok d1 \<Rightarrow>
          (if tok = TDelim rbracket then Inr (arr, d1)
           else ebind (walkTokenValue n tok kind depth d1) (\<lambda>(item, d2).
                arrayLoop n kind depth (arr @ [item]) d2))
      | _ \<Rightarrow> Inl ErrMalformedJSON)"
  by pat_completeness auto
termination
  by (relation "measure (\<lambda>x. case x of
        Inl (Inl (n, _)) \<Rightarrow> n
      | Inl (Inr (n, _)) \<Rightarrow> n
      | Inr (Inl (n, _)) \<Rightarrow> n
      | Inr (Inr (Inl (n, _))) \<Rightarrow> n
      | Inr (Inr (Inr (n, _))) \<Rightarrow> n)") auto

definition walk_fuel :: "string \<Rightarrow> nat" where
  "walk_fuel payload = 3 * length payload + 2"

definition decodeStrict :: "string \<Rightarrow> schema \<Rightarrow> json_error + (string \<times> json) list" where
  "decodeStrict payload schema =
     ensure (payload \<noteq> []) ErrEmptyPayload (
     ensure (length payload \<le> MaxJSONBytes) ErrPayloadTooLarge (
     case Token (NewDecoder payload) of
       Tok tok d \<Rightarrow>
         ensure (tok = TDelim lbrace) ErrNotObject (
         ebind (walkObject (walk_fuel payload) schema 0 d) (\<lambda>(out, d1).
         if Token d1 = EOF then Inr out else Inl ErrTrailingGarbage))
     | _ \<Rightarrow> Inl ErrMalformedJSON))"

definition ValidateStrictJSON :: "string \<Rightarrow> schema \<Rightarrow> json_error option" where
  "ValidateStrictJSON payload schema = (case decodeStrict payload schema of Inl e \<Rightarrow> Some e | Inr _ \<Rightarrow> None)"

definition DecodeStrictJSON :: "string \<Rightarrow> schema \<Rightarrow> json_error + (string \<times> json) list" where
  "DecodeStrictJSON payload schema = decodeStrict payload schema"

section \<open>What a decoded value satisfies\<close>

fun has_kind :: "FieldKind \<Rightarrow> json \<Rightarrow> bool" where
  "has_kind _ JNull = True"
| "has_kind KindAny _ = True"
| "has_kind KindString (JStr _) = True"
| "has_kind KindHex (JStr s) = hex_decodes s"
| "has_kind KindInt (JInt _) = True"
| "has_kind KindBool (JBool _) = True"
| "has_kind KindStringArray (JArr vs) = list_all (\<lambda>v. v = JNull \<or> (\<exists>s. v = JStr s)) vs"
| "has_kind KindObject (JObj _) = True"
| "has_kind _ _ = False"

text \<open>A value at nesting depth \<open>k\<close>: keys are unique in every object, numbers are in the range of the
  positive and negated \<open>int64\<close> maximum, and no value lies deeper than \<open>MaxJSONDepth\<close>.\<close>

fun json_ok :: "nat \<Rightarrow> json \<Rightarrow> bool" where
  "json_ok k (JInt i) \<longleftrightarrow> k \<le> MaxJSONDepth \<and> \<bar>i\<bar> \<le> 2 ^ 63 - 1"
| "json_ok k (JArr vs) \<longleftrightarrow> k \<le> MaxJSONDepth \<and> (\<forall>v \<in> set vs. json_ok (Suc k) v)"
| "json_ok k (JObj kvs) \<longleftrightarrow> k \<le> MaxJSONDepth \<and> distinct (map fst kvs) \<and> (\<forall>kv \<in> set kvs. json_ok (Suc k) (snd kv))"
| "json_ok k _ \<longleftrightarrow> k \<le> MaxJSONDepth"

definition member_ok :: "schema \<Rightarrow> nat \<Rightarrow> string \<times> json \<Rightarrow> bool" where
  "member_ok schema depth kv \<longleftrightarrow> json_ok (Suc depth) (snd kv) \<and>
     (case schema of None \<Rightarrow> True
      | Some sc \<Rightarrow> (case map_of sc (fst kv) of None \<Rightarrow> False | Some kind \<Rightarrow> has_kind kind (snd kv)))"

definition members_ok :: "schema \<Rightarrow> nat \<Rightarrow> (string \<times> json) list \<Rightarrow> bool" where
  "members_ok schema depth out \<longleftrightarrow> distinct (map fst out) \<and> (\<forall>kv \<in> set out. member_ok schema depth kv)"

lemma json_ok_depth: "json_ok k v \<Longrightarrow> k \<le> MaxJSONDepth"
  by (cases v) auto

section \<open>Numbers\<close>

lemma digits_val_less: "list_all is_digit s \<Longrightarrow> digits_val s < 10 ^ length s"
proof (induction s rule: rev_induct)
  case (snoc c s)
  have "digit_val c \<le> 9" using snoc.prems by (auto simp: is_digit_def digit_val_def)
  thus ?case using snoc by (simp add: digits_val_snoc)
qed (simp add: digits_val_def)

lemma digits_val_Cons: "digits_val (c # s) = digit_val c * 10 ^ length s + digits_val s"
proof (induction s rule: rev_induct)
  case (snoc x s)
  have "digits_val (c # s @ [x]) = digits_val (c # s) * 10 + digit_val x"
    using digits_val_snoc [of "c # s" x] by simp
  thus ?case using snoc by (simp add: digits_val_snoc algebra_simps)
qed (simp add: digits_val_def)

lemma str_le_digits:
  "list_all is_digit s \<Longrightarrow> list_all is_digit t \<Longrightarrow> length s = length t \<Longrightarrow> str_le s t \<Longrightarrow> digits_val s \<le> digits_val t"
proof (induction s t rule: str_le.induct)
  case (3 c s e t)
  show ?case
  proof (cases "c = e")
    case True
    thus ?thesis using 3 by (simp add: digits_val_Cons)
  next
    case False
    hence "Suc (digit_val c) \<le> digit_val e"
      using "3.prems" by (auto simp: digit_val_def is_digit_def)
    hence "Suc (digit_val c) * 10 ^ length s \<le> digit_val e * 10 ^ length s" by (rule mult_le_mono1)
    moreover have "digits_val s < 10 ^ length s" using "3.prems"(1) digits_val_less by simp
    ultimately show ?thesis using "3.prems"(3) by (simp add: digits_val_Cons)
  qed
qed simp_all

lemma maxI64_val: "list_all is_digit maxI64" "digits_val maxI64 = 9223372036854775807" "length maxI64 = 19"
  by (simp_all add: maxI64_def is_digit_def digits_val_def digit_val_def)

lemma bounded_digits:
  assumes "list_all is_digit s" "length s < length maxI64 \<or> length s = length maxI64 \<and> str_le s maxI64"
  shows "digits_val s \<le> 9223372036854775807"
proof (cases "length s = length maxI64")
  case True
  thus ?thesis using assms str_le_digits [of s maxI64] maxI64_val by simp
next
  case False
  hence "length s \<le> 18" using assms(2) maxI64_val by simp
  hence "(10 :: nat) ^ length s \<le> 10 ^ 18" by (intro power_increasing) simp_all
  thus ?thesis using digits_val_less [OF assms(1)] by simp
qed

lemma bounded_number:
  assumes "IsBoundedJSONNumber n" "Atoi n = Some i"
  shows "\<bar>i\<bar> \<le> 9223372036854775807"
proof (cases "n \<noteq> [] \<and> hd n = CHR ''-''")
  case True
  hence "list_all is_digit (tl n)" "i = - int (digits_val (tl n))"
    using assms(2) by (auto simp: Atoi_def Let_def split: if_splits)
  moreover have "digits_val (tl n) \<le> 9223372036854775807"
    using assms(1) True calculation(1)
    by (intro bounded_digits) (auto simp: IsBoundedJSONNumber_def Let_def split: if_splits)
  ultimately show ?thesis by simp
next
  case False
  hence "0 \<le> i" "i \<le> 2 ^ 63 - 1" using assms(2) by (auto simp: Atoi_def Let_def split: if_splits)
  thus ?thesis by simp
qed

lemma walkScalar_ok: "walkScalar kind tok = Inr v \<Longrightarrow> k \<le> MaxJSONDepth \<Longrightarrow> has_kind kind v \<and> json_ok k v"
  by (cases tok; cases kind)
    (auto simp: walkScalar_def checkScalarKind_def intro: bounded_number split: option.splits if_splits)

lemma walkScalar_fuel: "walkScalar kind tok \<noteq> Inl OutOfFuel"
  by (cases tok) (auto simp: walkScalar_def checkScalarKind_def split: option.splits)

section \<open>The walkers return, and return well-formed values\<close>

definition good :: "nat \<Rightarrow> ('a \<Rightarrow> bool) \<Rightarrow> json_error + 'a \<times> Decoder \<Rightarrow> bool" where
  "good L Q r \<longleftrightarrow> (case r of Inl e \<Rightarrow> e \<noteq> OutOfFuel | Inr (v, d) \<Rightarrow> Q v \<and> length (unread d) \<le> L)"

lemma good_simps [simp]: "good L Q (Inl e) \<longleftrightarrow> e \<noteq> OutOfFuel" "good L Q (Inr (v, d)) \<longleftrightarrow> Q v \<and> length (unread d) \<le> L"
  by (simp_all add: good_def)

lemma good_ebind:
  "good L Q r \<Longrightarrow> (\<And>v d. Q v \<Longrightarrow> length (unread d) \<le> L \<Longrightarrow> good L' Q' (f (v, d))) \<Longrightarrow> good L' Q' (ebind r f)"
  by (cases r) auto

lemma good_scalar:
  "depth \<le> MaxJSONDepth \<Longrightarrow> length (unread d) \<le> L \<Longrightarrow>
   good L (\<lambda>v. has_kind kind v \<and> json_ok depth v) (ebind (walkScalar kind tok) (\<lambda>v. Inr (v, d)))"
  using walkScalar_ok walkScalar_fuel by (cases "walkScalar kind tok") auto

definition items_ok :: "FieldKind \<Rightarrow> nat \<Rightarrow> json list \<Rightarrow> bool" where
  "items_ok kind depth arr \<longleftrightarrow> (\<forall>v \<in> set arr. has_kind kind v \<and> json_ok depth v)"

abbreviation rem :: "Decoder \<Rightarrow> nat" where "rem d \<equiv> length (unread d)"

definition fuel_spec :: "nat \<Rightarrow> bool" where
  "fuel_spec n \<longleftrightarrow>
     (\<forall>schema depth d. 3 * rem d + 2 \<le> n \<longrightarrow>
        good (rem d) (\<lambda>out. depth \<le> MaxJSONDepth \<and> members_ok schema depth out) (walkObject n schema depth d)) \<and>
     (\<forall>schema depth out d. 3 * rem d + 1 \<le> n \<longrightarrow> members_ok schema depth out \<longrightarrow>
        good (rem d) (members_ok schema depth) (objectLoop n schema depth out d)) \<and>
     (\<forall>kind depth d. 3 * rem d + 1 \<le> n \<longrightarrow>
        good (rem d) (\<lambda>v. has_kind kind v \<and> json_ok depth v) (walkValue n kind depth d)) \<and>
     (\<forall>tok kind depth d. 3 * rem d + 3 \<le> n \<longrightarrow>
        good (rem d) (\<lambda>v. has_kind kind v \<and> json_ok depth v) (walkTokenValue n tok kind depth d)) \<and>
     (\<forall>kind depth arr d. 3 * rem d + 1 \<le> n \<longrightarrow> items_ok kind depth arr \<longrightarrow>
        good (rem d) (items_ok kind depth) (arrayLoop n kind depth arr d))"

lemma fuel_specD:
  assumes "fuel_spec n"
  shows "3 * rem d + 2 \<le> n \<Longrightarrow>
        good (rem d) (\<lambda>out. depth \<le> MaxJSONDepth \<and> members_ok schema depth out) (walkObject n schema depth d)"
    and "3 * rem d + 1 \<le> n \<Longrightarrow> members_ok schema depth out \<Longrightarrow>
        good (rem d) (members_ok schema depth) (objectLoop n schema depth out d)"
    and "3 * rem d + 1 \<le> n \<Longrightarrow>
        good (rem d) (\<lambda>v. has_kind kind v \<and> json_ok depth v) (walkValue n kind depth d)"
    and "3 * rem d + 3 \<le> n \<Longrightarrow>
        good (rem d) (\<lambda>v. has_kind kind v \<and> json_ok depth v) (walkTokenValue n tok kind depth d)"
    and "3 * rem d + 1 \<le> n \<Longrightarrow> items_ok kind depth arr \<Longrightarrow>
        good (rem d) (items_ok kind depth) (arrayLoop n kind depth arr d)"
  using assms unfolding fuel_spec_def by blast+

lemma good_mono: "good L Q r \<Longrightarrow> L \<le> L' \<Longrightarrow> (\<And>v. Q v \<Longrightarrow> Q' v) \<Longrightarrow> good L' Q' r"
  by (cases r) (auto simp: good_def)

lemma members_ok_obj: "members_ok None depth obj \<Longrightarrow> depth \<le> MaxJSONDepth \<Longrightarrow> json_ok depth (JObj obj)"
  by (auto simp: members_ok_def member_ok_def)

lemma items_ok_arr:
  "items_ok kind (Suc depth) arr \<Longrightarrow> depth \<le> MaxJSONDepth \<Longrightarrow> json_ok depth (JArr arr)"
  by (auto simp: items_ok_def)

lemma has_kind_string: "has_kind KindString v \<longleftrightarrow> v = JNull \<or> (\<exists>s. v = JStr s)"
  by (cases v) auto

lemma has_kind_arr: "items_ok KindString depth arr \<Longrightarrow> has_kind KindStringArray (JArr arr)"
  by (auto simp: items_ok_def list_all_iff has_kind_string)

lemma has_kind_any: "has_kind KindAny v"
  by (cases v) auto

lemma nested_object:
  assumes ih: "fuel_spec n" and n: "3 * rem d + 2 \<le> n" and k: "kind = KindAny \<or> kind = KindObject"
  shows "good (rem d) (\<lambda>v. has_kind kind v \<and> json_ok depth v)
      (ebind (walkObject n None depth d) (\<lambda>(obj, d2). Inr (JObj obj, d2)))"
  using k n by (intro good_ebind [OF fuel_specD(1) [OF ih]])
    (auto simp del: json_ok.simps simp: has_kind_any intro: members_ok_obj)

lemma nested_array:
  assumes ih: "fuel_spec n" and n: "3 * rem d + 2 \<le> n" and depth: "depth \<le> MaxJSONDepth"
    and k: "kind = KindAny \<and> ek = KindAny \<or> kind = KindStringArray \<and> ek = KindString"
  shows "good (rem d) (\<lambda>v. has_kind kind v \<and> json_ok depth v)
      (ebind (arrayLoop n ek (depth + 1) [] d) (\<lambda>(arr, d2). Inr (JArr arr, d2)))"
proof (rule good_ebind)
  show "good (rem d) (items_ok ek (Suc depth)) (arrayLoop n ek (depth + 1) [] d)"
    using fuel_specD(5) [OF ih, of d ek "Suc depth" "[]"] n by (simp add: items_ok_def)
  show "good (rem d) (\<lambda>v. has_kind kind v \<and> json_ok depth v) ((\<lambda>(arr, d2). Inr (JArr arr, d2)) (arr, d2))"
    if "items_ok ek (Suc depth) arr" "rem d2 \<le> rem d" for arr d2
    using that k items_ok_arr [OF that(1) depth] has_kind_arr has_kind_any by auto
qed

lemma walkTokenValue_step:
  assumes ih: "fuel_spec n" and n: "3 * rem d + 2 \<le> n"
  shows "good (rem d) (\<lambda>v. has_kind kind v \<and> json_ok depth v) (walkTokenValue (Suc n) tok kind depth d)"
  using nested_object [OF assms] nested_array [OF assms] good_scalar by simp

lemma walkValue_step:
  assumes ih: "fuel_spec n" and n: "3 * rem d \<le> n"
  shows "good (rem d) (\<lambda>v. has_kind kind v \<and> json_ok depth v) (walkValue (Suc n) kind depth d)"
proof (cases "Token d")
  case (Tok tok d1)
  hence lt: "rem d1 < rem d" by (rule Token_shorter)
  hence n1: "3 * rem d1 + 2 \<le> n" using n by simp
  have mono: "good (rem d) Q r" if "good (rem d1) Q r" for Q :: "json \<Rightarrow> bool" and r
    using good_mono [OF that] lt by simp
  show ?thesis
    using Tok nested_object [OF ih n1] nested_array [OF ih n1] good_scalar [of depth d1 "rem d"] lt
    by (auto intro!: mono)
qed simp_all

lemma objectLoop_step:
  assumes ih: "fuel_spec n" and n: "3 * rem d \<le> n" and out: "members_ok schema depth out"
  shows "good (rem d) (members_ok schema depth) (objectLoop (Suc n) schema depth out d)"
proof (cases "Token d")
  case (Tok tok d1)
  hence lt: "rem d1 < rem d" by (rule Token_shorter)
  show ?thesis
  proof (cases tok)
    case (TString key)
    have member: "good (rem d) (members_ok schema depth)
        (ebind (walkValue n kind (depth + 1) d1) (\<lambda>(value, d2). objectLoop n schema depth (out @ [(key, value)]) d2))"
      if k: "key \<notin> fst ` set out" "field_kind schema key = Inr kind" for kind
    proof (rule good_ebind)
      show "good (rem d1) (\<lambda>v. has_kind kind v \<and> json_ok (depth + 1) v) (walkValue n kind (depth + 1) d1)"
        using n lt by (intro fuel_specD(3) [OF ih]) simp
      fix v d2 assume v: "has_kind kind v \<and> json_ok (depth + 1) v" and d2: "rem d2 \<le> rem d1"
      have "members_ok schema depth (out @ [(key, v)])"
        using out k v by (auto simp: members_ok_def member_ok_def field_kind_def split: option.splits)
      hence "good (rem d2) (members_ok schema depth) (objectLoop n schema depth (out @ [(key, v)]) d2)"
        using n lt d2 by (intro fuel_specD(2) [OF ih]) simp_all
      from good_mono [OF this] show "good (rem d) (members_ok schema depth)
          ((\<lambda>(value, d2). objectLoop n schema depth (out @ [(key, value)]) d2) (v, d2))"
        using d2 lt by simp
    qed
    show ?thesis
    proof (cases "field_kind schema key")
      case (Inl e)
      hence "e \<noteq> OutOfFuel" by (auto simp: field_kind_def split: option.splits)
      thus ?thesis using Tok TString Inl by simp
    next
      case (Inr kind)
      thus ?thesis using Tok TString member by simp
    qed
  qed (use Tok out lt in auto)
qed simp_all

lemma arrayLoop_step:
  assumes ih: "fuel_spec n" and n: "3 * rem d \<le> n" and arr: "items_ok kind depth arr"
  shows "good (rem d) (items_ok kind depth) (arrayLoop (Suc n) kind depth arr d)"
proof (cases "Token d")
  case (Tok tok d1)
  hence lt: "rem d1 < rem d" by (rule Token_shorter)
  have item: "good (rem d) (items_ok kind depth)
      (ebind (walkTokenValue n tok kind depth d1) (\<lambda>(item, d2). arrayLoop n kind depth (arr @ [item]) d2))"
  proof (rule good_ebind)
    show "good (rem d1) (\<lambda>v. has_kind kind v \<and> json_ok depth v) (walkTokenValue n tok kind depth d1)"
      using n lt by (intro fuel_specD(4) [OF ih]) simp
    fix v d2 assume v: "has_kind kind v \<and> json_ok depth v" and d2: "rem d2 \<le> rem d1"
    have "items_ok kind depth (arr @ [v])" using arr v by (auto simp: items_ok_def)
    hence "good (rem d2) (items_ok kind depth) (arrayLoop n kind depth (arr @ [v]) d2)"
      using n lt d2 by (intro fuel_specD(5) [OF ih]) simp_all
    from good_mono [OF this] show "good (rem d) (items_ok kind depth)
        ((\<lambda>(item, d2). arrayLoop n kind depth (arr @ [item]) d2) (v, d2))"
      using d2 lt by simp
  qed
  show ?thesis using Tok arr lt item by simp
qed simp_all

lemma walkObject_step:
  assumes ih: "fuel_spec n" and n: "3 * rem d + 1 \<le> n"
  shows "good (rem d) (\<lambda>out. depth \<le> MaxJSONDepth \<and> members_ok schema depth out) (walkObject (Suc n) schema depth d)"
  using fuel_specD(2) [OF ih n, of schema depth "[]"] by (auto simp: members_ok_def [of _ _ "[]"] elim: good_mono)

lemma fuel_spec: "fuel_spec n"
proof (induction n)
  case 0
  show ?case by (simp add: fuel_spec_def)
next
  case (Suc n)
  show ?case
    unfolding fuel_spec_def
    using walkObject_step [OF Suc] objectLoop_step [OF Suc] walkValue_step [OF Suc] walkTokenValue_step [OF Suc]
      arrayLoop_step [OF Suc]
    by (simp del: walkObject.simps objectLoop.simps walkValue.simps walkTokenValue.simps arrayLoop.simps)
qed

section \<open>Property\<close>

text \<open>
  C39. Structural decoding is total and type-safe: on every payload and schema it returns a decoded object
  or one of the code's errors (never running out of the model's fuel), and a decoded object has only keys
  of the schema, each once, with a value of the declared kind or null; in all nested objects keys are
  unique too, every number is an integer of magnitude at most \<open>2 ^ 63 - 1\<close>, no value is nested deeper
  than 16, and the payload had between 1 and 65536 bytes.
\<close>

theorem decodeStrict_typed:
  "case decodeStrict payload schema of
     Inl e \<Rightarrow> e \<noteq> OutOfFuel
   | Inr out \<Rightarrow> members_ok schema 0 out \<and> json_ok 0 (JObj out) \<and> payload \<noteq> [] \<and> length payload \<le> MaxJSONBytes"
proof (cases "Token (NewDecoder payload)")
  case (Tok tok d)
  hence "rem d < length payload" using Token_shorter [OF Tok] by (simp add: NewDecoder_def)
  hence g: "good (rem d) (\<lambda>out. 0 \<le> MaxJSONDepth \<and> members_ok schema 0 out) (walkObject (walk_fuel payload) schema 0 d)"
    by (intro fuel_specD(1) [OF fuel_spec]) (simp add: walk_fuel_def)
  have ok: "json_ok 0 (JObj out)" if "members_ok schema 0 out" for out
    using that by (auto simp: members_ok_def member_ok_def)
  show ?thesis
    using g ok Tok by (cases "walkObject (walk_fuel payload) schema 0 d")
      (auto simp: decodeStrict_def ensure_def simp del: json_ok.simps)
qed (auto simp: decodeStrict_def ensure_def)

section \<open>An example\<close>

definition demo_payload :: string where
  "demo_payload = [lbrace, quote, CHR ''a'', quote, colon, lbracket, CHR ''7'', rbracket, rbrace]"

lemma demo_fuel: "\<exists>n. walk_fuel demo_payload = Suc (Suc (Suc (Suc (Suc (Suc (Suc (Suc n)))))))"
  by (rule exI [of _ 21]) (simp add: walk_fuel_def demo_payload_def)

lemma demo_decodes: "decodeStrict demo_payload (Some [(''a'', KindAny)]) = Inr [(''a'', JArr [JInt 7])]"
proof -
  obtain n where f: "walk_fuel demo_payload = Suc (Suc (Suc (Suc (Suc (Suc (Suc (Suc n)))))))"
    using demo_fuel by blast
  have l: "length demo_payload = 9" by (simp add: demo_payload_def)
  show ?thesis
    unfolding decodeStrict_def f l
    by (simp add: demo_payload_def NewDecoder_def Token_Cons Token_Nil isSpace_def tokenValueAllowed_def
        push_state_def pop_state_def scan_scalar_def unquote_Cons unquote_Nil utf8_len_def field_kind_def
        tokenValueEnd_def scan_number_def scan_int_def digits_def scan_fraction_def scan_exponent_def is_digit_def
        walkScalar_def IsBoundedJSONNumber_def maxI64_def Atoi_def digits_val_def digit_val_def)
qed

end
