(* ===== verification/Session_Handshake.thy ===== *)
theory Session_Handshake
  imports Enrollment Control_Envelope
begin

text \<open>
  The session half of \<^verbatim>\<open>src/internal/security/challenge.go\<close>: the three signed messages of the control
  session handshake (hello, welcome, final) and the deterministic message identifier.

  Each message is a list of length-prefixed fields followed by an Ed25519 signature over the session
  domain and those fields. Unlike the enrollment encoder, \<open>sessionEncode\<close> does not refuse an oversized
  field: it truncates the length to 32 bits, and the model keeps that.

  The three parsers have one shape, so what they accept is proved once: the interface \<open>signed_message\<close>
  lists what a message type must provide (its fields, how they are read back, its width checks and its
  semantic check), \<open>parse_signed\<close> is the shape, and the three interpretations give \<open>Parse*_iff\<close>.
\<close>

abbreviation SessionDomain :: string where "SessionDomain \<equiv> ''AntiNAT-Session-v1''"
abbreviation SessionNonceSize :: nat where "SessionNonceSize \<equiv> 32"
abbreviation SessionIDMax :: nat where "SessionIDMax \<equiv> 255"
abbreviation SessionIDSize :: nat where "SessionIDSize \<equiv> 16"

definition SessionHelloMax :: nat where
  "SessionHelloMax = 7*4 + SessionIDSize + SessionIDSize + 4 + 32 + SessionNonceSize + 8 + 1 + 64"

definition SessionWelcomeMax :: nat where
  "SessionWelcomeMax =
     8*4 + SessionIDSize + SessionIDMax + SessionIDSize + SessionNonceSize + SessionNonceSize + 8 +
     SessionIDMax + 8 + 64"

definition SessionFinalMax :: nat where
  "SessionFinalMax = 5*4 + SessionIDSize + SessionIDSize + SessionNonceSize + 8 + SessionIDMax + 64"

datatype session_error =
    SessTooLarge | SessShorterThanSignature | SessEmptyFields | SessTruncatedPrefix
  | SessFieldLength | SessTrailing | SessMalformed | SessZeroCredential | SessEmptyID | SessSignature

section \<open>The encoding\<close>

definition sessionEncode :: "bytes list \<Rightarrow> bytes" where
  "sessionEncode fs = concat (map (\<lambda>f. put_u32 (of_nat (length f)) @ f) fs)"

definition sessionU32 :: "u32 \<Rightarrow> bytes" where "sessionU32 v = put_u32 v"

definition sessionU64 :: "u64 \<Rightarrow> bytes" where "sessionU64 v = put_u64 v"

definition sessionSign :: "crypto \<Rightarrow> bytes \<Rightarrow> string \<Rightarrow> bytes \<Rightarrow> fc_error + bytes" where
  "sessionSign k priv domain fs = Sign k priv (str_bytes domain @ fs)"

definition sessionVerify :: "crypto \<Rightarrow> bytes \<Rightarrow> string \<Rightarrow> bytes \<Rightarrow> bytes \<Rightarrow> bool" where
  "sessionVerify k pub domain fs sig = Verify k pub (str_bytes domain @ fs) sig"

definition splitFields :: "bytes \<Rightarrow> session_error + bytes \<times> bytes" where
  "splitFields raw =
     ensure (64 \<le> length raw) SessShorterThanSignature (
     let sig = drop (length raw - 64) raw; fs = take (length raw - 64) raw
     in ensure (fs \<noteq> []) SessEmptyFields (Inr (fs, sig)))"

definition readFields :: "nat \<Rightarrow> bytes \<Rightarrow> session_error + bytes list" where
  "readFields count b =
     ebind (take_fields SessTruncatedPrefix SessFieldLength count b) (\<lambda>(parts, rest).
       ensure (rest = []) SessTrailing (Inr parts))"

section \<open>The three messages\<close>

record SessionHello =
  sh_ControllerInstanceID :: bytes
  sh_NodeID :: bytes
  sh_AgentCredentialVer :: u32
  sh_AgentPublicKey :: bytes
  sh_AgentNonce :: bytes
  sh_AgentMaxEpoch :: u64
  sh_ProtocolVersions :: string

definition TrimRightNUL :: "string \<Rightarrow> string" where
  "TrimRightNUL s = rev (dropWhile (\<lambda>c. c = char_of (0 :: nat)) (rev s))"

definition NodeIDString :: "SessionHello \<Rightarrow> string" where
  "NodeIDString h = TrimRightNUL (bytes_str (sh_NodeID h))"

definition hello_fields :: "SessionHello \<Rightarrow> bytes list" where
  "hello_fields h =
     [sh_ControllerInstanceID h, sh_NodeID h, sessionU32 (sh_AgentCredentialVer h), sh_AgentPublicKey h,
      sh_AgentNonce h, sessionU64 (sh_AgentMaxEpoch h), str_bytes (sh_ProtocolVersions h)]"

definition hello_Canonical :: "SessionHello \<Rightarrow> bytes" where
  "hello_Canonical h = sessionEncode (hello_fields h)"

definition hello_Sign :: "crypto \<Rightarrow> SessionHello \<Rightarrow> bytes \<Rightarrow> fc_error + bytes" where
  "hello_Sign k h priv = sessionSign k priv SessionDomain (hello_Canonical h)"

definition hello_widths :: "bytes list \<Rightarrow> bool" where
  "hello_widths parts \<longleftrightarrow>
     \<not> (length (parts ! 0) \<noteq> 16 \<or> length (parts ! 1) \<noteq> 16 \<or> length (parts ! 2) \<noteq> 4 \<or>
        length (parts ! 3) \<noteq> 32 \<or> length (parts ! 4) \<noteq> SessionNonceSize \<or> length (parts ! 5) \<noteq> 8)"

definition hello_of_parts :: "bytes list \<Rightarrow> SessionHello" where
  "hello_of_parts parts =
     \<lparr> sh_ControllerInstanceID = parts ! 0, sh_NodeID = parts ! 1,
       sh_AgentCredentialVer = get_u32 (parts ! 2), sh_AgentPublicKey = parts ! 3,
       sh_AgentNonce = parts ! 4, sh_AgentMaxEpoch = get_u64 (parts ! 5),
       sh_ProtocolVersions = bytes_str (parts ! 6) \<rparr>"

definition ParseSessionHello :: "crypto \<Rightarrow> bytes \<Rightarrow> session_error + SessionHello" where
  "ParseSessionHello k raw =
     ensure (length raw \<le> SessionHelloMax) SessTooLarge (
     ebind (splitFields raw) (\<lambda>(fs, sig).
     ebind (readFields 7 fs) (\<lambda>parts.
     ensure (hello_widths parts) SessMalformed (
     let h = hello_of_parts parts in
     ensure (sh_AgentCredentialVer h \<noteq> 0) SessZeroCredential (
     ensure (sessionVerify k (sh_AgentPublicKey h) SessionDomain (hello_Canonical h) sig) SessSignature (
     Inr h))))))"

record SessionWelcome =
  sw_ControllerInstanceID :: bytes
  sw_ControllerKeyID :: string
  sw_NodeID :: bytes
  sw_AgentNonce :: bytes
  sw_ServerNonce :: bytes
  sw_ConnectionEpoch :: u64
  sw_SessionID :: string
  sw_ExpiryUnix :: u64

definition welcome_fields :: "SessionWelcome \<Rightarrow> bytes list" where
  "welcome_fields w =
     [sw_ControllerInstanceID w, str_bytes (sw_ControllerKeyID w), sw_NodeID w, sw_AgentNonce w,
      sw_ServerNonce w, sessionU64 (sw_ConnectionEpoch w), str_bytes (sw_SessionID w),
      sessionU64 (sw_ExpiryUnix w)]"

definition welcome_Canonical :: "SessionWelcome \<Rightarrow> bytes" where
  "welcome_Canonical w = sessionEncode (welcome_fields w)"

definition welcome_Sign :: "crypto \<Rightarrow> SessionWelcome \<Rightarrow> bytes \<Rightarrow> fc_error + bytes" where
  "welcome_Sign k w priv = sessionSign k priv SessionDomain (welcome_Canonical w)"

definition welcome_widths :: "bytes list \<Rightarrow> bool" where
  "welcome_widths parts \<longleftrightarrow>
     \<not> (length (parts ! 0) \<noteq> 16 \<or> length (parts ! 2) \<noteq> 16 \<or> length (parts ! 3) \<noteq> SessionNonceSize \<or>
        length (parts ! 4) \<noteq> SessionNonceSize \<or> length (parts ! 5) \<noteq> 8 \<or> length (parts ! 7) \<noteq> 8)"

definition welcome_of_parts :: "bytes list \<Rightarrow> SessionWelcome" where
  "welcome_of_parts parts =
     \<lparr> sw_ControllerInstanceID = parts ! 0, sw_ControllerKeyID = bytes_str (parts ! 1),
       sw_NodeID = parts ! 2, sw_AgentNonce = parts ! 3, sw_ServerNonce = parts ! 4,
       sw_ConnectionEpoch = get_u64 (parts ! 5), sw_SessionID = bytes_str (parts ! 6),
       sw_ExpiryUnix = get_u64 (parts ! 7) \<rparr>"

definition ParseSessionWelcome :: "crypto \<Rightarrow> bytes \<Rightarrow> bytes \<Rightarrow> session_error + SessionWelcome" where
  "ParseSessionWelcome k raw controllerPub =
     ensure (length raw \<le> SessionWelcomeMax) SessTooLarge (
     ebind (splitFields raw) (\<lambda>(fs, sig).
     ebind (readFields 8 fs) (\<lambda>parts.
     ensure (welcome_widths parts) SessMalformed (
     let w = welcome_of_parts parts in
     ensure (\<not> (sw_ControllerKeyID w = [] \<or> sw_SessionID w = [])) SessEmptyID (
     ensure (sessionVerify k controllerPub SessionDomain (welcome_Canonical w) sig) SessSignature (
     Inr w))))))"

record SessionFinal =
  sf_ControllerInstanceID :: bytes
  sf_NodeID :: bytes
  sf_ServerNonce :: bytes
  sf_ConnectionEpoch :: u64
  sf_SessionID :: string

definition final_fields :: "SessionFinal \<Rightarrow> bytes list" where
  "final_fields f =
     [sf_ControllerInstanceID f, sf_NodeID f, sf_ServerNonce f, sessionU64 (sf_ConnectionEpoch f),
      str_bytes (sf_SessionID f)]"

definition final_Canonical :: "SessionFinal \<Rightarrow> bytes" where
  "final_Canonical f = sessionEncode (final_fields f)"

definition final_Sign :: "crypto \<Rightarrow> SessionFinal \<Rightarrow> bytes \<Rightarrow> fc_error + bytes" where
  "final_Sign k f priv = sessionSign k priv SessionDomain (final_Canonical f)"

definition final_widths :: "bytes list \<Rightarrow> bool" where
  "final_widths parts \<longleftrightarrow>
     \<not> (length (parts ! 0) \<noteq> 16 \<or> length (parts ! 1) \<noteq> 16 \<or> length (parts ! 2) \<noteq> SessionNonceSize \<or>
        length (parts ! 3) \<noteq> 8)"

definition final_of_parts :: "bytes list \<Rightarrow> SessionFinal" where
  "final_of_parts parts =
     \<lparr> sf_ControllerInstanceID = parts ! 0, sf_NodeID = parts ! 1, sf_ServerNonce = parts ! 2,
       sf_ConnectionEpoch = get_u64 (parts ! 3), sf_SessionID = bytes_str (parts ! 4) \<rparr>"

definition ParseSessionFinal :: "crypto \<Rightarrow> bytes \<Rightarrow> bytes \<Rightarrow> session_error + SessionFinal" where
  "ParseSessionFinal k raw agentPub =
     ensure (length raw \<le> SessionFinalMax) SessTooLarge (
     ebind (splitFields raw) (\<lambda>(fs, sig).
     ebind (readFields 5 fs) (\<lambda>parts.
     ensure (final_widths parts) SessMalformed (
     let f = final_of_parts parts in
     ensure (\<not> (sf_SessionID f = [])) SessEmptyID (
     ensure (sessionVerify k agentPub SessionDomain (final_Canonical f) sig) SessSignature (
     Inr f))))))"

definition MessageID :: "crypto \<Rightarrow> string \<Rightarrow> string \<Rightarrow> bytes" where
  "MessageID k operationID messageType =
     take 16 (sha256 k (str_bytes (''antinat-msgid-v1'' @ [char_of (0 :: nat)] @ operationID @
       [char_of (0 :: nat)] @ messageType)))"

section \<open>The field codec\<close>

lemma sessionEncode_put_fields: "put_fields fs = Some b \<Longrightarrow> sessionEncode fs = b"
  by (induction fs arbitrary: b) (auto simp: sessionEncode_def put_field_Some_iff split: option.splits)

interpretation sess: field_codec put_fields readFields
proof unfold_locales
  fix fs b
  assume "put_fields fs = Some b"
  from take_fields_put_fields [OF this, of SessTruncatedPrefix SessFieldLength "[]"]
  show "readFields (length fs) b = Inr fs"
    by (simp add: readFields_def)
next
  fix n b fs
  assume "readFields n b = Inr fs"
  then have "take_fields SessTruncatedPrefix SessFieldLength n b = Inr (fs, [])"
    by (auto simp: readFields_def err_Inr_iff)
  from put_fields_take_fields [OF this] show "put_fields fs = Some b" "length fs = n"
    by auto
qed

lemma splitFields_iff: "splitFields raw = Inr (f, s) \<longleftrightarrow> raw = f @ s \<and> length s = 64 \<and> f \<noteq> []"
  by (auto simp: splitFields_def Let_def ensure_Inr_iff)

lemma sessionEncode_fits:
  "(\<forall>f \<in> set fs. length f < 4294967296) \<Longrightarrow> put_fields fs = Some (sessionEncode fs)"
  using put_fields_defined sessionEncode_put_fields by metis

section \<open>What a signed message parser accepts\<close>

definition parse_signed ::
  "nat \<Rightarrow> nat \<Rightarrow> (bytes list \<Rightarrow> bool) \<Rightarrow> (bytes list \<Rightarrow> 'm) \<Rightarrow> ('m \<Rightarrow> bool) \<Rightarrow> ('m \<Rightarrow> bytes list) \<Rightarrow>
     ('m \<Rightarrow> bytes) \<Rightarrow> session_error \<Rightarrow> crypto \<Rightarrow> bytes \<Rightarrow> session_error + 'm" where
  "parse_signed mx n widths of_parts sem fields_of pub e k raw =
     ensure (length raw \<le> mx) SessTooLarge (
     ebind (splitFields raw) (\<lambda>(fs, sig).
     ebind (readFields n fs) (\<lambda>parts.
     ensure (widths parts) SessMalformed (
     let m = of_parts parts in
     ensure (sem m) e (
     ensure (sessionVerify k (pub m) SessionDomain (sessionEncode (fields_of m)) sig) SessSignature (
     Inr m))))))"

definition session_signed :: "crypto \<Rightarrow> bytes \<Rightarrow> bytes list \<Rightarrow> bytes \<Rightarrow> bool" where
  "session_signed k pub fs raw \<longleftrightarrow>
     (\<exists>s. raw = sessionEncode fs @ s \<and> sessionVerify k pub SessionDomain (sessionEncode fs) s)"

lemma length_sessionEncode: "length (sessionEncode fs) = 4 * length fs + sum_list (map length fs)"
  by (induction fs) (simp_all add: sessionEncode_def)

lemma length_session_signed:
  "session_signed k pub fs raw \<Longrightarrow> length raw = 4 * length fs + sum_list (map length fs) + 64"
  by (auto simp: session_signed_def length_sessionEncode sessionVerify_def dest!: Verify_size)

lemma session_fields:
  "ebind (splitFields raw) (\<lambda>(f, s). ebind (readFields n f) (\<lambda>parts. g parts f s)) = Inr r \<longleftrightarrow>
     (\<exists>f s parts. raw = f @ s \<and> length s = 64 \<and> f \<noteq> [] \<and> length parts = n \<and>
        put_fields parts = Some f \<and> g parts f s = Inr r)"
  by (auto simp: ebind_Inr_iff splitFields_iff sess.dec_iff)

locale signed_message =
  fixes n :: nat and widths :: "bytes list \<Rightarrow> bool" and of_parts :: "bytes list \<Rightarrow> 'm"
    and fields_of :: "'m \<Rightarrow> bytes list" and typed :: "'m \<Rightarrow> bool"
  assumes fields_length: "length (fields_of m) = n"
    and some_field: "0 < n"
    and fields_widths: "widths (fields_of m) \<longleftrightarrow> typed m"
    and of_fields: "of_parts (fields_of m) = m"
    and fields_of_parts: "length p = n \<Longrightarrow> widths p \<Longrightarrow> fields_of (of_parts p) = p"
begin

lemma parse_accepts:
  assumes acc: "parse_signed mx n widths of_parts sem fields_of pub e k raw = Inr m"
  shows "length raw \<le> mx \<and> typed m \<and> sem m \<and> session_signed k (pub m) (fields_of m) raw"
proof -
  from acc obtain f s p where h: "length raw \<le> mx" "raw = f @ s" "length p = n" "put_fields p = Some f"
    "widths p" "sem (of_parts p)" "of_parts p = m"
    "sessionVerify k (pub (of_parts p)) SessionDomain (sessionEncode (fields_of (of_parts p))) s"
    unfolding parse_signed_def session_fields ensure_Inr_iff Let_def sum.inject
    by - (elim exE conjE, rule that; assumption)
  moreover have "fields_of m = p" using fields_of_parts [OF h(3,5)] h(7) by simp
  moreover have "sessionEncode p = f" using h by (simp add: sessionEncode_put_fields)
  ultimately show ?thesis
    using fields_widths [of m] by (auto simp: session_signed_def)
qed

lemma accepts_parse:
  assumes "length raw \<le> mx" "mx < 4294967296" "typed m" "sem m" "session_signed k (pub m) (fields_of m) raw"
  shows "parse_signed mx n widths of_parts sem fields_of pub e k raw = Inr m"
proof -
  let ?f = "sessionEncode (fields_of m)"
  from assms(5) obtain s where s: "raw = ?f @ s" "sessionVerify k (pub m) SessionDomain ?f s"
    by (auto simp: session_signed_def)
  then have len: "length s = 64" by (simp add: sessionVerify_def Verify_size)
  have "length x \<le> sum_list (map length (fields_of m))" if "x \<in> set (fields_of m)" for x
    using that by (simp add: member_le_sum_list)
  moreover have "sum_list (map length (fields_of m)) < 4294967296"
    using assms(1,2) s length_sessionEncode [of "fields_of m"] by simp
  ultimately have enc: "put_fields (fields_of m) = Some ?f"
    by (intro sessionEncode_fits) fastforce
  have "?f \<noteq> []"
    using length_sessionEncode [of "fields_of m"] some_field fields_length [of m] by auto
  moreover have "readFields n ?f = Inr (fields_of m)"
    using enc fields_length by (simp add: sess.dec_iff)
  moreover have "splitFields raw = Inr (?f, s)"
    using s len \<open>?f \<noteq> []\<close> by (simp add: splitFields_iff)
  ultimately show ?thesis
    using assms s by (simp add: parse_signed_def fields_widths of_fields)
qed

lemma parse_iff:
  "mx < 4294967296 \<Longrightarrow> parse_signed mx n widths of_parts sem fields_of pub e k raw = Inr m \<longleftrightarrow>
     length raw \<le> mx \<and> typed m \<and> sem m \<and> session_signed k (pub m) (fields_of m) raw"
  by (rule iffI, erule parse_accepts, elim conjE, rule accepts_parse)

end

definition hello_typed :: "SessionHello \<Rightarrow> bool" where
  "hello_typed h \<longleftrightarrow> length (sh_ControllerInstanceID h) = 16 \<and> length (sh_NodeID h) = 16 \<and>
     length (sh_AgentPublicKey h) = 32 \<and> length (sh_AgentNonce h) = 32"

definition welcome_typed :: "SessionWelcome \<Rightarrow> bool" where
  "welcome_typed w \<longleftrightarrow> length (sw_ControllerInstanceID w) = 16 \<and> length (sw_NodeID w) = 16 \<and>
     length (sw_AgentNonce w) = 32 \<and> length (sw_ServerNonce w) = 32"

definition final_typed :: "SessionFinal \<Rightarrow> bool" where
  "final_typed f \<longleftrightarrow> length (sf_ControllerInstanceID f) = 16 \<and> length (sf_NodeID f) = 16 \<and>
     length (sf_ServerNonce f) = 32"

lemma list5: "length xs = 5 \<Longrightarrow> [xs ! 0, xs ! 1, xs ! 2, xs ! 3, xs ! 4] = xs"
  by (auto simp: numeral_eq_Suc length_Suc_conv)

lemma list8:
  "length xs = 8 \<Longrightarrow> [xs ! 0, xs ! 1, xs ! 2, xs ! 3, xs ! 4, xs ! 5, xs ! 6, xs ! 7] = xs"
  by (auto simp: numeral_eq_Suc length_Suc_conv)

lemmas hello_defs = hello_fields_def hello_widths_def hello_typed_def hello_of_parts_def sessionU32_def sessionU64_def
lemmas welcome_defs = welcome_fields_def welcome_widths_def welcome_typed_def welcome_of_parts_def sessionU64_def
lemmas final_defs = final_fields_def final_widths_def final_typed_def final_of_parts_def sessionU64_def

interpretation hel: signed_message 7 hello_widths hello_of_parts hello_fields hello_typed
proof unfold_locales
  fix p :: "bytes list"
  assume "length p = 7" "hello_widths p"
  then show "hello_fields (hello_of_parts p) = p"
    by - (rule trans [OF _ list7 [symmetric]], simp_all add: hello_defs)
qed (auto simp: hello_defs)

interpretation wel: signed_message 8 welcome_widths welcome_of_parts welcome_fields welcome_typed
proof unfold_locales
  fix p :: "bytes list"
  assume "length p = 8" "welcome_widths p"
  then show "welcome_fields (welcome_of_parts p) = p"
    by - (rule trans [OF _ list8], simp_all add: welcome_defs)
qed (auto simp: welcome_defs)

interpretation fin: signed_message 5 final_widths final_of_parts final_fields final_typed
proof unfold_locales
  fix p :: "bytes list"
  assume "length p = 5" "final_widths p"
  then show "final_fields (final_of_parts p) = p"
    by - (rule trans [OF _ list5], simp_all add: final_defs)
qed (auto simp: final_defs)

lemma ParseSessionHello_shape:
  "ParseSessionHello = parse_signed SessionHelloMax 7 hello_widths hello_of_parts
     (\<lambda>h. sh_AgentCredentialVer h \<noteq> 0) hello_fields sh_AgentPublicKey SessZeroCredential"
  by (intro ext) (simp add: ParseSessionHello_def parse_signed_def hello_Canonical_def)

lemma ParseSessionWelcome_shape:
  "ParseSessionWelcome k raw pub = parse_signed SessionWelcomeMax 8 welcome_widths welcome_of_parts
     (\<lambda>w. \<not> (sw_ControllerKeyID w = [] \<or> sw_SessionID w = [])) welcome_fields (\<lambda>_. pub) SessEmptyID k raw"
  by (simp add: ParseSessionWelcome_def parse_signed_def welcome_Canonical_def)

lemma ParseSessionFinal_shape:
  "ParseSessionFinal k raw pub = parse_signed SessionFinalMax 5 final_widths final_of_parts
     (\<lambda>f. \<not> (sf_SessionID f = [])) final_fields (\<lambda>_. pub) SessEmptyID k raw"
  by (simp add: ParseSessionFinal_def parse_signed_def final_Canonical_def)

section \<open>What the three parsers accept\<close>

definition hello_ok :: "SessionHello \<Rightarrow> bool" where
  "hello_ok h \<longleftrightarrow> hello_typed h \<and> sh_AgentCredentialVer h \<noteq> 0 \<and> length (sh_ProtocolVersions h) \<le> 1"

definition welcome_ok :: "SessionWelcome \<Rightarrow> bool" where
  "welcome_ok w \<longleftrightarrow> welcome_typed w \<and> sw_ControllerKeyID w \<noteq> [] \<and> sw_SessionID w \<noteq> [] \<and>
     length (sw_ControllerKeyID w) + length (sw_SessionID w) \<le> 510"

definition final_ok :: "SessionFinal \<Rightarrow> bool" where
  "final_ok f \<longleftrightarrow> final_typed f \<and> sf_SessionID f \<noteq> [] \<and> length (sf_SessionID f) \<le> 255"

lemma ParseSessionHello_iff:
  "ParseSessionHello k raw = Inr h \<longleftrightarrow>
     hello_ok h \<and> session_signed k (sh_AgentPublicKey h) (hello_fields h) raw"
proof -
  have "SessionHelloMax < 4294967296" by (simp add: SessionHelloMax_def)
  from hel.parse_iff [OF this] show ?thesis
    unfolding ParseSessionHello_shape
    by (auto simp: hello_ok_def hello_typed_def hello_fields_def sessionU32_def sessionU64_def SessionHelloMax_def
        dest: length_session_signed)
qed

lemma ParseSessionWelcome_iff:
  "ParseSessionWelcome k raw pub = Inr w \<longleftrightarrow> welcome_ok w \<and> session_signed k pub (welcome_fields w) raw"
proof -
  have "SessionWelcomeMax < 4294967296" by (simp add: SessionWelcomeMax_def)
  from wel.parse_iff [OF this] show ?thesis
    unfolding ParseSessionWelcome_shape
    by (auto simp: welcome_ok_def welcome_typed_def welcome_fields_def sessionU64_def SessionWelcomeMax_def
        dest: length_session_signed)
qed

lemma ParseSessionFinal_iff:
  "ParseSessionFinal k raw pub = Inr f \<longleftrightarrow> final_ok f \<and> session_signed k pub (final_fields f) raw"
proof -
  have "SessionFinalMax < 4294967296" by (simp add: SessionFinalMax_def)
  from fin.parse_iff [OF this] show ?thesis
    unfolding ParseSessionFinal_shape
    by (auto simp: final_ok_def final_typed_def final_fields_def sessionU64_def SessionFinalMax_def
        dest: length_session_signed)
qed

section \<open>Signed bytes identify the message\<close>

datatype session_message = MHello SessionHello | MWelcome SessionWelcome | MFinal SessionFinal

fun smsg_fields :: "session_message \<Rightarrow> bytes list" where
  "smsg_fields (MHello h) = hello_fields h"
| "smsg_fields (MWelcome w) = welcome_fields w"
| "smsg_fields (MFinal f) = final_fields f"

fun smsg_ok :: "session_message \<Rightarrow> bool" where
  "smsg_ok (MHello h) = hello_ok h"
| "smsg_ok (MWelcome w) = welcome_ok w"
| "smsg_ok (MFinal f) = final_ok f"

definition smsg_signing :: "session_message \<Rightarrow> bytes" where
  "smsg_signing m = str_bytes SessionDomain @ sessionEncode (smsg_fields m)"

lemma smsg_encodes: "smsg_ok m \<Longrightarrow> put_fields (smsg_fields m) = Some (sessionEncode (smsg_fields m))"
  by (rule sessionEncode_fits, cases m)
    (auto simp: hello_ok_def welcome_ok_def final_ok_def hello_defs welcome_defs final_defs)

lemma smsg_fields_inj: "smsg_fields m = smsg_fields m' \<Longrightarrow> m = m'"
  by (cases m; cases m') (auto simp: hello_defs welcome_defs final_defs)

lemma smsg_signing_inj:
  assumes "smsg_ok m" "smsg_ok m'" "smsg_signing m = smsg_signing m'"
  shows "m = m'"
proof -
  have "sessionEncode (smsg_fields m) = sessionEncode (smsg_fields m')"
    using assms(3) by (simp add: smsg_signing_def)
  with smsg_encodes assms(1,2) have "smsg_fields m = smsg_fields m'"
    using put_fields_inj by metis
  then show ?thesis by (rule smsg_fields_inj)
qed

text \<open>
  One Ed25519 key signs messages of several protocols: the controller key signs welcomes, enrollment
  challenges and results and control envelopes; the node key signs hellos, finals, enrollment requests and
  envelopes. \<open>session_input b\<close> says that \<open>b\<close> is an input of the session domain; no input of the other
  protocols is one.
\<close>

definition session_input :: "bytes \<Rightarrow> bool" where
  "session_input b \<longleftrightarrow> take 18 b = str_bytes SessionDomain"

lemma smsg_session_input: "session_input (smsg_signing m)"
  by (simp add: session_input_def smsg_signing_def)

lemma byte_of_char_inj: "byte_of_char a = byte_of_char b \<longleftrightarrow> a = b"
  by (metis char_byte_char)

lemma other_inputs:
  "\<not> session_input (enrollSignatureInput EnrollDomain f)"
  "\<not> session_input (EnvelopeSignatureInput (str_bytes ProtocolDomain) hdr digest)"
  by (auto simp: session_input_def enrollSignatureInput_def DomainSeparatedMessage_def
      EnvelopeSignatureInput_def str_bytes_def byte_of_char_inj)

lemma session_signed_seen:
  assumes "session_signed k pub (smsg_fields m) raw"
    and "\<forall>b s. b @ s = raw \<and> length s = 64 \<longrightarrow> (str_bytes SessionDomain @ b, s) \<in> seen"
    and "unforgeable k pub A seen"
  shows "smsg_signing m \<in> A"
proof -
  from assms(1) obtain s where s: "raw = sessionEncode (smsg_fields m) @ s"
    "Verify k pub (smsg_signing m) s"
    by (auto simp: session_signed_def sessionVerify_def smsg_signing_def)
  with assms(2) Verify_size [OF s(2)] have "(smsg_signing m, s) \<in> seen"
    by (simp add: smsg_signing_def)
  from Verify_unforgeable [OF assms(3) this s(2)] show ?thesis .
qed

lemma session_authentic_main:
  assumes "\<forall>m \<in> sent. smsg_ok m" "\<forall>b \<in> other. \<not> session_input b"
    and "unforgeable k pub (smsg_signing ` sent \<union> other) seen"
    and "\<forall>b s. b @ s = raw \<and> length s = 64 \<longrightarrow> (str_bytes SessionDomain @ b, s) \<in> seen"
    and "smsg_ok m" "session_signed k pub (smsg_fields m) raw"
  shows "m \<in> sent"
proof -
  from session_signed_seen [OF assms(6,4,3)] smsg_session_input [of m] assms(2)
  obtain m' where "m' \<in> sent" "smsg_signing m = smsg_signing m'"
    by auto
  with assms(1,5) smsg_signing_inj show ?thesis by blast
qed

lemma smsg_signed:
  assumes "crypto_ok k" "length seed = 32"
  shows "\<exists>sig. Sign k (new_key_from_seed k seed) (smsg_signing m) = Inr sig \<and>
    session_signed k (ed_public k seed) (smsg_fields m) (sessionEncode (smsg_fields m) @ sig)"
proof -
  obtain sig where s: "Sign k (new_key_from_seed k seed) (smsg_signing m) = Inr sig"
    using length_new_key [OF assms] by (simp add: Sign_def)
  from Sign_Verify [OF assms s] s show ?thesis
    by (auto simp: session_signed_def sessionVerify_def smsg_signing_def)
qed

section \<open>Properties\<close>

text \<open>
  C14. Session messages survive the wire, and only they are accepted: a well-formed hello, welcome or
  final that is encoded and signed is returned unchanged by its parser; and a parser accepts a byte
  string only if it is the one canonical encoding of a well-formed message followed by a valid signature of
  it. Well-formed means the widths of the Go types, a nonzero credential version, nonempty key and session ids
  and the joint size bounds, which allow a hello one byte of protocol versions.
\<close>

theorem session_roundtrip:
  assumes "crypto_ok k" "length seed = 32"
  shows "(\<forall>h. hello_ok h \<and> sh_AgentPublicKey h = ed_public k seed \<longrightarrow>
      (\<exists>sig. hello_Sign k h (new_key_from_seed k seed) = Inr sig \<and>
         ParseSessionHello k (hello_Canonical h @ sig) = Inr h)) \<and>
    (\<forall>w. welcome_ok w \<longrightarrow> (\<exists>sig. welcome_Sign k w (new_key_from_seed k seed) = Inr sig \<and>
         ParseSessionWelcome k (welcome_Canonical w @ sig) (ed_public k seed) = Inr w)) \<and>
    (\<forall>f. final_ok f \<longrightarrow> (\<exists>sig. final_Sign k f (new_key_from_seed k seed) = Inr sig \<and>
         ParseSessionFinal k (final_Canonical f @ sig) (ed_public k seed) = Inr f)) \<and>
    (\<forall>raw pub. (\<forall>h. ParseSessionHello k raw = Inr h \<longrightarrow> hello_ok h \<and>
         session_signed k (sh_AgentPublicKey h) (hello_fields h) raw) \<and>
       (\<forall>w. ParseSessionWelcome k raw pub = Inr w \<longrightarrow> welcome_ok w \<and>
         session_signed k pub (welcome_fields w) raw) \<and>
       (\<forall>f. ParseSessionFinal k raw pub = Inr f \<longrightarrow> final_ok f \<and>
         session_signed k pub (final_fields f) raw))"
proof -
  note s = smsg_signed [OF assms, unfolded smsg_signing_def]
  show ?thesis
    using s [of "MHello _"] s [of "MWelcome _"] s [of "MFinal _"]
    by (auto simp: ParseSessionHello_iff ParseSessionWelcome_iff ParseSessionFinal_iff hello_Sign_def
        welcome_Sign_def final_Sign_def sessionSign_def hello_Canonical_def welcome_Canonical_def
        final_Canonical_def)
qed

text \<open>
  C13. Session messages are authentic and cannot be confused: suppose that, of what is on the wire, a key
  verifies only what its owner signed, and that the owner signed well-formed session messages and any inputs of
  other protocols outside the session domain (as enrollment messages and control envelopes are). Then an
  accepted welcome was signed as that welcome and an accepted final as that final; a hello is bound to the key
  it carries. No enrollment message, envelope or session message of another kind can stand in for it.
\<close>

theorem session_authentic:
  assumes "\<forall>m \<in> sent. smsg_ok m"
    and "\<forall>b \<in> other. \<not> session_input b \<or> (\<exists>f. b = enrollSignatureInput EnrollDomain f) \<or>
        (\<exists>h d. b = EnvelopeSignatureInput (str_bytes ProtocolDomain) h d)"
    and "unforgeable k pub (smsg_signing ` sent \<union> other) seen"
    and "\<forall>b s. b @ s = raw \<and> length s = 64 \<longrightarrow> (str_bytes SessionDomain @ b, s) \<in> seen"
  shows "(ParseSessionWelcome k raw pub = Inr w \<longrightarrow> MWelcome w \<in> sent) \<and>
    (ParseSessionFinal k raw pub = Inr f \<longrightarrow> MFinal f \<in> sent) \<and>
    (ParseSessionHello k raw = Inr h \<and> sh_AgentPublicKey h = pub \<longrightarrow> MHello h \<in> sent)"
proof -
  have "\<forall>b \<in> other. \<not> session_input b" using assms(2) other_inputs by blast
  note main = session_authentic_main [OF assms(1) this assms(3,4)]
  from main [of "MWelcome w"] main [of "MFinal f"] main [of "MHello h"] show ?thesis
    by (auto simp: ParseSessionHello_iff ParseSessionWelcome_iff ParseSessionFinal_iff)
qed

section \<open>Witnesses\<close>

definition demo_welcome :: SessionWelcome where
  "demo_welcome = \<lparr> sw_ControllerInstanceID = replicate 16 1, sw_ControllerKeyID = ''k1'',
     sw_NodeID = replicate 16 2, sw_AgentNonce = replicate 32 3, sw_ServerNonce = replicate 32 4,
     sw_ConnectionEpoch = 7, sw_SessionID = ''s1'', sw_ExpiryUnix = 1700000000 \<rparr>"

lemma demo_welcome_ok: "smsg_ok (MWelcome demo_welcome)"
  by (simp add: demo_welcome_def welcome_ok_def welcome_typed_def)

theorem session_roundtrip_witness:
  "\<exists>sig. ParseSessionWelcome demo_crypto (welcome_Canonical demo_welcome @ sig)
     (ed_public demo_crypto demo_seed) = Inr demo_welcome"
  using session_roundtrip [OF demo_crypto_ok] demo_welcome_ok by auto

theorem session_authentic_witness:
  "\<exists>raw. ParseSessionWelcome demo_crypto raw (ed_public demo_crypto demo_seed) = Inr demo_welcome \<and>
     MWelcome demo_welcome \<in> {MWelcome demo_welcome}"
proof -
  let ?m = "MWelcome demo_welcome" and ?pub = "ed_public demo_crypto demo_seed"
  from smsg_signed [OF demo_crypto_ok, of ?m] obtain sig where
    sb: "session_signed demo_crypto ?pub (smsg_fields ?m) (sessionEncode (smsg_fields ?m) @ sig)"
    by blast
  let ?raw = "sessionEncode (smsg_fields ?m) @ sig"
  let ?seen = "{(smsg_signing ?m, sig)}"
  have len: "length sig = 64"
    using length_session_signed [OF sb] length_sessionEncode [of "smsg_fields ?m"] by simp
  have "unforgeable demo_crypto ?pub (smsg_signing ` {?m} \<union> {}) ?seen"
    by (simp add: unforgeable_def)
  moreover have "\<forall>b s. b @ s = ?raw \<and> length s = 64 \<longrightarrow> (str_bytes SessionDomain @ b, s) \<in> ?seen"
    using len by (auto simp: smsg_signing_def)
  moreover have "ParseSessionWelcome demo_crypto ?raw ?pub = Inr demo_welcome"
    using sb demo_welcome_ok by (simp add: ParseSessionWelcome_iff)
  ultimately show ?thesis
    using session_authentic [of "{?m}" "{}" demo_crypto ?pub ?seen ?raw demo_welcome undefined undefined]
      demo_welcome_ok by auto
qed

end
