(* ===== verification/Challenge_Manager.thy ===== *)
theory Challenge_Manager
  imports Enrollment "HOL-Library.AList"
begin

text \<open>
  The challenge half of \<^verbatim>\<open>src/internal/security/challenge.go\<close>: the controller's bounded, expiring cache of
  enrollment challenges.

  The Go map is an association list keyed by the challenge hash; times are nanoseconds. The wall clock, the
  random source and the signer are arguments: \<open>Issue\<close> reads the clock up to three times (once for the
  eviction, once for the expiry on the wire, once for the expiry of the cache entry) and gets each reading as
  an argument, so the properties do not assume that the clock stands still or is monotone.

  Operations run one at a time under the manager's mutex. A run is a step system whose state carries, beside
  the manager, the log of what was issued and consumed; its invariant explains every cache entry by the log.
\<close>

record challengeEntry =
  ce_nodeID :: string
  ce_instance :: bytes
  ce_expiry :: int
  ce_used :: bool

record ChallengeManager =
  cm_ttl :: int
  cm_max :: int
  cm_cache :: "(bytes \<times> challengeEntry) list"

datatype ch_error =
    ErrChallengeUnknown | ErrChallengeExpired | ErrChallengeReplayed | ErrChallengeCacheFull
  | NodeIDTooLong | RandFailure | SignFailure string | IssuePanic

definition NewChallengeManager :: "int \<Rightarrow> int \<Rightarrow> ChallengeManager" where
  "NewChallengeManager ttl mx = \<lparr> cm_ttl = ttl, cm_max = mx, cm_cache = [] \<rparr>"

definition nodeIDBytes :: "string \<Rightarrow> ch_error + bytes" where
  "nodeIDBytes nodeID =
     (if length nodeID > 16 then Inl NodeIDTooLong
      else Inr (str_bytes nodeID @ replicate (16 - length nodeID) 0))"

definition unix_seconds :: "int \<Rightarrow> int" where
  "unix_seconds t = t div 1000000000"

definition evict_expired :: "int \<Rightarrow> (bytes \<times> challengeEntry) list \<Rightarrow> (bytes \<times> challengeEntry) list" where
  "evict_expired now c = filter (\<lambda>(h, e). ce_expiry e > now) c"

definition new_challenge :: "bytes \<Rightarrow> string \<Rightarrow> bytes \<Rightarrow> bytes \<Rightarrow> int \<Rightarrow> EnrollChallenge" where
  "new_challenge instance keyID node nonce expiry =
     \<lparr> c_ControllerInstanceID = instance, c_ControllerKeyID = keyID, c_NodeID = node,
       c_ServerNonce = nonce, c_ProtocolVersions = EnrollVersion,
       c_ExpiryUnix = word_of_int (unix_seconds expiry) \<rparr>"

definition Issue ::
  "crypto \<Rightarrow> (bytes \<Rightarrow> string + bytes) \<Rightarrow> bytes option \<Rightarrow> int \<times> int \<times> int \<Rightarrow> bytes \<Rightarrow> string \<Rightarrow> string \<Rightarrow>
     ChallengeManager \<Rightarrow> ChallengeManager \<times> (ch_error + EnrollChallenge \<times> bytes)" where
  "Issue k signer rand clock instance keyID nodeID m =
     (case nodeIDBytes nodeID of Inl e \<Rightarrow> (m, Inl e) | Inr node \<Rightarrow>
      (let (now1, now2, now3) = clock;
           m1 = (if cm_max m > 0 then m\<lparr>cm_cache := evict_expired now1 (cm_cache m)\<rparr> else m)
       in if cm_max m > 0 \<and> int (length (cm_cache m1)) \<ge> cm_max m then (m1, Inl ErrChallengeCacheFull)
       else case rand of None \<Rightarrow> (m1, Inl RandFailure) | Some nonce \<Rightarrow>
      (let ch = new_challenge instance keyID node nonce (now2 + cm_ttl m)
       in case enrollEncode (challenge_fields ch) of None \<Rightarrow> (m1, Inl IssuePanic) | Some canonical \<Rightarrow>
      (let hash = sha256 k canonical;
           m2 = m1\<lparr>cm_cache := AList.update hash
                  \<lparr> ce_nodeID = nodeID, ce_instance = instance, ce_expiry = now3 + cm_ttl m,
                    ce_used = False \<rparr> (cm_cache m1)\<rparr>
       in case signer (enrollSignatureInput EnrollDomain canonical) of
            Inl e \<Rightarrow> (m2\<lparr>cm_cache := AList.delete hash (cm_cache m2)\<rparr>, Inl (SignFailure e))
          | Inr sig \<Rightarrow> (m2, Inr (ch, canonical @ sig))))))"

definition ValidateAndConsume ::
  "bytes \<Rightarrow> int \<Rightarrow> ChallengeManager \<Rightarrow> ChallengeManager \<times> (ch_error + string)" where
  "ValidateAndConsume hash now m =
     (case map_of (cm_cache m) hash of
        None \<Rightarrow> (m, Inl ErrChallengeUnknown)
      | Some e \<Rightarrow>
          if \<not> ce_expiry e > now
          then (m\<lparr>cm_cache := AList.delete hash (cm_cache m)\<rparr>, Inl ErrChallengeExpired)
          else if ce_used e then (m, Inl ErrChallengeReplayed)
          else (m\<lparr>cm_cache := AList.update hash (e\<lparr>ce_used := True\<rparr>) (cm_cache m)\<rparr>, Inr (ce_nodeID e)))"

definition Size :: "ChallengeManager \<Rightarrow> nat" where
  "Size m = length (cm_cache m)"

section \<open>Single operations\<close>

text \<open>\<open>shrinks m m'\<close>: the manager lost at most some entries.\<close>

definition shrinks :: "ChallengeManager \<Rightarrow> ChallengeManager \<Rightarrow> bool" where
  "shrinks m m' \<longleftrightarrow> cm_ttl m' = cm_ttl m \<and> cm_max m' = cm_max m \<and> distinct (map fst (cm_cache m')) \<and>
     map_of (cm_cache m') \<subseteq>\<^sub>m map_of (cm_cache m) \<and> length (cm_cache m') \<le> length (cm_cache m)"

abbreviation keys_distinct :: "ChallengeManager \<Rightarrow> bool" where
  "keys_distinct m \<equiv> distinct (map fst (cm_cache m))"

lemma shrinks_refl: "keys_distinct m \<Longrightarrow> shrinks m m"
  by (simp add: shrinks_def)

lemma shrinks_trans: "shrinks a b \<Longrightarrow> shrinks b c \<Longrightarrow> shrinks a c"
  by (auto simp: shrinks_def intro: map_le_trans)

lemma shrinks_evict: "keys_distinct m \<Longrightarrow> shrinks m (m\<lparr>cm_cache := evict_expired now (cm_cache m)\<rparr>)"
  by (auto simp: shrinks_def evict_expired_def distinct_map_filter map_le_def map_of_eq_Some_iff)

lemma shrinks_delete: "keys_distinct m \<Longrightarrow> shrinks m (m\<lparr>cm_cache := AList.delete h (cm_cache m)\<rparr>)"
  using length_delete_le [of h "cm_cache m"]
  by (simp add: shrinks_def distinct_delete map_le_def delete_conv')

lemma length_update_alist: "length (AList.update k v c) \<le> Suc (length c)"
  by (induction c) auto

lemma length_update_key: "map_of c k = Some e \<Longrightarrow> length (AList.update k v c) = length c"
  by (induction c) (auto split: if_splits)

lemma delete_update_same: "AList.delete h (AList.update h v c) = AList.delete h c"
  by (induction c) auto

definition after_eviction :: "int \<Rightarrow> ChallengeManager \<Rightarrow> ChallengeManager" where
  "after_eviction now m = (if cm_max m > 0 then m\<lparr>cm_cache := evict_expired now (cm_cache m)\<rparr> else m)"

lemma shrinks_after_eviction: "keys_distinct m \<Longrightarrow> shrinks m (after_eviction now m)"
  by (simp add: after_eviction_def shrinks_evict shrinks_refl)

definition fresh_entry :: "string \<Rightarrow> bytes \<Rightarrow> int \<Rightarrow> challengeEntry" where
  "fresh_entry nodeID inst expiry =
     \<lparr> ce_nodeID = nodeID, ce_instance = inst, ce_expiry = expiry, ce_used = False \<rparr>"

definition challenge_hash :: "crypto \<Rightarrow> EnrollChallenge \<Rightarrow> bytes option" where
  "challenge_hash k ch = map_option (sha256 k) (enrollEncode (challenge_fields ch))"

lemma Issue_Inr:
  assumes "Issue k signer rand (n1, n2, n3) inst keyID nodeID m = (m', Inr (ch, raw))"
  shows "\<exists>h. challenge_hash k ch = Some h \<and>
    (cm_max m > 0 \<longrightarrow> int (length (cm_cache (after_eviction n1 m))) < cm_max m) \<and>
    m' = (after_eviction n1 m)\<lparr>cm_cache :=
      AList.update h (fresh_entry nodeID inst (n3 + cm_ttl m)) (cm_cache (after_eviction n1 m))\<rparr>"
  using assms
  by (auto simp: Issue_def challenge_hash_def after_eviction_def fresh_entry_def Let_def
      split: sum.splits option.splits if_splits)

lemma Issue_Inl:
  assumes "Issue k signer rand (n1, n2, n3) inst keyID nodeID m = (m', Inl e)" "keys_distinct m"
  shows "shrinks m m'"
proof -
  let ?m1 = "after_eviction n1 m"
  from assms(1) have "m' = m \<or> m' = ?m1 \<or> (\<exists>h. m' = ?m1\<lparr>cm_cache := AList.delete h (cm_cache ?m1)\<rparr>)"
    by (auto simp: Issue_def after_eviction_def delete_update_same Let_def
        split: sum.splits option.splits if_splits)
  moreover have "shrinks m ?m1" by (rule shrinks_after_eviction [OF assms(2)])
  moreover have "shrinks ?m1 (?m1\<lparr>cm_cache := AList.delete h (cm_cache ?m1)\<rparr>)" for h
    using \<open>shrinks m ?m1\<close> by (intro shrinks_delete) (simp add: shrinks_def)
  ultimately show ?thesis
    using shrinks_refl [OF assms(2)] shrinks_trans by blast
qed

lemma ValidateAndConsume_Inl:
  "ValidateAndConsume h now m = (m', Inl e) \<Longrightarrow> keys_distinct m \<Longrightarrow> shrinks m m'"
  by (auto simp: ValidateAndConsume_def shrinks_refl shrinks_delete split: option.splits if_splits)

lemma ValidateAndConsume_Inr:
  "ValidateAndConsume h now m = (m', Inr n) \<longleftrightarrow>
     (\<exists>e. map_of (cm_cache m) h = Some e \<and> now < ce_expiry e \<and> \<not> ce_used e \<and> n = ce_nodeID e \<and>
        m' = m\<lparr>cm_cache := AList.update h (e\<lparr>ce_used := True\<rparr>) (cm_cache m)\<rparr>)"
  by (auto simp: ValidateAndConsume_def split: option.splits if_splits)

section \<open>Runs of the manager\<close>

datatype ch_event = Issued bytes string int | Consumed bytes string int | Refused

datatype ch_op =
    OIssue "bytes \<Rightarrow> string + bytes" "bytes option" "int \<times> int \<times> int" bytes string string
  | OConsume bytes int

fun ch_apply :: "crypto \<Rightarrow> ch_op \<Rightarrow> ChallengeManager \<Rightarrow> ChallengeManager \<times> ch_event" where
  "ch_apply k (OIssue signer rand clock inst keyID nodeID) m =
     (case Issue k signer rand clock inst keyID nodeID m of
        (m', Inl _) \<Rightarrow> (m', Refused)
      | (m', Inr (ch, raw)) \<Rightarrow>
          (m', case challenge_hash k ch of None \<Rightarrow> Refused
               | Some h \<Rightarrow> Issued h nodeID (snd (snd clock) + cm_ttl m)))"
| "ch_apply k (OConsume h now) m =
     (case ValidateAndConsume h now m of
        (m', Inl _) \<Rightarrow> (m', Refused)
      | (m', Inr n) \<Rightarrow> (m', Consumed h n now))"

inductive ch_step :: "crypto \<Rightarrow> ChallengeManager \<times> ch_event list \<Rightarrow> ChallengeManager \<times> ch_event list \<Rightarrow> bool"
  for k where
  "ch_apply k op m = (m', ev) \<Longrightarrow> ch_step k (m, log) (m', log @ [ev])"

fun consumes :: "bytes \<Rightarrow> ch_event \<Rightarrow> bool" where
  "consumes h (Consumed h' n t) = (h' = h)"
| "consumes h _ = False"

definition consumed_after :: "bytes \<Rightarrow> nat \<Rightarrow> ch_event list \<Rightarrow> bool" where
  "consumed_after h i log = list_ex (consumes h) (drop (Suc i) log)"

definition explained :: "ch_event list \<Rightarrow> bytes \<Rightarrow> challengeEntry \<Rightarrow> bool" where
  "explained log h e \<longleftrightarrow> (\<exists>i < length log. log ! i = Issued h (ce_nodeID e) (ce_expiry e) \<and>
     (consumed_after h i log \<longrightarrow> ce_used e))"

definition sound_log :: "ch_event list \<Rightarrow> bool" where
  "sound_log log \<longleftrightarrow> (\<forall>j < length log. \<forall>h n t. log ! j = Consumed h n t \<longrightarrow>
     (\<exists>i < j. \<exists>x. log ! i = Issued h n x \<and> t < x \<and> \<not> consumed_after h i (take j log)))"

definition ch_inv :: "int \<Rightarrow> ChallengeManager \<times> ch_event list \<Rightarrow> bool" where
  "ch_inv mx s \<longleftrightarrow> (case s of (m, log) \<Rightarrow> cm_max m = mx \<and> keys_distinct m \<and>
     (mx > 0 \<longrightarrow> int (length (cm_cache m)) \<le> mx) \<and>
     (\<forall>h e. map_of (cm_cache m) h = Some e \<longrightarrow> explained log h e) \<and> sound_log log)"

lemma consumed_after_snoc:
  "i < length log \<Longrightarrow> consumed_after h i (log @ [ev]) \<longleftrightarrow> consumed_after h i log \<or> consumes h ev"
  by (simp add: consumed_after_def)

lemma explained_snoc:
  "explained log h e \<Longrightarrow> \<not> consumes h ev \<Longrightarrow> explained (log @ [ev]) h e"
  unfolding explained_def
  by (elim exE conjE) (rule_tac x = i in exI, simp add: nth_append consumed_after_snoc)

lemma explained_used:
  "explained log h e \<Longrightarrow> explained (log @ [ev]) h (e\<lparr>ce_used := True\<rparr>)"
  unfolding explained_def
  by (elim exE conjE) (rule_tac x = i in exI, simp add: nth_append)

lemma explained_new: "explained (log @ [Issued h n x]) h (fresh_entry n inst x)"
  unfolding explained_def
  by (rule exI [of _ "length log"]) (auto simp: fresh_entry_def consumed_after_def)

lemma sound_log_snoc:
  assumes "sound_log log" "\<And>h n t. ev = Consumed h n t \<Longrightarrow>
    \<exists>i < length log. \<exists>x. log ! i = Issued h n x \<and> t < x \<and> \<not> consumed_after h i log"
  shows "sound_log (log @ [ev])"
  unfolding sound_log_def
proof (intro allI impI)
  fix j h n t
  assume j: "j < length (log @ [ev])" and c: "(log @ [ev]) ! j = Consumed h n t"
  show "\<exists>i < j. \<exists>x. (log @ [ev]) ! i = Issued h n x \<and> t < x \<and> \<not> consumed_after h i (take j (log @ [ev]))"
  proof (cases "j < length log")
    case True
    with c have "log ! j = Consumed h n t" by (simp add: nth_append)
    with True assms(1) obtain i x where "i < j" "log ! i = Issued h n x" "t < x"
      "\<not> consumed_after h i (take j log)"
      unfolding sound_log_def by blast
    with True show ?thesis
      by (intro exI [of _ i] exI [of _ x] conjI) (simp_all add: nth_append)
  next
    case False
    with j have len: "j = length log" by simp
    with c have "ev = Consumed h n t" by simp
    from assms(2) [OF this] obtain i x where "i < length log" "log ! i = Issued h n x" "t < x"
      "\<not> consumed_after h i log" by blast
    with len show ?thesis
      by (intro exI [of _ i] exI [of _ x] conjI) (simp_all add: nth_append)
  qed
qed

lemma ch_inv_shrink:
  assumes "ch_inv mx (m, log)" "shrinks m m'"
  shows "ch_inv mx (m', log @ [Refused])"
  using assms explained_snoc [of log _ _ Refused] sound_log_snoc [of log Refused]
  by (auto simp: ch_inv_def shrinks_def map_le_def dom_def)

lemma ch_inv_issue:
  assumes inv: "ch_inv mx (m, log)" and "shrinks m m1" and room: "mx > 0 \<longrightarrow> int (length (cm_cache m1)) < mx"
  shows "ch_inv mx (m1\<lparr>cm_cache := AList.update h (fresh_entry n inst x) (cm_cache m1)\<rparr>, log @ [Issued h n x])"
proof -
  let ?c = "AList.update h (fresh_entry n inst x) (cm_cache m1)"
  have ex: "explained (log @ [Issued h n x]) h' e" if "map_of ?c h' = Some e" for h' e
  proof (cases "h' = h")
    case True
    with that show ?thesis by (auto simp: update_conv' explained_new)
  next
    case False
    with that have "map_of (cm_cache m1) h' = Some e" by (simp add: update_conv')
    then have "map_of (cm_cache m) h' = Some e"
      using \<open>shrinks m m1\<close> by (auto simp: shrinks_def map_le_def dom_def)
    with inv show ?thesis by (intro explained_snoc) (auto simp: ch_inv_def)
  qed
  have "sound_log (log @ [Issued h n x])"
    using inv by (intro sound_log_snoc) (auto simp: ch_inv_def)
  moreover have "mx > 0 \<longrightarrow> int (length ?c) \<le> mx"
    using room length_update_alist [of h "fresh_entry n inst x" "cm_cache m1"] by auto
  ultimately show ?thesis
    using inv \<open>shrinks m m1\<close> ex by (simp add: ch_inv_def shrinks_def distinct_update)
qed

lemma ch_inv_consume:
  assumes inv: "ch_inv mx (m, log)" and e: "map_of (cm_cache m) h = Some e" "now < ce_expiry e" "\<not> ce_used e"
  shows "ch_inv mx (m\<lparr>cm_cache := AList.update h (e\<lparr>ce_used := True\<rparr>) (cm_cache m)\<rparr>,
    log @ [Consumed h (ce_nodeID e) now])"
proof -
  let ?c = "AList.update h (e\<lparr>ce_used := True\<rparr>) (cm_cache m)" and ?ev = "Consumed h (ce_nodeID e) now"
  have xe: "explained log h e" using inv e(1) by (simp add: ch_inv_def)
  have "explained (log @ [?ev]) h' e'" if "map_of ?c h' = Some e'" for h' e'
    using that inv explained_used [OF xe] explained_snoc [of log h' e' ?ev]
    by (cases "h' = h") (auto simp: update_conv' ch_inv_def)
  moreover have "length ?c = length (cm_cache m)"
    using e(1) by (rule length_update_key)
  moreover have "sound_log (log @ [?ev])"
    using inv xe e(2,3) by (intro sound_log_snoc) (auto simp: ch_inv_def explained_def)
  ultimately show ?thesis
    using inv by (simp add: ch_inv_def distinct_update)
qed

lemma ch_step_inv: "ch_step k s t \<Longrightarrow> ch_inv mx s \<Longrightarrow> ch_inv mx t"
proof (induction rule: ch_step.induct)
  case (1 op m m' ev log)
  then have inv: "ch_inv mx (m, log)" by blast
  then have dist: "keys_distinct m" and mx: "cm_max m = mx" by (simp_all add: ch_inv_def)
  note ref = ch_inv_shrink [OF inv]
  show ?case
  proof (cases op)
    case (OIssue signer rand clock inst keyID nodeID)
    obtain n1 n2 n3 where cl: "clock = (n1, n2, n3)" by (cases clock) auto
    obtain m0 r where r: "Issue k signer rand (n1, n2, n3) inst keyID nodeID m = (m0, r)" by fastforce
    show ?thesis
    proof (cases r)
      case (Inl e)
      with r 1 OIssue cl have "m' = m0" "ev = Refused" by auto
      with ref [OF Issue_Inl [OF _ dist]] r Inl show ?thesis by simp
    next
      case (Inr cr)
      obtain ch raw where "cr = (ch, raw)" by (cases cr)
      with Issue_Inr r Inr obtain h where h: "challenge_hash k ch = Some h"
        "cm_max m > 0 \<longrightarrow> int (length (cm_cache (after_eviction n1 m))) < cm_max m"
        "m0 = (after_eviction n1 m)\<lparr>cm_cache :=
          AList.update h (fresh_entry nodeID inst (n3 + cm_ttl m)) (cm_cache (after_eviction n1 m))\<rparr>"
        by blast
      with r Inr 1 OIssue cl \<open>cr = (ch, raw)\<close> have "m' = m0" "ev = Issued h nodeID (n3 + cm_ttl m)"
        by auto
      with ch_inv_issue [OF inv shrinks_after_eviction [OF dist]] h mx show ?thesis by simp
    qed
  next
    case (OConsume h now)
    obtain m0 r where r: "ValidateAndConsume h now m = (m0, r :: ch_error + string)" by fastforce
    show ?thesis
    proof (cases r)
      case (Inl e)
      with r 1 OConsume have "m' = m0" "ev = Refused" by auto
      with ref [OF ValidateAndConsume_Inl [OF _ dist]] r Inl show ?thesis by simp
    next
      case (Inr n)
      with r 1 OConsume have "m' = m0" "ev = Consumed h n now" by auto
      with r Inr ch_inv_consume [OF inv] show ?thesis by (auto simp: ValidateAndConsume_Inr)
    qed
  qed
qed

definition ch_init :: "int \<Rightarrow> int \<Rightarrow> ChallengeManager \<times> ch_event list \<Rightarrow> bool" where
  "ch_init ttl mx s \<longleftrightarrow> s = (NewChallengeManager ttl mx, [])"

interpretation chm: step_system "ch_init ttl mx" "ch_step k" "ch_inv mx" for ttl mx k
proof unfold_locales
  fix s t :: "ChallengeManager \<times> ch_event list"
  show "ch_init ttl mx s \<Longrightarrow> ch_inv mx s"
    by (simp add: ch_init_def ch_inv_def NewChallengeManager_def sound_log_def)
  show "ch_inv mx s \<Longrightarrow> ch_step k s t \<Longrightarrow> ch_inv mx t"
    by (rule ch_step_inv)
qed

lemma Issue_then_consume:
  assumes "Issue k signer rand (n1, n2, n3) inst keyID nodeID m = (m', Inr (ch, raw))"
    and "challenge_hash k ch = Some h"
  shows "snd (ValidateAndConsume h now m') =
    (if now < n3 + cm_ttl m then Inr nodeID else Inl ErrChallengeExpired)"
  using Issue_Inr [OF assms(1)] assms(2)
  by (auto simp: ValidateAndConsume_def fresh_entry_def update_conv')

section \<open>Properties\<close>

text \<open>
  C15. Enrollment challenges are single use: in any run of the manager, whatever the clock reads, every
  accepted challenge hash was issued earlier for exactly the node that is returned, was not expired when it was
  accepted, and was not accepted before since it was issued. The cache never holds more entries than its
  maximum, and right after a challenge is issued it is accepted if and only if it has not expired.
\<close>

theorem challenge_single_use:
  assumes "(ch_step k)\<^sup>*\<^sup>* (NewChallengeManager ttl mx, []) (m, log)"
  shows "(\<forall>j < length log. \<forall>h n t. log ! j = Consumed h n t \<longrightarrow>
      (\<exists>i < j. \<exists>x. log ! i = Issued h n x \<and> t < x \<and> \<not> consumed_after h i (take j log))) \<and>
    (mx > 0 \<longrightarrow> int (Size m) \<le> mx) \<and>
    (\<forall>signer rand n1 n2 n3 inst keyID nodeID m' ch raw h now.
       Issue k signer rand (n1, n2, n3) inst keyID nodeID m = (m', Inr (ch, raw)) \<and> challenge_hash k ch = Some h \<longrightarrow>
       snd (ValidateAndConsume h now m') = (if now < n3 + cm_ttl m then Inr nodeID else Inl ErrChallengeExpired))"
proof -
  have "ch_init ttl mx (NewChallengeManager ttl mx, [])" by (simp add: ch_init_def)
  from chm.inv_reachable [OF this assms] have "ch_inv mx (m, log)" .
  then have "sound_log log" and "mx > 0 \<longrightarrow> int (Size m) \<le> mx"
    by (simp_all add: ch_inv_def Size_def)
  moreover have "\<forall>signer rand n1 n2 n3 inst keyID nodeID m' ch raw h now.
       Issue k signer rand (n1, n2, n3) inst keyID nodeID m = (m', Inr (ch, raw)) \<and> challenge_hash k ch = Some h \<longrightarrow>
       snd (ValidateAndConsume h now m') = (if now < n3 + cm_ttl m then Inr nodeID else Inl ErrChallengeExpired)"
    by (intro allI impI, elim conjE) (rule Issue_then_consume)
  ultimately show ?thesis unfolding sound_log_def by blast
qed

section \<open>Witnesses\<close>

definition demo_issue :: ch_op where
  "demo_issue = OIssue (\<lambda>_. Inr (replicate 64 0)) (Some (replicate 32 5)) (0, 0, 0) (replicate 16 1) ''k1'' ''n1''"

lemma demo_issue_run:
  "\<exists>h m. ch_apply k demo_issue (NewChallengeManager 60 1) = (m, Issued h ''n1'' 60) \<and>
     ch_apply k (OConsume h 59) m = (m\<lparr>cm_cache := [(h, (fresh_entry ''n1'' (replicate 16 1) 60)\<lparr>ce_used := True\<rparr>)]\<rparr>,
       Consumed h ''n1'' 59)"
proof -
  let ?ch = "new_challenge (replicate 16 1) ''k1'' (str_bytes ''n1'' @ replicate 14 0) (replicate 32 5) 60"
  obtain b where b: "put_fields (challenge_fields ?ch) = Some b"
    using put_fields_defined [of "challenge_fields ?ch"]
    by (auto simp: challenge_fields_def new_challenge_def enrollU64_def)
  let ?h = "sha256 k b"
  let ?m = "\<lparr> cm_ttl = 60, cm_max = 1, cm_cache = [(?h, fresh_entry ''n1'' (replicate 16 1) 60)] \<rparr>"
  have "ch_apply k demo_issue (NewChallengeManager 60 1) = (?m, Issued ?h ''n1'' 60)"
    using b by (simp add: demo_issue_def Issue_def NewChallengeManager_def nodeIDBytes_def evict_expired_def
        enrollEncode_def challenge_hash_def fresh_entry_def)
  moreover have "ch_apply k (OConsume ?h 59) ?m =
      (?m\<lparr>cm_cache := [(?h, (fresh_entry ''n1'' (replicate 16 1) 60)\<lparr>ce_used := True\<rparr>)]\<rparr>, Consumed ?h ''n1'' 59)"
    by (simp add: ValidateAndConsume_def fresh_entry_def)
  ultimately show ?thesis by blast
qed

theorem challenge_single_use_witness:
  "\<exists>h m. (ch_step demo_crypto)\<^sup>*\<^sup>* (NewChallengeManager 60 1, []) (m, [Issued h ''n1'' 60, Consumed h ''n1'' 59]) \<and>
     Size m \<le> 1"
proof -
  obtain h m where hm: "ch_apply demo_crypto demo_issue (NewChallengeManager 60 1) = (m, Issued h ''n1'' 60)"
    "ch_apply demo_crypto (OConsume h 59) m =
      (m\<lparr>cm_cache := [(h, (fresh_entry ''n1'' (replicate 16 1) 60)\<lparr>ce_used := True\<rparr>)]\<rparr>, Consumed h ''n1'' 59)"
    using demo_issue_run [of demo_crypto] by blast
  from ch_step.intros [OF hm(1), of "[]"] ch_step.intros [OF hm(2), of "[Issued h ''n1'' 60]"]
  have run: "(ch_step demo_crypto)\<^sup>*\<^sup>* (NewChallengeManager 60 1, [])
    (m\<lparr>cm_cache := [(h, (fresh_entry ''n1'' (replicate 16 1) 60)\<lparr>ce_used := True\<rparr>)]\<rparr>,
     [Issued h ''n1'' 60, Consumed h ''n1'' 59])"
    by (simp add: converse_rtranclp_into_rtranclp)
  from challenge_single_use [OF run] run show ?thesis by auto
qed

end
