(* ===== verification/Local_Store.thy ===== *)
theory Local_Store
  imports Domain Probe_Frames "HOL-Library.Char_ord" "HOL-Library.List_Lexorder"
begin

text \<open>
  The agent's durable state, \<^verbatim>\<open>src/internal/agent/localstate\<close>: the bbolt buckets as one record
  (\<^verbatim>\<open>schema.go\<close>), the session fence (\<^verbatim>\<open>journal.go\<close>), the controller pins (\<^verbatim>\<open>pins.go\<close>) and the
  two deletion facts of a Forward, pending intent and final tombstone (\<^verbatim>\<open>forward_delete.go\<close>,
  \<^verbatim>\<open>tombstone.go\<close>).

  A bucket is an association list in the byte order of its keys, which is bbolt's iteration order; \<open>bput\<close>
  refuses the keys bbolt refuses. Values that the code stores as JSON are kept typed (the JSON round trip of a
  Go value with valid UTF-8 text is the identity); \<open>Corrupt\<close> stands for bytes that do not decode, so every
  decode error of the code is a branch. A write transaction is a function
  into \<open>ls_error + Store\<close>: an error leaves the store as it was, which is bbolt's rollback. \<open>nowUnix\<close> is an
  argument.
\<close>

datatype ls_error =
    ErrStaleSession | ErrMessageConflict | ErrIllegalPhase | ErrStaleWriter | ErrAlreadyReceipted
  | ErrOperationConflict | ErrOperationNotFound | ErrForwardDeleteConflict | ErrForwardDeleteNotCommitted
  | ErrTombstonedForward | ErrTombstoneNotGCReady | ErrDesiredRevisionConflict | ErrAppliedRevisionConflict
  | ErrPinDowngrade | DecodeRow | InvalidIntent | InvalidTombstone | InvalidPin | IdentityRequired
  | BoltKey | DesiredInvalid domain_error | NodeMismatch | MultipleDesired | OutcomeMismatch
  | AppliedInvalid domain_error | AppliedMismatch | ErrDecommissionConflict
  | ErrProbeConsumed | ErrProbeConflict | ErrProbeNotFound | ErrProbeAdmissionConflict
  | ProbeArmInvalid probe_error | SnapshotInvalid | SnapshotStates domain_error
  | MultipleIntents | MultipleCleanups

section \<open>Buckets\<close>

type_synonym 'v bucket = "(string \<times> 'v) list"

datatype 'a row = Row 'a | Corrupt

abbreviation bget :: "'v bucket \<Rightarrow> string \<Rightarrow> 'v option" where
  "bget b k \<equiv> map_of b k"

fun bins :: "string \<Rightarrow> 'v \<Rightarrow> 'v bucket \<Rightarrow> 'v bucket" where
  "bins k v [] = [(k, v)]"
| "bins k v ((k', v') # b) =
     (if k < k' then (k, v) # (k', v') # b
      else if k = k' then (k, v) # b
      else (k', v') # bins k v b)"

definition bput :: "string \<Rightarrow> 'v \<Rightarrow> 'v bucket \<Rightarrow> ls_error + 'v bucket" where
  "bput k v b = ensure (k \<noteq> [] \<and> length k \<le> 32768) BoltKey (Inr (bins k v b))"

definition bdel :: "string \<Rightarrow> 'v bucket \<Rightarrow> 'v bucket" where
  "bdel k b = filter (\<lambda>(k', v). k' \<noteq> k) b"

definition bucket_ok :: "'v bucket \<Rightarrow> bool" where
  "bucket_ok b \<longleftrightarrow> sorted_wrt (<) (map fst b)"

lemma bget_bins [simp]: "bucket_ok b \<Longrightarrow> bget (bins k v b) k' = (if k' = k then Some v else bget b k')"
proof (induction b)
  case (Cons p b)
  obtain k0 v0 where p: "p = (k0, v0)" by (cases p)
  from Cons.prems p have "bucket_ok b" by (simp add: bucket_ok_def)
  with Cons.IH p show ?case by auto
qed simp

lemma keys_bins: "fst ` set (bins k v b) = insert k (fst ` set b)"
  by (induction k v b rule: bins.induct) auto

lemma bucket_ok_bins [simp]: "bucket_ok b \<Longrightarrow> bucket_ok (bins k v b)"
proof (induction b)
  case (Cons p b)
  obtain k0 v0 where p: "p = (k0, v0)" by (cases p)
  have "\<forall>x \<in> fst ` set (bins k v b). k0 < x" if "k0 < k"
    using that Cons.prems p by (auto simp: keys_bins bucket_ok_def)
  with Cons p show ?case
    by (fastforce simp: bucket_ok_def not_less less_le)
qed (simp add: bucket_ok_def)

lemma bucket_ok_distinct: "bucket_ok b \<Longrightarrow> distinct (map fst b)"
  by (simp add: bucket_ok_def strict_sorted_iff)

lemma bget_bdel [simp]: "bget (bdel k b) k' = (if k' = k then None else bget b k')"
  by (induction b) (auto simp: bdel_def)

lemma bucket_ok_bdel [simp]: "bucket_ok b \<Longrightarrow> bucket_ok (bdel k b)"
  unfolding bdel_def bucket_ok_def by (induction b) auto

lemma bput_Inr_iff: "bput k v b = Inr b' \<longleftrightarrow> k \<noteq> [] \<and> length k \<le> 32768 \<and> b' = bins k v b"
  by (auto simp: bput_def ensure_Inr_iff)

section \<open>The store\<close>

record inboxEntry =
  ib_MessageType :: string
  ib_PayloadHash :: string
  ib_OperationID :: string

record ForwardDeletionLink =
  dl_ForwardID :: string
  dl_DeletionOperationID :: string
  dl_DesiredRevision :: u64

record operationJournal =
  oj_Kind :: string
  oj_MessageID :: string
  oj_Phase :: string
  oj_Reason :: string
  oj_Payload :: bytes
  oj_PayloadPresent :: bool
  oj_RecoveredDeletionPending :: bool
  oj_ForwardDeletions :: "ForwardDeletionLink list"

text \<open>The operation bucket holds journal rows and raw results under keys of one name space.\<close>

record DecommissionIntent =
  dc_OperationID :: string
  dc_NodeID :: string
  dc_Force :: bool
  dc_DeadlineUnix :: int
  dc_AllowedKeyHashes :: "string list"
  dc_CredentialVersions :: "u32 list"
  dc_CreatedAtUnix :: int

record AgentCleanupTombstone =
  ct_OperationID :: string
  ct_NodeID :: string
  ct_Force :: bool
  ct_AllowedKeyHashes :: "string list"
  ct_CredentialVersions :: "u32 list"
  ct_CreatedAtUnix :: int

record UninstallNotice =
  un_OperationID :: string
  un_Connectivity :: bool
  un_QueuedAtUnix :: int
  un_Status :: string

datatype ops_row = OpJournal operationJournal | OpRaw bytes | OpIntent DecommissionIntent
  | OpCleanup AgentCleanupTombstone | OpNotice UninstallNotice

record ActivationSnapshot =
  as_ForwardID :: string
  as_Activation :: string
  as_Generation :: u64
  as_States :: ActivationStates

record JournalRecord =
  jr_ID :: string
  jr_ForwardID :: string
  jr_OperationID :: string
  jr_Mechanism :: string
  jr_Ownership :: string
  jr_Protocol :: string
  jr_InternalIP :: string
  jr_InternalPort :: u16
  jr_ExternalIP :: string
  jr_ExternalPort :: u16
  jr_LeaseExpiryUnix :: int
  jr_Epoch :: u32
  jr_Identity :: string
  jr_State :: bytes
  jr_CreatedAtUnix :: int
  jr_UpdatedAtUnix :: int

record ArmedProbe =
  pb_Arm :: ProbeArm
  pb_ForwardID :: string
  pb_Digest :: bytes
  pb_Deadline :: int
  pb_ArmedAt :: "int option"
  pb_Consumed :: bool
  pb_Receipt :: bytes
  pb_ReceiptSent :: bool
  pb_ChallengeHash :: bytes
  pb_ACK :: bytes
  pb_ACKSent :: bool
  pb_ReceiptAcknowledged :: bool
  pb_ReceiptMessageID :: string
  pb_ReceiptDeadline :: "int option"

text \<open>The probe bucket holds operations under their 16-byte id and index rows under \<^verbatim>\<open>receipt/\<close>.\<close>

datatype probe_row = ProbeOp ArmedProbe | ProbeIndex bytes | ProbeCorrupt

record ForwardDeleteIntent =
  di_ForwardID :: string
  di_DeletionOperationID :: string
  di_DesiredRevision :: u64
  di_CreatedAtUnix :: int

record ForwardTombstone =
  ts_ForwardID :: string
  ts_DeletionOperationID :: string
  ts_DesiredRevision :: u64
  ts_CreatedAtUnix :: int

record appliedRecord =
  ar_State :: AppliedForwardState
  ar_ServingSpec :: "ForwardSpec option"

record ControllerPin =
  cp_InstanceID :: string
  cp_KeyID :: string
  cp_PublicKeyRaw :: bytes
  cp_Generation :: u64

record Store =
  ls_epochs :: "bytes bucket"
  ls_inbox :: "inboxEntry row bucket"
  ls_outbox :: "bytes bucket"
  ls_ops :: "ops_row bucket"
  ls_desired :: "DesiredState row bucket"
  ls_applied :: "appliedRecord row bucket"
  ls_tombstones :: "ForwardTombstone row bucket"
  ls_intents :: "ForwardDeleteIntent row bucket"
  ls_activation :: "ActivationSnapshot row bucket"
  ls_pins :: "ControllerPin row bucket"
  ls_mapping :: "JournalRecord row bucket"
  ls_hooks :: "bytes bucket"
  ls_keyring :: "bytes bucket"
  ls_probes :: "probe_row bucket"

definition store_ok :: "Store \<Rightarrow> bool" where
  "store_ok s \<longleftrightarrow> bucket_ok (ls_epochs s) \<and> bucket_ok (ls_inbox s) \<and> bucket_ok (ls_outbox s) \<and>
     bucket_ok (ls_ops s) \<and> bucket_ok (ls_desired s) \<and> bucket_ok (ls_applied s) \<and>
     bucket_ok (ls_tombstones s) \<and> bucket_ok (ls_intents s) \<and> bucket_ok (ls_activation s) \<and>
     bucket_ok (ls_pins s) \<and> bucket_ok (ls_mapping s) \<and> bucket_ok (ls_hooks s) \<and> bucket_ok (ls_keyring s) \<and>
     bucket_ok (ls_probes s)"

definition empty_store :: Store where
  "empty_store = \<lparr> ls_epochs = [], ls_inbox = [], ls_outbox = [], ls_ops = [], ls_desired = [],
     ls_applied = [], ls_tombstones = [], ls_intents = [], ls_activation = [], ls_pins = [],
     ls_mapping = [], ls_hooks = [], ls_keyring = [], ls_probes = [] \<rparr>"

section \<open>The session fence\<close>

definition encodeEpoch :: "u64 \<Rightarrow> bytes" where
  "encodeEpoch epoch = put_u64 epoch"

definition decodeEpoch :: "bytes option \<Rightarrow> u64" where
  "decodeEpoch value = (case value of None \<Rightarrow> 0 | Some v \<Rightarrow> if length v \<noteq> 8 then 0 else get_u64 v)"

abbreviation keyCurrentEpoch :: string where "keyCurrentEpoch \<equiv> ''current_epoch''"
abbreviation keyCurrentSession :: string where "keyCurrentSession \<equiv> ''current_session''"

definition string_of_value :: "bytes option \<Rightarrow> string" where
  "string_of_value v = (case v of None \<Rightarrow> [] | Some b \<Rightarrow> bytes_str b)"

definition CurrentSession :: "Store \<Rightarrow> u64 \<times> string" where
  "CurrentSession s =
     (decodeEpoch (bget (ls_epochs s) keyCurrentEpoch), string_of_value (bget (ls_epochs s) keyCurrentSession))"

definition AdvanceSession :: "u64 \<Rightarrow> string \<Rightarrow> Store \<Rightarrow> ls_error + Store" where
  "AdvanceSession epoch sessionID s =
     (let (currentEpoch, currentSession) = CurrentSession s in
      if epoch < currentEpoch \<or> epoch = currentEpoch \<and> currentSession \<noteq> [] \<and> currentSession \<noteq> sessionID
      then Inl ErrStaleSession
      else if epoch = currentEpoch \<and> currentSession = sessionID then Inr s
      else ebind (bput keyCurrentEpoch (encodeEpoch epoch) (ls_epochs s)) (\<lambda>b.
           ebind (bput keyCurrentSession (str_bytes sessionID) b) (\<lambda>b'. Inr (s\<lparr>ls_epochs := b'\<rparr>))))"

definition checkSession :: "Store \<Rightarrow> u64 \<Rightarrow> string \<Rightarrow> ls_error + unit" where
  "checkSession s epoch sessionID =
     (if decodeEpoch (bget (ls_epochs s) keyCurrentEpoch) \<noteq> epoch \<or>
         string_of_value (bget (ls_epochs s) keyCurrentSession) \<noteq> sessionID
      then Inl ErrStaleSession else Inr ())"

lemma checkSession_iff: "checkSession s e sid = Inr u \<longleftrightarrow> CurrentSession s = (e, sid)"
  by (auto simp: checkSession_def CurrentSession_def)

lemma AdvanceSession_Inr:
  assumes "AdvanceSession e sid s = Inr s'" "store_ok s"
  shows "CurrentSession s' = (e, sid) \<and> fst (CurrentSession s) \<le> e \<and> store_ok s' \<and>
    (fst (CurrentSession s) = e \<longrightarrow> snd (CurrentSession s) \<in> {[], sid}) \<and>
    s' = s\<lparr>ls_epochs := ls_epochs s'\<rparr>"
  using assms
  by (auto simp: AdvanceSession_def CurrentSession_def bput_Inr_iff ebind_Inr_iff store_ok_def decodeEpoch_def
      encodeEpoch_def string_of_value_def split: if_splits)

section \<open>Controller pins\<close>

definition SaveControllerPin :: "ControllerPin \<Rightarrow> Store \<Rightarrow> ls_error + Store" where
  "SaveControllerPin pin s =
     (if cp_InstanceID pin = [] \<or> cp_KeyID pin = [] \<or> length (cp_PublicKeyRaw pin) \<noteq> 32 then Inl InvalidPin
      else if cp_Generation pin = 0 then Inl InvalidPin
      else let put = ebind (bput (cp_InstanceID pin) (Row pin) (ls_pins s)) (\<lambda>b. Inr (s\<lparr>ls_pins := b\<rparr>))
      in case bget (ls_pins s) (cp_InstanceID pin) of
           None \<Rightarrow> put
         | Some Corrupt \<Rightarrow> Inl DecodeRow
         | Some (Row old) \<Rightarrow> if cp_Generation old > cp_Generation pin then Inl ErrPinDowngrade else put)"

definition get_pin :: "string \<Rightarrow> Store \<Rightarrow> ls_error + ControllerPin option" where
  "get_pin instanceID s =
     (case bget (ls_pins s) instanceID of
        None \<Rightarrow> Inr None | Some Corrupt \<Rightarrow> Inl DecodeRow | Some (Row pin) \<Rightarrow> Inr (Some pin))"

fun list_pins :: "ControllerPin row bucket \<Rightarrow> ls_error + ControllerPin list" where
  "list_pins [] = Inr []"
| "list_pins ((k, Corrupt) # b) = Inl DecodeRow"
| "list_pins ((k, Row p) # b) = ebind (list_pins b) (\<lambda>ps. Inr (p # ps))"

definition ListControllerPins :: "Store \<Rightarrow> ls_error + ControllerPin list" where
  "ListControllerPins s = list_pins (ls_pins s)"

section \<open>Delete intents and tombstones\<close>

definition validateForwardDeleteIntent :: "ForwardDeleteIntent \<Rightarrow> ls_error + unit" where
  "validateForwardDeleteIntent intent =
     (if di_ForwardID intent = [] then Inl InvalidIntent
      else if di_DeletionOperationID intent = [] then Inl InvalidIntent
      else if di_DesiredRevision intent = 0 then Inl InvalidIntent
      else if di_CreatedAtUnix intent = 0 then Inl InvalidIntent
      else Inr ())"

definition loadForwardDeleteIntentTx ::
  "ForwardDeleteIntent row bucket \<Rightarrow> string \<Rightarrow> ls_error + ForwardDeleteIntent option" where
  "loadForwardDeleteIntentTx bucket forwardID =
     (case bget bucket forwardID of
        None \<Rightarrow> Inr None
      | Some Corrupt \<Rightarrow> Inl DecodeRow
      | Some (Row intent) \<Rightarrow>
          ebind (validateForwardDeleteIntent intent) (\<lambda>_.
          ensure (di_ForwardID intent = forwardID) InvalidIntent (Inr (Some intent))))"

definition loadForwardTombstoneTx ::
  "ForwardTombstone row bucket \<Rightarrow> string \<Rightarrow> ls_error + ForwardTombstone option" where
  "loadForwardTombstoneTx bucket forwardID =
     (case bget bucket forwardID of
        None \<Rightarrow> Inr None
      | Some Corrupt \<Rightarrow> Inl DecodeRow
      | Some (Row t) \<Rightarrow>
          ensure (\<not> (ts_ForwardID t \<noteq> forwardID \<or> ts_DeletionOperationID t = [])) InvalidTombstone
            (Inr (Some t)))"

definition putForwardDeleteIntentTx :: "ForwardDeleteIntent \<Rightarrow> Store \<Rightarrow> ls_error + Store \<times> bool" where
  "putForwardDeleteIntentTx intent s =
     ebind (validateForwardDeleteIntent intent) (\<lambda>_.
     ebind (loadForwardDeleteIntentTx (ls_intents s) (di_ForwardID intent)) (\<lambda>found.
     case found of
       Some existing \<Rightarrow>
         if di_DeletionOperationID existing \<noteq> di_DeletionOperationID intent \<or>
            di_DesiredRevision existing \<noteq> di_DesiredRevision intent
         then Inl ErrForwardDeleteConflict else Inr (s, False)
     | None \<Rightarrow>
         (case bget (ls_tombstones s) (di_ForwardID intent) of
            Some Corrupt \<Rightarrow> Inl DecodeRow
          | Some (Row t) \<Rightarrow>
              if ts_DeletionOperationID t \<noteq> di_DeletionOperationID intent \<or>
                 ts_DesiredRevision t \<noteq> 0 \<and> ts_DesiredRevision t \<noteq> di_DesiredRevision intent
              then Inl ErrForwardDeleteConflict else Inr (s, False)
          | None \<Rightarrow>
              ebind (bput (di_ForwardID intent) (Row intent) (ls_intents s)) (\<lambda>b.
                Inr (s\<lparr>ls_intents := b\<rparr>, True)))))"

definition PutForwardDeleteIntent :: "int \<Rightarrow> ForwardDeleteIntent \<Rightarrow> Store \<Rightarrow> ls_error + Store \<times> bool" where
  "PutForwardDeleteIntent now intent s =
     putForwardDeleteIntentTx
       (if di_CreatedAtUnix intent = 0 then intent\<lparr>di_CreatedAtUnix := now\<rparr> else intent) s"

fun prepare_intents :: "int \<Rightarrow> string list \<Rightarrow> ForwardDeleteIntent list \<Rightarrow> ls_error + ForwardDeleteIntent list" where
  "prepare_intents now seen [] = Inr []"
| "prepare_intents now seen (intent # intents) =
     (let intent' = (if di_CreatedAtUnix intent = 0 then intent\<lparr>di_CreatedAtUnix := now\<rparr> else intent) in
      ebind (validateForwardDeleteIntent intent') (\<lambda>_.
      ensure (di_ForwardID intent' \<notin> set seen) ErrForwardDeleteConflict (
      ebind (prepare_intents now (di_ForwardID intent' # seen) intents) (\<lambda>rest. Inr (intent' # rest)))))"

fun put_intents :: "ForwardDeleteIntent list \<Rightarrow> Store \<Rightarrow> ls_error + Store" where
  "put_intents [] s = Inr s"
| "put_intents (intent # intents) s =
     ebind (putForwardDeleteIntentTx intent s) (\<lambda>(s', _). put_intents intents s')"

definition PutForwardDeleteIntents :: "int \<Rightarrow> ForwardDeleteIntent list \<Rightarrow> Store \<Rightarrow> ls_error + Store" where
  "PutForwardDeleteIntents now intents s =
     ebind (prepare_intents now [] intents) (\<lambda>prepared. put_intents prepared s)"

definition GetForwardDeleteIntent :: "string \<Rightarrow> Store \<Rightarrow> ls_error + ForwardDeleteIntent option" where
  "GetForwardDeleteIntent forwardID s =
     (if forwardID = [] then Inl IdentityRequired else loadForwardDeleteIntentTx (ls_intents s) forwardID)"

fun list_intents :: "ForwardDeleteIntent row bucket \<Rightarrow> ls_error + ForwardDeleteIntent list" where
  "list_intents [] = Inr []"
| "list_intents ((key, Corrupt) # b) = Inl DecodeRow"
| "list_intents ((key, Row intent) # b) =
     ebind (validateForwardDeleteIntent intent) (\<lambda>_.
     ensure (di_ForwardID intent = key) InvalidIntent (
     ebind (list_intents b) (\<lambda>rest. Inr (intent # rest))))"

definition ListForwardDeleteIntents :: "Store \<Rightarrow> ls_error + ForwardDeleteIntent list" where
  "ListForwardDeleteIntents s = list_intents (ls_intents s)"

definition CompleteForwardDeleteIntent :: "string \<Rightarrow> string \<Rightarrow> Store \<Rightarrow> ls_error + Store" where
  "CompleteForwardDeleteIntent forwardID deletionOperationID s =
     (if forwardID = [] \<or> deletionOperationID = [] then Inl IdentityRequired
      else ebind (loadForwardDeleteIntentTx (ls_intents s) forwardID) (\<lambda>found.
      case found of
        None \<Rightarrow> Inr s
      | Some intent \<Rightarrow>
          if di_DeletionOperationID intent \<noteq> deletionOperationID then Inl ErrForwardDeleteConflict
          else ebind (loadForwardTombstoneTx (ls_tombstones s) forwardID) (\<lambda>t.
          case t of
            None \<Rightarrow> Inl ErrForwardDeleteNotCommitted
          | Some ts \<Rightarrow>
              if ts_DeletionOperationID ts \<noteq> deletionOperationID then Inl ErrForwardDeleteNotCommitted
              else Inr (s\<lparr>ls_intents := bdel forwardID (ls_intents s)\<rparr>))))"

definition GetForwardTombstone :: "string \<Rightarrow> Store \<Rightarrow> ls_error + ForwardTombstone option" where
  "GetForwardTombstone forwardID s =
     (if forwardID = [] then Inl IdentityRequired else loadForwardTombstoneTx (ls_tombstones s) forwardID)"

definition TombstoneExists :: "string \<Rightarrow> Store \<Rightarrow> ls_error + bool" where
  "TombstoneExists forwardID s = ebind (GetForwardTombstone forwardID s) (\<lambda>t. Inr (t \<noteq> None))"

fun list_tombstones :: "ForwardTombstone row bucket \<Rightarrow> string list \<Rightarrow> ls_error + ForwardTombstone list" where
  "list_tombstones bucket [] = Inr []"
| "list_tombstones bucket (key # keys) =
     ebind (loadForwardTombstoneTx bucket key) (\<lambda>found.
     ebind (list_tombstones bucket keys) (\<lambda>rest.
     Inr (case found of None \<Rightarrow> rest | Some t \<Rightarrow> t # rest)))"

definition ListTombstones :: "Store \<Rightarrow> ls_error + ForwardTombstone list" where
  "ListTombstones s = list_tombstones (ls_tombstones s) (map fst (ls_tombstones s))"

definition keyOpJournal :: string where "keyOpJournal = ''op:''"
definition keyReceipt :: string where "keyReceipt = ''receipt:''"

definition opJournalKey :: "string \<Rightarrow> string" where
  "opJournalKey operationID = keyOpJournal @ operationID"

definition receiptKey :: "string \<Rightarrow> string" where
  "receiptKey operationID = keyReceipt @ operationID"

definition GCForwardTombstone :: "string \<Rightarrow> Store \<Rightarrow> ls_error + Store" where
  "GCForwardTombstone forwardID s =
     ebind (loadForwardTombstoneTx (ls_tombstones s) forwardID) (\<lambda>found.
     case found of
       None \<Rightarrow> Inr s
     | Some ts \<Rightarrow>
         ebind (loadForwardDeleteIntentTx (ls_intents s) forwardID) (\<lambda>pending.
         if pending \<noteq> None then Inl ErrTombstoneNotGCReady
         else if bget (ls_ops s) (receiptKey (ts_DeletionOperationID ts)) = None
         then Inl ErrTombstoneNotGCReady
         else Inr (s\<lparr>ls_tombstones := bdel forwardID (ls_tombstones s)\<rparr>)))"

definition loadForwardDeleteFenceTx ::
  "string \<Rightarrow> Store \<Rightarrow> ls_error + ForwardDeleteIntent option \<times> ForwardTombstone option" where
  "loadForwardDeleteFenceTx forwardID s =
     ebind (loadForwardDeleteIntentTx (ls_intents s) forwardID) (\<lambda>intent.
     ebind (loadForwardTombstoneTx (ls_tombstones s) forwardID) (\<lambda>t. Inr (intent, t)))"

definition ForwardDeleteFence ::
  "string \<Rightarrow> Store \<Rightarrow> ls_error + ForwardDeleteIntent option \<times> ForwardTombstone option" where
  "ForwardDeleteFence forwardID s =
     (if forwardID = [] then Inl IdentityRequired
      else ebind (loadForwardDeleteIntentTx (ls_intents s) forwardID) (\<lambda>intent.
           ebind (loadForwardTombstoneTx (ls_tombstones s) forwardID) (\<lambda>t. Inr (intent, t))))"

end
