(* ===== verification/Agent_Journal.thy ===== *)
theory Agent_Journal
  imports Local_Store Framecrypto
begin

text \<open>
  \<^verbatim>\<open>src/internal/agent/localstate/journal.go\<close>: the durable control inbox and outbox and the per-operation
  journal of the agent.

  Every write operation is one bbolt transaction, modelled as a function from the store to an error or the new
  store. Three things the code calls are arguments: \<open>k\<close>, the SHA-256 of the payload digest; \<open>decode\<close>, the
  typed JSON decoding of a desired-state payload (reflection in \<open>encoding/json\<close>); and \<open>nack\<close>, the JSON text of
  a negative result.

  The bucket of operation results holds several kinds of row under one name space: a result under the bare
  operation id, the journal under \<open>op:\<close> and the receipt tombstone under \<open>receipt:\<close> (the decommission rows of
  \<^verbatim>\<open>decommission.go\<close> and \<^verbatim>\<open>uninstall.go\<close> have prefixes of their own). The model keeps these
  keys; \<open>plain_id\<close> is the condition on operation ids (no reserved prefix) under which they cannot collide.
\<close>

abbreviation phasePending :: string where "phasePending \<equiv> ''PENDING''"
abbreviation phaseClaimed :: string where "phaseClaimed \<equiv> ''CLAIMED''"
abbreviation phaseSent :: string where "phaseSent \<equiv> ''SENT''"
abbreviation phaseSemanticACKed :: string where "phaseSemanticACKed \<equiv> ''SEMANTIC_ACKED''"
abbreviation phaseReceived :: string where "phaseReceived \<equiv> ''RECEIVED''"
abbreviation phaseIntentPersisted :: string where "phaseIntentPersisted \<equiv> ''INTENT_PERSISTED''"
abbreviation phaseApplying :: string where "phaseApplying \<equiv> ''APPLYING''"
abbreviation phaseApplied :: string where "phaseApplied \<equiv> ''APPLIED''"
abbreviation phaseNacked :: string where "phaseNacked \<equiv> ''NACKED''"

abbreviation recoveredReason :: string where
  "recoveredReason \<equiv> ''recovered APPLYING operation after restart''"

section \<open>Hexadecimal text\<close>

definition hex_digit :: "nat \<Rightarrow> char" where
  "hex_digit n = char_of (if n < 10 then 48 + n else 87 + n)"

definition hex_EncodeToString :: "bytes \<Rightarrow> string" where
  "hex_EncodeToString b = concat (map (\<lambda>x. [hex_digit (unat x div 16), hex_digit (unat x mod 16)]) b)"

section \<open>Journal rows\<close>

definition loadOperationJournal :: "Store \<Rightarrow> string \<Rightarrow> ls_error + operationJournal option" where
  "loadOperationJournal s operationID =
     (case bget (ls_ops s) (opJournalKey operationID) of
        None \<Rightarrow> Inr None
      | Some (OpJournal j) \<Rightarrow> Inr (Some j)
      | Some _ \<Rightarrow> Inl DecodeRow)"

definition putOperationJournal :: "string \<Rightarrow> operationJournal \<Rightarrow> Store \<Rightarrow> ls_error + Store" where
  "putOperationJournal operationID j s =
     ebind (bput (opJournalKey operationID) (OpJournal j) (ls_ops s)) (\<lambda>b. Inr (s\<lparr>ls_ops := b\<rparr>))"

definition OperationPhase :: "string \<Rightarrow> Store \<Rightarrow> ls_error + string option" where
  "OperationPhase operationID s =
     ebind (loadOperationJournal s operationID) (\<lambda>j. Inr (map_option oj_Phase j))"

text \<open>A transition of an operation: the session must be current and the journal row in the wanted phase.\<close>

definition with_phase ::
  "u64 \<Rightarrow> string \<Rightarrow> string \<Rightarrow> (operationJournal \<Rightarrow> bool) \<Rightarrow> (operationJournal \<Rightarrow> ls_error + Store) \<Rightarrow> Store \<Rightarrow>
     ls_error + Store" where
  "with_phase epoch sessionID operationID want f s =
     ebind (checkSession s epoch sessionID) (\<lambda>_.
     ebind (loadOperationJournal s operationID) (\<lambda>found.
     case found of
       None \<Rightarrow> Inl ErrIllegalPhase
     | Some j \<Rightarrow> if \<not> want j then Inl ErrIllegalPhase else f j))"

section \<open>Receiving a command\<close>

definition isDeletionCommandKind :: "string \<Rightarrow> bool" where
  "isDeletionCommandKind kind \<longleftrightarrow> kind = ''desired'' \<or> kind = ''forward_delete''"

definition classifyForwardDeletions ::
  "(bytes \<Rightarrow> DesiredState option) \<Rightarrow> string \<Rightarrow> bytes \<Rightarrow> ForwardDeletionLink list option" where
  "classifyForwardDeletions decode messageType payload =
     (if messageType \<noteq> ''desired'' \<and> messageType \<noteq> ''forward_delete'' then None
      else case decode payload of None \<Rightarrow> None
      | Some d \<Rightarrow>
          (case DesiredState_Validate d of Inl _ \<Rightarrow> None
           | Inr _ \<Rightarrow> Some (map (\<lambda>f. \<lparr> dl_ForwardID = f_ForwardID f, dl_DeletionOperationID = f_DeletionOperationID f,
                dl_DesiredRevision = f_DesiredRevision f \<rparr>)
                (filter (\<lambda>f. f_Presence f = PresenceAbsent) (d_Forwards d)))))"

definition intent_of_link :: "int \<Rightarrow> ForwardDeletionLink \<Rightarrow> ForwardDeleteIntent" where
  "intent_of_link now link =
     \<lparr> di_ForwardID = dl_ForwardID link, di_DeletionOperationID = dl_DeletionOperationID link,
       di_DesiredRevision = dl_DesiredRevision link, di_CreatedAtUnix = now \<rparr>"

fun put_fences :: "int \<Rightarrow> ForwardDeletionLink list \<Rightarrow> Store \<Rightarrow> ls_error + Store" where
  "put_fences now [] s = Inr s"
| "put_fences now (link # links) s =
     (case putForwardDeleteIntentTx (intent_of_link now link) s of
        Inl e \<Rightarrow> if e = ErrForwardDeleteConflict then put_fences now links s else Inl e
      | Inr (s', _) \<Rightarrow> put_fences now links s')"

record receiveCommandOutcome =
  ro_Duplicate :: bool
  ro_RecoveredDeletionPending :: bool

definition adopt_payload ::
  "bytes \<Rightarrow> ForwardDeletionLink list \<Rightarrow> operationJournal \<Rightarrow> operationJournal" where
  "adopt_payload payload links j =
     (if oj_PayloadPresent j then j
      else j\<lparr> oj_Payload := payload, oj_PayloadPresent := True, oj_ForwardDeletions := links,
             oj_RecoveredDeletionPending :=
               (oj_Phase j = phaseApplying \<or> oj_Phase j = phaseNacked \<and> oj_Reason j = recoveredReason) \<and>
               links \<noteq> [] \<rparr>)"

definition receive_duplicate ::
  "int \<Rightarrow> string \<Rightarrow> bytes \<Rightarrow> bool \<Rightarrow> ForwardDeletionLink list \<Rightarrow> operationJournal \<Rightarrow> Store \<Rightarrow>
     ls_error + Store \<times> receiveCommandOutcome" where
  "receive_duplicate now operationID payload payloadPresent links j s =
     (if \<not> payloadPresent
      then Inr (s, \<lparr> ro_Duplicate = True, ro_RecoveredDeletionPending = oj_RecoveredDeletionPending j \<rparr>)
      else if oj_PayloadPresent j \<and> oj_Payload j \<noteq> payload then Inl ErrOperationConflict
      else if oj_ForwardDeletions j \<noteq> [] \<and> oj_ForwardDeletions j \<noteq> links then Inl ErrOperationConflict
      else let j' = adopt_payload payload links j in
           ebind (put_fences now links s) (\<lambda>s1.
           ebind (putOperationJournal operationID j' s1) (\<lambda>s2.
           Inr (s2, \<lparr> ro_Duplicate = True, ro_RecoveredDeletionPending = oj_RecoveredDeletionPending j' \<rparr>))))"

definition receiveCommandTx ::
  "int \<Rightarrow> u64 \<Rightarrow> string \<Rightarrow> string \<Rightarrow> string \<Rightarrow> string \<Rightarrow> string \<Rightarrow> string \<Rightarrow> bytes \<Rightarrow> bool \<Rightarrow>
     ForwardDeletionLink list \<Rightarrow> Store \<Rightarrow> ls_error + Store \<times> receiveCommandOutcome" where
  "receiveCommandTx now epoch sessionID operationID messageID messageType payloadHash kind payload
     payloadPresent links s =
     ebind (checkSession s epoch sessionID) (\<lambda>_.
     if bget (ls_ops s) (receiptKey operationID) \<noteq> None then Inl ErrAlreadyReceipted
     else case bget (ls_inbox s) messageID of
       Some Corrupt \<Rightarrow> Inl DecodeRow
     | Some (Row entry) \<Rightarrow>
         if ib_MessageType entry \<noteq> messageType \<or> ib_PayloadHash entry \<noteq> payloadHash then Inl ErrMessageConflict
         else if ib_OperationID entry \<noteq> operationID then Inl ErrOperationConflict
         else ebind (loadOperationJournal s operationID) (\<lambda>found.
         case found of
           None \<Rightarrow> Inl ErrOperationConflict
         | Some j \<Rightarrow>
             if oj_Kind j \<noteq> kind \<or> oj_MessageID j \<noteq> messageID then Inl ErrOperationConflict
             else receive_duplicate now operationID payload payloadPresent links j s)
     | None \<Rightarrow>
         ebind (loadOperationJournal s operationID) (\<lambda>found.
         case found of
           Some j \<Rightarrow>
             if oj_Kind j \<noteq> kind \<or> oj_MessageID j \<noteq> messageID then Inl ErrOperationConflict
             else Inr (s, \<lparr> ro_Duplicate = True, ro_RecoveredDeletionPending = oj_RecoveredDeletionPending j \<rparr>)
         | None \<Rightarrow>
             ebind (bput messageID (Row \<lparr> ib_MessageType = messageType, ib_PayloadHash = payloadHash,
                      ib_OperationID = operationID \<rparr>) (ls_inbox s)) (\<lambda>ib.
             ebind (putOperationJournal operationID
                      \<lparr> oj_Kind = kind, oj_MessageID = messageID, oj_Phase = phaseReceived, oj_Reason = [],
                        oj_Payload = payload, oj_PayloadPresent = payloadPresent,
                        oj_RecoveredDeletionPending = False, oj_ForwardDeletions = links \<rparr>
                      (s\<lparr>ls_inbox := ib\<rparr>)) (\<lambda>s1.
             ebind (put_fences now links s1) (\<lambda>s2.
             Inr (s2, \<lparr> ro_Duplicate = False, ro_RecoveredDeletionPending = False \<rparr>))))))"

definition ReceiveCommand ::
  "int \<Rightarrow> u64 \<Rightarrow> string \<Rightarrow> string \<Rightarrow> string \<Rightarrow> string \<Rightarrow> string \<Rightarrow> string \<Rightarrow> Store \<Rightarrow>
     ls_error + Store \<times> bool" where
  "ReceiveCommand now epoch sessionID operationID messageID messageType payloadHash kind s =
     ebind (receiveCommandTx now epoch sessionID operationID messageID messageType payloadHash kind [] False [] s)
       (\<lambda>(s', r). Inr (s', ro_Duplicate r))"

definition ReceiveCommandWithPayloadStatus ::
  "crypto \<Rightarrow> (bytes \<Rightarrow> DesiredState option) \<Rightarrow> int \<Rightarrow> u64 \<Rightarrow> string \<Rightarrow> string \<Rightarrow> string \<Rightarrow> string \<Rightarrow> bytes \<Rightarrow>
     string \<Rightarrow> Store \<Rightarrow> ls_error + Store \<times> bool \<times> bool" where
  "ReceiveCommandWithPayloadStatus k decode now epoch sessionID operationID messageID messageType payload kind s =
     (let payloadHash = hex_EncodeToString (sha256 k payload);
          links = (case classifyForwardDeletions decode messageType payload of None \<Rightarrow> [] | Some ls \<Rightarrow> ls);
          payloadPresent = (messageType = ''desired'' \<or> messageType = ''forward_delete'');
          durablePayload = (if payloadPresent then payload else [])
      in ebind (receiveCommandTx now epoch sessionID operationID messageID messageType payloadHash kind
                  durablePayload payloadPresent links s)
           (\<lambda>(s', r). Inr (s', ro_Duplicate r, ro_RecoveredDeletionPending r)))"

definition ReceiveCommandWithPayload ::
  "crypto \<Rightarrow> (bytes \<Rightarrow> DesiredState option) \<Rightarrow> int \<Rightarrow> u64 \<Rightarrow> string \<Rightarrow> string \<Rightarrow> string \<Rightarrow> string \<Rightarrow> bytes \<Rightarrow>
     string \<Rightarrow> Store \<Rightarrow> ls_error + Store \<times> bool" where
  "ReceiveCommandWithPayload k decode now epoch sessionID operationID messageID messageType payload kind s =
     ebind (ReceiveCommandWithPayloadStatus k decode now epoch sessionID operationID messageID messageType payload kind s)
       (\<lambda>(s', duplicate, _). Inr (s', duplicate))"

section \<open>The operation machine\<close>

definition CompleteRecoveredDeletion :: "u64 \<Rightarrow> string \<Rightarrow> string \<Rightarrow> Store \<Rightarrow> ls_error + Store" where
  "CompleteRecoveredDeletion epoch sessionID operationID s =
     with_phase epoch sessionID operationID
       (\<lambda>j. (oj_Phase j = phaseApplying \<or> oj_Phase j = phaseNacked) \<and> oj_RecoveredDeletionPending j)
       (\<lambda>j. putOperationJournal operationID (j\<lparr>oj_RecoveredDeletionPending := False\<rparr>) s) s"

definition PersistOperationIntent :: "u64 \<Rightarrow> string \<Rightarrow> string \<Rightarrow> Store \<Rightarrow> ls_error + Store" where
  "PersistOperationIntent epoch sessionID operationID s =
     with_phase epoch sessionID operationID (\<lambda>j. oj_Phase j = phaseReceived)
       (\<lambda>j. putOperationJournal operationID (j\<lparr>oj_Phase := phaseIntentPersisted\<rparr>) s) s"

definition MarkOperationApplying :: "u64 \<Rightarrow> string \<Rightarrow> string \<Rightarrow> Store \<Rightarrow> ls_error + Store" where
  "MarkOperationApplying epoch sessionID operationID s =
     with_phase epoch sessionID operationID (\<lambda>j. oj_Phase j = phaseIntentPersisted)
       (\<lambda>j. let j1 = j\<lparr>oj_Phase := phaseApplying\<rparr>;
                j2 = (if oj_ForwardDeletions j \<noteq> [] then j1\<lparr>oj_RecoveredDeletionPending := True\<rparr> else j1)
            in putOperationJournal operationID j2 s) s"

definition splitOutboxValue :: "bytes option \<Rightarrow> string \<times> bytes" where
  "splitOutboxValue value =
     (case value of None \<Rightarrow> ([], [])
      | Some v \<Rightarrow> (bytes_str (takeWhile (\<lambda>b. b \<noteq> 0) v), drop 1 (dropWhile (\<lambda>b. b \<noteq> 0) v)))"

definition outbox_value :: "string \<Rightarrow> bytes \<Rightarrow> bytes" where
  "outbox_value phase payload = str_bytes phase @ [0] @ payload"

definition recordResultAndQueue :: "string \<Rightarrow> bytes \<Rightarrow> Store \<Rightarrow> ls_error + Store" where
  "recordResultAndQueue operationID result s =
     (if bget (ls_ops s) (receiptKey operationID) \<noteq> None then Inl ErrAlreadyReceipted
      else if bget (ls_outbox s) operationID \<noteq> None then Inr s
      else if bget (ls_ops s) operationID \<notin> {None, Some (OpRaw result)} then Inl ErrStaleWriter
      else ebind (bput operationID (OpRaw result) (ls_ops s)) (\<lambda>ops.
           ebind (bput operationID (outbox_value phasePending result) (ls_outbox s)) (\<lambda>ob.
           Inr (s\<lparr>ls_ops := ops, ls_outbox := ob\<rparr>))))"

fun recovering_ids :: "ops_row bucket \<Rightarrow> ls_error + string list" where
  "recovering_ids [] = Inr []"
| "recovering_ids ((key, row) # b) =
     (if take 3 key \<noteq> keyOpJournal then recovering_ids b
      else case row of
        OpJournal j \<Rightarrow>
          ebind (recovering_ids b) (\<lambda>ids.
            Inr (if oj_Phase j = phaseApplying \<and> (\<not> isDeletionCommandKind (oj_Kind j) \<or> oj_PayloadPresent j) \<and>
                    \<not> oj_RecoveredDeletionPending j
                 then drop 3 key # ids else ids))
      | _ \<Rightarrow> Inl DecodeRow)"

definition recover_one :: "(string \<Rightarrow> bool \<Rightarrow> bytes) \<Rightarrow> int \<Rightarrow> string \<Rightarrow> Store \<Rightarrow> ls_error + Store" where
  "recover_one nack now operationID s =
     ebind (loadOperationJournal s operationID) (\<lambda>found.
     case found of
       None \<Rightarrow> Inr s
     | Some j \<Rightarrow>
         if oj_Phase j \<noteq> phaseApplying then Inr s
         else ebind (put_fences now (oj_ForwardDeletions j) s) (\<lambda>s1.
              ebind (putOperationJournal operationID
                       (j\<lparr>oj_Phase := phaseNacked, oj_Reason := recoveredReason\<rparr>) s1) (\<lambda>s2.
              recordResultAndQueue operationID (nack recoveredReason True) s2)))"

fun recover_all :: "(string \<Rightarrow> bool \<Rightarrow> bytes) \<Rightarrow> int \<Rightarrow> string list \<Rightarrow> Store \<Rightarrow> ls_error + Store" where
  "recover_all nack now [] s = Inr s"
| "recover_all nack now (op # ops) s = ebind (recover_one nack now op s) (recover_all nack now ops)"

definition RecoverApplyingOperations ::
  "(string \<Rightarrow> bool \<Rightarrow> bytes) \<Rightarrow> int \<Rightarrow> u64 \<Rightarrow> string \<Rightarrow> Store \<Rightarrow> ls_error + Store" where
  "RecoverApplyingOperations nack now epoch sessionID s =
     ebind (checkSession s epoch sessionID) (\<lambda>_.
     ebind (recovering_ids (ls_ops s)) (\<lambda>ids. recover_all nack now ids s))"

definition CompleteOperation :: "u64 \<Rightarrow> string \<Rightarrow> string \<Rightarrow> bytes \<Rightarrow> Store \<Rightarrow> ls_error + Store" where
  "CompleteOperation epoch sessionID operationID result s =
     with_phase epoch sessionID operationID (\<lambda>j. oj_Phase j = phaseApplying)
       (\<lambda>j. ebind (putOperationJournal operationID (j\<lparr>oj_Phase := phaseApplied\<rparr>) s)
              (recordResultAndQueue operationID result)) s"

definition NackOperation :: "u64 \<Rightarrow> string \<Rightarrow> string \<Rightarrow> string \<Rightarrow> Store \<Rightarrow> ls_error + Store" where
  "NackOperation epoch sessionID operationID reason s =
     with_phase epoch sessionID operationID (\<lambda>j. oj_Phase j = phaseApplying)
       (\<lambda>j. putOperationJournal operationID (j\<lparr>oj_Phase := phaseNacked, oj_Reason := reason\<rparr>) s) s"

definition NackOperationWithResult ::
  "u64 \<Rightarrow> string \<Rightarrow> string \<Rightarrow> string \<Rightarrow> bytes \<Rightarrow> Store \<Rightarrow> ls_error + Store" where
  "NackOperationWithResult epoch sessionID operationID reason result s =
     with_phase epoch sessionID operationID (\<lambda>j. oj_Phase j = phaseApplying)
       (\<lambda>j. ebind (putOperationJournal operationID (j\<lparr>oj_Phase := phaseNacked, oj_Reason := reason\<rparr>) s)
              (recordResultAndQueue operationID result)) s"

definition QueueNackedResult ::
  "(string \<Rightarrow> bool \<Rightarrow> bytes) \<Rightarrow> u64 \<Rightarrow> string \<Rightarrow> string \<Rightarrow> Store \<Rightarrow> ls_error + Store" where
  "QueueNackedResult nack epoch sessionID operationID s =
     with_phase epoch sessionID operationID (\<lambda>j. oj_Phase j = phaseNacked)
       (\<lambda>j. recordResultAndQueue operationID (nack (oj_Reason j) False) s) s"

definition QueueResult :: "u64 \<Rightarrow> string \<Rightarrow> string \<Rightarrow> bytes \<Rightarrow> Store \<Rightarrow> ls_error + Store" where
  "QueueResult epoch sessionID operationID result s =
     ebind (checkSession s epoch sessionID) (\<lambda>_. recordResultAndQueue operationID result s)"

definition QueueResultSessionIndependent :: "string \<Rightarrow> bytes \<Rightarrow> Store \<Rightarrow> ls_error + Store" where
  "QueueResultSessionIndependent operationID result s =
     (if operationID = [] then Inl ErrOperationNotFound else recordResultAndQueue operationID result s)"

section \<open>The outbox machine\<close>

definition outbox_step :: "string \<Rightarrow> string \<Rightarrow> u64 \<Rightarrow> string \<Rightarrow> string \<Rightarrow> Store \<Rightarrow> ls_error + Store" where
  "outbox_step want next epoch sessionID operationID s =
     ebind (checkSession s epoch sessionID) (\<lambda>_.
     let (state, payload) = splitOutboxValue (bget (ls_outbox s) operationID) in
     if state \<noteq> want then Inl ErrIllegalPhase
     else ebind (bput operationID (outbox_value next payload) (ls_outbox s)) (\<lambda>ob. Inr (s\<lparr>ls_outbox := ob\<rparr>)))"

definition ClaimOutbox :: "u64 \<Rightarrow> string \<Rightarrow> string \<Rightarrow> Store \<Rightarrow> ls_error + Store" where
  "ClaimOutbox = outbox_step phasePending phaseClaimed"

definition MarkOutboxSent :: "u64 \<Rightarrow> string \<Rightarrow> string \<Rightarrow> Store \<Rightarrow> ls_error + Store" where
  "MarkOutboxSent = outbox_step phaseClaimed phaseSent"

definition AcceptSemanticACK :: "u64 \<Rightarrow> string \<Rightarrow> string \<Rightarrow> Store \<Rightarrow> ls_error + Store" where
  "AcceptSemanticACK = outbox_step phaseSent phaseSemanticACKed"

definition AcceptReceipt :: "u64 \<Rightarrow> string \<Rightarrow> string \<Rightarrow> Store \<Rightarrow> ls_error + Store" where
  "AcceptReceipt epoch sessionID operationID s =
     ebind (checkSession s epoch sessionID) (\<lambda>_.
     if bget (ls_ops s) (receiptKey operationID) \<noteq> None then Inl ErrAlreadyReceipted
     else let (state, payload) = splitOutboxValue (bget (ls_outbox s) operationID) in
     if state \<noteq> phaseSemanticACKed then Inl ErrIllegalPhase
     else ebind (loadOperationJournal s operationID) (\<lambda>found.
     let messageID = (case found of None \<Rightarrow> [] | Some j \<Rightarrow> oj_MessageID j) in
     ebind (bput (receiptKey operationID) (OpRaw payload) (ls_ops s)) (\<lambda>ops.
     Inr (s\<lparr>ls_ops := bdel (opJournalKey operationID) (bdel operationID ops),
            ls_outbox := bdel operationID (ls_outbox s),
            ls_inbox := (if messageID \<noteq> [] then bdel messageID (ls_inbox s) else ls_inbox s)\<rparr>))))"

definition requeue_value :: "bytes \<Rightarrow> bytes" where
  "requeue_value value =
     (let (state, payload) = splitOutboxValue (Some value) in
      if state = phasePending then value else outbox_value phasePending payload)"

definition RequeueOutboxForSession :: "u64 \<Rightarrow> string \<Rightarrow> Store \<Rightarrow> ls_error + Store \<times> nat" where
  "RequeueOutboxForSession epoch sessionID s =
     ebind (checkSession s epoch sessionID) (\<lambda>_.
     Inr (s\<lparr>ls_outbox := map (\<lambda>(op, v). (op, requeue_value v)) (ls_outbox s)\<rparr>,
          length (filter (\<lambda>(op, v). fst (splitOutboxValue (Some v)) \<noteq> phasePending) (ls_outbox s))))"

section \<open>Reading\<close>

definition OutboxState :: "string \<Rightarrow> Store \<Rightarrow> string option" where
  "OutboxState operationID s =
     map_option (\<lambda>v. fst (splitOutboxValue (Some v))) (bget (ls_outbox s) operationID)"

definition result_of :: "Store \<Rightarrow> string \<Rightarrow> ls_error + bytes" where
  "result_of s operationID =
     (if bget (ls_ops s) (receiptKey operationID) \<noteq> None then Inl ErrAlreadyReceipted
      else case bget (ls_ops s) operationID of
        None \<Rightarrow> Inl ErrOperationNotFound
      | Some (OpRaw r) \<Rightarrow> Inr r
      | Some _ \<Rightarrow> Inl DecodeRow)"

definition ResultForOperation :: "u64 \<Rightarrow> string \<Rightarrow> string \<Rightarrow> Store \<Rightarrow> ls_error + bytes" where
  "ResultForOperation epoch sessionID operationID s =
     ebind (checkSession s epoch sessionID) (\<lambda>_. result_of s operationID)"

definition ResultForOperationAnySession :: "string \<Rightarrow> Store \<Rightarrow> ls_error + bytes" where
  "ResultForOperationAnySession operationID s = result_of s operationID"

definition OutboxContains :: "string \<Rightarrow> Store \<Rightarrow> bool" where
  "OutboxContains operationID s \<longleftrightarrow> bget (ls_outbox s) operationID \<noteq> None"

definition ReceiptExists :: "string \<Rightarrow> Store \<Rightarrow> bool" where
  "ReceiptExists operationID s \<longleftrightarrow> bget (ls_ops s) (receiptKey operationID) \<noteq> None"

text \<open>\<^verbatim>\<open>outbox.go\<close>: one page of operation ids strictly after a key, in bucket order.\<close>

definition OutboxOperationIDsAfter :: "string \<Rightarrow> int \<Rightarrow> Store \<Rightarrow> string list" where
  "OutboxOperationIDsAfter after limit s =
     (let lim = (if limit \<le> 0 then 256 else nat limit);
          keys = map fst (ls_outbox s);
          rest = (if after = [] then keys else dropWhile (\<lambda>key. key \<le> after) keys)
      in take lim rest)"

definition OutboxOperationIDsLimit :: "int \<Rightarrow> Store \<Rightarrow> string list" where
  "OutboxOperationIDsLimit limit s = OutboxOperationIDsAfter [] limit s"

definition OutboxOperationIDs :: "Store \<Rightarrow> string list" where
  "OutboxOperationIDs s = OutboxOperationIDsLimit 256 s"

section \<open>One operation, abstractly\<close>

text \<open>
  What the store says about one operation id: the phase of its journal row, its recorded result, its outbox row
  and its receipt. The abstract machine \<open>ostep\<close> says how these four facts may change; the phases move by the
  tables of the protocol (\<^verbatim>\<open>src/internal/protocol/domain.go\<close>), a reconnect may put an outbox row back to
  \<open>PENDING\<close>, and only a receipt removes anything.
\<close>

record opview =
  v_phase :: "string option"
  v_result :: "bytes option"
  v_out :: "(string \<times> bytes) option"
  v_receipt :: "bytes option"

inductive ostep :: "opview \<Rightarrow> opview \<Rightarrow> bool" where
  receive: "v_phase v = None \<Longrightarrow> v_receipt v = None \<Longrightarrow> ostep v (v\<lparr>v_phase := Some phaseReceived\<rparr>)"
| advance: "v_phase v = Some p \<Longrightarrow> ValidateFSMTransition ''inbox'' p q = Inr () \<Longrightarrow> q \<noteq> phaseApplied \<Longrightarrow>
    ostep v (v\<lparr>v_phase := Some q\<rparr>)"
| record_result: "v_receipt v = None \<Longrightarrow> v_out v = None \<Longrightarrow> v_result v \<in> {None, Some r} \<Longrightarrow>
    ostep v (v\<lparr>v_result := Some r, v_out := Some (phasePending, r)\<rparr>)"
| applied: "v_phase v = Some phaseApplying \<Longrightarrow> v_receipt v = None \<Longrightarrow> v_out v \<noteq> None \<Longrightarrow>
    ostep v (v\<lparr>v_phase := Some phaseApplied\<rparr>)"
| deliver: "v_out v = Some (p, r) \<Longrightarrow> ValidateFSMTransition ''outbox'' p q = Inr () \<Longrightarrow> q \<noteq> ''RECEIPTED'' \<Longrightarrow>
    ostep v (v\<lparr>v_out := Some (q, r)\<rparr>)"
| requeue: "v_out v = Some (p, r) \<Longrightarrow> ostep v (v\<lparr>v_out := Some (phasePending, r)\<rparr>)"
| receipt: "v_out v = Some (phaseSemanticACKed, r) \<Longrightarrow> v_receipt v = None \<Longrightarrow>
    ostep v \<lparr> v_phase = None, v_result = None, v_out = None, v_receipt = Some r \<rparr>"

definition reserved_prefixes :: "string list" where
  "reserved_prefixes = [''op:'', ''receipt:'', ''decommission-intent:'', ''cleanup-tombstone:'', ''uninstall-notice:'']"

definition plain_id :: "string \<Rightarrow> bool" where
  "plain_id op \<longleftrightarrow> list_all (\<lambda>p. take (length p) op \<noteq> p) reserved_prefixes"

definition raw_of :: "ops_row option \<Rightarrow> bytes option" where
  "raw_of r = (case r of Some (OpRaw b) \<Rightarrow> Some b | _ \<Rightarrow> None)"

definition phase_of :: "ops_row option \<Rightarrow> string option" where
  "phase_of r = (case r of Some (OpJournal j) \<Rightarrow> Some (oj_Phase j) | _ \<Rightarrow> None)"

definition view :: "Store \<Rightarrow> string \<Rightarrow> opview" where
  "view s op = \<lparr> v_phase = phase_of (bget (ls_ops s) (opJournalKey op)),
     v_result = raw_of (bget (ls_ops s) op),
     v_out = map_option (\<lambda>v. splitOutboxValue (Some v)) (bget (ls_outbox s) op),
     v_receipt = raw_of (bget (ls_ops s) (receiptKey op)) \<rparr>"

definition jphases :: "string set" where
  "jphases = {phaseReceived, phaseIntentPersisted, phaseApplying, phaseApplied, phaseNacked}"

text \<open>The rows of the operation bucket have the kind their key says.\<close>

definition typed_ops :: "ops_row bucket \<Rightarrow> bool" where
  "typed_ops b \<longleftrightarrow>
     (\<forall>op r. bget b (opJournalKey op) = Some r \<longrightarrow> plain_id op \<and> (\<exists>j. r = OpJournal j \<and> oj_Phase j \<in> jphases)) \<and>
     (\<forall>op r. bget b (receiptKey op) = Some r \<longrightarrow> (\<exists>x. r = OpRaw x)) \<and>
     (\<forall>op r. plain_id op \<longrightarrow> bget b op = Some r \<longrightarrow> (\<exists>x. r = OpRaw x))"

definition journal_ok :: "Store \<Rightarrow> bool" where
  "journal_ok s \<longleftrightarrow> store_ok s \<and> typed_ops (ls_ops s)"

definition simulates :: "Store \<Rightarrow> Store \<Rightarrow> bool" where
  "simulates s s' \<longleftrightarrow> journal_ok s' \<and> (\<forall>op. plain_id op \<longrightarrow> ostep\<^sup>*\<^sup>* (view s op) (view s' op))"

lemma simulatesI:
  assumes "journal_ok s'" "ostep\<^sup>*\<^sup>* (view s op) (view s' op)"
    and "\<And>x. plain_id x \<Longrightarrow> x \<noteq> op \<Longrightarrow> view s' x = view s x"
  shows "simulates s s'"
  unfolding simulates_def
proof (intro conjI allI impI)
  fix x
  assume "plain_id x"
  with assms show "ostep\<^sup>*\<^sup>* (view s x) (view s' x)"
    by (cases "x = op") simp_all
qed (rule assms)

lemma simulates_refl: "journal_ok s \<Longrightarrow> simulates s s"
  by (simp add: simulates_def)

lemma simulates_trans: "simulates s t \<Longrightarrow> simulates t u \<Longrightarrow> simulates s u"
  by (auto simp: simulates_def intro: rtranclp_trans)

subsection \<open>Keys\<close>

lemma key_neq [simp]:
  "opJournalKey a \<noteq> receiptKey b" "receiptKey b \<noteq> opJournalKey a"
  "opJournalKey a = opJournalKey b \<longleftrightarrow> a = b" "receiptKey a = receiptKey b \<longleftrightarrow> a = b"
  "opJournalKey a \<noteq> []" "receiptKey a \<noteq> []"
  by (simp_all add: opJournalKey_def receiptKey_def keyOpJournal_def keyReceipt_def)

lemma plain_neq [simp]:
  "plain_id a \<Longrightarrow> a \<noteq> opJournalKey b" "plain_id a \<Longrightarrow> a \<noteq> receiptKey b"
  "plain_id a \<Longrightarrow> opJournalKey b \<noteq> a" "plain_id a \<Longrightarrow> receiptKey b \<noteq> a"
  by (auto simp: plain_id_def reserved_prefixes_def opJournalKey_def receiptKey_def keyOpJournal_def keyReceipt_def)

lemma loadOperationJournal_Some:
  "loadOperationJournal s op = Inr (Some j) \<longleftrightarrow> bget (ls_ops s) (opJournalKey op) = Some (OpJournal j)"
  by (auto simp: loadOperationJournal_def split: option.splits ops_row.splits)

lemma loadOperationJournal_None:
  "loadOperationJournal s op = Inr None \<longleftrightarrow> bget (ls_ops s) (opJournalKey op) = None"
  by (auto simp: loadOperationJournal_def split: option.splits ops_row.splits)

lemmas load_iffs = loadOperationJournal_Some loadOperationJournal_None

lemma with_phase_Inr:
  "with_phase e sid op want f s = Inr s' \<longleftrightarrow> CurrentSession s = (e, sid) \<and>
     (\<exists>j. bget (ls_ops s) (opJournalKey op) = Some (OpJournal j) \<and> want j \<and> f j = Inr s')"
  by (auto simp: with_phase_def ebind_Inr_iff checkSession_iff load_iffs split: option.splits if_splits)

subsection \<open>Outbox values\<close>

lemma split_outbox_value: "list_all (\<lambda>c. c \<noteq> char_of (0 :: nat)) p \<Longrightarrow>
  splitOutboxValue (Some (outbox_value p r)) = (p, r)"
proof -
  assume a: "list_all (\<lambda>c. c \<noteq> char_of (0 :: nat)) p"
  have nz: "byte_of_char c \<noteq> 0" if "c \<noteq> char_of (0 :: nat)" for c
    using that char_byte_char [of c] by (auto simp: char_of_byte_def)
  have "\<forall>b \<in> set (str_bytes p). b \<noteq> 0"
    using a nz by (auto simp: str_bytes_def list_all_iff)
  then have "takeWhile (\<lambda>b. b \<noteq> 0) (str_bytes p @ 0 # r) = str_bytes p"
    and "dropWhile (\<lambda>b. b \<noteq> 0) (str_bytes p @ 0 # r) = 0 # r"
    by (simp_all add: takeWhile_append dropWhile_append)
  then show ?thesis by (simp add: splitOutboxValue_def outbox_value_def)
qed

lemma split_phases [simp]:
  "splitOutboxValue (Some (outbox_value phasePending r)) = (phasePending, r)"
  "splitOutboxValue (Some (outbox_value phaseClaimed r)) = (phaseClaimed, r)"
  "splitOutboxValue (Some (outbox_value phaseSent r)) = (phaseSent, r)"
  "splitOutboxValue (Some (outbox_value phaseSemanticACKed r)) = (phaseSemanticACKed, r)"
  by (rule split_outbox_value, simp add: char_of_def)+

section \<open>The store refines the abstract machine\<close>

subsection \<open>Building blocks\<close>

lemma put_fences_frame: "put_fences now links s = Inr s' \<Longrightarrow> store_ok s \<Longrightarrow>
  store_ok s' \<and> ls_ops s' = ls_ops s \<and> ls_outbox s' = ls_outbox s \<and> CurrentSession s' = CurrentSession s"
proof (induction now links s rule: put_fences.induct)
  case (2 now link links s)
  have put: "store_ok t \<and> ls_ops t = ls_ops s \<and> ls_outbox t = ls_outbox s \<and> CurrentSession t = CurrentSession s"
    if "putForwardDeleteIntentTx i s = Inr (t, b)" for i t b
    using that 2(4)
    by (auto simp: putForwardDeleteIntentTx_def ebind_Inr_iff bput_Inr_iff store_ok_def CurrentSession_def
        split: option.splits row.splits if_splits)
  show ?case
  proof (cases "putForwardDeleteIntentTx (intent_of_link now link) s")
    case (Inl e)
    with 2 show ?thesis by (auto split: if_splits)
  next
    case (Inr p)
    obtain t b where "p = (t, b)" by (cases p)
    with Inr put [of _ t b] 2 show ?thesis by auto
  qed
qed simp

lemma frame_simulates:
  "journal_ok s \<Longrightarrow> store_ok s' \<Longrightarrow> ls_ops s' = ls_ops s \<Longrightarrow> ls_outbox s' = ls_outbox s \<Longrightarrow> simulates s s'"
  by (simp add: simulates_def journal_ok_def view_def)

lemma put_fences_simulates: "put_fences now links s = Inr s' \<Longrightarrow> journal_ok s \<Longrightarrow> simulates s s'"
  using put_fences_frame [of now links s s'] by (auto intro: frame_simulates simp: journal_ok_def)

lemma journal_okD: "journal_ok s \<Longrightarrow> bucket_ok (ls_ops s)" "journal_ok s \<Longrightarrow> bucket_ok (ls_outbox s)"
  "journal_ok s \<Longrightarrow> store_ok s" "journal_ok s \<Longrightarrow> typed_ops (ls_ops s)"
  by (simp_all add: journal_ok_def store_ok_def)

lemma putOperationJournal_Inr:
  "putOperationJournal op j s = Inr s' \<longleftrightarrow>
     length (opJournalKey op) \<le> 32768 \<and> s' = s\<lparr>ls_ops := bins (opJournalKey op) (OpJournal j) (ls_ops s)\<rparr>"
  by (auto simp: putOperationJournal_def ebind_Inr_iff bput_Inr_iff)

lemma typed_ops_bins:
  assumes "typed_ops b" "bucket_ok b"
  shows "oj_Phase j \<in> jphases \<Longrightarrow> plain_id op \<Longrightarrow> typed_ops (bins (opJournalKey op) (OpJournal j) b)"
    and "typed_ops (bins (receiptKey op) (OpRaw r) b)"
    and "plain_id op \<Longrightarrow> typed_ops (bins op (OpRaw r) b)"
  using assms by (auto simp: typed_ops_def split: if_splits)

lemma typed_ops_bdel: "typed_ops b \<Longrightarrow> typed_ops (bdel k b)"
  by (auto simp: typed_ops_def split: if_splits)

lemma put_journal_ok:
  "putOperationJournal op j s = Inr s' \<Longrightarrow> journal_ok s \<Longrightarrow> oj_Phase j \<in> jphases \<Longrightarrow> plain_id op \<Longrightarrow>
     journal_ok s' \<and> CurrentSession s' = CurrentSession s"
  by (auto simp: putOperationJournal_Inr journal_ok_def store_ok_def typed_ops_bins CurrentSession_def)

lemma put_journal_view:
  "putOperationJournal op j s = Inr s' \<Longrightarrow> journal_ok s \<Longrightarrow> plain_id x \<Longrightarrow>
     view s' x = (if x = op then (view s x)\<lparr>v_phase := Some (oj_Phase j)\<rparr> else view s x)"
  by (auto simp: putOperationJournal_Inr view_def phase_of_def dest: journal_okD)

lemma put_journal_simulates:
  assumes "putOperationJournal op j s = Inr s'" "journal_ok s" "oj_Phase j \<in> jphases" "plain_id op"
    and "ostep\<^sup>*\<^sup>* (view s op) ((view s op)\<lparr>v_phase := Some (oj_Phase j)\<rparr>)"
  shows "simulates s s'"
  using assms put_journal_ok [OF assms(1-4)] put_journal_view [OF assms(1,2)]
  by (simp add: simulates_def)

lemma recordResult_Inr:
  "recordResultAndQueue op r s = Inr s' \<longleftrightarrow> bget (ls_ops s) (receiptKey op) = None \<and>
     (s' = s \<and> bget (ls_outbox s) op \<noteq> None \<or>
      bget (ls_outbox s) op = None \<and> bget (ls_ops s) op \<in> {None, Some (OpRaw r)} \<and> op \<noteq> [] \<and> length op \<le> 32768 \<and>
      s' = s\<lparr>ls_ops := bins op (OpRaw r) (ls_ops s), ls_outbox := bins op (outbox_value phasePending r) (ls_outbox s)\<rparr>)"
  by (auto simp: recordResultAndQueue_def ebind_Inr_iff bput_Inr_iff)

lemma record_ok:
  "recordResultAndQueue op r s = Inr s' \<Longrightarrow> journal_ok s \<Longrightarrow> plain_id op \<Longrightarrow>
     journal_ok s' \<and> CurrentSession s' = CurrentSession s"
  by (auto simp: recordResult_Inr journal_ok_def store_ok_def typed_ops_bins CurrentSession_def)

lemma record_view:
  assumes "recordResultAndQueue op r s = Inr s'" "journal_ok s" "plain_id op" "plain_id x"
  shows "view s' x = (if x = op \<and> v_out (view s op) = None
    then (view s x)\<lparr>v_result := Some r, v_out := Some (phasePending, r)\<rparr> else view s x)"
  using assms journal_okD [OF assms(2)]
  by (auto simp: recordResult_Inr view_def raw_of_def)

lemma record_guard:
  "recordResultAndQueue op r s = Inr s' \<Longrightarrow> v_receipt (view s op) = None \<and>
     (v_out (view s op) = None \<longrightarrow> v_result (view s op) \<in> {None, Some r})"
  by (auto simp: recordResult_Inr view_def raw_of_def)

lemma record_simulates:
  assumes "recordResultAndQueue op r s = Inr s'" "journal_ok s" "plain_id op"
  shows "simulates s s'"
proof -
  have "ostep (view s op) ((view s op)\<lparr>v_result := Some r, v_out := Some (phasePending, r)\<rparr>)"
    if "v_out (view s op) = None"
    using that record_guard [OF assms(1)] by (intro ostep.record_result) auto
  with record_ok [OF assms] record_view [OF assms] show ?thesis
    by (auto simp: simulates_def intro: r_into_rtranclp)
qed

subsection \<open>Every operation\<close>

lemma fsm_inbox:
  "ValidateFSMTransition ''inbox'' phaseReceived phaseIntentPersisted = Inr ()"
  "ValidateFSMTransition ''inbox'' phaseIntentPersisted phaseApplying = Inr ()"
  "ValidateFSMTransition ''inbox'' phaseApplying phaseNacked = Inr ()"
  by (simp_all add: ValidateFSMTransition_def ValidFSMState_def frozenFSMs_def frozenFSMStates_def)

lemma fsm_outbox:
  "ValidateFSMTransition ''outbox'' phasePending phaseClaimed = Inr ()"
  "ValidateFSMTransition ''outbox'' phaseClaimed phaseSent = Inr ()"
  "ValidateFSMTransition ''outbox'' phaseSent phaseSemanticACKed = Inr ()"
  by (simp_all add: ValidateFSMTransition_def ValidFSMState_def frozenFSMs_def frozenFSMStates_def)

lemma view_phase: "bget (ls_ops s) (opJournalKey op) = Some (OpJournal j) \<Longrightarrow> v_phase (view s op) = Some (oj_Phase j)"
  by (simp add: view_def phase_of_def)

lemma jphases_mem [simp]: "phaseReceived \<in> jphases" "phaseIntentPersisted \<in> jphases" "phaseApplying \<in> jphases"
  "phaseApplied \<in> jphases" "phaseNacked \<in> jphases"
  by (simp_all add: jphases_def)

lemma journal_phase: "journal_ok s \<Longrightarrow> bget (ls_ops s) (opJournalKey op) = Some (OpJournal j) \<Longrightarrow> oj_Phase j \<in> jphases"
  by (auto simp: journal_ok_def typed_ops_def)

lemma advance_simulates:
  assumes "putOperationJournal op j' s = Inr s'" "journal_ok s" "plain_id op"
    and "bget (ls_ops s) (opJournalKey op) = Some (OpJournal j)"
    and "ValidateFSMTransition ''inbox'' (oj_Phase j) (oj_Phase j') = Inr ()"
    and "oj_Phase j' \<in> jphases" "oj_Phase j' \<noteq> phaseApplied"
  shows "simulates s s'"
  using assms by (intro put_journal_simulates [OF assms(1)]) (auto intro: ostep.advance view_phase)

lemma same_phase_simulates:
  assumes "putOperationJournal op j' s = Inr s'" "journal_ok s" "plain_id op"
    and "bget (ls_ops s) (opJournalKey op) = Some (OpJournal j)" "oj_Phase j' = oj_Phase j"
  shows "simulates s s'"
proof (rule put_journal_simulates [OF assms(1,2)])
  show "oj_Phase j' \<in> jphases" using journal_phase [OF assms(2,4)] assms(5) by simp
  have "(view s op)\<lparr>v_phase := Some (oj_Phase j')\<rparr> = view s op"
    using view_phase [OF assms(4)] assms(5) by (cases "view s op") simp
  then show "ostep\<^sup>*\<^sup>* (view s op) ((view s op)\<lparr>v_phase := Some (oj_Phase j')\<rparr>)" by simp
qed (rule assms)

lemma CompleteRecoveredDeletion_simulates:
  "CompleteRecoveredDeletion e sid op s = Inr s' \<Longrightarrow> journal_ok s \<Longrightarrow> plain_id op \<Longrightarrow> simulates s s'"
  by (auto simp: CompleteRecoveredDeletion_def with_phase_Inr intro: same_phase_simulates)

lemma PersistOperationIntent_simulates:
  "PersistOperationIntent e sid op s = Inr s' \<Longrightarrow> journal_ok s \<Longrightarrow> plain_id op \<Longrightarrow> simulates s s'"
  by (auto simp: PersistOperationIntent_def with_phase_Inr intro!: advance_simulates simp: fsm_inbox)

lemma MarkOperationApplying_simulates:
  assumes "MarkOperationApplying e sid op s = Inr s'" "journal_ok s" "plain_id op"
  shows "simulates s s'"
proof -
  from assms(1) obtain j j' where j: "bget (ls_ops s) (opJournalKey op) = Some (OpJournal j)"
    "oj_Phase j = phaseIntentPersisted" "putOperationJournal op j' s = Inr s'" "oj_Phase j' = phaseApplying"
    by (auto simp: MarkOperationApplying_def with_phase_Inr Let_def split: if_splits)
  from advance_simulates [OF j(3) assms(2,3) j(1)] j show ?thesis by (simp add: fsm_inbox)
qed

lemma NackOperation_simulates:
  "NackOperation e sid op reason s = Inr s' \<Longrightarrow> journal_ok s \<Longrightarrow> plain_id op \<Longrightarrow> simulates s s'"
  by (auto simp: NackOperation_def with_phase_Inr intro!: advance_simulates simp: fsm_inbox)

lemma nack_record_simulates:
  assumes "bget (ls_ops s) (opJournalKey op) = Some (OpJournal j)" "oj_Phase j = phaseApplying"
    and "putOperationJournal op (j\<lparr>oj_Phase := phaseNacked, oj_Reason := reason\<rparr>) s = Inr s1"
    and "recordResultAndQueue op r s1 = Inr s'" "journal_ok s" "plain_id op"
  shows "simulates s s'"
proof -
  from advance_simulates [OF assms(3,5,6,1)] assms(2) have "simulates s s1" by (simp add: fsm_inbox)
  moreover from this have "simulates s1 s'"
    by (intro record_simulates [OF assms(4) _ assms(6)]) (simp add: simulates_def)
  ultimately show ?thesis by (rule simulates_trans)
qed

lemma NackOperationWithResult_simulates:
  "NackOperationWithResult e sid op reason r s = Inr s' \<Longrightarrow> journal_ok s \<Longrightarrow> plain_id op \<Longrightarrow> simulates s s'"
  by (auto simp: NackOperationWithResult_def with_phase_Inr ebind_Inr_iff intro: nack_record_simulates)

lemma QueueNackedResult_simulates:
  "QueueNackedResult nack e sid op s = Inr s' \<Longrightarrow> journal_ok s \<Longrightarrow> plain_id op \<Longrightarrow> simulates s s'"
  by (auto simp: QueueNackedResult_def with_phase_Inr intro: record_simulates)

lemma QueueResult_simulates:
  "QueueResult e sid op r s = Inr s' \<Longrightarrow> journal_ok s \<Longrightarrow> plain_id op \<Longrightarrow> simulates s s'"
  by (auto simp: QueueResult_def ebind_Inr_iff intro: record_simulates)

lemma QueueResultSessionIndependent_simulates:
  "QueueResultSessionIndependent op r s = Inr s' \<Longrightarrow> journal_ok s \<Longrightarrow> plain_id op \<Longrightarrow> simulates s s'"
  by (auto simp: QueueResultSessionIndependent_def intro: record_simulates split: if_splits)

lemma CompleteOperation_simulates:
  assumes "CompleteOperation e sid op r s = Inr s'" "journal_ok s" "plain_id op"
  shows "simulates s s'"
proof -
  from assms(1) obtain j s1 where j: "bget (ls_ops s) (opJournalKey op) = Some (OpJournal j)"
    "oj_Phase j = phaseApplying" "putOperationJournal op (j\<lparr>oj_Phase := phaseApplied\<rparr>) s = Inr s1"
    "recordResultAndQueue op r s1 = Inr s'"
    by (auto simp: CompleteOperation_def with_phase_Inr ebind_Inr_iff)
  have ok1: "journal_ok s1" using put_journal_ok [OF j(3) assms(2) _ assms(3)] by simp
  have v1: "view s1 x = (if x = op then (view s x)\<lparr>v_phase := Some phaseApplied\<rparr> else view s x)" if "plain_id x" for x
    using put_journal_view [OF j(3) assms(2) that] by simp
  have ph: "v_phase (view s op) = Some phaseApplying" using view_phase [OF j(1)] j(2) by simp
  have rc: "v_receipt (view s op) = None" "v_out (view s op) = None \<longrightarrow> v_result (view s op) \<in> {None, Some r}"
    using record_guard [OF j(4)] v1 [OF assms(3)] by simp_all
  let ?v = "if v_out (view s op) = None then (view s op)\<lparr>v_result := Some r, v_out := Some (phasePending, r)\<rparr>
            else view s op"
  have "ostep\<^sup>*\<^sup>* (view s op) ?v"
    using rc by (auto intro!: r_into_rtranclp ostep.record_result)
  moreover have "ostep ?v (?v\<lparr>v_phase := Some phaseApplied\<rparr>)"
    using ph rc by (intro ostep.applied) auto
  ultimately have "ostep\<^sup>*\<^sup>* (view s op) (?v\<lparr>v_phase := Some phaseApplied\<rparr>)"
    by (rule rtranclp.rtrancl_into_rtrancl)
  moreover have "view s' op = ?v\<lparr>v_phase := Some phaseApplied\<rparr>"
    using record_view [OF j(4) ok1 assms(3,3)] v1 [OF assms(3)] by (cases "view s op") simp
  moreover have "view s' x = view s x" if "plain_id x" "x \<noteq> op" for x
    using record_view [OF j(4) ok1 assms(3) that(1)] v1 [OF that(1)] that(2) by simp
  ultimately show ?thesis
    using record_ok [OF j(4) ok1 assms(3)] by (fastforce simp: simulates_def)
qed

lemma recover_one_simulates:
  assumes "recover_one nack now op s = Inr s'" "journal_ok s" "plain_id op"
  shows "simulates s s'"
proof -
  from assms(1) consider "s' = s" | j s1 s2 where
    "bget (ls_ops s) (opJournalKey op) = Some (OpJournal j)" "oj_Phase j = phaseApplying"
    "put_fences now (oj_ForwardDeletions j) s = Inr s1"
    "putOperationJournal op (j\<lparr>oj_Phase := phaseNacked, oj_Reason := recoveredReason\<rparr>) s1 = Inr s2"
    "recordResultAndQueue op (nack recoveredReason True) s2 = Inr s'"
    by (auto simp: recover_one_def ebind_Inr_iff load_iffs split: option.splits if_splits)
  then show ?thesis
  proof cases
    case 1
    with assms(2) show ?thesis by (simp add: simulates_refl)
  next
    case 2
    have f: "simulates s s1" "ls_ops s1 = ls_ops s"
      using put_fences_simulates [OF 2(3) assms(2)] put_fences_frame [OF 2(3)] assms(2)
      by (simp_all add: journal_ok_def)
    then have "simulates s1 s'"
      using 2 assms(3) by (intro nack_record_simulates [of s1 op j recoveredReason s2]) (simp_all add: simulates_def)
    with f(1) show ?thesis by (rule simulates_trans)
  qed
qed

lemma recover_all_simulates:
  "recover_all nack now ops s = Inr s' \<Longrightarrow> journal_ok s \<Longrightarrow> (\<forall>op \<in> set ops. plain_id op) \<Longrightarrow> simulates s s'"
proof (induction ops arbitrary: s)
  case (Cons op ops)
  then obtain s1 where s1: "recover_one nack now op s = Inr s1" "recover_all nack now ops s1 = Inr s'"
    by (auto simp: ebind_Inr_iff)
  from recover_one_simulates [OF s1(1)] Cons.prems have "simulates s s1" by simp
  with Cons.IH [OF s1(2)] Cons.prems show ?case
    by (auto simp: simulates_def intro: rtranclp_trans)
qed (simp add: simulates_refl)

lemma outbox_step_simulates:
  assumes "outbox_step p q e sid op s = Inr s'" "journal_ok s" "p \<noteq> []"
    and fsm: "ValidateFSMTransition ''outbox'' p q = Inr ()" "q \<noteq> ''RECEIPTED''"
    and q: "\<And>r. splitOutboxValue (Some (outbox_value q r)) = (q, r)"
  shows "simulates s s'"
proof -
  from assms(1,3) obtain v r where v: "bget (ls_outbox s) op = Some v" "splitOutboxValue (Some v) = (p, r)"
    and s': "s' = s\<lparr>ls_outbox := bins op (outbox_value q r) (ls_outbox s)\<rparr>"
    by (cases "bget (ls_outbox s) op")
      (auto simp: outbox_step_def ebind_Inr_iff bput_Inr_iff splitOutboxValue_def split: if_splits)
  have ok: "journal_ok s'" using assms(2) s' by (simp add: journal_ok_def store_ok_def)
  have "view s' x = (if x = op then (view s x)\<lparr>v_out := Some (q, r)\<rparr> else view s x)" for x
    using journal_okD(2) [OF assms(2)] q by (simp add: s' view_def)
  moreover have "ostep (view s op) ((view s op)\<lparr>v_out := Some (q, r)\<rparr>)"
    using v fsm by (intro ostep.deliver [where p = p]) (simp_all add: view_def)
  ultimately show ?thesis using ok by (auto simp: simulates_def)
qed

lemma outbox_simulates:
  assumes "journal_ok s"
  shows "ClaimOutbox e sid op s = Inr s' \<Longrightarrow> simulates s s'"
    and "MarkOutboxSent e sid op s = Inr s' \<Longrightarrow> simulates s s'"
    and "AcceptSemanticACK e sid op s = Inr s' \<Longrightarrow> simulates s s'"
  unfolding ClaimOutbox_def MarkOutboxSent_def AcceptSemanticACK_def
  by (erule outbox_step_simulates, rule assms, simp_all add: fsm_outbox)+

lemma recovering_ids_plain:
  "recovering_ids b = Inr ids \<Longrightarrow> op \<in> set ids \<Longrightarrow> opJournalKey op \<in> fst ` set b"
proof (induction b arbitrary: ids)
  case (Cons p b)
  obtain key row where p: "p = (key, row)" by (cases p)
  have "opJournalKey (drop 3 key) = key" if "take 3 key = keyOpJournal"
    using that append_take_drop_id [of 3 key] by (simp add: opJournalKey_def)
  with Cons p show ?case
    by (fastforce simp: ebind_Inr_iff split: if_splits ops_row.splits)
qed simp

lemma RecoverApplyingOperations_simulates:
  assumes "RecoverApplyingOperations nack now e sid s = Inr s'" "journal_ok s"
  shows "simulates s s'"
proof -
  from assms(1) obtain ids where ids: "recovering_ids (ls_ops s) = Inr ids" "recover_all nack now ids s = Inr s'"
    by (auto simp: RecoverApplyingOperations_def ebind_Inr_iff)
  have "plain_id op" if "op \<in> set ids" for op
  proof -
    from recovering_ids_plain [OF ids(1) that] obtain r where "bget (ls_ops s) (opJournalKey op) = Some r"
      by (metis map_of_eq_None_iff not_Some_eq)
    with assms(2) show ?thesis by (auto simp: journal_ok_def typed_ops_def)
  qed
  with recover_all_simulates [OF ids(2) assms(2)] show ?thesis by blast
qed

lemma AcceptReceipt_Inr:
  assumes "AcceptReceipt e sid op s = Inr s'"
  obtains v r ib where "bget (ls_ops s) (receiptKey op) = None" "bget (ls_outbox s) op = Some v"
    "splitOutboxValue (Some v) = (phaseSemanticACKed, r)" "ib = ls_inbox s \<or> (\<exists>m. ib = bdel m (ls_inbox s))"
    "s' = s\<lparr>ls_ops := bdel (opJournalKey op) (bdel op (bins (receiptKey op) (OpRaw r) (ls_ops s))),
       ls_outbox := bdel op (ls_outbox s), ls_inbox := ib\<rparr>"
proof -
  obtain st r where st: "splitOutboxValue (bget (ls_outbox s) op) = (st, r)" by fastforce
  from assms st have acked: "st = phaseSemanticACKed" and none: "bget (ls_ops s) (receiptKey op) = None"
    by (auto simp: AcceptReceipt_def ebind_Inr_iff split: if_splits)
  then obtain v where v: "bget (ls_outbox s) op = Some v"
    using st by (cases "bget (ls_outbox s) op") (auto simp: splitOutboxValue_def)
  from assms st acked none have "ls_inbox s' = ls_inbox s \<or> (\<exists>m. ls_inbox s' = bdel m (ls_inbox s))"
    "s' = s\<lparr>ls_ops := bdel (opJournalKey op) (bdel op (bins (receiptKey op) (OpRaw r) (ls_ops s))),
       ls_outbox := bdel op (ls_outbox s), ls_inbox := ls_inbox s'\<rparr>"
    by (auto simp: AcceptReceipt_def ebind_Inr_iff bput_Inr_iff Let_def split: if_splits)
  with that [OF none v _ this] st acked v show ?thesis by simp
qed

lemma AcceptReceipt_simulates:
  assumes "AcceptReceipt e sid op s = Inr s'" "journal_ok s" "plain_id op"
  shows "simulates s s'"
proof -
  from assms(1) obtain v r ib where h: "bget (ls_ops s) (receiptKey op) = None" "bget (ls_outbox s) op = Some v"
    "splitOutboxValue (Some v) = (phaseSemanticACKed, r)" "ib = ls_inbox s \<or> (\<exists>m. ib = bdel m (ls_inbox s))"
    and s': "s' = s\<lparr>ls_ops := bdel (opJournalKey op) (bdel op (bins (receiptKey op) (OpRaw r) (ls_ops s))),
       ls_outbox := bdel op (ls_outbox s), ls_inbox := ib\<rparr>"
    by (rule AcceptReceipt_Inr)
  note b = journal_okD [OF assms(2)]
  have "bucket_ok ib" using h(4) b(3) by (auto simp: store_ok_def)
  with b have ok: "journal_ok s'"
    by (simp add: s' journal_ok_def store_ok_def typed_ops_bdel typed_ops_bins)
  have "ostep (view s op) (view s' op)"
  proof -
    have "view s' op = \<lparr> v_phase = None, v_result = None, v_out = None, v_receipt = Some r \<rparr>"
      using b assms(3) by (simp add: s' view_def phase_of_def raw_of_def)
    with h show ?thesis using ostep.receipt [of "view s op" r] by (simp add: view_def raw_of_def)
  qed
  moreover have "view s' x = view s x" if "plain_id x" "x \<noteq> op" for x
    using b assms(3) that by (simp add: s' view_def)
  ultimately show ?thesis using ok by (intro simulatesI [where op = op]) auto
qed

lemma map_of_requeue:
  "map_of (map (\<lambda>(op, v). (op, f v)) b) x = map_option f (map_of b x)"
  by (induction b) auto

lemma bucket_ok_map: "bucket_ok (map (\<lambda>(op, v). (op, f v)) b) = bucket_ok b"
proof -
  have "map fst (map (\<lambda>(op, v). (op, f v)) b) = map fst b" by (induction b) auto
  then show ?thesis by (simp only: bucket_ok_def)
qed

lemma split_requeue: "splitOutboxValue (Some (requeue_value v)) = (phasePending, snd (splitOutboxValue (Some v)))"
  by (auto simp: requeue_value_def split: prod.splits)

lemma Requeue_simulates:
  assumes "RequeueOutboxForSession e sid s = Inr (s', n)" "journal_ok s"
  shows "simulates s s'"
proof -
  from assms(1) have s': "s' = s\<lparr>ls_outbox := map (\<lambda>(op, v). (op, requeue_value v)) (ls_outbox s)\<rparr>"
    by (auto simp: RequeueOutboxForSession_def ebind_Inr_iff)
  have "journal_ok s'" using assms(2) by (simp add: s' journal_ok_def store_ok_def bucket_ok_map)
  moreover have "ostep\<^sup>*\<^sup>* (view s x) (view s' x)" for x
  proof (cases "bget (ls_outbox s) x")
    case None
    then show ?thesis by (simp add: s' view_def map_of_requeue)
  next
    case (Some v)
    obtain p r where pr: "splitOutboxValue (Some v) = (p, r)" by fastforce
    have "ostep (view s x) ((view s x)\<lparr>v_out := Some (phasePending, r)\<rparr>)"
      by (rule ostep.requeue [where p = p]) (simp add: view_def Some pr)
    moreover have "view s' x = (view s x)\<lparr>v_out := Some (phasePending, r)\<rparr>"
      by (simp add: s' view_def map_of_requeue Some pr split_requeue)
    ultimately show ?thesis by auto
  qed
  ultimately show ?thesis by (simp add: simulates_def)
qed

lemma receive_simulates:
  assumes "putOperationJournal op j s = Inr s'" "journal_ok s" "plain_id op" "oj_Phase j = phaseReceived"
    and "bget (ls_ops s) (opJournalKey op) = None" "bget (ls_ops s) (receiptKey op) = None"
  shows "simulates s s'"
proof (rule put_journal_simulates [OF assms(1,2) _ assms(3)])
  show "ostep\<^sup>*\<^sup>* (view s op) ((view s op)\<lparr>v_phase := Some (oj_Phase j)\<rparr>)"
    using assms(4-6) ostep.receive [of "view s op"] by (simp add: view_def phase_of_def raw_of_def r_into_rtranclp)
qed (simp add: assms)

lemma receive_duplicate_simulates:
  assumes "receive_duplicate now op payload present links j s = Inr (s', out)"
    and "bget (ls_ops s) (opJournalKey op) = Some (OpJournal j)" "journal_ok s" "plain_id op"
  shows "simulates s s'"
proof -
  have ph: "oj_Phase (adopt_payload payload links j) = oj_Phase j" by (simp add: adopt_payload_def)
  from assms(1) consider "s' = s" | s1 where "put_fences now links s = Inr s1"
    "putOperationJournal op (adopt_payload payload links j) s1 = Inr s'"
    by (auto simp: receive_duplicate_def ebind_Inr_iff Let_def split: if_splits)
  then show ?thesis
  proof cases
    case 1
    with assms(3) show ?thesis by (simp add: simulates_refl)
  next
    case 2
    have f: "simulates s s1" "ls_ops s1 = ls_ops s"
      using put_fences_simulates [OF 2(1) assms(3)] put_fences_frame [OF 2(1)] assms(3)
      by (simp_all add: journal_ok_def)
    with same_phase_simulates [OF 2(2) _ assms(4) _ ph] assms(2) have "simulates s1 s'"
      by (simp add: simulates_def)
    with f(1) show ?thesis by (rule simulates_trans)
  qed
qed

lemma receive_fresh_simulates:
  assumes "bget (ls_ops s) (opJournalKey op) = None" "bget (ls_ops s) (receiptKey op) = None"
    and "oj_Phase j = phaseReceived" "putOperationJournal op j (s\<lparr>ls_inbox := bins mid ib (ls_inbox s)\<rparr>) = Inr s1"
    and "put_fences now links s1 = Inr s'" "journal_ok s" "plain_id op"
  shows "simulates s s'"
proof -
  let ?s0 = "s\<lparr>ls_inbox := bins mid ib (ls_inbox s)\<rparr>"
  have 0: "simulates s ?s0"
    using assms(6) by (intro frame_simulates) (simp_all add: journal_ok_def store_ok_def)
  have "simulates ?s0 s1"
    using assms 0 by (intro receive_simulates [OF assms(4)]) (simp_all add: simulates_def)
  moreover from this have "simulates s1 s'"
    by (intro put_fences_simulates [OF assms(5)]) (simp add: simulates_def)
  ultimately show ?thesis using 0 simulates_trans by blast
qed

lemma receiveCommandTx_simulates:
  assumes rc: "receiveCommandTx now e sid op mid mt h kind payload present links s = Inr (s', out)"
    and "journal_ok s" "plain_id op"
  shows "simulates s s'"
proof -
  from rc have cs: "checkSession s e sid = Inr ()" and nr: "bget (ls_ops s) (receiptKey op) = None"
    by (auto simp: receiveCommandTx_def ebind_Inr_iff split: if_splits)
  note body = rc [unfolded receiveCommandTx_def cs, simplified]
  show ?thesis
  proof (cases "loadOperationJournal s op")
    case (Inl x)
    with body nr show ?thesis by (auto split: option.splits row.splits if_splits)
  next
    case (Inr found)
    note load = this
    show ?thesis
    proof (cases found)
      case None
      with load have nj: "bget (ls_ops s) (opJournalKey op) = None" by (simp add: load_iffs)
      let ?j = "\<lparr> oj_Kind = kind, oj_MessageID = mid, oj_Phase = phaseReceived, oj_Reason = [], oj_Payload = payload,
        oj_PayloadPresent = present, oj_RecoveredDeletionPending = False, oj_ForwardDeletions = links \<rparr>"
      let ?ib = "Row \<lparr> ib_MessageType = mt, ib_PayloadHash = h, ib_OperationID = op \<rparr>"
      from body nr load None obtain s1 where
        s1: "putOperationJournal op ?j (s\<lparr>ls_inbox := bins mid ?ib (ls_inbox s)\<rparr>) = Inr s1" "put_fences now links s1 = Inr s'"
        by (auto simp: ebind_Inr_iff bput_Inr_iff split: option.splits row.splits if_splits)
      have "oj_Phase ?j = phaseReceived" by simp
      from receive_fresh_simulates [OF nj nr this s1 assms(2,3)] show ?thesis .
    next
      case (Some j)
      with load have jj: "bget (ls_ops s) (opJournalKey op) = Some (OpJournal j)" by (simp add: load_iffs)
      from body nr load Some have "s' = s \<or> receive_duplicate now op payload present links j s = Inr (s', out)"
        by (auto split: option.splits row.splits if_splits)
      with receive_duplicate_simulates [OF _ jj assms(2,3)] simulates_refl [OF assms(2)] show ?thesis by auto
    qed
  qed
qed

lemma AdvanceSession_simulates:
  assumes "AdvanceSession e sid s = Inr s'" "journal_ok s"
  shows "simulates s s'"
proof (rule frame_simulates [OF assms(2)])
  show "store_ok s'" using AdvanceSession_Inr [OF assms(1)] assms(2) by (simp add: journal_ok_def)
  show "ls_ops s' = ls_ops s" "ls_outbox s' = ls_outbox s"
    using assms(1) by (auto simp: AdvanceSession_def CurrentSession_def ebind_Inr_iff bput_Inr_iff split: if_splits)
qed

section \<open>Runs of the journal\<close>

text \<open>One call of the journal interface. A crash is a run that stops; a restart continues from the same store.\<close>

datatype jop =
    JAdvance u64 string
  | JReceive int u64 string string string string bytes string
  | JReceiveHash int u64 string string string string string string
  | JCompleteRecovered u64 string string
  | JIntent u64 string string
  | JApplying u64 string string
  | JRecover int u64 string
  | JComplete u64 string string bytes
  | JNack u64 string string string
  | JNackResult u64 string string string bytes
  | JQueueNacked u64 string string
  | JQueue u64 string string bytes
  | JQueueFree string bytes
  | JClaim u64 string string
  | JSent u64 string string
  | JAck u64 string string
  | JReceipt u64 string string
  | JRequeue u64 string

fun jexec ::
  "crypto \<Rightarrow> (bytes \<Rightarrow> DesiredState option) \<Rightarrow> (string \<Rightarrow> bool \<Rightarrow> bytes) \<Rightarrow> jop \<Rightarrow> Store \<Rightarrow> ls_error + Store" where
  "jexec k decode nack (JAdvance e sid) s = AdvanceSession e sid s"
| "jexec k decode nack (JReceive now e sid op mid mt payload kind) s =
     ebind (ReceiveCommandWithPayloadStatus k decode now e sid op mid mt payload kind s) (\<lambda>(s', _). Inr s')"
| "jexec k decode nack (JReceiveHash now e sid op mid mt h kind) s =
     ebind (ReceiveCommand now e sid op mid mt h kind s) (\<lambda>(s', _). Inr s')"
| "jexec k decode nack (JCompleteRecovered e sid op) s = CompleteRecoveredDeletion e sid op s"
| "jexec k decode nack (JIntent e sid op) s = PersistOperationIntent e sid op s"
| "jexec k decode nack (JApplying e sid op) s = MarkOperationApplying e sid op s"
| "jexec k decode nack (JRecover now e sid) s = RecoverApplyingOperations nack now e sid s"
| "jexec k decode nack (JComplete e sid op r) s = CompleteOperation e sid op r s"
| "jexec k decode nack (JNack e sid op reason) s = NackOperation e sid op reason s"
| "jexec k decode nack (JNackResult e sid op reason r) s = NackOperationWithResult e sid op reason r s"
| "jexec k decode nack (JQueueNacked e sid op) s = QueueNackedResult nack e sid op s"
| "jexec k decode nack (JQueue e sid op r) s = QueueResult e sid op r s"
| "jexec k decode nack (JQueueFree op r) s = QueueResultSessionIndependent op r s"
| "jexec k decode nack (JClaim e sid op) s = ClaimOutbox e sid op s"
| "jexec k decode nack (JSent e sid op) s = MarkOutboxSent e sid op s"
| "jexec k decode nack (JAck e sid op) s = AcceptSemanticACK e sid op s"
| "jexec k decode nack (JReceipt e sid op) s = AcceptReceipt e sid op s"
| "jexec k decode nack (JRequeue e sid) s = ebind (RequeueOutboxForSession e sid s) (\<lambda>(s', _). Inr s')"

fun jop_id :: "jop \<Rightarrow> string option" where
  "jop_id (JReceive now e sid op mid mt payload kind) = Some op"
| "jop_id (JReceiveHash now e sid op mid mt h kind) = Some op"
| "jop_id (JCompleteRecovered e sid op) = Some op"
| "jop_id (JIntent e sid op) = Some op"
| "jop_id (JApplying e sid op) = Some op"
| "jop_id (JComplete e sid op r) = Some op"
| "jop_id (JNack e sid op reason) = Some op"
| "jop_id (JNackResult e sid op reason r) = Some op"
| "jop_id (JQueueNacked e sid op) = Some op"
| "jop_id (JQueue e sid op r) = Some op"
| "jop_id (JQueueFree op r) = Some op"
| "jop_id (JClaim e sid op) = Some op"
| "jop_id (JSent e sid op) = Some op"
| "jop_id (JAck e sid op) = Some op"
| "jop_id (JReceipt e sid op) = Some op"
| "jop_id _ = None"

definition jop_plain :: "jop \<Rightarrow> bool" where
  "jop_plain c \<longleftrightarrow> (case jop_id c of None \<Rightarrow> True | Some op \<Rightarrow> plain_id op)"

lemma jexec_simulates:
  assumes "jexec k decode nack c s = Inr s'" "journal_ok s" "jop_plain c"
  shows "simulates s s'"
  using assms
  by (cases c)
    (auto simp: jop_plain_def ReceiveCommand_def ReceiveCommandWithPayloadStatus_def ebind_Inr_iff Let_def
      intro: AdvanceSession_simulates receiveCommandTx_simulates CompleteRecoveredDeletion_simulates
        PersistOperationIntent_simulates MarkOperationApplying_simulates RecoverApplyingOperations_simulates
        CompleteOperation_simulates NackOperation_simulates NackOperationWithResult_simulates
        QueueNackedResult_simulates QueueResult_simulates QueueResultSessionIndependent_simulates
        outbox_simulates AcceptReceipt_simulates Requeue_simulates)

text \<open>A run: each call either succeeds and moves the store, or fails and leaves it. The trace keeps the calls
  that succeeded.\<close>

fun jrun ::
  "crypto \<Rightarrow> (bytes \<Rightarrow> DesiredState option) \<Rightarrow> (string \<Rightarrow> bool \<Rightarrow> bytes) \<Rightarrow> jop list \<Rightarrow> Store \<Rightarrow> Store \<times> jop list" where
  "jrun k decode nack [] s = (s, [])"
| "jrun k decode nack (c # cs) s =
     (case jexec k decode nack c s of
        Inl _ \<Rightarrow> jrun k decode nack cs s
      | Inr s1 \<Rightarrow> (let (s', done) = jrun k decode nack cs s1 in (s', c # done)))"

lemma jrun_simulates:
  "journal_ok s \<Longrightarrow> list_all jop_plain cs \<Longrightarrow> simulates s (fst (jrun k decode nack cs s))"
proof (induction cs arbitrary: s)
  case (Cons c cs)
  show ?case
  proof (cases "jexec k decode nack c s")
    case (Inl e)
    with Cons show ?thesis by simp
  next
    case (Inr s1)
    with jexec_simulates [OF Inr] Cons.prems have "simulates s s1" by simp
    with Cons Inr show ?thesis
      by (auto simp: split_beta Let_def simulates_def intro: rtranclp_trans)
  qed
qed (simp add: simulates_refl)

section \<open>What the abstract machine guarantees\<close>

lemma inbox_steps: "ValidateFSMTransition ''inbox'' p q = Inr () \<Longrightarrow>
  (p, q) \<in> {(phaseReceived, phaseIntentPersisted), (phaseIntentPersisted, phaseApplying),
    (phaseApplying, phaseApplied), (phaseApplying, phaseNacked)}"
  by (simp add: ValidateFSMTransition_def frozenFSMs_def split: if_splits)

lemma outbox_steps: "ValidateFSMTransition ''outbox'' p q = Inr () \<Longrightarrow>
  (p, q) \<in> {(phasePending, phaseClaimed), (phaseClaimed, phaseSent), (phaseSent, phaseSemanticACKed),
    (phaseSemanticACKed, ''RECEIPTED''), (''RECEIPTED'', ''GC'')}"
  by (simp add: ValidateFSMTransition_def frozenFSMs_def split: if_splits)

definition outbox_phases :: "string set" where
  "outbox_phases = {phasePending, phaseClaimed, phaseSent, phaseSemanticACKed}"

definition op_inv :: "opview \<Rightarrow> bool" where
  "op_inv v \<longleftrightarrow>
     (v_receipt v \<noteq> None \<longrightarrow> v_phase v = None \<and> v_result v = None \<and> v_out v = None) \<and>
     (v_phase v = Some phaseApplied \<longrightarrow> v_out v \<noteq> None) \<and>
     (\<forall>p r. v_out v = Some (p, r) \<longrightarrow> v_result v = Some r \<and> p \<in> outbox_phases)"

definition fresh_op :: "opview \<Rightarrow> bool" where
  "fresh_op v \<longleftrightarrow> v = \<lparr> v_phase = None, v_result = None, v_out = None, v_receipt = None \<rparr>"

lemma op_inv_step: "ostep v v' \<Longrightarrow> op_inv v \<Longrightarrow> op_inv v'"
  by (induction rule: ostep.induct)
    (auto simp: op_inv_def outbox_phases_def dest!: outbox_steps)

interpretation jmach: step_system fresh_op ostep op_inv
proof unfold_locales
  show "fresh_op v \<Longrightarrow> op_inv v" for v by (simp add: fresh_op_def op_inv_def)
  show "op_inv v \<Longrightarrow> ostep v v' \<Longrightarrow> op_inv v'" for v v' by (rule op_inv_step)
qed

definition op_rank :: "opview \<Rightarrow> nat" where
  "op_rank v = (if v_receipt v \<noteq> None then 5 else case v_phase v of None \<Rightarrow> 0
     | Some p \<Rightarrow> if p = phaseReceived then 1 else if p = phaseIntentPersisted then 2
         else if p = phaseApplying then 3 else 4)"

lemma op_rank_step: "ostep v v' \<Longrightarrow> op_rank v \<le> op_rank v'"
  by (induction rule: ostep.induct) (auto simp: op_rank_def dest!: inbox_steps split: option.splits)

lemma op_rank_run: "ostep\<^sup>*\<^sup>* v v' \<Longrightarrow> op_rank v \<le> op_rank v'"
  by (induction rule: rtranclp_induct) (auto dest: op_rank_step)

definition keeps_result :: "bytes \<Rightarrow> opview \<Rightarrow> bool" where
  "keeps_result r v \<longleftrightarrow> v_result v = Some r \<or> v_receipt v = Some r"

lemma keeps_result_step: "ostep v v' \<Longrightarrow> op_inv v \<Longrightarrow> keeps_result r v \<Longrightarrow> keeps_result r v'"
  by (induction rule: ostep.induct) (auto simp: keeps_result_def op_inv_def)

lemma keeps_result_run: "ostep\<^sup>*\<^sup>* v v' \<Longrightarrow> op_inv v \<Longrightarrow> keeps_result r v \<Longrightarrow> keeps_result r v'"
  using jmach.stable_run [of "keeps_result r" v v'] keeps_result_step by blast

section \<open>Properties\<close>

fun is_applying :: "string \<Rightarrow> jop \<Rightarrow> bool" where
  "is_applying op (JApplying e sid op') = (op' = op)"
| "is_applying op _ = False"

lemma view_empty: "fresh_op (view empty_store op)"
  by (simp add: view_def empty_store_def fresh_op_def phase_of_def raw_of_def)

lemma empty_journal_ok: "journal_ok empty_store"
  by (simp add: journal_ok_def store_ok_def typed_ops_def empty_store_def bucket_ok_def)

lemma simulates_op:
  "simulates s s' \<Longrightarrow> plain_id op \<Longrightarrow> op_inv (view s op) \<Longrightarrow> op_inv (view s' op) \<and> op_rank (view s op) \<le> op_rank (view s' op)"
  by (auto simp: simulates_def intro: jmach.inv_run op_rank_run)

lemma MarkOperationApplying_rank:
  assumes "MarkOperationApplying e sid op s = Inr s'" "journal_ok s" "plain_id op" "op_inv (view s op)"
  shows "op_rank (view s op) = 2" "op_rank (view s' op) \<ge> 3"
proof -
  from assms(1) obtain j j' where j: "bget (ls_ops s) (opJournalKey op) = Some (OpJournal j)"
    "oj_Phase j = phaseIntentPersisted" "putOperationJournal op j' s = Inr s'" "oj_Phase j' = phaseApplying"
    by (auto simp: MarkOperationApplying_def with_phase_Inr Let_def split: if_splits)
  have "v_phase (view s op) = Some phaseIntentPersisted" using view_phase [OF j(1)] j(2) by simp
  with assms(4) show "op_rank (view s op) = 2" by (auto simp: op_rank_def op_inv_def)
  have "v_phase (view s' op) = Some phaseApplying"
    using put_journal_view [OF j(3) assms(2,3)] j(4) by simp
  then show "op_rank (view s' op) \<ge> 3" by (simp add: op_rank_def)
qed

lemma applying_at_most_once:
  "journal_ok s \<Longrightarrow> list_all jop_plain cs \<Longrightarrow> plain_id op \<Longrightarrow> op_inv (view s op) \<Longrightarrow>
     length (filter (is_applying op) (snd (jrun k decode nack cs s))) \<le> (if op_rank (view s op) \<le> 2 then 1 else 0)"
proof (induction cs arbitrary: s)
  case (Cons c cs)
  show ?case
  proof (cases "jexec k decode nack c s")
    case (Inl e)
    with Cons show ?thesis by simp
  next
    case (Inr s1)
    have sim: "simulates s s1" using jexec_simulates [OF Inr] Cons.prems by simp
    then have ok1: "journal_ok s1" by (simp add: simulates_def)
    note inv1 = simulates_op [OF sim Cons.prems(3,4)]
    let ?rest = "filter (is_applying op) (snd (jrun k decode nack cs s1))"
    have IH: "length ?rest \<le> (if op_rank (view s1 op) \<le> 2 then 1 else 0)"
      using Cons.IH [OF ok1] Cons.prems inv1 by simp
    show ?thesis
    proof (cases "is_applying op c")
      case True
      then obtain e sid where "c = JApplying e sid op" by (cases c) auto
      with Inr MarkOperationApplying_rank [of e sid op s s1] Cons.prems have
        "op_rank (view s op) = 2" "op_rank (view s1 op) \<ge> 3" by simp_all
      with True Inr IH show ?thesis by (simp add: split_beta Let_def)
    next
      case False
      with Inr IH inv1 show ?thesis by (auto simp: split_beta Let_def split: if_splits)
    qed
  qed
qed simp

lemma jrun_plain: "list_all jop_plain cs \<Longrightarrow> c \<in> set (snd (jrun k decode nack cs s)) \<Longrightarrow> jop_plain c"
  by (induction cs arbitrary: s) (auto simp: split_beta Let_def split: sum.splits)


lemma receipt_step: "ostep v v' \<Longrightarrow> op_inv v \<Longrightarrow> v_receipt v = Some r \<Longrightarrow> v_receipt v' = Some r"
  by (induction rule: ostep.induct) (auto simp: op_inv_def)

lemma receipt_run: "ostep\<^sup>*\<^sup>* v v' \<Longrightarrow> op_inv v \<Longrightarrow> v_receipt v = Some r \<Longrightarrow> v_receipt v' = Some r"
  using jmach.stable_run [of "\<lambda>v. v_receipt v = Some r" v v'] receipt_step by blast

lemma jrun_op_inv:
  "list_all jop_plain cs \<Longrightarrow> plain_id op \<Longrightarrow> op_inv (view (fst (jrun k decode nack cs empty_store)) op)"
  using jrun_simulates [OF empty_journal_ok, of cs k decode nack] view_empty [of op]
  by (auto simp: simulates_def intro: jmach.inv_reachable)

fun jop_session :: "jop \<Rightarrow> (u64 \<times> string) option" where
  "jop_session (JAdvance e sid) = None"
| "jop_session (JReceive now e sid op mid mt payload kind) = Some (e, sid)"
| "jop_session (JReceiveHash now e sid op mid mt h kind) = Some (e, sid)"
| "jop_session (JCompleteRecovered e sid op) = Some (e, sid)"
| "jop_session (JIntent e sid op) = Some (e, sid)"
| "jop_session (JApplying e sid op) = Some (e, sid)"
| "jop_session (JRecover now e sid) = Some (e, sid)"
| "jop_session (JComplete e sid op r) = Some (e, sid)"
| "jop_session (JNack e sid op reason) = Some (e, sid)"
| "jop_session (JNackResult e sid op reason r) = Some (e, sid)"
| "jop_session (JQueueNacked e sid op) = Some (e, sid)"
| "jop_session (JQueue e sid op r) = Some (e, sid)"
| "jop_session (JQueueFree op r) = None"
| "jop_session (JClaim e sid op) = Some (e, sid)"
| "jop_session (JSent e sid op) = Some (e, sid)"
| "jop_session (JAck e sid op) = Some (e, sid)"
| "jop_session (JReceipt e sid op) = Some (e, sid)"
| "jop_session (JRequeue e sid) = Some (e, sid)"

lemma with_phase_session: "with_phase e sid op want f s = Inr s' \<Longrightarrow> CurrentSession s = (e, sid)"
  by (auto simp: with_phase_def ebind_Inr_iff checkSession_iff)

lemma receive_session: "receiveCommandTx now e sid op mid mt h kind p pp links s = Inr r \<Longrightarrow> CurrentSession s = (e, sid)"
  by (auto simp: receiveCommandTx_def ebind_Inr_iff checkSession_iff)

lemma outbox_step_session: "outbox_step p q e sid op s = Inr s' \<Longrightarrow> CurrentSession s = (e, sid)"
  by (auto simp: outbox_step_def ebind_Inr_iff checkSession_iff)

lemma jexec_session: "jexec k decode nack c s = Inr s' \<Longrightarrow> jop_session c = Some es \<Longrightarrow> CurrentSession s = es"
  by (cases c)
    (auto simp: ReceiveCommand_def ReceiveCommandWithPayloadStatus_def CompleteRecoveredDeletion_def
      PersistOperationIntent_def MarkOperationApplying_def RecoverApplyingOperations_def CompleteOperation_def
      NackOperation_def NackOperationWithResult_def QueueNackedResult_def QueueResult_def ClaimOutbox_def
      MarkOutboxSent_def AcceptSemanticACK_def AcceptReceipt_def RequeueOutboxForSession_def Let_def
      ebind_Inr_iff checkSession_iff dest!: with_phase_session receive_session outbox_step_session)

text \<open>
  C1. The side effects of a command run at most once: over any sequence of journal calls, in any order and over
  any number of sessions and restarts, starting from the empty store, the transition that permits the side effects
  of an operation (\<open>MarkOperationApplying\<close>) succeeds at most once for each operation id. The operation ids of the calls
  must not start with one of the prefixes that the operation bucket reserves for other rows (\<open>op:\<close>, \<open>receipt:\<close> and the
  three decommission prefixes); the code does not check this.
\<close>

theorem journal_at_most_once:
  assumes "list_all jop_plain cs"
  shows "length (filter (is_applying op) (snd (jrun k decode nack cs empty_store))) \<le> 1"
proof (cases "plain_id op")
  case True
  then show ?thesis
    using applying_at_most_once [OF empty_journal_ok assms True, of k decode nack]
      jrun_op_inv [OF _ True, of "[]" k decode nack] by (simp split: if_splits)
next
  case False
  have "\<not> is_applying op c" if "jop_plain c" for c
    using that False by (cases c) (auto simp: jop_plain_def)
  then have "filter (is_applying op) (snd (jrun k decode nack cs empty_store)) = []"
    using jrun_plain [OF assms] by (auto simp: filter_empty_conv)
  then show ?thesis by simp
qed

text \<open>
  C4. A result is never lost before its receipt: at every moment of a run from the empty store the outbox row of
  an operation carries exactly its recorded result, an operation in phase \<open>APPLIED\<close> has an outbox row, and an
  operation with a receipt has nothing else left. Whatever is called afterwards, a recorded result stays recorded
  until a receipt with the same bytes replaces it, and a receipt stays. Again for operation ids without a reserved prefix.
\<close>

theorem journal_results_durable:
  assumes "list_all jop_plain cs" "list_all jop_plain cs'" "plain_id op"
    and "s = fst (jrun k decode nack cs empty_store)" "s' = fst (jrun k decode nack cs' s)"
  shows "(\<forall>p r. v_out (view s op) = Some (p, r) \<longrightarrow> v_result (view s op) = Some r) \<and>
    (v_phase (view s op) = Some phaseApplied \<longrightarrow> v_out (view s op) \<noteq> None) \<and>
    (v_receipt (view s op) \<noteq> None \<longrightarrow> v_phase (view s op) = None \<and> v_result (view s op) = None \<and> v_out (view s op) = None) \<and>
    (v_result (view s op) = Some r \<longrightarrow> v_result (view s' op) = Some r \<or> v_receipt (view s' op) = Some r) \<and>
    (v_receipt (view s op) = Some r \<longrightarrow> v_receipt (view s' op) = Some r)"
proof -
  have inv: "op_inv (view s op)" using jrun_op_inv [OF assms(1,3)] assms(4) by simp
  have "journal_ok s" using jrun_simulates [OF empty_journal_ok assms(1)] assms(4) by (simp add: simulates_def)
  from jrun_simulates [OF this assms(2)] assms(3,5) have run: "ostep\<^sup>*\<^sup>* (view s op) (view s' op)"
    by (simp add: simulates_def)
  show ?thesis
    using inv keeps_result_run [OF run inv, of r] receipt_run [OF run inv, of r]
    by (simp add: op_inv_def keeps_result_def)
qed

text \<open>
  C3. The journal implements its specification: a call that succeeds keeps the store well formed, moves every
  operation by steps of the abstract machine only (the inbox and outbox tables of the protocol, and nothing is
  removed but by a receipt), and, if it takes a session, succeeds only for the one the store holds as current. The
  operation ids have no reserved prefix.
\<close>

theorem journal_refines_fsm:
  assumes "jexec k decode nack c s = Inr s'" "journal_ok s" "jop_plain c"
  shows "journal_ok s' \<and> (\<forall>op. plain_id op \<longrightarrow> ostep\<^sup>*\<^sup>* (view s op) (view s' op)) \<and>
    (\<forall>es. jop_session c = Some es \<longrightarrow> CurrentSession s = es)"
  using jexec_simulates [OF assms] jexec_session [OF assms(1)] by (auto simp: simulates_def)

section \<open>The order of delivery\<close>

text \<open>
  The outbox calls of an operation, by the phase they establish. \<open>RequeueOutboxForSession\<close> concerns every row. Nothing
  else moves a row; the other calls only add a row in phase \<open>PENDING\<close> where there is none (\<open>outbox_grows\<close>).
\<close>

fun outbox_mark :: "string \<Rightarrow> jop \<Rightarrow> string option" where
  "outbox_mark op (JClaim e sid op') = (if op' = op then Some phaseClaimed else None)"
| "outbox_mark op (JSent e sid op') = (if op' = op then Some phaseSent else None)"
| "outbox_mark op (JAck e sid op') = (if op' = op then Some phaseSemanticACKed else None)"
| "outbox_mark op (JReceipt e sid op') = (if op' = op then Some ''RECEIPTED'' else None)"
| "outbox_mark op (JRequeue e sid) = Some phasePending"
| "outbox_mark op _ = None"

fun outbox_history :: "string \<Rightarrow> jop list \<Rightarrow> string list" where
  "outbox_history op [] = []"
| "outbox_history op (c # cs) =
     (case outbox_mark op c of None \<Rightarrow> outbox_history op cs | Some p \<Rightarrow> p # outbox_history op cs)"

definition delivery_moves :: "(string \<times> string) set" where
  "delivery_moves = {(phasePending, phaseClaimed), (phaseClaimed, phaseSent), (phaseSent, phaseSemanticACKed),
     (phaseSemanticACKed, ''RECEIPTED'')}"

definition outbox_grows :: "string \<Rightarrow> Store \<Rightarrow> Store \<Rightarrow> bool" where
  "outbox_grows op s s' \<longleftrightarrow> bget (ls_outbox s') op = bget (ls_outbox s) op \<or>
     bget (ls_outbox s) op = None \<and> (\<exists>r. bget (ls_outbox s') op = Some (outbox_value phasePending r))"

lemma outbox_grows_eq: "ls_outbox s' = ls_outbox s \<Longrightarrow> outbox_grows op s s'"
  by (simp add: outbox_grows_def)

lemma outbox_grows_trans: "outbox_grows op s s1 \<Longrightarrow> outbox_grows op s1 s' \<Longrightarrow> outbox_grows op s s'"
  unfolding outbox_grows_def by metis

lemma record_grows:
  "recordResultAndQueue x r s1 = Inr s' \<Longrightarrow> ls_outbox s1 = ls_outbox s \<Longrightarrow> bucket_ok (ls_outbox s) \<Longrightarrow> outbox_grows op s s'"
  by (auto simp: recordResultAndQueue_def outbox_grows_def ebind_Inr_iff bput_Inr_iff split: if_splits)

lemma other_row_grows:
  "x \<noteq> op \<Longrightarrow> bucket_ok (ls_outbox s) \<Longrightarrow> outbox_grows op s (s\<lparr>ls_outbox := bins x v (ls_outbox s)\<rparr>)"
  by (simp add: outbox_grows_def)

lemma put_journal_outbox: "putOperationJournal op j s = Inr s' \<Longrightarrow> ls_outbox s' = ls_outbox s"
  by (auto simp: putOperationJournal_Inr)

lemma put_fences_outbox: "put_fences now links s = Inr s' \<Longrightarrow> ls_outbox s' = ls_outbox s"
proof (induction now links s rule: put_fences.induct)
  case (2 now link links s)
  have put: "ls_outbox t = ls_outbox s" if "putForwardDeleteIntentTx i s = Inr (t, b)" for i t b
    using that by (auto simp: putForwardDeleteIntentTx_def ebind_Inr_iff split: option.splits row.splits if_splits)
  show ?case
    using 2 put by (cases "putForwardDeleteIntentTx (intent_of_link now link) s") (auto split: if_splits)
qed simp

lemma receive_outbox:
  "receiveCommandTx now e sid op mid mt h kind payload present links s = Inr (s', out) \<Longrightarrow> ls_outbox s' = ls_outbox s"
  by (auto simp: receiveCommandTx_def receive_duplicate_def ebind_Inr_iff Let_def split: option.splits row.splits if_splits
      dest!: put_fences_outbox put_journal_outbox)

lemma AdvanceSession_outbox: "AdvanceSession e sid s = Inr s' \<Longrightarrow> ls_outbox s' = ls_outbox s"
  by (auto simp: AdvanceSession_def CurrentSession_def ebind_Inr_iff split: if_splits)

lemma recover_one_grows:
  assumes "recover_one nack now x s = Inr s'" "bucket_ok (ls_outbox s)"
  shows "outbox_grows op s s'"
proof -
  from assms(1) consider "s' = s" | j s1 s2 where "put_fences now (oj_ForwardDeletions j) s = Inr s1"
      "putOperationJournal x (j\<lparr>oj_Phase := phaseNacked, oj_Reason := recoveredReason\<rparr>) s1 = Inr s2"
      "recordResultAndQueue x (nack recoveredReason True) s2 = Inr s'"
    by (auto simp: recover_one_def ebind_Inr_iff split: option.splits if_splits)
  then show ?thesis
    by cases (auto simp: outbox_grows_eq dest!: put_fences_outbox put_journal_outbox intro: record_grows assms(2))
qed

lemma recover_all_grows:
  "recover_all nack now ids s = Inr s' \<Longrightarrow> journal_ok s \<Longrightarrow> \<forall>x \<in> set ids. plain_id x \<Longrightarrow> outbox_grows op s s'"
proof (induction ids arbitrary: s)
  case (Cons x ids)
  then obtain s1 where s1: "recover_one nack now x s = Inr s1" "recover_all nack now ids s1 = Inr s'"
    by (auto simp: ebind_Inr_iff)
  have "outbox_grows op s s1" by (rule recover_one_grows [OF s1(1) journal_okD(2) [OF Cons.prems(2)]])
  moreover from recover_one_simulates [OF s1(1)] Cons.prems have "journal_ok s1" by (simp add: simulates_def)
  ultimately show ?case using Cons.IH [OF s1(2)] Cons.prems(3) by (auto intro: outbox_grows_trans)
qed (simp add: outbox_grows_def)

lemma with_phase_result: "with_phase e sid op want f s = Inr s' \<Longrightarrow> \<exists>j. f j = Inr s'"
  by (auto simp: with_phase_def ebind_Inr_iff split: option.splits if_splits)

lemma outbox_step_Inr:
  assumes "outbox_step p q e sid op s = Inr s'" "p \<noteq> []"
  shows "OutboxState op s = Some p \<and> (\<exists>r. s' = s\<lparr>ls_outbox := bins op (outbox_value q r) (ls_outbox s)\<rparr>)"
  using assms
  by (cases "bget (ls_outbox s) op")
    (auto simp: outbox_step_def OutboxState_def ebind_Inr_iff bput_Inr_iff splitOutboxValue_def split: if_splits)

lemma unmarked_grows:
  assumes "jexec k decode nack c s = Inr s'" "journal_ok s" "outbox_mark op c = None"
  shows "outbox_grows op s s'"
proof -
  note ok = journal_okD(2) [OF assms(2)]
  show ?thesis
  proof (cases c)
    case (JRecover now e sid)
    with assms(1) obtain ids where ids: "recovering_ids (ls_ops s) = Inr ids" "recover_all nack now ids s = Inr s'"
      by (auto simp: RecoverApplyingOperations_def ebind_Inr_iff)
    have "plain_id x" if "x \<in> set ids" for x
      using recovering_ids_plain [OF ids(1) that] journal_okD(4) [OF assms(2)]
      by (metis map_of_eq_None_iff not_Some_eq typed_ops_def)
    then show ?thesis using recover_all_grows [OF ids(2) assms(2)] by blast
  next
    case (JReceipt e sid x)
    with assms(1) show ?thesis using assms(3) ok by (auto elim!: AcceptReceipt_Inr simp: outbox_grows_def split: if_splits)
  qed (use assms ok in \<open>auto simp: ReceiveCommand_def ReceiveCommandWithPayloadStatus_def CompleteRecoveredDeletion_def
      PersistOperationIntent_def MarkOperationApplying_def CompleteOperation_def NackOperation_def NackOperationWithResult_def
      QueueNackedResult_def QueueResult_def QueueResultSessionIndependent_def ClaimOutbox_def MarkOutboxSent_def
      AcceptSemanticACK_def outbox_step_def ebind_Inr_iff bput_Inr_iff outbox_grows_eq other_row_grows Let_def intro: record_grows
      split: if_splits prod.splits option.splits
      dest!: receive_outbox AdvanceSession_outbox with_phase_result put_journal_outbox\<close>)
qed

text \<open>
  What the history of an operation says about its row: the moves so far are moves of the protocol or a return to
  \<open>PENDING\<close>, a row is in the phase of the last move, and a row that is gone was never claimed since or has its receipt.
\<close>

abbreviation delivery_ok :: "string list \<Rightarrow> bool" where
  "delivery_ok h \<equiv> successively (\<lambda>x y. y = phasePending \<or> (x, y) \<in> delivery_moves) (phasePending # h)"

definition delivery_inv :: "string \<Rightarrow> string list \<Rightarrow> Store \<Rightarrow> bool" where
  "delivery_inv op h s \<longleftrightarrow> delivery_ok h \<and>
     (case OutboxState op s of Some p \<Rightarrow> p = last (phasePending # h) | None \<Rightarrow> last (phasePending # h) \<in> {phasePending, ''RECEIPTED''}) \<and>
     (''RECEIPTED'' \<in> set h \<longrightarrow> v_receipt (view s op) \<noteq> None) \<and>
     (\<forall>xs ys. h = xs @ ''RECEIPTED'' # ys \<longrightarrow> set ys \<subseteq> {phasePending})"

lemma OutboxState_view: "OutboxState op s = map_option fst (v_out (view s op))"
  by (simp add: OutboxState_def view_def option.map_comp comp_def)

lemma delivery_ok_snoc:
  "delivery_ok (h @ [p]) \<longleftrightarrow> delivery_ok h \<and> (p = phasePending \<or> (last (phasePending # h), p) \<in> delivery_moves)"
  using successively_append_iff [of _ "phasePending # h" "[p]"] by auto

lemma delivery_move:
  assumes "delivery_inv op h s" "op_inv (view s op)" "OutboxState op s = Some p" "(p, q) \<in> delivery_moves"
    and "q = ''RECEIPTED'' \<Longrightarrow> v_receipt (view s' op) \<noteq> None"
    and "OutboxState op s' = (if q = ''RECEIPTED'' then None else Some q)"
  shows "delivery_inv op (h @ [q]) s'"
proof -
  have "''RECEIPTED'' \<notin> set h" using assms(1-3) by (auto simp: delivery_inv_def OutboxState_view op_inv_def)
  then have "h @ [q] = xs @ ''RECEIPTED'' # ys \<Longrightarrow> ys = [] \<and> q = ''RECEIPTED''" for xs ys
    by (cases ys rule: rev_cases) auto
  moreover have "last (phasePending # h) = p" using assms(1,3) by (simp add: delivery_inv_def)
  ultimately show ?thesis
    using assms(1,4-6) \<open>''RECEIPTED'' \<notin> set h\<close> unfolding delivery_inv_def delivery_ok_snoc by auto
qed

lemma delivery_requeue:
  assumes "delivery_inv op h s" "RequeueOutboxForSession e sid s = Inr (s', n)"
  shows "delivery_inv op (h @ [phasePending]) s'"
proof -
  have s': "s' = s\<lparr>ls_outbox := map (\<lambda>(op, v). (op, requeue_value v)) (ls_outbox s)\<rparr>"
    using assms(2) by (auto simp: RequeueOutboxForSession_def ebind_Inr_iff)
  have out: "OutboxState op s' \<in> {None, Some phasePending}" "v_receipt (view s' op) = v_receipt (view s op)"
    by (cases "bget (ls_outbox s) op"; simp add: s' OutboxState_def map_of_requeue split_requeue view_def)+
  have "set ys \<subseteq> {phasePending}" if "h @ [phasePending] = xs @ ''RECEIPTED'' # ys" for xs ys
    using that assms(1) by (cases ys rule: rev_cases) (auto simp: delivery_inv_def)
  with assms(1) out show ?thesis unfolding delivery_inv_def delivery_ok_snoc by auto
qed

lemma delivery_step:
  assumes "jexec k decode nack c s = Inr s'" "journal_ok s" "jop_plain c" "plain_id op"
    and "op_inv (view s op)" "delivery_inv op h s"
  shows "delivery_inv op (h @ (case outbox_mark op c of None \<Rightarrow> [] | Some p \<Rightarrow> [p])) s'"
proof -
  note ok = journal_okD(2) [OF assms(2)]
  from jexec_simulates [OF assms(1-3)] assms(4) have run: "ostep\<^sup>*\<^sup>* (view s op) (view s' op)" by (simp add: simulates_def)
  have inv': "op_inv (view s' op)" using run assms(5) by (induction rule: rtranclp_induct) (auto intro: op_inv_step)
  have keep: "v_receipt (view s' op) \<noteq> None" if "v_receipt (view s op) \<noteq> None"
    using that receipt_run [OF run assms(5)] by fastforce
  have move: "delivery_inv op (h @ [q]) s'" if "outbox_step p q e sid op s = Inr s'" "(p, q) \<in> delivery_moves" "q \<noteq> ''RECEIPTED''"
    for p q e sid
  proof -
    have pq: "p \<noteq> []" "splitOutboxValue (Some (outbox_value q r)) = (q, r)" for r using that(2,3) by (auto simp: delivery_moves_def)
    from outbox_step_Inr [OF that(1) pq(1)] have "OutboxState op s = Some p" "OutboxState op s' = Some q"
      using ok pq(2) by (auto simp: OutboxState_def)
    then show ?thesis using delivery_move [OF assms(6,5)] that(2,3) by simp
  qed
  show ?thesis
  proof (cases "outbox_mark op c")
    case None
    from unmarked_grows [OF assms(1,2) None] consider "OutboxState op s' = OutboxState op s"
      | "OutboxState op s = None" "OutboxState op s' = Some phasePending"
      by (auto simp: outbox_grows_def OutboxState_def)
    then show ?thesis
    proof cases
      case 2
      then have "''RECEIPTED'' \<notin> set h" using assms(6) keep inv' by (auto simp: delivery_inv_def OutboxState_view op_inv_def)
      then have "last h \<noteq> ''RECEIPTED''" if "h \<noteq> []" using that last_in_set by metis
      with \<open>''RECEIPTED'' \<notin> set h\<close> show ?thesis using 2 assms(6) None by (auto simp: delivery_inv_def split: if_splits)
    qed (use assms(6) keep None in \<open>auto simp: delivery_inv_def\<close>)
  next
    case (Some p)
    then show ?thesis
    proof (cases c)
      case (JReceipt e sid x)
      with Some assms(1) have r: "AcceptReceipt e sid op s = Inr s'" "p = ''RECEIPTED''" by (auto split: if_splits)
      from r(1) have "OutboxState op s = Some phaseSemanticACKed" "OutboxState op s' = None" "v_receipt (view s' op) \<noteq> None"
        using journal_okD(1) [OF assms(2)] assms(4)
        by (auto elim!: AcceptReceipt_Inr simp: OutboxState_def view_def raw_of_def)
      then show ?thesis using delivery_move [OF assms(6,5)] Some r(2) by (simp add: delivery_moves_def)
    next
      case (JRequeue e sid)
      with Some assms(1) delivery_requeue [OF assms(6)] show ?thesis by (auto simp: ebind_Inr_iff)
    qed (use Some assms(1) move in \<open>auto simp: ClaimOutbox_def MarkOutboxSent_def AcceptSemanticACK_def delivery_moves_def
        split: if_splits\<close>)
  qed
qed

lemma delivery_run:
  assumes "jrun k decode nack cs s = (s', calls)" "journal_ok s" "list_all jop_plain cs" "plain_id op"
    and "op_inv (view s op)" "delivery_inv op h s"
  shows "delivery_inv op (h @ outbox_history op calls) s'"
  using assms
proof (induction cs arbitrary: s h calls)
  case (Cons c cs)
  show ?case
  proof (cases "jexec k decode nack c s")
    case (Inl e)
    with Cons show ?thesis by simp
  next
    case (Inr s1)
    then obtain calls1 where d: "jrun k decode nack cs s1 = (s', calls1)" "calls = c # calls1"
      using Cons.prems(1) by (auto split: prod.splits)
    have c: "jop_plain c" "list_all jop_plain cs" using Cons.prems(3) by simp_all
    from jexec_simulates [OF Inr Cons.prems(2) c(1)] have ok: "journal_ok s1" "ostep\<^sup>*\<^sup>* (view s op) (view s1 op)"
      using Cons.prems(4) by (simp_all add: simulates_def)
    have "op_inv (view s1 op)" using ok(2) Cons.prems(5) by (induction rule: rtranclp_induct) (auto intro: op_inv_step)
    from Cons.IH [OF d(1) ok(1) c(2) Cons.prems(4) this delivery_step [OF Inr Cons.prems(2) c(1) Cons.prems(4-6)]]
    show ?thesis by (simp add: d(2) split: option.splits)
  qed
qed simp

lemma delivery_pred:
  assumes "delivery_ok (h @ [q])" "(p, q) \<in> delivery_moves"
  shows "last (phasePending # h) = p" "p \<noteq> phasePending \<Longrightarrow> \<exists>h'. h = h' @ [p] \<and> delivery_ok (h' @ [p])"
proof -
  have "q \<noteq> phasePending" using assms(2) by (auto simp: delivery_moves_def)
  then have "(last (phasePending # h), q) \<in> delivery_moves" using assms(1) unfolding delivery_ok_snoc by simp
  with assms(2) show l: "last (phasePending # h) = p" by (auto simp: delivery_moves_def simp del: last.simps)
  show "\<exists>h'. h = h' @ [p] \<and> delivery_ok (h' @ [p])" if "p \<noteq> phasePending"
    using assms(1) [unfolded delivery_ok_snoc] l that by (cases h rule: rev_cases) auto
qed

lemma receipt_pred:
  assumes "delivery_ok (xs @ [''RECEIPTED''])"
  shows "\<exists>zs. phasePending # xs = zs @ [phasePending, phaseClaimed, phaseSent, phaseSemanticACKed]"
proof -
  obtain a where a: "xs = a @ [phaseSemanticACKed]" "delivery_ok (a @ [phaseSemanticACKed])"
    using delivery_pred(2) [OF assms, of phaseSemanticACKed] by (auto simp: delivery_moves_def)
  obtain b where b: "a = b @ [phaseSent]" "delivery_ok (b @ [phaseSent])"
    using delivery_pred(2) [OF a(2), of phaseSent] by (auto simp: delivery_moves_def)
  obtain d where d: "b = d @ [phaseClaimed]" "delivery_ok (d @ [phaseClaimed])"
    using delivery_pred(2) [OF b(2), of phaseClaimed] by (auto simp: delivery_moves_def)
  have "last (phasePending # d) = phasePending"
    using delivery_pred(1) [OF d(2), of phasePending] by (simp add: delivery_moves_def)
  then have "phasePending # d = butlast (phasePending # d) @ [phasePending]"
    by (metis append_butlast_last_id list.distinct(1))
  then show ?thesis unfolding a(1) b(1) d(1) by (intro exI [of _ "butlast (phasePending # d)"]) (metis append.assoc append_Cons append_Nil)
qed

lemma moves_are_table:
  "x \<noteq> ''RECEIPTED'' \<Longrightarrow> (x, y) \<in> delivery_moves \<longleftrightarrow> ValidateFSMTransition ''outbox'' x y = Inr ()"
  by (auto simp: delivery_moves_def transition_iff ValidFSMState_def frozenFSMs_def frozenFSMStates_def)

text \<open>
  C23. A result is delivered in the order of the protocol. Take any run of the journal from the empty store, over any
  sessions and restarts, in which operation ids do not start with a reserved prefix of the operation bucket, and
  the sequence of the outbox calls of one operation that succeeded. Each call moves the row from the phase that the
  previous one left to the next phase of the protocol's table (\<open>PENDING\<close>, \<open>CLAIMED\<close>, \<open>SENT\<close>, \<open>SEMANTIC_ACKED\<close>,
  \<open>RECEIPTED\<close>, in single steps), except that a requeue takes it back to \<open>PENDING\<close>. The row that is stored is in the
  phase of the last call. A receipt is accepted only right after claim, send and acknowledgement, in this order and since
  the last requeue, and afterwards the operation is never claimed, sent, acknowledged or receipted again. Apart from
  the requeue, which the table does not have, these are exactly the moves of the table.
\<close>

theorem outbox_delivery_order:
  assumes "list_all jop_plain cs" "plain_id op" "jrun k decode nack cs empty_store = (s, calls)"
  shows "successively (\<lambda>x y. y = phasePending \<or> (x, y) \<in> delivery_moves) (phasePending # outbox_history op calls) \<and>
    (\<forall>p. OutboxState op s = Some p \<longrightarrow> p = last (phasePending # outbox_history op calls)) \<and>
    (\<forall>xs ys. outbox_history op calls = xs @ ''RECEIPTED'' # ys \<longrightarrow> set ys \<subseteq> {phasePending} \<and>
       (\<exists>zs. phasePending # xs = zs @ [phasePending, phaseClaimed, phaseSent, phaseSemanticACKed])) \<and>
    (\<forall>x y. x \<noteq> ''RECEIPTED'' \<longrightarrow> ((x, y) \<in> delivery_moves \<longleftrightarrow> ValidateFSMTransition ''outbox'' x y = Inr ()))"
proof -
  have "op_inv (view empty_store op)" using jrun_op_inv [OF _ assms(2), of "[]"] by simp
  moreover have "delivery_inv op [] empty_store" by (simp add: delivery_inv_def OutboxState_def empty_store_def)
  ultimately have inv: "delivery_inv op (outbox_history op calls) s"
    using delivery_run [OF assms(3) empty_journal_ok assms(1,2), of "[]"] by simp
  have "\<exists>zs. phasePending # xs = zs @ [phasePending, phaseClaimed, phaseSent, phaseSemanticACKed]"
    if "outbox_history op calls = xs @ ''RECEIPTED'' # ys" for xs ys
  proof (rule receipt_pred)
    have "delivery_ok ((xs @ [''RECEIPTED'']) @ ys)" using inv that by (simp add: delivery_inv_def)
    then show "delivery_ok (xs @ [''RECEIPTED''])"
      using successively_append_iff [of _ "phasePending # xs @ [''RECEIPTED'']" ys] by simp
  qed
  with inv show ?thesis using moves_are_table by (auto simp: delivery_inv_def)
qed

section \<open>Witnesses\<close>

definition demo_run :: "jop list" where
  "demo_run = [JAdvance 1 ''s'', JReceiveHash 5 1 ''s'' ''a'' ''m'' ''probe'' ''h'' ''probe'', JIntent 1 ''s'' ''a'',
     JApplying 1 ''s'' ''a'', JApplying 1 ''s'' ''a'']"

definition demo_rest :: "jop list" where
  "demo_rest = [JComplete 1 ''s'' ''a'' [7], JClaim 1 ''s'' ''a'', JSent 1 ''s'' ''a'',
     JAck 1 ''s'' ''a'', JReceipt 1 ''s'' ''a'']"

lemma demo_plain: "list_all jop_plain demo_run" "list_all jop_plain demo_rest" "plain_id ''a''"
  by (simp_all add: demo_run_def demo_rest_def jop_plain_def plain_id_def reserved_prefixes_def)

lemmas journal_eval = jrun.simps jexec.simps AdvanceSession_def CurrentSession_def checkSession_def decodeEpoch_def
  encodeEpoch_def string_of_value_def bput_def ensure_def ebind_def ReceiveCommand_def receiveCommandTx_def
  putOperationJournal_def loadOperationJournal_def with_phase_def PersistOperationIntent_def
  MarkOperationApplying_def CompleteOperation_def recordResultAndQueue_def empty_store_def opJournalKey_def
  receiptKey_def keyOpJournal_def keyReceipt_def put_fences.simps ClaimOutbox_def MarkOutboxSent_def
  AcceptSemanticACK_def outbox_step_def AcceptReceipt_def bdel_def

definition demo_store :: "string \<Rightarrow> Store" where
  "demo_store phase = empty_store\<lparr>ls_epochs := [(''current_epoch'', put_u64 1), (''current_session'', str_bytes ''s'')],
     ls_inbox := [(''m'', Row \<lparr> ib_MessageType = ''probe'', ib_PayloadHash = ''h'', ib_OperationID = ''a'' \<rparr>)],
     ls_ops := [(''op:a'', OpJournal \<lparr> oj_Kind = ''probe'', oj_MessageID = ''m'', oj_Phase = phase, oj_Reason = [],
       oj_Payload = [], oj_PayloadPresent = False, oj_RecoveredDeletionPending = False, oj_ForwardDeletions = [] \<rparr>)]\<rparr>"

lemma demo_open:
  "jexec k decode nack (JAdvance 1 ''s'') empty_store = Inr (empty_store\<lparr>ls_epochs := ls_epochs (demo_store [])\<rparr>)"
  "jexec k decode nack (JReceiveHash 5 1 ''s'' ''a'' ''m'' ''probe'' ''h'' ''probe'')
     (empty_store\<lparr>ls_epochs := ls_epochs (demo_store [])\<rparr>) = Inr (demo_store phaseReceived)"
  by (simp_all add: demo_store_def journal_eval)

lemma demo_inbox:
  "jexec k decode nack (JIntent 1 ''s'' ''a'') (demo_store phaseReceived) = Inr (demo_store phaseIntentPersisted)"
  "jexec k decode nack (JApplying 1 ''s'' ''a'') (demo_store phaseIntentPersisted) = Inr (demo_store phaseApplying)"
  "jexec k decode nack (JApplying 1 ''s'' ''a'') (demo_store phaseApplying) = Inl ErrIllegalPhase"
  by (simp_all add: demo_store_def journal_eval)

lemma demo_run_eval: "jrun k decode nack demo_run empty_store = (demo_store phaseApplying, butlast demo_run)"
  by (simp add: demo_run_def demo_open demo_inbox del: jexec.simps)

theorem journal_at_most_once_witness:
  "list_all jop_plain demo_run \<and>
   length (filter (is_applying ''a'') (snd (jrun demo_crypto (\<lambda>_. None) (\<lambda>_ _. []) demo_run empty_store))) \<le> 1 \<and>
   filter (is_applying ''a'') (snd (jrun demo_crypto (\<lambda>_. None) (\<lambda>_ _. []) demo_run empty_store)) \<noteq> []"
  using journal_at_most_once [OF demo_plain(1), of "''a''" demo_crypto "\<lambda>_. None" "\<lambda>_ _. []"] demo_plain(1)
  by (simp add: demo_run_eval) (simp add: demo_run_def)

definition demo_out :: "string \<Rightarrow> Store" where
  "demo_out phase = (demo_store phaseApplied)\<lparr>ls_ops := (''a'', OpRaw [7]) # ls_ops (demo_store phaseApplied),
     ls_outbox := [(''a'', outbox_value phase [7])]\<rparr>"

definition demo_done :: Store where
  "demo_done = empty_store\<lparr>ls_epochs := ls_epochs (demo_store []), ls_ops := [(''receipt:a'', OpRaw [7])]\<rparr>"

lemma demo_outbox:
  "jexec k decode nack (JComplete 1 ''s'' ''a'' [7]) (demo_store phaseApplying) = Inr (demo_out phasePending)"
  "jexec k decode nack (JClaim 1 ''s'' ''a'') (demo_out phasePending) = Inr (demo_out phaseClaimed)"
  "jexec k decode nack (JSent 1 ''s'' ''a'') (demo_out phaseClaimed) = Inr (demo_out phaseSent)"
  "jexec k decode nack (JAck 1 ''s'' ''a'') (demo_out phaseSent) = Inr (demo_out phaseSemanticACKed)"
  "jexec k decode nack (JReceipt 1 ''s'' ''a'') (demo_out phaseSemanticACKed) = Inr demo_done"
  by (simp_all add: demo_out_def demo_store_def demo_done_def journal_eval)

lemma demo_rest_eval:
  "fst (jrun k decode nack [JComplete 1 ''s'' ''a'' [7]] (demo_store phaseApplying)) = demo_out phasePending"
  "fst (jrun k decode nack (tl demo_rest) (demo_out phasePending)) = demo_done"
  by (simp_all add: demo_rest_def demo_outbox del: jexec.simps)

theorem journal_results_durable_witness:
  "list_all jop_plain (demo_run @ [JComplete 1 ''s'' ''a'' [7]]) \<and> v_result (view (demo_out phasePending) ''a'') = Some [7] \<and>
   v_receipt (view demo_done ''a'') = Some [7]"
proof -
  let ?run = "jrun demo_crypto (\<lambda>_. None) (\<lambda>_ _. [])"
  have plain: "list_all jop_plain (demo_run @ [JComplete 1 ''s'' ''a'' [7]])" "list_all jop_plain (tl demo_rest)"
    using demo_plain by (simp_all add: demo_rest_def)
  have s: "demo_out phasePending = fst (?run (demo_run @ [JComplete 1 ''s'' ''a'' [7]]) empty_store)"
    by (simp add: demo_run_def demo_open demo_inbox demo_outbox del: jexec.simps)
  have r: "v_result (view (demo_out phasePending) ''a'') = Some [7]" "v_result (view demo_done ''a'') = None"
    by (simp_all add: view_def demo_out_def demo_store_def demo_done_def empty_store_def raw_of_def)
  from journal_results_durable [OF plain demo_plain(3) s, of demo_done "[7]"] demo_rest_eval(2)
  show ?thesis using r plain(1) by simp
qed

theorem journal_refines_fsm_witness:
  "CurrentSession (demo_store phaseIntentPersisted) = (1, ''s'') \<and>
   ostep\<^sup>*\<^sup>* (view (demo_store phaseIntentPersisted) ''a'') (view (demo_store phaseApplying) ''a'')"
proof -
  have ok: "journal_ok (demo_store phaseIntentPersisted)"
    using jrun_simulates [OF empty_journal_ok, of "take 3 demo_run" demo_crypto "\<lambda>_. None" "\<lambda>_ _. []"] demo_plain(1)
    by (simp add: demo_run_def simulates_def demo_open demo_inbox del: jexec.simps)
  have "jop_plain (JApplying 1 ''s'' ''a'')" using demo_plain(3) by (simp add: jop_plain_def)
  from journal_refines_fsm [OF demo_inbox(2) [of demo_crypto "\<lambda>_. None" "\<lambda>_ _. []"] ok this] demo_plain(3)
  show ?thesis by simp
qed

theorem outbox_delivery_order_witness:
  "outbox_history ''a'' (snd (jrun demo_crypto (\<lambda>_. None) (\<lambda>_ _. []) (demo_run @ demo_rest) empty_store)) =
     [phaseClaimed, phaseSent, phaseSemanticACKed, ''RECEIPTED''] \<and>
   (\<exists>zs. [phasePending, phaseClaimed, phaseSent, phaseSemanticACKed] = zs @ [phasePending, phaseClaimed, phaseSent, phaseSemanticACKed])"
proof -
  let ?run = "jrun demo_crypto (\<lambda>_. None) (\<lambda>_ _. [])"
  have plain: "list_all jop_plain (demo_run @ demo_rest)" using demo_plain by simp
  have run: "?run (demo_run @ demo_rest) empty_store = (demo_done, butlast demo_run @ demo_rest)"
    by (simp add: demo_run_def demo_rest_def demo_open demo_inbox demo_outbox del: jexec.simps)
  have h: "outbox_history ''a'' (butlast demo_run @ demo_rest) = [phaseClaimed, phaseSent, phaseSemanticACKed] @ ''RECEIPTED'' # []"
    by (simp add: demo_run_def demo_rest_def)
  from outbox_delivery_order [OF plain demo_plain(3) run] h run show ?thesis by auto
qed

end
