(* ===== verification/Applied_State.thy ===== *)
theory Applied_State
  imports Agent_Journal Probe_Agent
begin

text \<open>
  \<^verbatim>\<open>src/internal/agent/localstate/applied.go\<close>, \<^verbatim>\<open>activation.go\<close>, \<^verbatim>\<open>journal_evacuation.go\<close> and
  \<^verbatim>\<open>mapping_journal.go\<close>: the received desired state, the applied record of each Forward, its activation
  mirror and its mapping journal.

  The merge of a received snapshot into the stored one is per Forward (\<open>merge_spec\<close>); the position index the
  code builds is a lookup by Forward id, because a stored snapshot has passed validation and its ids are distinct.
  A commit is one transaction: \<open>CommitDesired\<close> returns either an error, which leaves the store as it was, or the
  whole new store and the report.
\<close>

datatype ApplyOutcome = ApplyApplied | ApplyFailed | ApplyDeleted | ApplySkipped | ApplyUnknown

record ForwardApply =
  fa_ForwardID :: string
  fa_Outcome :: ApplyOutcome
  fa_Applied :: "AppliedForwardState option"
  fa_Err :: bool

datatype ApplyStatus = ApplyStatusFull | ApplyStatusPartial | ApplyStatusFailed

record ApplyReport =
  rp_Status :: ApplyStatus
  rp_AppliedCount :: nat
  rp_DeletedCount :: nat
  rp_FailedCount :: nat
  rp_FailedForwards :: "string list"

fun ApplyStatus_String :: "ApplyStatus \<Rightarrow> string" where
  "ApplyStatus_String ApplyStatusFull = ''FULL''"
| "ApplyStatus_String ApplyStatusPartial = ''PARTIAL''"
| "ApplyStatus_String ApplyStatusFailed = ''FAILED''"

section \<open>Applied records\<close>

record AppliedStateRecord =
  ap_State :: AppliedForwardState
  ap_ServingSpec :: "ForwardSpec option"

definition encodeAppliedRecord :: "AppliedForwardState \<Rightarrow> ForwardSpec \<Rightarrow> appliedRecord row" where
  "encodeAppliedRecord state spec = Row \<lparr> ar_State = state, ar_ServingSpec = Some spec \<rparr>"

fun decodeAppliedRecord :: "appliedRecord row \<Rightarrow> ls_error + AppliedForwardState \<times> ForwardSpec option" where
  "decodeAppliedRecord Corrupt = Inl DecodeRow"
| "decodeAppliedRecord (Row r) =
     Inr (ar_State r, if af_ForwardID (ar_State r) \<noteq> [] then ar_ServingSpec r else None)"

definition validateAppliedRecord ::
  "string \<Rightarrow> AppliedForwardState \<Rightarrow> ForwardSpec option \<Rightarrow> ls_error + unit" where
  "validateAppliedRecord key state servingSpec =
     (case AppliedForwardState_Validate state of Inl e \<Rightarrow> Inl (AppliedInvalid e) | Inr _ \<Rightarrow>
      if key \<noteq> [] \<and> af_ForwardID state \<noteq> key then Inl AppliedMismatch
      else case servingSpec of None \<Rightarrow> Inr () | Some spec \<Rightarrow>
      case ForwardSpec_Validate spec of Inl e \<Rightarrow> Inl (AppliedInvalid e) | Inr _ \<Rightarrow>
      if f_ForwardID spec \<noteq> af_ForwardID state then Inl AppliedMismatch
      else if f_Presence spec \<noteq> PresencePresent \<or> f_DesiredRevision spec \<noteq> af_SpecRevision state
      then Inl AppliedMismatch
      else if f_Strategy spec \<noteq> af_Strategy state then Inl AppliedMismatch
      else Inr ())"

definition load_applied :: "string \<Rightarrow> appliedRecord row \<Rightarrow> ls_error + AppliedStateRecord" where
  "load_applied key raw =
     ebind (decodeAppliedRecord raw) (\<lambda>(state, spec).
     ebind (validateAppliedRecord key state spec) (\<lambda>_.
     Inr \<lparr> ap_State = state, ap_ServingSpec = spec \<rparr>))"

definition loadAppliedRecordTx ::
  "appliedRecord row bucket \<Rightarrow> string \<Rightarrow> ls_error + AppliedStateRecord option" where
  "loadAppliedRecordTx bucket key =
     (case bget bucket key of
        None \<Rightarrow> Inr None
      | Some raw \<Rightarrow> ebind (load_applied key raw) (\<lambda>r. Inr (Some r)))"

fun list_applied :: "appliedRecord row bucket \<Rightarrow> ls_error + AppliedStateRecord list" where
  "list_applied [] = Inr []"
| "list_applied ((key, raw) # b) =
     ebind (load_applied key raw) (\<lambda>r. ebind (list_applied b) (\<lambda>rs. Inr (r # rs)))"

definition validateAppliedBucketTx :: "appliedRecord row bucket \<Rightarrow> ls_error + unit" where
  "validateAppliedBucketTx bucket = ebind (list_applied bucket) (\<lambda>_. Inr ())"

definition equivalentAppliedState :: "AppliedForwardState \<Rightarrow> AppliedForwardState \<Rightarrow> bool" where
  "equivalentAppliedState a b \<longleftrightarrow> a\<lparr>af_AppliedAtUnix := 0\<rparr> = b\<lparr>af_AppliedAtUnix := 0\<rparr>"

definition GetAppliedRecord :: "string \<Rightarrow> Store \<Rightarrow> ls_error + AppliedStateRecord option" where
  "GetAppliedRecord forwardID s =
     (if forwardID = [] then Inl IdentityRequired else loadAppliedRecordTx (ls_applied s) forwardID)"

definition GetAppliedState :: "string \<Rightarrow> Store \<Rightarrow> ls_error + AppliedForwardState option" where
  "GetAppliedState forwardID s = ebind (GetAppliedRecord forwardID s) (\<lambda>r. Inr (map_option ap_State r))"

definition ListAppliedRecords :: "Store \<Rightarrow> ls_error + AppliedStateRecord list" where
  "ListAppliedRecords s = list_applied (ls_applied s)"

definition ListAppliedStates :: "Store \<Rightarrow> ls_error + AppliedForwardState list" where
  "ListAppliedStates s = ebind (ListAppliedRecords s) (\<lambda>rs. Inr (map ap_State rs))"

section \<open>Merging desired snapshots\<close>

definition get_spec :: "string \<Rightarrow> ForwardSpec list \<Rightarrow> ForwardSpec option" where
  "get_spec forwardID fs = find (\<lambda>f. f_ForwardID f = forwardID) fs"

definition put_spec :: "ForwardSpec \<Rightarrow> ForwardSpec list \<Rightarrow> ForwardSpec list" where
  "put_spec spec fs =
     (if get_spec (f_ForwardID spec) fs = None then fs @ [spec]
      else map (\<lambda>f. if f_ForwardID f = f_ForwardID spec then spec else f) fs)"

text \<open>The revision rule: the row that is kept for a Forward when an incoming one meets the current one.\<close>

definition merge_revision :: "ForwardSpec \<Rightarrow> ForwardSpec option \<Rightarrow> ls_error + ForwardSpec" where
  "merge_revision incomingSpec current =
     (case current of
        None \<Rightarrow> Inr incomingSpec
      | Some currentSpec \<Rightarrow>
          if f_DesiredRevision incomingSpec > f_DesiredRevision currentSpec then Inr incomingSpec
          else if f_DesiredRevision incomingSpec < f_DesiredRevision currentSpec then Inr currentSpec
          else if incomingSpec = currentSpec then Inr currentSpec
          else Inl ErrDesiredRevisionConflict)"

fun merge_forwards ::
  "(ForwardSpec \<Rightarrow> ForwardSpec option \<Rightarrow> ls_error + ForwardSpec) \<Rightarrow> ForwardSpec list \<Rightarrow> ForwardSpec list \<Rightarrow>
     ls_error + ForwardSpec list" where
  "merge_forwards rule [] merged = Inr merged"
| "merge_forwards rule (incomingSpec # incoming) merged =
     ebind (rule incomingSpec (get_spec (f_ForwardID incomingSpec) merged)) (\<lambda>spec.
     merge_forwards rule incoming (put_spec spec merged))"

definition check_desired :: "DesiredState \<Rightarrow> ls_error + unit" where
  "check_desired d = (case DesiredState_Validate d of Inl e \<Rightarrow> Inl (DesiredInvalid e) | Inr _ \<Rightarrow> Inr ())"

definition mergeDesiredSnapshots :: "DesiredState \<Rightarrow> DesiredState \<Rightarrow> ls_error + DesiredState" where
  "mergeDesiredSnapshots current incoming =
     (if d_NodeID current = [] then Inr incoming
      else if d_NodeID current \<noteq> d_NodeID incoming then Inl NodeMismatch
      else ebind (check_desired current) (\<lambda>_.
           ebind (merge_forwards merge_revision (d_Forwards incoming) (d_Forwards current)) (\<lambda>fs.
           Inr (current\<lparr>d_Forwards := fs\<rparr>))))"

fun load_desired :: "DesiredState option \<Rightarrow> DesiredState row bucket \<Rightarrow> ls_error + DesiredState option" where
  "load_desired found [] = Inr found"
| "load_desired found ((key, raw) # b) =
     (if found \<noteq> None then Inl MultipleDesired
      else case raw of Corrupt \<Rightarrow> Inl DecodeRow
      | Row desired \<Rightarrow>
          ebind (check_desired desired) (\<lambda>_.
          ensure (key = d_NodeID desired) NodeMismatch (load_desired (Some desired) b)))"

definition loadReceivedDesiredTx :: "Store \<Rightarrow> ls_error + DesiredState option" where
  "loadReceivedDesiredTx s = load_desired None (ls_desired s)"

definition LoadReceivedDesired :: "Store \<Rightarrow> ls_error + DesiredState option" where
  "LoadReceivedDesired s = load_desired None (ls_desired s)"

definition deleteFenceIdentity ::
  "ForwardDeleteIntent option \<Rightarrow> ForwardTombstone option \<Rightarrow> ls_error + string \<times> u64" where
  "deleteFenceIdentity intent tombstone =
     (let operationID = (case intent of None \<Rightarrow> [] | Some i \<Rightarrow> di_DeletionOperationID i);
          revision = (case intent of None \<Rightarrow> 0 | Some i \<Rightarrow> di_DesiredRevision i)
      in case tombstone of
           None \<Rightarrow> Inr (operationID, revision)
         | Some t \<Rightarrow>
             if operationID \<noteq> [] \<and> ts_DeletionOperationID t \<noteq> operationID then Inl ErrForwardDeleteConflict
             else if ts_DesiredRevision t \<noteq> 0
             then (if revision \<noteq> 0 \<and> ts_DesiredRevision t \<noteq> revision then Inl ErrForwardDeleteConflict
                   else Inr (ts_DeletionOperationID t, ts_DesiredRevision t))
             else Inr (ts_DeletionOperationID t, revision))"

definition fencedAbsentSpec :: "ForwardSpec \<Rightarrow> string \<Rightarrow> u64 \<Rightarrow> ForwardSpec" where
  "fencedAbsentSpec spec operationID revision =
     (let s1 = spec\<lparr>f_Presence := PresenceAbsent, f_DeletionOperationID := operationID\<rparr>
      in if revision \<noteq> 0 then s1\<lparr>f_DesiredRevision := revision\<rparr> else s1)"

definition fence_mismatch :: "ForwardSpec \<Rightarrow> string \<Rightarrow> u64 \<Rightarrow> bool" where
  "fence_mismatch spec operationID revision \<longleftrightarrow>
     f_DeletionOperationID spec \<noteq> operationID \<or> revision \<noteq> 0 \<and> f_DesiredRevision spec \<noteq> revision"

definition merge_spec :: "Store \<Rightarrow> ForwardSpec \<Rightarrow> ForwardSpec option \<Rightarrow> ls_error + ForwardSpec" where
  "merge_spec s incomingSpec current =
     ebind (loadForwardDeleteIntentTx (ls_intents s) (f_ForwardID incomingSpec)) (\<lambda>intent.
     ebind (loadForwardTombstoneTx (ls_tombstones s) (f_ForwardID incomingSpec)) (\<lambda>tombstone.
     ebind (deleteFenceIdentity intent tombstone) (\<lambda>(operationID, revision).
     if operationID \<noteq> [] then
       (if f_Presence incomingSpec = PresenceAbsent then
          (if fence_mismatch incomingSpec operationID revision then Inl ErrForwardDeleteConflict
           else Inr incomingSpec)
        else case current of
          Some currentSpec \<Rightarrow>
            if f_Presence currentSpec = PresenceAbsent
            then (if fence_mismatch currentSpec operationID revision then Inl ErrForwardDeleteConflict
                  else Inr currentSpec)
            else Inr (fencedAbsentSpec incomingSpec operationID revision)
        | None \<Rightarrow> Inr (fencedAbsentSpec incomingSpec operationID revision))
     else merge_revision incomingSpec current)))"

definition mergeReceivedDesiredWithDeleteFences ::
  "Store \<Rightarrow> DesiredState \<Rightarrow> DesiredState \<Rightarrow> ls_error + DesiredState" where
  "mergeReceivedDesiredWithDeleteFences s current incoming =
     (if d_NodeID current \<noteq> d_NodeID incoming then Inl NodeMismatch
      else ebind (check_desired current) (\<lambda>_.
           ebind (merge_forwards (merge_spec s) (d_Forwards incoming) (d_Forwards current)) (\<lambda>fs.
           Inr (current\<lparr>d_Forwards := fs\<rparr>))))"

definition mergeReceivedDesiredTx :: "Store \<Rightarrow> DesiredState \<Rightarrow> ls_error + DesiredState" where
  "mergeReceivedDesiredTx s incoming =
     ebind (loadReceivedDesiredTx s) (\<lambda>found.
     case found of
       None \<Rightarrow> mergeReceivedDesiredWithDeleteFences s \<lparr> d_NodeID = d_NodeID incoming, d_Forwards = [] \<rparr> incoming
     | Some current \<Rightarrow> mergeReceivedDesiredWithDeleteFences s current incoming)"

definition put_desired :: "DesiredState \<Rightarrow> Store \<Rightarrow> ls_error + Store" where
  "put_desired d s = ebind (bput (d_NodeID d) (Row d) (ls_desired s)) (\<lambda>b. Inr (s\<lparr>ls_desired := b\<rparr>))"

definition SaveReceivedDesired :: "DesiredState \<Rightarrow> Store \<Rightarrow> ls_error + Store" where
  "SaveReceivedDesired d s =
     ebind (check_desired d) (\<lambda>_.
     ebind (mergeReceivedDesiredTx s d) (\<lambda>merged. put_desired merged s))"

section \<open>Committing a batch of outcomes\<close>

definition check_outcome :: "ForwardSpec \<Rightarrow> ForwardApply \<Rightarrow> ls_error + unit" where
  "check_outcome spec o1 =
     (case fa_Outcome o1 of
        ApplyApplied \<Rightarrow>
          (case fa_Applied o1 of None \<Rightarrow> Inl OutcomeMismatch
           | Some a \<Rightarrow>
               (case AppliedForwardState_Validate a of Inl e \<Rightarrow> Inl (AppliedInvalid e) | Inr _ \<Rightarrow>
                if af_ForwardID a \<noteq> fa_ForwardID o1 then Inl OutcomeMismatch
                else if af_SpecRevision a \<noteq> f_DesiredRevision spec \<or> af_DesiredRevision a < af_SpecRevision a
                then Inl OutcomeMismatch
                else if f_Presence spec \<noteq> PresencePresent then Inl OutcomeMismatch
                else validateAppliedRecord (fa_ForwardID o1) a (Some spec)))
      | ApplyDeleted \<Rightarrow>
          ensure (\<not> (f_Presence spec \<noteq> PresenceAbsent \<or> f_DeletionOperationID spec = [])) OutcomeMismatch (Inr ())
      | ApplyFailed \<Rightarrow> Inr ()
      | ApplySkipped \<Rightarrow> Inr ()
      | ApplyUnknown \<Rightarrow> Inl OutcomeMismatch)"

fun check_outcomes :: "ForwardSpec list \<Rightarrow> string list \<Rightarrow> ForwardApply list \<Rightarrow> ls_error + unit" where
  "check_outcomes specs seen [] = Inr ()"
| "check_outcomes specs seen (o1 # os) =
     (case get_spec (fa_ForwardID o1) specs of
        None \<Rightarrow> Inl OutcomeMismatch
      | Some spec \<Rightarrow>
          if fa_ForwardID o1 \<in> set seen then Inl OutcomeMismatch
          else ebind (check_outcome spec o1) (\<lambda>_. check_outcomes specs (fa_ForwardID o1 # seen) os))"

definition apply_applied :: "ForwardSpec \<Rightarrow> AppliedForwardState \<Rightarrow> string \<Rightarrow> Store \<Rightarrow> ls_error + Store" where
  "apply_applied spec candidate key s =
     (if bget (ls_tombstones s) key \<noteq> None then Inl ErrTombstonedForward
      else ebind (loadAppliedRecordTx (ls_applied s) key) (\<lambda>found.
      ebind (case found of None \<Rightarrow> Inr ()
             | Some existing \<Rightarrow>
                 if af_SpecRevision candidate < af_SpecRevision (ap_State existing) then Inl ErrAppliedRevisionConflict
                 else if af_SpecRevision candidate = af_SpecRevision (ap_State existing) \<and>
                   \<not> (equivalentAppliedState candidate (ap_State existing) \<and> ap_ServingSpec existing = Some spec)
                 then Inl ErrAppliedRevisionConflict else Inr ()) (\<lambda>_.
      ebind (bput key (encodeAppliedRecord candidate spec) (ls_applied s)) (\<lambda>b. Inr (s\<lparr>ls_applied := b\<rparr>)))))"

definition apply_deleted :: "int \<Rightarrow> ForwardSpec \<Rightarrow> string \<Rightarrow> Store \<Rightarrow> ls_error + Store" where
  "apply_deleted now spec key s =
     ebind (loadForwardDeleteIntentTx (ls_intents s) key) (\<lambda>found.
     ensure (case found of None \<Rightarrow> True
             | Some existing \<Rightarrow> \<not> (di_DeletionOperationID existing \<noteq> f_DeletionOperationID spec \<or>
                 di_DesiredRevision existing \<noteq> f_DesiredRevision spec)) ErrForwardDeleteConflict (
     ebind (bput key (Row \<lparr> ts_ForwardID = key, ts_DeletionOperationID = f_DeletionOperationID spec,
                ts_DesiredRevision = f_DesiredRevision spec, ts_CreatedAtUnix = now \<rparr>) (ls_tombstones s)) (\<lambda>b.
     Inr (s\<lparr>ls_tombstones := b, ls_applied := bdel key (ls_applied s),
            ls_activation := bdel key (ls_activation s)\<rparr>))))"

definition commit_one ::
  "int \<Rightarrow> ForwardSpec list \<Rightarrow> ForwardSpec list \<Rightarrow> ForwardApply \<Rightarrow> Store \<times> ApplyReport \<Rightarrow> ls_error + Store \<times> ApplyReport" where
  "commit_one now specs mergedSpecs o1 = (\<lambda>(s, report).
     let key = fa_ForwardID o1 in
     case get_spec key specs of None \<Rightarrow> Inl OutcomeMismatch | Some spec \<Rightarrow>
     ebind (if fa_Outcome o1 = ApplyApplied
            then ebind (loadForwardDeleteFenceTx key s) (\<lambda>(intent, tombstone).
                   ensure (\<not> (intent \<noteq> None \<or> tombstone \<noteq> None)) ErrTombstonedForward (Inr ()))
            else Inr ()) (\<lambda>_.
     if get_spec key mergedSpecs \<noteq> Some spec
     then (if fa_Outcome o1 = ApplySkipped then Inr (s, report) else Inl ErrDesiredRevisionConflict)
     else case fa_Outcome o1 of
       ApplyApplied \<Rightarrow>
         (case fa_Applied o1 of None \<Rightarrow> Inl OutcomeMismatch
          | Some candidate \<Rightarrow>
              ebind (apply_applied spec candidate key s) (\<lambda>s'.
                Inr (s', report\<lparr>rp_AppliedCount := rp_AppliedCount report + 1\<rparr>)))
     | ApplyDeleted \<Rightarrow>
         ebind (apply_deleted now spec key s) (\<lambda>s'.
           Inr (s', report\<lparr>rp_DeletedCount := rp_DeletedCount report + 1\<rparr>))
     | ApplyFailed \<Rightarrow>
         Inr (s, report\<lparr>rp_FailedCount := rp_FailedCount report + 1,
           rp_FailedForwards := rp_FailedForwards report @ (if fa_Err o1 then [key] else [])\<rparr>)
     | _ \<Rightarrow> Inr (s, report)))"

fun commit_all ::
  "int \<Rightarrow> ForwardSpec list \<Rightarrow> ForwardSpec list \<Rightarrow> ForwardApply list \<Rightarrow> Store \<times> ApplyReport \<Rightarrow>
     ls_error + Store \<times> ApplyReport" where
  "commit_all now specs mergedSpecs [] sr = Inr sr"
| "commit_all now specs mergedSpecs (o1 # os) sr =
     ebind (commit_one now specs mergedSpecs o1 sr) (commit_all now specs mergedSpecs os)"

definition report_status :: "ApplyReport \<Rightarrow> ApplyStatus" where
  "report_status report =
     (if rp_FailedCount report = 0 then ApplyStatusFull
      else if rp_AppliedCount report + rp_DeletedCount report > 0 then ApplyStatusPartial
      else ApplyStatusFailed)"

definition empty_report :: ApplyReport where
  "empty_report = \<lparr> rp_Status = ApplyStatusFull, rp_AppliedCount = 0, rp_DeletedCount = 0, rp_FailedCount = 0,
     rp_FailedForwards = [] \<rparr>"

definition CommitDesired ::
  "int \<Rightarrow> DesiredState \<Rightarrow> ForwardApply list \<Rightarrow> Store \<Rightarrow> ls_error + Store \<times> ApplyReport" where
  "CommitDesired now d outcomes s =
     ebind (check_desired d) (\<lambda>_.
     ensure (length outcomes = length (d_Forwards d)) OutcomeMismatch (
     ebind (check_outcomes (d_Forwards d) [] outcomes) (\<lambda>_.
     ebind (validateAppliedBucketTx (ls_applied s)) (\<lambda>_.
     ebind (mergeReceivedDesiredTx s d) (\<lambda>merged.
     ebind (put_desired merged s) (\<lambda>s1.
     ebind (commit_all now (d_Forwards d) (d_Forwards merged) outcomes (s1, empty_report)) (\<lambda>(s2, report).
     Inr (s2, report\<lparr>rp_Status := report_status report\<rparr>))))))))"


section \<open>Activation mirrors and mapping journal\<close>

definition validateActivationSnapshot :: "crypto \<Rightarrow> string \<Rightarrow> ActivationSnapshot \<Rightarrow> ls_error + unit" where
  "validateActivationSnapshot k key snapshot =
     (if as_ForwardID snapshot = [] \<or> as_Activation snapshot = [] then Inl SnapshotInvalid
      else if key \<noteq> [] \<and> as_ForwardID snapshot \<noteq> key then Inl SnapshotInvalid
      else if as_Generation snapshot = 0 then Inl SnapshotInvalid
      else if as_Activation snapshot \<noteq> hex_EncodeToString (ActivationID k (as_ForwardID snapshot) (as_Generation snapshot))
      then Inl SnapshotInvalid
      else case ActivationStates_Validate (as_States snapshot) of Inl e \<Rightarrow> Inl (SnapshotStates e) | Inr _ \<Rightarrow> Inr ())"

definition SaveActivationSnapshot :: "crypto \<Rightarrow> ActivationSnapshot \<Rightarrow> Store \<Rightarrow> ls_error + Store" where
  "SaveActivationSnapshot k snapshot s =
     ebind (validateActivationSnapshot k (as_ForwardID snapshot) snapshot) (\<lambda>_.
     ebind (bput (as_ForwardID snapshot) (Row snapshot) (ls_activation s)) (\<lambda>b. Inr (s\<lparr>ls_activation := b\<rparr>)))"

definition load_snapshot :: "crypto \<Rightarrow> string \<Rightarrow> ActivationSnapshot row \<Rightarrow> ls_error + ActivationSnapshot" where
  "load_snapshot k key raw =
     (case raw of Corrupt \<Rightarrow> Inl DecodeRow
      | Row snapshot \<Rightarrow> ebind (validateActivationSnapshot k key snapshot) (\<lambda>_. Inr snapshot))"

definition LoadActivationSnapshot :: "crypto \<Rightarrow> string \<Rightarrow> Store \<Rightarrow> ls_error + ActivationSnapshot option" where
  "LoadActivationSnapshot k forwardID s =
     (if forwardID = [] then Inl IdentityRequired
      else case bget (ls_activation s) forwardID of
        None \<Rightarrow> Inr None
      | Some raw \<Rightarrow> ebind (load_snapshot k forwardID raw) (\<lambda>a. Inr (Some a)))"

definition DeleteActivationSnapshot :: "string \<Rightarrow> Store \<Rightarrow> ls_error + Store" where
  "DeleteActivationSnapshot forwardID s =
     (if forwardID = [] then Inl IdentityRequired else Inr (s\<lparr>ls_activation := bdel forwardID (ls_activation s)\<rparr>))"

fun load_snapshots ::
  "crypto \<Rightarrow> (string \<times> ActivationSnapshot row) list \<Rightarrow> ls_error + ActivationSnapshot list" where
  "load_snapshots k [] = Inr []"
| "load_snapshots k ((key, raw) # b) =
     ebind (load_snapshot k key raw) (\<lambda>a. ebind (load_snapshots k b) (\<lambda>rest. Inr (a # rest)))"

definition ListActivationSnapshotsPage ::
  "crypto \<Rightarrow> int \<Rightarrow> string \<Rightarrow> Store \<Rightarrow> ls_error + ActivationSnapshot list \<times> string" where
  "ListActivationSnapshotsPage k limit after s =
     (let lim = (if limit \<le> 0 then 256 else nat limit);
          rows = (if after = [] then ls_activation s
                  else filter (\<lambda>(key, _). after \<le> key \<and> key \<noteq> after) (ls_activation s))
      in ebind (load_snapshots k (take lim rows)) (\<lambda>out.
         Inr (out, if length out = lim \<and> drop lim rows \<noteq> [] then as_ForwardID (last out) else [])))"

definition ListActivationSnapshots :: "crypto \<Rightarrow> int \<Rightarrow> Store \<Rightarrow> ls_error + ActivationSnapshot list" where
  "ListActivationSnapshots k limit s = ebind (ListActivationSnapshotsPage k limit [] s) (\<lambda>(out, _). Inr out)"

definition EvacuateJournalRecords :: "string list \<Rightarrow> Store \<Rightarrow> ls_error + Store" where
  "EvacuateJournalRecords ids s =
     Inr (s\<lparr>ls_mapping := fold (\<lambda>i b. if i = [] then b else bdel i b) ids (ls_mapping s)\<rparr>)"

definition RefreshAppliedJournalRef :: "string \<Rightarrow> string \<Rightarrow> Store \<Rightarrow> ls_error + Store \<times> bool" where
  "RefreshAppliedJournalRef forwardID journalRef s =
     (if forwardID = [] then Inl IdentityRequired
      else case bget (ls_applied s) forwardID of
        None \<Rightarrow> Inr (s, False)
      | Some raw \<Rightarrow>
          ebind (decodeAppliedRecord raw) (\<lambda>(state, servingSpec).
          case servingSpec of None \<Rightarrow> Inr (s, False)
          | Some spec \<Rightarrow>
              if af_ForwardID state = [] then Inr (s, False)
              else if af_MappingJournalRef state = journalRef then Inr (s, False)
              else ebind (bput forwardID (encodeAppliedRecord (state\<lparr>af_MappingJournalRef := journalRef\<rparr>) spec)
                            (ls_applied s)) (\<lambda>b. Inr (s\<lparr>ls_applied := b\<rparr>, True))))"

definition mj_Put :: "JournalRecord \<Rightarrow> Store \<Rightarrow> ls_error + Store" where
  "mj_Put r s = ebind (bput (jr_ID r) (Row r) (ls_mapping s)) (\<lambda>b. Inr (s\<lparr>ls_mapping := b\<rparr>))"

definition mj_Get :: "string \<Rightarrow> Store \<Rightarrow> ls_error + JournalRecord option" where
  "mj_Get i s =
     (if i = [] then Inl IdentityRequired
      else case bget (ls_mapping s) i of
        None \<Rightarrow> Inr None | Some Corrupt \<Rightarrow> Inl DecodeRow | Some (Row r) \<Rightarrow> Inr (Some r))"

definition mj_Delete :: "string \<Rightarrow> Store \<Rightarrow> ls_error + Store" where
  "mj_Delete i s = (if i = [] then Inl IdentityRequired else Inr (s\<lparr>ls_mapping := bdel i (ls_mapping s)\<rparr>))"

fun mj_list :: "(JournalRecord \<Rightarrow> bool) \<Rightarrow> JournalRecord row bucket \<Rightarrow> ls_error + JournalRecord list" where
  "mj_list keep [] = Inr []"
| "mj_list keep ((key, Corrupt) # b) = Inl DecodeRow"
| "mj_list keep ((key, Row r) # b) = ebind (mj_list keep b) (\<lambda>rs. Inr (if keep r then r # rs else rs))"

definition mj_List :: "Store \<Rightarrow> ls_error + JournalRecord list" where
  "mj_List s = mj_list (\<lambda>_. True) (ls_mapping s)"

definition mj_ListByForward :: "string \<Rightarrow> Store \<Rightarrow> ls_error + JournalRecord list" where
  "mj_ListByForward forwardID s = mj_list (\<lambda>r. jr_ForwardID r = forwardID) (ls_mapping s)"

section \<open>Well-formed forward state\<close>

definition intents_ok :: "ForwardDeleteIntent row bucket \<Rightarrow> bool" where
  "intents_ok b \<longleftrightarrow> (\<forall>k r. bget b k = Some r \<longrightarrow>
     (\<exists>i. r = Row i \<and> validateForwardDeleteIntent i = Inr () \<and> di_ForwardID i = k))"

definition tombs_ok :: "ForwardTombstone row bucket \<Rightarrow> bool" where
  "tombs_ok b \<longleftrightarrow> (\<forall>k r. bget b k = Some r \<longrightarrow>
     (\<exists>t. r = Row t \<and> ts_ForwardID t = k \<and> ts_DeletionOperationID t \<noteq> []))"

definition applied_ok :: "appliedRecord row bucket \<Rightarrow> bool" where
  "applied_ok b \<longleftrightarrow> (\<forall>k r. bget b k = Some r \<longrightarrow> (\<exists>a. load_applied k r = Inr a))"

definition desired_ok :: "DesiredState row bucket \<Rightarrow> bool" where
  "desired_ok b \<longleftrightarrow> b = [] \<or> (\<exists>d. b = [(d_NodeID d, Row d)] \<and> DesiredState_Validate d = Inr ())"

definition forwards_ok :: "Store \<Rightarrow> bool" where
  "forwards_ok s \<longleftrightarrow> store_ok s \<and> intents_ok (ls_intents s) \<and> tombs_ok (ls_tombstones s) \<and> applied_ok (ls_applied s) \<and>
     desired_ok (ls_desired s) \<and> (\<forall>k. bget (ls_tombstones s) k \<noteq> None \<longrightarrow> bget (ls_applied s) k = None)"

text \<open>Reading a well-formed store never fails.\<close>

lemma intents_ok_bins: "bucket_ok b \<Longrightarrow> intents_ok b \<Longrightarrow> validateForwardDeleteIntent i = Inr () \<Longrightarrow>
  intents_ok (bins (di_ForwardID i) (Row i) b)"
  by (auto simp: intents_ok_def)

lemma intents_ok_bdel: "intents_ok b \<Longrightarrow> intents_ok (bdel k b)"
  by (auto simp: intents_ok_def)

lemma tombs_ok_bins: "bucket_ok b \<Longrightarrow> tombs_ok b \<Longrightarrow> ts_ForwardID t = k \<Longrightarrow> ts_DeletionOperationID t \<noteq> [] \<Longrightarrow>
  tombs_ok (bins k (Row t) b)"
  by (auto simp: tombs_ok_def)

lemma tombs_ok_bdel: "tombs_ok b \<Longrightarrow> tombs_ok (bdel k b)"
  by (auto simp: tombs_ok_def)

lemma applied_ok_bins: "bucket_ok b \<Longrightarrow> applied_ok b \<Longrightarrow> load_applied k r = Inr a \<Longrightarrow> applied_ok (bins k r b)"
  by (auto simp: applied_ok_def)

lemma applied_ok_bdel: "applied_ok b \<Longrightarrow> applied_ok (bdel k b)"
  by (auto simp: applied_ok_def)

lemma list_applied_ok: "\<forall>(k, r) \<in> set b. \<exists>a. load_applied k r = Inr a \<Longrightarrow> \<exists>as. list_applied b = Inr as \<and> length as = length b"
  by (induction b) (fastforce simp: ebind_Inr_iff)+

lemma bucket_mem: "bucket_ok b \<Longrightarrow> (k, r) \<in> set b \<longleftrightarrow> bget b k = Some r"
  by (simp add: bucket_ok_distinct)

lemma applied_ok_lists: "bucket_ok b \<Longrightarrow> applied_ok b \<Longrightarrow> \<exists>as. list_applied b = Inr as \<and> length as = length b"
  by (rule list_applied_ok) (auto simp: bucket_mem applied_ok_def)

section \<open>The merge\<close>

lemma get_spec_Some: "get_spec k fs = Some f \<Longrightarrow> f \<in> set fs \<and> f_ForwardID f = k"
  by (auto simp: get_spec_def find_Some_iff)

lemma get_spec_None: "get_spec k fs = None \<longleftrightarrow> k \<notin> f_ForwardID ` set fs"
  by (auto simp: get_spec_def find_None_iff)

lemma get_spec_mem: "distinct (map f_ForwardID fs) \<Longrightarrow> f \<in> set fs \<Longrightarrow> get_spec (f_ForwardID f) fs = Some f"
  by (induction fs) (auto simp: get_spec_def image_iff)

lemma ids_put_spec: "f_ForwardID ` set (put_spec spec fs) = insert (f_ForwardID spec) (f_ForwardID ` set fs)"
  by (auto simp: put_spec_def get_spec_None image_iff)

lemma map_put_spec: "get_spec (f_ForwardID spec) fs \<noteq> None \<Longrightarrow> map f_ForwardID (put_spec spec fs) = map f_ForwardID fs"
  by (auto simp: put_spec_def)

lemma distinct_put_spec: "distinct (map f_ForwardID fs) \<Longrightarrow> distinct (map f_ForwardID (put_spec spec fs))"
proof (cases "get_spec (f_ForwardID spec) fs")
  case None
  then show "distinct (map f_ForwardID fs) \<Longrightarrow> ?thesis" by (auto simp: put_spec_def get_spec_None)
qed (simp add: map_put_spec)

lemma set_put_spec: "set (put_spec spec fs) \<subseteq> insert spec (set fs)"
  by (auto simp: put_spec_def)

lemma find_map_id: "(\<And>f. p (g f) = p f) \<Longrightarrow> find p (map g fs) = map_option g (find p fs)"
  by (induction fs) auto

lemma find_append1: "find p (xs @ [x]) = (case find p xs of None \<Rightarrow> if p x then Some x else None | Some y \<Rightarrow> Some y)"
  by (induction xs) auto

lemma get_put_spec [simp]:
  "get_spec k (put_spec spec fs) = (if k = f_ForwardID spec then Some spec else get_spec k fs)"
proof (cases "get_spec (f_ForwardID spec) fs")
  case None
  then show ?thesis by (cases "get_spec k fs") (auto simp: put_spec_def get_spec_def find_append1)
next
  case (Some c)
  let ?g = "\<lambda>f. if f_ForwardID f = f_ForwardID spec then spec else f"
  have "get_spec k (put_spec spec fs) = map_option ?g (get_spec k fs)"
    using Some by (simp add: put_spec_def) (simp add: get_spec_def find_map_id)
  with Some show ?thesis by (cases "get_spec k fs") (auto dest: get_spec_Some)
qed

definition specs_ok :: "ForwardSpec list \<Rightarrow> bool" where
  "specs_ok fs \<longleftrightarrow> (\<forall>f \<in> set fs. ForwardSpec_Validate f = Inr ()) \<and> distinct (map f_ForwardID fs)"

lemma desired_specs: "DesiredState_Validate d = Inr () \<longleftrightarrow> d_NodeID d \<noteq> [] \<and> specs_ok (d_Forwards d)"
  by (auto simp: DesiredState_Validate_def validate_forwards_iff specs_ok_def)

lemma check_desired_iff: "check_desired d = Inr u \<longleftrightarrow> DesiredState_Validate d = Inr ()"
  by (auto simp: check_desired_def split: sum.splits)

lemma specs_ok_put: "specs_ok fs \<Longrightarrow> ForwardSpec_Validate spec = Inr () \<Longrightarrow> specs_ok (put_spec spec fs)"
  using set_put_spec [of spec fs] distinct_put_spec [of fs spec] by (auto simp: specs_ok_def)

text \<open>A rule for one Forward is sound if it returns a valid row of the same Forward.\<close>

definition sound_rule :: "(ForwardSpec \<Rightarrow> ForwardSpec option \<Rightarrow> ls_error + ForwardSpec) \<Rightarrow> bool" where
  "sound_rule rule \<longleftrightarrow> (\<forall>inc cur spec. rule inc cur = Inr spec \<longrightarrow> ForwardSpec_Validate inc = Inr () \<longrightarrow>
     (\<forall>c. cur = Some c \<longrightarrow> ForwardSpec_Validate c = Inr () \<and> f_ForwardID c = f_ForwardID inc) \<longrightarrow>
     ForwardSpec_Validate spec = Inr () \<and> f_ForwardID spec = f_ForwardID inc)"

lemma sound_ruleD:
  "sound_rule rule \<Longrightarrow> rule inc (get_spec (f_ForwardID inc) fs) = Inr spec \<Longrightarrow> ForwardSpec_Validate inc = Inr () \<Longrightarrow>
   specs_ok fs \<Longrightarrow> ForwardSpec_Validate spec = Inr () \<and> f_ForwardID spec = f_ForwardID inc"
  unfolding sound_rule_def specs_ok_def using get_spec_Some by blast

lemma merge_revision_sound: "sound_rule merge_revision"
  by (auto simp: sound_rule_def merge_revision_def split: option.splits if_splits)

lemma fencedAbsent_valid:
  "ForwardSpec_Validate f = Inr () \<Longrightarrow> op \<noteq> [] \<Longrightarrow> ForwardSpec_Validate (fencedAbsentSpec f op r) = Inr ()"
  by (auto simp: ForwardSpec_Validate_def fencedAbsentSpec_def Let_def Presence_Valid_def split: sum.splits if_splits)

lemma fencedAbsent_id [simp]: "f_ForwardID (fencedAbsentSpec f op r) = f_ForwardID f"
  by (simp add: fencedAbsentSpec_def Let_def)

lemma merge_spec_sound: "sound_rule (merge_spec s)"
  unfolding sound_rule_def
proof (intro allI impI)
  fix inc cur spec
  assume m: "merge_spec s inc cur = Inr spec" and inc: "ForwardSpec_Validate inc = Inr ()"
    and cur: "\<forall>c. cur = Some c \<longrightarrow> ForwardSpec_Validate c = Inr () \<and> f_ForwardID c = f_ForwardID inc"
  from m consider "spec = inc" | "cur = Some spec" | op r where "op \<noteq> []" "spec = fencedAbsentSpec inc op r"
    | "merge_revision inc cur = Inr spec"
    by (auto simp: merge_spec_def ebind_Inr_iff split: if_splits option.splits)
  then show "ForwardSpec_Validate spec = Inr () \<and> f_ForwardID spec = f_ForwardID inc"
  proof cases
    case 4
    then show ?thesis using merge_revision_sound inc cur unfolding sound_rule_def by blast
  next
    case 2
    then show ?thesis using cur by blast
  next
    case 3
    then show ?thesis using inc by (simp add: fencedAbsent_valid)
  next
    case 1
    then show ?thesis using inc by simp
  qed
qed

text \<open>What a merge does to every single Forward.\<close>

lemma merge_forwards_spec:
  assumes "sound_rule rule" "merge_forwards rule inc cur = Inr res" "specs_ok inc" "specs_ok cur"
  shows "specs_ok res" "get_spec k inc = None \<Longrightarrow> get_spec k res = get_spec k cur"
    and "get_spec k inc = Some f \<Longrightarrow> \<exists>spec. rule f (get_spec k cur) = Inr spec \<and> get_spec k res = Some spec"
proof -
  have "specs_ok res \<and> (\<forall>k. get_spec k inc = None \<longrightarrow> get_spec k res = get_spec k cur) \<and>
    (\<forall>k f. get_spec k inc = Some f \<longrightarrow> (\<exists>spec. rule f (get_spec k cur) = Inr spec \<and> get_spec k res = Some spec))"
    using assms(2-4)
  proof (induction inc arbitrary: cur)
    case Nil
    then show ?case by (simp add: get_spec_def)
  next
    case (Cons g inc)
    then obtain spec where spec: "rule g (get_spec (f_ForwardID g) cur) = Inr spec"
      "merge_forwards rule inc (put_spec spec cur) = Inr res" by (auto simp: ebind_Inr_iff)
    have g: "ForwardSpec_Validate g = Inr ()" "specs_ok inc" "f_ForwardID g \<notin> f_ForwardID ` set inc"
      using Cons.prems(2) by (auto simp: specs_ok_def)
    have s: "ForwardSpec_Validate spec = Inr ()" "f_ForwardID spec = f_ForwardID g"
      using sound_ruleD [OF assms(1) spec(1) g(1) Cons.prems(3)] by simp_all
    note IH = Cons.IH [OF spec(2) g(2) specs_ok_put [OF Cons.prems(3) s(1)]]
    have gone: "get_spec (f_ForwardID g) inc = None" using g(3) by (simp add: get_spec_None)
    have c: "get_spec k (g # inc) = (if k = f_ForwardID g then Some g else get_spec k inc)" for k
      by (simp add: get_spec_def)
    have "\<exists>spec. rule f (get_spec k cur) = Inr spec \<and> get_spec k res = Some spec"
      if "get_spec k (g # inc) = Some f" for k f
    proof (cases "k = f_ForwardID g")
      case True
      then show ?thesis using that IH gone s(2) spec(1) by (simp add: c)
    next
      case False
      with that have "get_spec k inc = Some f" by (simp add: c)
      with IH obtain sp where "rule f (get_spec k (put_spec spec cur)) = Inr sp" "get_spec k res = Some sp" by blast
      with False s(2) show ?thesis by simp
    qed
    then show ?case using IH s(2) by (simp add: c)
  qed
  then show "specs_ok res" "get_spec k inc = None \<Longrightarrow> get_spec k res = get_spec k cur"
    and "get_spec k inc = Some f \<Longrightarrow> \<exists>spec. rule f (get_spec k cur) = Inr spec \<and> get_spec k res = Some spec"
    by blast+
qed

definition desired_row :: "Store \<Rightarrow> string \<Rightarrow> ForwardSpec option" where
  "desired_row s k = (case LoadReceivedDesired s of Inr (Some d) \<Rightarrow> get_spec k (d_Forwards d) | _ \<Rightarrow> None)"

lemma load_desired_cases:
  assumes "desired_ok (ls_desired s)"
  obtains "ls_desired s = []" "loadReceivedDesiredTx s = Inr None" "desired_row s = (\<lambda>k. None)"
  | d where "ls_desired s = [(d_NodeID d, Row d)]" "DesiredState_Validate d = Inr ()"
    "loadReceivedDesiredTx s = Inr (Some d)" "desired_row s = (\<lambda>k. get_spec k (d_Forwards d))"
  using assms that
  by (fastforce simp: desired_ok_def loadReceivedDesiredTx_def desired_row_def LoadReceivedDesired_def
      check_desired_def fun_eq_iff)

lemma mergeReceived_spec:
  assumes "mergeReceivedDesiredTx s d = Inr m" "desired_ok (ls_desired s)" "DesiredState_Validate d = Inr ()"
  shows "DesiredState_Validate m = Inr ()" "d_NodeID m = d_NodeID d"
    and "ls_desired s = [] \<or> (\<exists>c. ls_desired s = [(d_NodeID d, Row c)])"
    and "get_spec k (d_Forwards d) = None \<Longrightarrow> get_spec k (d_Forwards m) = desired_row s k"
    and "get_spec k (d_Forwards d) = Some f \<Longrightarrow>
      \<exists>spec. merge_spec s f (desired_row s k) = Inr spec \<and> get_spec k (d_Forwards m) = Some spec"
proof -
  have "\<exists>cur fs. d_NodeID cur = d_NodeID d \<and> specs_ok (d_Forwards cur) \<and>
      merge_forwards (merge_spec s) (d_Forwards d) (d_Forwards cur) = Inr fs \<and> m = cur\<lparr>d_Forwards := fs\<rparr> \<and>
      (\<forall>k. get_spec k (d_Forwards cur) = desired_row s k) \<and>
      (ls_desired s = [] \<or> (\<exists>c. ls_desired s = [(d_NodeID d, Row c)]))"
    using assms(2)
  proof (cases rule: load_desired_cases)
    case 1
    then show ?thesis using assms(1)
      by (intro exI [of _ "\<lparr> d_NodeID = d_NodeID d, d_Forwards = [] \<rparr>"])
        (auto simp: mergeReceivedDesiredTx_def mergeReceivedDesiredWithDeleteFences_def ebind_Inr_iff specs_ok_def
          get_spec_def)
  next
    case (2 c)
    then show ?thesis using assms(1)
      by (intro exI [of _ c])
        (auto simp: mergeReceivedDesiredTx_def mergeReceivedDesiredWithDeleteFences_def ebind_Inr_iff desired_specs
          split: if_splits)
  qed
  then obtain cur fs where cur: "d_NodeID cur = d_NodeID d" "specs_ok (d_Forwards cur)"
    "merge_forwards (merge_spec s) (d_Forwards d) (d_Forwards cur) = Inr fs" "m = cur\<lparr>d_Forwards := fs\<rparr>"
    "\<And>k. get_spec k (d_Forwards cur) = desired_row s k"
    "ls_desired s = [] \<or> (\<exists>c. ls_desired s = [(d_NodeID d, Row c)])" by blast
  have d: "d_NodeID d \<noteq> []" "specs_ok (d_Forwards d)" using assms(3) by (simp_all add: desired_specs)
  note m = merge_forwards_spec [OF merge_spec_sound cur(3) d(2) cur(2)]
  show "DesiredState_Validate m = Inr ()" "d_NodeID m = d_NodeID d"
    using m(1) cur(1,4) d(1) by (simp_all add: desired_specs)
  show "ls_desired s = [] \<or> (\<exists>c. ls_desired s = [(d_NodeID d, Row c)])" by (rule cur(6))
  show "get_spec k (d_Forwards d) = None \<Longrightarrow> get_spec k (d_Forwards m) = desired_row s k"
    using m(2) [of k] cur(4,5) by simp
  show "get_spec k (d_Forwards d) = Some f \<Longrightarrow>
      \<exists>spec. merge_spec s f (desired_row s k) = Inr spec \<and> get_spec k (d_Forwards m) = Some spec"
    using m(3) [of k f] cur(4,5) by simp
qed

lemma put_desired_spec:
  assumes "put_desired m s = Inr s1" "DesiredState_Validate m = Inr ()"
    and "ls_desired s = [] \<or> (\<exists>c. ls_desired s = [(d_NodeID m, Row c)])"
  shows "s1 = s\<lparr>ls_desired := [(d_NodeID m, Row m)]\<rparr>" "desired_row s1 k = get_spec k (d_Forwards m)"
  using assms
  by (auto simp: put_desired_def ebind_Inr_iff bput_Inr_iff desired_row_def LoadReceivedDesired_def check_desired_def)

section \<open>One Forward, abstractly\<close>

text \<open>
  The durable facts about one Forward and how they may change. \<open>receipted\<close> says which deletion operations the
  controller has acknowledged.
\<close>

record fview =
  w_applied :: "AppliedStateRecord option"
  w_intent :: "ForwardDeleteIntent option"
  w_tomb :: "ForwardTombstone option"

definition applied_rev :: "AppliedStateRecord \<Rightarrow> u64" where
  "applied_rev a = af_SpecRevision (ap_State a)"

inductive fstep :: "(string \<Rightarrow> bool) \<Rightarrow> fview \<Rightarrow> fview \<Rightarrow> bool" for receipted where
  apply_new: "w_intent v = None \<Longrightarrow> w_tomb v = None \<Longrightarrow>
    (case w_applied v of None \<Rightarrow> True | Some a \<Rightarrow> applied_rev a \<le> applied_rev b) \<Longrightarrow>
    fstep receipted v (v\<lparr>w_applied := Some b\<rparr>)"
| refresh: "w_applied v = Some a \<Longrightarrow> applied_rev b = applied_rev a \<Longrightarrow> fstep receipted v (v\<lparr>w_applied := Some b\<rparr>)"
| delete_done: "(case w_intent v of None \<Rightarrow> True | Some i \<Rightarrow> di_DeletionOperationID i = ts_DeletionOperationID t) \<Longrightarrow>
    (case w_tomb v of None \<Rightarrow> True | Some t' \<Rightarrow> ts_DeletionOperationID t' = ts_DeletionOperationID t) \<Longrightarrow>
    fstep receipted v (v\<lparr>w_applied := None, w_tomb := Some t\<rparr>)"
| fence: "w_intent v = None \<Longrightarrow> w_tomb v = None \<Longrightarrow> fstep receipted v (v\<lparr>w_intent := Some i\<rparr>)"
| unfence: "w_intent v = Some i \<Longrightarrow> w_tomb v = Some t \<Longrightarrow> ts_DeletionOperationID t = di_DeletionOperationID i \<Longrightarrow>
    fstep receipted v (v\<lparr>w_intent := None\<rparr>)"
| gc: "w_intent v = None \<Longrightarrow> w_tomb v = Some t \<Longrightarrow> receipted (ts_DeletionOperationID t) \<Longrightarrow>
    fstep receipted v (v\<lparr>w_tomb := None\<rparr>)"

definition row_of :: "'a row option \<Rightarrow> 'a option" where
  "row_of r = (case r of Some (Row a) \<Rightarrow> Some a | _ \<Rightarrow> None)"

definition applied_view :: "string \<Rightarrow> appliedRecord row option \<Rightarrow> AppliedStateRecord option" where
  "applied_view k r = (case r of None \<Rightarrow> None | Some raw \<Rightarrow> (case load_applied k raw of Inl _ \<Rightarrow> None | Inr a \<Rightarrow> Some a))"

definition fwd :: "Store \<Rightarrow> string \<Rightarrow> fview" where
  "fwd s k = \<lparr> w_applied = applied_view k (bget (ls_applied s) k), w_intent = row_of (bget (ls_intents s) k),
     w_tomb = row_of (bget (ls_tombstones s) k) \<rparr>"

definition receipted :: "Store \<Rightarrow> string \<Rightarrow> bool" where
  "receipted s op \<longleftrightarrow> bget (ls_ops s) (receiptKey op) \<noteq> None"

definition fwd_simulates :: "(string \<Rightarrow> bool) \<Rightarrow> Store \<Rightarrow> Store \<Rightarrow> bool" where
  "fwd_simulates rc s s' \<longleftrightarrow> forwards_ok s' \<and> (\<forall>k. (fstep rc)\<^sup>*\<^sup>* (fwd s k) (fwd s' k))"

lemma fwd_simulatesI:
  assumes "forwards_ok s'" "fstep rc (fwd s key) (fwd s' key)" "\<And>k. k \<noteq> key \<Longrightarrow> fwd s' k = fwd s k"
  shows "fwd_simulates rc s s'"
  unfolding fwd_simulates_def
proof (intro conjI allI)
  fix k
  show "(fstep rc)\<^sup>*\<^sup>* (fwd s k) (fwd s' k)"
    using assms(2,3) by (cases "k = key") auto
qed (rule assms(1))

lemma fwd_frame:
  assumes "ls_applied s' = ls_applied s" "ls_intents s' = ls_intents s" "ls_tombstones s' = ls_tombstones s"
    and "store_ok s'" "desired_ok (ls_desired s')" "forwards_ok s"
  shows "fwd_simulates rc s s'"
  using assms by (simp add: fwd_simulates_def fwd_def forwards_ok_def)

lemma fwd_simulates_refl: "forwards_ok s \<Longrightarrow> fwd_simulates rc s s"
  by (simp add: fwd_simulates_def)

lemma fwd_simulates_trans: "fwd_simulates rc s t \<Longrightarrow> fwd_simulates rc t u \<Longrightarrow> fwd_simulates rc s u"
  by (auto simp: fwd_simulates_def intro: rtranclp_trans)

lemma load_intent_eq: "intents_ok b \<Longrightarrow> loadForwardDeleteIntentTx b k = Inr (row_of (bget b k))"
  by (cases "bget b k") (force simp: intents_ok_def loadForwardDeleteIntentTx_def row_of_def)+

lemma load_tomb_eq: "tombs_ok b \<Longrightarrow> loadForwardTombstoneTx b k = Inr (row_of (bget b k))"
  by (cases "bget b k") (force simp: tombs_ok_def loadForwardTombstoneTx_def row_of_def)+

lemma load_applied_eq: "applied_ok b \<Longrightarrow> loadAppliedRecordTx b k = Inr (applied_view k (bget b k))"
  by (cases "bget b k") (force simp: applied_ok_def loadAppliedRecordTx_def applied_view_def)+

lemma intent_row_None: "intents_ok b \<Longrightarrow> row_of (bget b k) = None \<longleftrightarrow> bget b k = None"
  by (cases "bget b k") (force simp: intents_ok_def row_of_def)+

lemma tomb_row_None: "tombs_ok b \<Longrightarrow> row_of (bget b k) = None \<longleftrightarrow> bget b k = None"
  by (cases "bget b k") (force simp: tombs_ok_def row_of_def)+

lemma applied_row_None: "applied_ok b \<Longrightarrow> applied_view k (bget b k) = None \<longleftrightarrow> bget b k = None"
  by (cases "bget b k") (force simp: applied_ok_def applied_view_def)+

lemma row_of_None: "row_of r = None \<longleftrightarrow> (\<forall>a. r \<noteq> Some (Row a))"
  by (auto simp: row_of_def split: option.splits row.splits)

lemma row_of_Some [simp]: "row_of r = Some a \<longleftrightarrow> r = Some (Row a)" "row_of None = None" "row_of (Some (Row a)) = Some a"
  by (auto simp: row_of_def split: option.splits row.splits)

lemma forwards_okD:
  assumes "forwards_ok s"
  shows "store_ok s" "intents_ok (ls_intents s)" "tombs_ok (ls_tombstones s)" "applied_ok (ls_applied s)"
    "desired_ok (ls_desired s)" "bucket_ok (ls_intents s)" "bucket_ok (ls_tombstones s)" "bucket_ok (ls_applied s)"
    "bget (ls_tombstones s) k \<noteq> None \<Longrightarrow> bget (ls_applied s) k = None"
  using assms by (simp_all add: forwards_ok_def store_ok_def)

lemma SaveReceivedDesired_simulates:
  assumes "SaveReceivedDesired d s = Inr s'" "forwards_ok s"
  shows "fwd_simulates rc s s'"
proof -
  from assms(1) obtain m where m: "DesiredState_Validate d = Inr ()" "mergeReceivedDesiredTx s d = Inr m"
    "put_desired m s = Inr s'" by (auto simp: SaveReceivedDesired_def ebind_Inr_iff check_desired_iff)
  note sp = mergeReceived_spec [OF m(2) forwards_okD(5) [OF assms(2)] m(1)]
  from put_desired_spec [OF m(3) sp(1)] sp(2,3) have "s' = s\<lparr>ls_desired := [(d_NodeID m, Row m)]\<rparr>" by simp
  then show ?thesis
    using assms(2) sp(1) by (intro fwd_frame) (auto simp: forwards_ok_def store_ok_def desired_ok_def bucket_ok_def)
qed

lemma putForwardDeleteIntentTx_simulates:
  assumes "putForwardDeleteIntentTx i s = Inr (s', b)" "forwards_ok s"
  shows "fwd_simulates rc s s'"
proof (cases "s' = s")
  case True
  with assms(2) show ?thesis by (simp add: fwd_simulates_refl)
next
  case False
  note ok = forwards_okD [OF assms(2)]
  from assms(1) False have i: "validateForwardDeleteIntent i = Inr ()"
    "bget (ls_intents s) (di_ForwardID i) = None" "bget (ls_tombstones s) (di_ForwardID i) = None"
    "s' = s\<lparr>ls_intents := bins (di_ForwardID i) (Row i) (ls_intents s)\<rparr>"
    by (auto simp: putForwardDeleteIntentTx_def load_intent_eq [OF ok(2)] intent_row_None [OF ok(2)] ebind_Inr_iff
        bput_Inr_iff split: option.splits if_splits row.splits)
  have "forwards_ok s'"
    using assms(2) i by (auto simp: forwards_ok_def store_ok_def intro: intents_ok_bins)
  moreover have "fstep rc (fwd s (di_ForwardID i)) (fwd s' (di_ForwardID i))"
    using fstep.fence [of "fwd s (di_ForwardID i)" rc i] i(2-4) ok(6) by (simp add: fwd_def)
  ultimately show ?thesis
    by (rule fwd_simulatesI) (use i(4) ok(6) in \<open>simp add: fwd_def\<close>)
qed

lemma PutForwardDeleteIntent_simulates:
  "PutForwardDeleteIntent now i s = Inr (s', b) \<Longrightarrow> forwards_ok s \<Longrightarrow> fwd_simulates rc s s'"
  by (auto simp: PutForwardDeleteIntent_def intro: putForwardDeleteIntentTx_simulates)

lemma put_intents_simulates: "put_intents is s = Inr s' \<Longrightarrow> forwards_ok s \<Longrightarrow> fwd_simulates rc s s'"
proof (induction "is" arbitrary: s)
  case (Cons i "is")
  then obtain s1 b where s1: "putForwardDeleteIntentTx i s = Inr (s1, b)" "put_intents is s1 = Inr s'"
    by (auto simp: ebind_Inr_iff)
  from putForwardDeleteIntentTx_simulates [OF s1(1) Cons.prems(2)] have "fwd_simulates rc s s1" .
  with Cons.IH [OF s1(2)] show ?case by (auto simp: fwd_simulates_def intro: rtranclp_trans)
qed (simp add: fwd_simulates_refl)

lemma put_fences_fwd: "put_fences now links s = Inr s' \<Longrightarrow> forwards_ok s \<Longrightarrow> fwd_simulates rc s s'"
proof (induction links arbitrary: s)
  case (Cons l links)
  show ?case
  proof (cases "putForwardDeleteIntentTx (intent_of_link now l) s")
    case (Inl e)
    with Cons show ?thesis by (auto split: if_splits)
  next
    case (Inr p)
    then obtain s1 b where p: "putForwardDeleteIntentTx (intent_of_link now l) s = Inr (s1, b)" by (cases p) auto
    from putForwardDeleteIntentTx_simulates [OF p Cons.prems(2)] have "fwd_simulates rc s s1" .
    with Cons p show ?thesis by (auto simp: fwd_simulates_def intro: rtranclp_trans)
  qed
qed (simp add: fwd_simulates_refl)

lemma PutForwardDeleteIntents_simulates:
  "PutForwardDeleteIntents now is s = Inr s' \<Longrightarrow> forwards_ok s \<Longrightarrow> fwd_simulates rc s s'"
  by (auto simp: PutForwardDeleteIntents_def ebind_Inr_iff intro: put_intents_simulates)

lemma CompleteForwardDeleteIntent_simulates:
  assumes "CompleteForwardDeleteIntent key op s = Inr s'" "forwards_ok s"
  shows "fwd_simulates rc s s'"
proof (cases "s' = s")
  case True
  with assms(2) show ?thesis by (simp add: fwd_simulates_refl)
next
  case False
  note ok = forwards_okD [OF assms(2)]
  from assms(1) False obtain i t where i: "bget (ls_intents s) key = Some (Row i)" "di_DeletionOperationID i = op"
    "bget (ls_tombstones s) key = Some (Row t)" "ts_DeletionOperationID t = op"
    "s' = s\<lparr>ls_intents := bdel key (ls_intents s)\<rparr>"
    by (auto simp: CompleteForwardDeleteIntent_def load_intent_eq [OF ok(2)] load_tomb_eq [OF ok(3)]
        split: option.splits if_splits)
  have "forwards_ok s'" using assms(2) i(5) by (auto simp: forwards_ok_def store_ok_def intro: intents_ok_bdel)
  moreover have "fstep rc (fwd s key) (fwd s' key)"
    using fstep.unfence [of "fwd s key" i t rc] i by (simp add: fwd_def)
  ultimately show ?thesis
    by (rule fwd_simulatesI) (use i(5) in \<open>simp add: fwd_def\<close>)
qed

lemma GCForwardTombstone_simulates:
  assumes "GCForwardTombstone key s = Inr s'" "forwards_ok s"
  shows "fwd_simulates (receipted s) s s'"
proof (cases "s' = s")
  case True
  with assms(2) show ?thesis by (simp add: fwd_simulates_refl)
next
  case False
  note ok = forwards_okD [OF assms(2)]
  from assms(1) False obtain t where t: "bget (ls_tombstones s) key = Some (Row t)" "bget (ls_intents s) key = None"
    "receipted s (ts_DeletionOperationID t)" "s' = s\<lparr>ls_tombstones := bdel key (ls_tombstones s)\<rparr>"
    using intent_row_None [OF ok(2), of key]
    by (auto simp: GCForwardTombstone_def load_intent_eq [OF ok(2)] load_tomb_eq [OF ok(3)] receipted_def row_of_None
        split: option.splits if_splits)
  have "forwards_ok s'" using assms(2) t(4) by (auto simp: forwards_ok_def store_ok_def intro: tombs_ok_bdel)
  moreover have "fstep (receipted s) (fwd s key) (fwd s' key)"
    using fstep.gc [of "fwd s key" t "receipted s"] t by (simp add: fwd_def)
  ultimately show ?thesis
    by (rule fwd_simulatesI) (use t(4) in \<open>simp add: fwd_def\<close>)
qed

section \<open>The commit\<close>

definition outcome_view :: "int \<Rightarrow> ForwardSpec \<Rightarrow> ForwardApply \<Rightarrow> fview \<Rightarrow> fview" where
  "outcome_view now spec o1 v =
     (case fa_Outcome o1 of
        ApplyApplied \<Rightarrow> v\<lparr>w_applied := map_option (\<lambda>a. \<lparr> ap_State = a, ap_ServingSpec = Some spec \<rparr>) (fa_Applied o1)\<rparr>
      | ApplyDeleted \<Rightarrow> v\<lparr>w_applied := None, w_tomb := Some \<lparr> ts_ForwardID = fa_ForwardID o1,
          ts_DeletionOperationID = f_DeletionOperationID spec, ts_DesiredRevision = f_DesiredRevision spec,
          ts_CreatedAtUnix = now \<rparr>\<rparr>
      | _ \<Rightarrow> v)"

lemma apply_applied_Inr:
  assumes "apply_applied spec a key s = Inr s'" "forwards_ok s" "validateAppliedRecord key a (Some spec) = Inr ()"
    and "key \<noteq> []" "af_ForwardID a = key"
  shows "bget (ls_tombstones s) key = None"
    and "s' = s\<lparr>ls_applied := bins key (encodeAppliedRecord a spec) (ls_applied s)\<rparr>"
    and "case w_applied (fwd s key) of None \<Rightarrow> True | Some old \<Rightarrow> applied_rev old \<le> af_SpecRevision a"
    and "load_applied key (encodeAppliedRecord a spec) = Inr \<lparr> ap_State = a, ap_ServingSpec = Some spec \<rparr>"
proof -
  note ok = forwards_okD [OF assms(2)]
  show "bget (ls_tombstones s) key = None"
    and "s' = s\<lparr>ls_applied := bins key (encodeAppliedRecord a spec) (ls_applied s)\<rparr>"
    using assms(1) by (auto simp: apply_applied_def ebind_Inr_iff bput_Inr_iff split: if_splits)
  show "case w_applied (fwd s key) of None \<Rightarrow> True | Some old \<Rightarrow> applied_rev old \<le> af_SpecRevision a"
    using assms(1)
    by (auto simp: apply_applied_def load_applied_eq [OF ok(4)] fwd_def applied_rev_def not_less
        split: option.splits if_splits)
  show "load_applied key (encodeAppliedRecord a spec) = Inr \<lparr> ap_State = a, ap_ServingSpec = Some spec \<rparr>"
    using assms(3-5) by (simp add: load_applied_def encodeAppliedRecord_def)
qed

lemma apply_applied_simulates:
  assumes "apply_applied spec a key s = Inr s'" "forwards_ok s" "validateAppliedRecord key a (Some spec) = Inr ()"
    and "key \<noteq> []" "af_ForwardID a = key" "w_intent (fwd s key) = None"
  shows "fwd_simulates rc s s'" "k \<noteq> key \<Longrightarrow> fwd s' k = fwd s k"
    and "fwd s' key = (fwd s key)\<lparr>w_applied := Some \<lparr> ap_State = a, ap_ServingSpec = Some spec \<rparr>\<rparr>"
proof -
  note r = apply_applied_Inr [OF assms(1-5)]
  note ok = forwards_okD [OF assms(2)]
  let ?b = "\<lparr> ap_State = a, ap_ServingSpec = Some spec \<rparr>"
  show v: "fwd s' key = (fwd s key)\<lparr>w_applied := Some ?b\<rparr>"
    using r(2,4) ok(8) by (simp add: fwd_def applied_view_def)
  have other: "fwd s' k = fwd s k" if "k \<noteq> key" for k using that r(2) ok(8) by (simp add: fwd_def)
  then show "k \<noteq> key \<Longrightarrow> fwd s' k = fwd s k" .
  have "forwards_ok s'"
    using assms(2) r(1,2,4) by (auto simp: forwards_ok_def store_ok_def intro: applied_ok_bins)
  moreover have "fstep rc (fwd s key) (fwd s' key)"
    unfolding v using assms(6) r(1,3) by (intro fstep.apply_new) (auto simp: fwd_def applied_rev_def split: option.splits)
  ultimately show "fwd_simulates rc s s'" using other by (rule fwd_simulatesI)
qed

lemma apply_deleted_simulates:
  assumes "apply_deleted now spec key s = Inr s'" "forwards_ok s" "f_DeletionOperationID spec \<noteq> []"
    and tomb: "\<And>t. w_tomb (fwd s key) = Some t \<Longrightarrow> ts_DeletionOperationID t = f_DeletionOperationID spec"
  shows "fwd_simulates rc s s'" "k \<noteq> key \<Longrightarrow> fwd s' k = fwd s k"
    and "fwd s' key = (fwd s key)\<lparr>w_applied := None, w_tomb := Some \<lparr> ts_ForwardID = key,
      ts_DeletionOperationID = f_DeletionOperationID spec, ts_DesiredRevision = f_DesiredRevision spec,
      ts_CreatedAtUnix = now \<rparr>\<rparr>"
    and "bget (ls_activation s') key = None"
proof -
  note ok = forwards_okD [OF assms(2)]
  let ?t = "\<lparr> ts_ForwardID = key, ts_DeletionOperationID = f_DeletionOperationID spec,
    ts_DesiredRevision = f_DesiredRevision spec, ts_CreatedAtUnix = now \<rparr>"
  have s': "s' = s\<lparr>ls_tombstones := bins key (Row ?t) (ls_tombstones s), ls_applied := bdel key (ls_applied s),
      ls_activation := bdel key (ls_activation s)\<rparr>"
    and i: "case w_intent (fwd s key) of None \<Rightarrow> True | Some i \<Rightarrow> di_DeletionOperationID i = ts_DeletionOperationID ?t"
    using assms(1)
    by (auto simp: apply_deleted_def load_intent_eq [OF ok(2)] ensure_Inr_iff ebind_Inr_iff bput_Inr_iff fwd_def
        split: option.splits)
  show v: "fwd s' key = (fwd s key)\<lparr>w_applied := None, w_tomb := Some ?t\<rparr>"
    using s' ok(7) by (simp add: fwd_def applied_view_def)
  have other: "fwd s' k = fwd s k" if "k \<noteq> key" for k using that s' ok(7) by (simp add: fwd_def)
  then show "k \<noteq> key \<Longrightarrow> fwd s' k = fwd s k" .
  have "forwards_ok s'"
    using assms(2,3) s' by (auto simp: forwards_ok_def store_ok_def intro: tombs_ok_bins applied_ok_bdel)
  moreover have "fstep rc (fwd s key) (fwd s' key)"
    unfolding v using i tomb by (intro fstep.delete_done) (auto split: option.splits)
  ultimately show "fwd_simulates rc s s'" using other by (rule fwd_simulatesI)
  show "bget (ls_activation s') key = None" using s' by simp
qed

definition planned :: "ForwardSpec list \<Rightarrow> ForwardSpec list \<Rightarrow> Store \<Rightarrow> ForwardApply \<Rightarrow> bool" where
  "planned specs mergedSpecs s o1 \<longleftrightarrow> (\<exists>spec. get_spec (fa_ForwardID o1) specs = Some spec \<and> fa_ForwardID o1 \<noteq> [] \<and>
     check_outcome spec o1 = Inr () \<and>
     (get_spec (fa_ForwardID o1) mergedSpecs = Some spec \<longrightarrow> f_Presence spec = PresenceAbsent \<longrightarrow>
        (\<forall>t. w_tomb (fwd s (fa_ForwardID o1)) = Some t \<longrightarrow> ts_DeletionOperationID t = f_DeletionOperationID spec)))"

definition same_rest :: "Store \<Rightarrow> Store \<Rightarrow> bool" where
  "same_rest s s' \<longleftrightarrow> s' = s\<lparr>ls_applied := ls_applied s', ls_tombstones := ls_tombstones s', ls_activation := ls_activation s'\<rparr>"

lemma commit_one_simulates:
  assumes c: "commit_one now specs mergedSpecs o1 (s, r) = Inr (s', r')" and ok: "forwards_ok s"
    and p: "planned specs mergedSpecs s o1" and spec: "get_spec (fa_ForwardID o1) specs = Some spec"
  shows "fwd_simulates rc s s'" "k \<noteq> fa_ForwardID o1 \<Longrightarrow> fwd s' k = fwd s k"
    and "fwd s' (fa_ForwardID o1) = outcome_view now spec o1 (fwd s (fa_ForwardID o1))"
    and "fa_Outcome o1 \<noteq> ApplySkipped \<Longrightarrow> get_spec (fa_ForwardID o1) mergedSpecs = Some spec"
    and "fa_Outcome o1 = ApplyApplied \<Longrightarrow> w_intent (fwd s (fa_ForwardID o1)) = None \<and> w_tomb (fwd s (fa_ForwardID o1)) = None"
    and "same_rest s s'"
proof -
  note okD = forwards_okD [OF ok]
  let ?key = "fa_ForwardID o1"
  from p spec have key: "?key \<noteq> []" "check_outcome spec o1 = Inr ()"
    and tomb: "get_spec ?key mergedSpecs = Some spec \<Longrightarrow> f_Presence spec = PresenceAbsent \<Longrightarrow>
      w_tomb (fwd s ?key) = Some t \<Longrightarrow> ts_DeletionOperationID t = f_DeletionOperationID spec" for t
    by (auto simp: planned_def)
  have g: "fa_Outcome o1 \<noteq> ApplySkipped \<Longrightarrow> get_spec ?key mergedSpecs = Some spec"
    using c spec by (auto simp: commit_one_def Let_def ebind_Inr_iff split: if_splits)
  then show "fa_Outcome o1 \<noteq> ApplySkipped \<Longrightarrow> get_spec (fa_ForwardID o1) mergedSpecs = Some spec" .
  have fence: "w_intent (fwd s ?key) = None \<and> w_tomb (fwd s ?key) = None" if "fa_Outcome o1 = ApplyApplied"
    using c spec that
    by (auto simp: commit_one_def Let_def ebind_Inr_iff loadForwardDeleteFenceTx_def load_intent_eq [OF okD(2)]
        load_tomb_eq [OF okD(3)] ensure_Inr_iff fwd_def split: if_splits)
  then show "fa_Outcome o1 = ApplyApplied \<Longrightarrow> w_intent (fwd s ?key) = None \<and> w_tomb (fwd s ?key) = None" .
  have "fwd_simulates rc s s' \<and> (\<forall>k. k \<noteq> ?key \<longrightarrow> fwd s' k = fwd s k) \<and>
    fwd s' ?key = outcome_view now spec o1 (fwd s ?key) \<and> same_rest s s'"
  proof (cases "fa_Outcome o1")
    case ApplyApplied
    with c g spec obtain a where a: "fa_Applied o1 = Some a" "apply_applied spec a ?key s = Inr s'"
      by (auto simp: commit_one_def Let_def ebind_Inr_iff split: option.splits)
    from key(2) ApplyApplied a(1) have v: "validateAppliedRecord ?key a (Some spec) = Inr ()" "af_ForwardID a = ?key"
      by (auto simp: check_outcome_def split: sum.splits if_splits)
    note sim = apply_applied_simulates [OF a(2) ok v(1) key(1) v(2)]
    show ?thesis
      using sim fence [OF ApplyApplied] a(1) ApplyApplied apply_applied_Inr(2) [OF a(2) ok v(1) key(1) v(2)]
      by (simp add: outcome_view_def same_rest_def)
  next
    case ApplyDeleted
    with c g spec have d: "apply_deleted now spec ?key s = Inr s'"
      by (auto simp: commit_one_def Let_def ebind_Inr_iff)
    from key(2) ApplyDeleted have del: "f_DeletionOperationID spec \<noteq> []" "f_Presence spec = PresenceAbsent"
      by (auto simp: check_outcome_def ensure_Inr_iff)
    have g': "get_spec ?key mergedSpecs = Some spec" using g ApplyDeleted by simp
    have "same_rest s s'" using d by (auto simp: apply_deleted_def same_rest_def ebind_Inr_iff ensure_Inr_iff)
    then show ?thesis
      using apply_deleted_simulates [OF d ok del(1) tomb [OF g' del(2)]] ApplyDeleted by (simp add: outcome_view_def)
  qed (use c g spec ok key in \<open>auto simp: commit_one_def Let_def outcome_view_def same_rest_def fwd_simulates_refl
      check_outcome_def split: if_splits\<close>)
  then show "fwd_simulates rc s s'" "k \<noteq> ?key \<Longrightarrow> fwd s' k = fwd s k"
    "fwd s' ?key = outcome_view now spec o1 (fwd s ?key)" "same_rest s s'" by simp_all
qed

text \<open>What a commit leaves alone, row by row: the applied record and the tombstone of a Forward change only if its outcome
  is applied or deleted, and its activation mirror only if it is deleted.\<close>

definition outcomes_of :: "ApplyOutcome set \<Rightarrow> ForwardApply list \<Rightarrow> string set" where
  "outcomes_of A os = {fa_ForwardID o1 | o1. o1 \<in> set os \<and> fa_Outcome o1 \<in> A}"

definition rows_framed :: "ForwardApply list \<Rightarrow> Store \<Rightarrow> Store \<Rightarrow> bool" where
  "rows_framed os s s' \<longleftrightarrow> (\<forall>k.
     (k \<notin> outcomes_of {ApplyApplied, ApplyDeleted} os \<longrightarrow>
        bget (ls_applied s') k = bget (ls_applied s) k \<and> bget (ls_tombstones s') k = bget (ls_tombstones s) k) \<and>
     bget (ls_activation s') k = (if k \<in> outcomes_of {ApplyDeleted} os then None else bget (ls_activation s) k))"

lemma commit_one_framed:
  assumes "commit_one now specs mergedSpecs o1 (s, r) = Inr (s', r')" "forwards_ok s"
  shows "rows_framed [o1] s s'"
proof -
  note ok = forwards_okD(7,8) [OF assms(2)]
  show ?thesis
  proof (cases "fa_Outcome o1")
    case ApplyApplied
    then show ?thesis using assms(1) ok
      by (auto simp: commit_one_def Let_def ebind_Inr_iff apply_applied_def bput_Inr_iff rows_framed_def outcomes_of_def
          split: option.splits if_splits)
  next
    case ApplyDeleted
    then show ?thesis using assms(1) ok
      by (auto simp: commit_one_def Let_def ebind_Inr_iff apply_deleted_def ensure_Inr_iff bput_Inr_iff rows_framed_def
          outcomes_of_def split: option.splits if_splits)
  qed (use assms(1) in \<open>auto simp: commit_one_def Let_def rows_framed_def outcomes_of_def split: option.splits if_splits\<close>)
qed

lemma rows_framed_Cons:
  assumes "rows_framed [o1] s s1" "rows_framed os s1 s'"
  shows "rows_framed (o1 # os) s s'"
proof -
  have "outcomes_of A (o1 # os) = outcomes_of A [o1] \<union> outcomes_of A os" for A by (auto simp: outcomes_of_def)
  with assms show ?thesis by (simp add: rows_framed_def)
qed

definition reported :: "ApplyReport \<Rightarrow> ForwardApply list \<Rightarrow> ApplyReport \<Rightarrow> bool" where
  "reported r os r' \<longleftrightarrow>
     rp_AppliedCount r' = rp_AppliedCount r + length (filter (\<lambda>o1. fa_Outcome o1 = ApplyApplied) os) \<and>
     rp_DeletedCount r' = rp_DeletedCount r + length (filter (\<lambda>o1. fa_Outcome o1 = ApplyDeleted) os) \<and>
     rp_FailedCount r' = rp_FailedCount r + length (filter (\<lambda>o1. fa_Outcome o1 = ApplyFailed) os) \<and>
     rp_FailedForwards r' = rp_FailedForwards r @ map fa_ForwardID (filter (\<lambda>o1. fa_Outcome o1 = ApplyFailed \<and> fa_Err o1) os)"

lemma commit_one_reported:
  "commit_one now specs mergedSpecs o1 (s, r) = Inr (s', r') \<Longrightarrow> reported r [o1] r'"
  by (cases "fa_Outcome o1")
    (auto simp: commit_one_def Let_def ebind_Inr_iff reported_def split: option.splits if_splits)

definition committed :: "int \<Rightarrow> ForwardSpec list \<Rightarrow> ForwardSpec list \<Rightarrow> Store \<Rightarrow> Store \<Rightarrow> ForwardApply \<Rightarrow> bool" where
  "committed now specs mergedSpecs s s' o1 \<longleftrightarrow> (\<exists>spec. get_spec (fa_ForwardID o1) specs = Some spec \<and>
     fwd s' (fa_ForwardID o1) = outcome_view now spec o1 (fwd s (fa_ForwardID o1)) \<and>
     (fa_Outcome o1 \<noteq> ApplySkipped \<longrightarrow> get_spec (fa_ForwardID o1) mergedSpecs = Some spec) \<and>
     (fa_Outcome o1 = ApplyApplied \<longrightarrow> w_intent (fwd s (fa_ForwardID o1)) = None \<and> w_tomb (fwd s (fa_ForwardID o1)) = None))"

lemma committed_cong: "fwd s (fa_ForwardID o1) = fwd t (fa_ForwardID o1) \<Longrightarrow>
  committed now specs mergedSpecs s s' o1 = committed now specs mergedSpecs t s' o1"
  by (simp add: committed_def)

lemma commit_all_simulates:
  assumes "commit_all now specs mergedSpecs os (s, r) = Inr (s', r')" "forwards_ok s"
    and "distinct (map fa_ForwardID os)" "\<forall>o1 \<in> set os. planned specs mergedSpecs s o1"
  shows "fwd_simulates rc s s' \<and> same_rest s s' \<and> (\<forall>k. k \<notin> fa_ForwardID ` set os \<longrightarrow> fwd s' k = fwd s k) \<and>
    (\<forall>o1 \<in> set os. committed now specs mergedSpecs s s' o1) \<and> rows_framed os s s' \<and> reported r os r'"
  using assms
proof (induction os arbitrary: s r)
  case Nil
  then show ?case by (simp add: fwd_simulates_refl same_rest_def rows_framed_def outcomes_of_def reported_def)
next
  case (Cons o1 os)
  then obtain s1 r1 where c: "commit_one now specs mergedSpecs o1 (s, r) = Inr (s1, r1)"
    "commit_all now specs mergedSpecs os (s1, r1) = Inr (s', r')" by (auto simp: ebind_Inr_iff)
  from Cons.prems(4) obtain spec where spec: "planned specs mergedSpecs s o1" "get_spec (fa_ForwardID o1) specs = Some spec"
    by (auto simp: planned_def)
  note one = commit_one_simulates [OF c(1) Cons.prems(2) spec]
  have ok1: "forwards_ok s1" using one(1) by (simp add: fwd_simulates_def)
  have away: "fwd s1 (fa_ForwardID o2) = fwd s (fa_ForwardID o2)" if "o2 \<in> set os" for o2
    using that Cons.prems(3) one(2) by (metis distinct.simps(2) image_eqI list.set_map list.simps(9))
  have pl: "\<forall>o2 \<in> set os. planned specs mergedSpecs s1 o2" "distinct (map fa_ForwardID os)"
    using Cons.prems(3,4) away by (simp_all add: planned_def)
  note IH = Cons.IH [OF c(2) ok1 pl(2,1)]
  have mine: "fwd s' (fa_ForwardID o1) = fwd s1 (fa_ForwardID o1)" using IH Cons.prems(3) by simp
  have "committed now specs mergedSpecs s s' o1"
    unfolding committed_def using spec(2) one(3-5) mine by simp
  moreover have "committed now specs mergedSpecs s s' o2" if "o2 \<in> set os" for o2
    using IH that committed_cong [OF away [OF that]] by blast
  moreover have "same_rest s s'" using IH one(6) by (cases s; cases s1; cases s') (simp add: same_rest_def)
  moreover have "fwd_simulates rc s s'" using one(1) IH by (blast intro: fwd_simulates_trans)
  moreover have "rows_framed (o1 # os) s s'" using commit_one_framed [OF c(1) Cons.prems(2)] IH by (blast intro: rows_framed_Cons)
  moreover have "reported r (o1 # os) r'" using commit_one_reported [OF c(1)] IH by (simp add: reported_def)
  ultimately show ?case using IH one(2) by simp
qed

lemma check_outcomes_Inr:
  "check_outcomes specs seen os = Inr () \<Longrightarrow>
     distinct (map fa_ForwardID os) \<and> (\<forall>o1 \<in> set os. fa_ForwardID o1 \<notin> set seen) \<and>
     (\<forall>o1 \<in> set os. \<exists>spec. get_spec (fa_ForwardID o1) specs = Some spec \<and> check_outcome spec o1 = Inr ())"
  by (induction specs seen os rule: check_outcomes.induct)
    (auto simp: ebind_Inr_iff split: option.splits if_splits)

text \<open>A row that survives the merge unchanged although the Forward is fenced names the fence's operation.\<close>

lemma merge_spec_fenced:
  assumes "merge_spec s f cur = Inr f" "forwards_ok s" "f_Presence f = PresenceAbsent"
    and "w_tomb (fwd s (f_ForwardID f)) = Some t"
  shows "ts_DeletionOperationID t = f_DeletionOperationID f"
proof -
  note ok = forwards_okD [OF assms(2)]
  have t: "bget (ls_tombstones s) (f_ForwardID f) = Some (Row t)" using assms(4) by (simp add: fwd_def)
  then have "ts_DeletionOperationID t \<noteq> []" using ok(3) by (auto simp: tombs_ok_def)
  with assms(1,3) t show ?thesis
    by (auto simp: merge_spec_def load_intent_eq [OF ok(2)] load_tomb_eq [OF ok(3)] deleteFenceIdentity_def Let_def
        fence_mismatch_def split: option.splits if_splits)
qed

lemma CommitDesired_Inr:
  assumes "CommitDesired now d os s = Inr (s', r)" "forwards_ok s"
  obtains m where "DesiredState_Validate d = Inr ()" "mergeReceivedDesiredTx s d = Inr m"
    "fwd_simulates rc s s'" "ls_desired s' = [(d_NodeID m, Row m)]" "desired_row s' = (\<lambda>k. get_spec k (d_Forwards m))"
    "\<forall>k. k \<notin> fa_ForwardID ` set os \<longrightarrow> fwd s' k = fwd s k"
    "\<forall>o1 \<in> set os. committed now (d_Forwards d) (d_Forwards m) s s' o1"
    "rows_framed os s s'" "reported empty_report os r" "rp_Status r = report_status r"
    "s' = s\<lparr>ls_desired := ls_desired s', ls_applied := ls_applied s', ls_tombstones := ls_tombstones s',
      ls_activation := ls_activation s'\<rparr>"
proof -
  from assms(1) obtain m s1 r0 where c: "DesiredState_Validate d = Inr ()" "check_outcomes (d_Forwards d) [] os = Inr ()"
    "mergeReceivedDesiredTx s d = Inr m" "put_desired m s = Inr s1"
    "commit_all now (d_Forwards d) (d_Forwards m) os (s1, empty_report) = Inr (s', r0)" "r = r0\<lparr>rp_Status := report_status r0\<rparr>"
    by (auto simp: CommitDesired_def ebind_Inr_iff ensure_Inr_iff check_desired_iff)
  note ok = forwards_okD [OF assms(2)]
  note mg = mergeReceived_spec [OF c(3) ok(5) c(1)]
  have s1: "s1 = s\<lparr>ls_desired := [(d_NodeID m, Row m)]\<rparr>" using put_desired_spec(1) [OF c(4) mg(1)] mg(2,3) by simp
  have v1: "fwd s1 k = fwd s k" for k using s1 by (simp add: fwd_def)
  have sim1: "fwd_simulates rc s s1"
    using s1 assms(2) mg(1) by (intro fwd_frame) (auto simp: forwards_ok_def store_ok_def desired_ok_def bucket_ok_def)
  have pl: "planned (d_Forwards d) (d_Forwards m) s1 o1" if o1: "o1 \<in> set os" for o1
  proof -
    from check_outcomes_Inr [OF c(2)] o1 obtain spec where
      spec: "get_spec (fa_ForwardID o1) (d_Forwards d) = Some spec" "check_outcome spec o1 = Inr ()" by blast
    have id: "fa_ForwardID o1 = f_ForwardID spec" "fa_ForwardID o1 \<noteq> []"
      using get_spec_Some [OF spec(1)] c(1) ForwardSpec_Validate_deletion
      by (auto simp: desired_specs specs_ok_def)
    have "ts_DeletionOperationID t = f_DeletionOperationID spec"
      if "get_spec (fa_ForwardID o1) (d_Forwards m) = Some spec" "f_Presence spec = PresenceAbsent"
        "w_tomb (fwd s (fa_ForwardID o1)) = Some t" for t
      using mg(5) [OF spec(1)] that merge_spec_fenced [OF _ assms(2), of spec "desired_row s (fa_ForwardID o1)" t] id(1)
      by auto
    then show ?thesis unfolding planned_def using spec id(2) v1 by simp
  qed
  have ok1: "forwards_ok s1" using sim1 by (simp add: fwd_simulates_def)
  have dist: "distinct (map fa_ForwardID os)" using check_outcomes_Inr [OF c(2)] by simp
  have all: "fwd_simulates rc s1 s' \<and> same_rest s1 s' \<and> (\<forall>k. k \<notin> fa_ForwardID ` set os \<longrightarrow> fwd s' k = fwd s1 k) \<and>
    (\<forall>o1 \<in> set os. committed now (d_Forwards d) (d_Forwards m) s1 s' o1) \<and> rows_framed os s1 s' \<and> reported empty_report os r0"
    by (rule commit_all_simulates [OF c(5) ok1 dist]) (use pl in blast)
  have des: "ls_desired s' = [(d_NodeID m, Row m)]" using all s1 by (cases s') (simp add: same_rest_def)
  have "desired_row s' = (\<lambda>k. get_spec k (d_Forwards m))"
    using des mg(1) by (simp add: desired_row_def LoadReceivedDesired_def check_desired_def fun_eq_iff)
  moreover have "s' = s\<lparr>ls_desired := ls_desired s', ls_applied := ls_applied s', ls_tombstones := ls_tombstones s',
      ls_activation := ls_activation s'\<rparr>" using all s1 by (cases s; cases s') (simp add: same_rest_def)
  moreover have "committed now (d_Forwards d) (d_Forwards m) s s' o1" if "o1 \<in> set os" for o1
    using all that committed_cong [OF v1] by blast
  moreover have "rows_framed os s s'" using all s1 by (simp add: rows_framed_def)
  moreover have "reported empty_report os r" "rp_Status r = report_status r"
    using all c(6) by (simp_all add: reported_def report_status_def)
  ultimately show thesis using all that c(1,3) des v1 fwd_simulates_trans [OF sim1] by metis
qed

lemma load_applied_refresh:
  "load_applied k (Row r) = Inr a \<Longrightarrow> ap_ServingSpec a = Some spec \<Longrightarrow>
   load_applied k (encodeAppliedRecord ((ap_State a)\<lparr>af_MappingJournalRef := ref\<rparr>) spec) =
     Inr (a\<lparr>ap_State := (ap_State a)\<lparr>af_MappingJournalRef := ref\<rparr>\<rparr>)"
  by (cases a) (auto simp: load_applied_def encodeAppliedRecord_def ebind_Inr_iff validateAppliedRecord_def
      AppliedForwardState_Validate_def split: sum.splits if_splits option.splits)

lemma RefreshAppliedJournalRef_simulates:
  assumes "RefreshAppliedJournalRef key ref s = Inr (s', b)" "forwards_ok s"
  shows "fwd_simulates rc s s'"
proof (cases "s' = s")
  case True
  with assms(2) show ?thesis by (simp add: fwd_simulates_refl)
next
  case False
  note ok = forwards_okD [OF assms(2)]
  from assms(1) False obtain raw state spec where r: "bget (ls_applied s) key = Some raw"
    "decodeAppliedRecord raw = Inr (state, Some spec)"
    "s' = s\<lparr>ls_applied := bins key (encodeAppliedRecord (state\<lparr>af_MappingJournalRef := ref\<rparr>) spec) (ls_applied s)\<rparr>"
    by (auto simp: RefreshAppliedJournalRef_def ebind_Inr_iff bput_Inr_iff split: option.splits if_splits)
  from r(1) ok(4) obtain a where a: "load_applied key raw = Inr a" by (auto simp: applied_ok_def)
  with r(2) have st: "ap_State a = state" "ap_ServingSpec a = Some spec" by (auto simp: load_applied_def ebind_Inr_iff)
  obtain r0 where r0: "raw = Row r0" using r(2) by (cases raw) auto
  note l = load_applied_refresh [OF a [unfolded r0] st(2), of ref]
  have "forwards_ok s'"
    using assms(2) r(1,3) l st(1) by (auto simp: forwards_ok_def store_ok_def intro: applied_ok_bins)
  moreover have "fstep rc (fwd s key) (fwd s' key)"
    using fstep.refresh [of "fwd s key" a "a\<lparr>ap_State := (ap_State a)\<lparr>af_MappingJournalRef := ref\<rparr>\<rparr>" rc] r(1,3) l a st(1) ok(8)
    by (simp add: fwd_def applied_view_def applied_rev_def)
  ultimately show ?thesis
    by (rule fwd_simulatesI) (use r(3) ok(8) in \<open>simp add: fwd_def\<close>)
qed

lemma SaveReceivedDesired_row:
  assumes "SaveReceivedDesired d s = Inr s'" "forwards_ok s"
  shows "get_spec k (d_Forwards d) = None \<Longrightarrow> desired_row s' k = desired_row s k"
    and "get_spec k (d_Forwards d) = Some f \<Longrightarrow>
      \<exists>spec. merge_spec s f (desired_row s k) = Inr spec \<and> desired_row s' k = Some spec"
    and "s' = s\<lparr>ls_desired := ls_desired s'\<rparr>"
proof -
  from assms(1) obtain m where m: "DesiredState_Validate d = Inr ()" "mergeReceivedDesiredTx s d = Inr m"
    "put_desired m s = Inr s'" by (auto simp: SaveReceivedDesired_def ebind_Inr_iff check_desired_iff)
  note sp = mergeReceived_spec [OF m(2) forwards_okD(5) [OF assms(2)] m(1)]
  note row = put_desired_spec [OF m(3) sp(1)]
  show "get_spec k (d_Forwards d) = None \<Longrightarrow> desired_row s' k = desired_row s k"
    using sp(4) [of k] row(2) [of k] sp(2,3) by simp
  show "get_spec k (d_Forwards d) = Some f \<Longrightarrow> \<exists>spec. merge_spec s f (desired_row s k) = Inr spec \<and> desired_row s' k = Some spec"
    using sp(5) [of k f] row(2) [of k] sp(2,3) by simp
  show "s' = s\<lparr>ls_desired := ls_desired s'\<rparr>" using row(1) sp(2,3) by simp
qed

lemma merge_spec_unfenced:
  "forwards_ok s \<Longrightarrow> w_intent (fwd s (f_ForwardID f)) = None \<Longrightarrow> w_tomb (fwd s (f_ForwardID f)) = None \<Longrightarrow>
   merge_spec s f cur = merge_revision f cur"
  using forwards_okD(2,3) [of s]
  by (simp add: merge_spec_def load_intent_eq load_tomb_eq fwd_def deleteFenceIdentity_def)

lemma merge_spec_absent:
  assumes "merge_spec s f cur = Inr spec" "forwards_ok s"
    and "w_intent (fwd s (f_ForwardID f)) \<noteq> None \<or> w_tomb (fwd s (f_ForwardID f)) \<noteq> None"
  shows "f_Presence spec = PresenceAbsent"
proof -
  note ok = forwards_okD [OF assms(2)]
  have op: "op \<noteq> []" if "deleteFenceIdentity (w_intent (fwd s (f_ForwardID f))) (w_tomb (fwd s (f_ForwardID f))) = Inr (op, r)"
    for op r
    using that assms(3) ok(2,3)
    by (auto simp: deleteFenceIdentity_def Let_def fwd_def intents_ok_def tombs_ok_def validateForwardDeleteIntent_def
        split: option.splits if_splits)
  from assms(1) obtain op r where d: "deleteFenceIdentity (w_intent (fwd s (f_ForwardID f))) (w_tomb (fwd s (f_ForwardID f))) = Inr (op, r)"
    by (auto simp: merge_spec_def load_intent_eq [OF ok(2)] load_tomb_eq [OF ok(3)] ebind_Inr_iff fwd_def)
  with op [OF d] assms(1) show ?thesis
    by (auto simp: merge_spec_def load_intent_eq [OF ok(2)] load_tomb_eq [OF ok(3)] fwd_def fencedAbsentSpec_def Let_def
        split: option.splits if_splits)
qed

definition newest :: "ForwardSpec set \<Rightarrow> ForwardSpec \<Rightarrow> bool" where
  "newest S a \<longleftrightarrow> a \<in> S \<and> (\<forall>x \<in> S. f_DesiredRevision x < f_DesiredRevision a \<or> x = a)"

lemma newest_unique: "newest S a \<Longrightarrow> newest S b \<Longrightarrow> a = b"
  unfolding newest_def using order.asym by blast

lemma newest_insert: "newest S a \<Longrightarrow> newest (insert g {a}) b \<Longrightarrow> newest (insert g S) b"
  unfolding newest_def by (auto intro: less_trans)

lemma merge_revision_newest: "merge_revision f cur = Inr a \<Longrightarrow> newest (insert f (set_option cur)) a"
  by (cases cur) (auto simp: merge_revision_def newest_def split: if_splits)

lemma merge_revision_comm:
  assumes "merge_revision f cur = Inr a" "merge_revision g (Some a) = Inr b"
    and "merge_revision g cur = Inr c" "merge_revision f (Some c) = Inr e"
  shows "b = e"
proof -
  have "newest (insert g (insert f (set_option cur))) b"
    using newest_insert [OF merge_revision_newest [OF assms(1)]] merge_revision_newest [OF assms(2)] by simp
  moreover have "newest (insert f (insert g (set_option cur))) e"
    using newest_insert [OF merge_revision_newest [OF assms(3)]] merge_revision_newest [OF assms(4)] by simp
  ultimately show ?thesis by (metis insert_commute newest_unique)
qed

lemma merge_revision_mono: "merge_revision f (Some c) = Inr a \<Longrightarrow> f_DesiredRevision c \<le> f_DesiredRevision a"
  by (auto simp: merge_revision_def split: if_splits)

section \<open>What the abstract Forward guarantees\<close>

definition fwd_inv :: "fview \<Rightarrow> bool" where
  "fwd_inv v \<longleftrightarrow> (w_tomb v \<noteq> None \<longrightarrow> w_applied v = None)"

lemma fwd_inv_step: "fstep rc v v' \<Longrightarrow> fwd_inv v \<Longrightarrow> fwd_inv v'"
  by (induction rule: fstep.induct) (auto simp: fwd_inv_def)

lemma tomb_step: "fstep (\<lambda>_. False) v v' \<Longrightarrow> w_tomb v \<noteq> None \<Longrightarrow> w_tomb v' \<noteq> None"
  by (induction rule: fstep.induct) auto

lemma rev_mono_step:
  "fstep (\<lambda>_. False) v v' \<Longrightarrow> w_applied v = Some a \<Longrightarrow> w_tomb v' \<noteq> None \<or> (\<exists>b. w_applied v' = Some b \<and> applied_rev a \<le> applied_rev b)"
  by (induction rule: fstep.induct) auto

text \<open>Without a garbage collection an applied Forward only moves to a newer revision or is deleted.\<close>

lemma rev_mono_run:
  assumes "(fstep (\<lambda>_. False))\<^sup>*\<^sup>* v v'" "w_applied v = Some a" "w_tomb v' = None"
  shows "\<exists>b. w_applied v' = Some b \<and> applied_rev a \<le> applied_rev b"
proof -
  have "w_tomb v' \<noteq> None \<or> (\<exists>b. w_applied v' = Some b \<and> applied_rev a \<le> applied_rev b)"
    using assms(1)
  proof (induction rule: rtranclp_induct)
    case base
    then show ?case using assms(2) by simp
  next
    case (step u w)
    then show ?case using tomb_step [OF step(2)] rev_mono_step [OF step(2)] order.trans by blast
  qed
  with assms(3) show ?thesis by simp
qed

section \<open>Properties\<close>

abbreviation fenced :: "Store \<Rightarrow> string \<Rightarrow> bool" where
  "fenced s k \<equiv> w_intent (fwd s k) \<noteq> None \<or> w_tomb (fwd s k) \<noteq> None"

definition outcome_effect :: "Store \<Rightarrow> Store \<Rightarrow> ForwardSpec \<Rightarrow> ForwardApply \<Rightarrow> bool" where
  "outcome_effect s s' spec o1 \<longleftrightarrow> (case fa_Outcome o1 of
       ApplyApplied \<Rightarrow> \<not> fenced s (fa_ForwardID o1) \<and>
         (\<exists>a. fa_Applied o1 = Some a \<and> w_applied (fwd s' (fa_ForwardID o1)) = Some \<lparr> ap_State = a, ap_ServingSpec = Some spec \<rparr> \<and>
           (\<forall>old. w_applied (fwd s (fa_ForwardID o1)) = Some old \<longrightarrow> applied_rev old \<le> af_SpecRevision a))
     | ApplyDeleted \<Rightarrow> w_applied (fwd s' (fa_ForwardID o1)) = None \<and>
         (\<exists>t. w_tomb (fwd s' (fa_ForwardID o1)) = Some t \<and> ts_DeletionOperationID t = f_DeletionOperationID spec)
     | _ \<Rightarrow> fwd s' (fa_ForwardID o1) = fwd s (fa_ForwardID o1))"

lemma committed_outcome:
  assumes "CommitDesired now d outcomes s = Inr (s', report)" "forwards_ok s" "o1 \<in> set outcomes"
    and "fwd_simulates (\<lambda>_. False) s s'" "get_spec (fa_ForwardID o1) (d_Forwards d) = Some spec"
    and "fwd s' (fa_ForwardID o1) = outcome_view now spec o1 (fwd s (fa_ForwardID o1))"
    and "fa_Outcome o1 = ApplyApplied \<Longrightarrow> \<not> fenced s (fa_ForwardID o1)"
  shows "outcome_effect s s' spec o1"
proof -
  have "check_outcomes (d_Forwards d) [] outcomes = Inr ()"
    using assms(1) by (auto simp: CommitDesired_def ebind_Inr_iff ensure_Inr_iff)
  from check_outcomes_Inr [OF this] assms(3,5) have chk: "check_outcome spec o1 = Inr ()" by auto
  have applied: "\<exists>a. fa_Applied o1 = Some a" if "fa_Outcome o1 = ApplyApplied"
    using chk that by (auto simp: check_outcome_def split: option.splits)
  have mono: "applied_rev old \<le> af_SpecRevision a"
    if "fa_Outcome o1 = ApplyApplied" "fa_Applied o1 = Some a" "w_applied (fwd s (fa_ForwardID o1)) = Some old" for a old
  proof -
    have run: "(fstep (\<lambda>_. False))\<^sup>*\<^sup>* (fwd s (fa_ForwardID o1)) (fwd s' (fa_ForwardID o1))"
      using assms(4) by (simp add: fwd_simulates_def)
    have "w_tomb (fwd s' (fa_ForwardID o1)) = None" using assms(6,7) that(1) by (simp add: outcome_view_def)
    with rev_mono_run [OF run that(3)] assms(6) that(1,2) show ?thesis by (simp add: outcome_view_def applied_rev_def)
  qed
  show ?thesis
    using assms(6,7) applied mono by (auto simp: outcome_effect_def outcome_view_def split: ApplyOutcome.splits)
qed

text \<open>The outcomes of a commit cover the received snapshot: they are as many as its Forwards and name each once.\<close>

lemma outcomes_cover:
  assumes "CommitDesired now d outcomes s = Inr (s', report)" "DesiredState_Validate d = Inr ()"
    and "k \<notin> fa_ForwardID ` set outcomes"
  shows "get_spec k (d_Forwards d) = None"
proof -
  let ?ids = "map fa_ForwardID outcomes" and ?keys = "map f_ForwardID (d_Forwards d)"
  from assms(1) have len: "length outcomes = length (d_Forwards d)" and c: "check_outcomes (d_Forwards d) [] outcomes = Inr ()"
    by (auto simp: CommitDesired_def ebind_Inr_iff ensure_Inr_iff)
  have dist: "distinct ?ids" using check_outcomes_Inr [OF c] by simp
  have sub: "set ?ids \<subseteq> set ?keys"
  proof
    fix x
    assume "x \<in> set ?ids"
    with check_outcomes_Inr [OF c] obtain spec where "get_spec x (d_Forwards d) = Some spec" by auto
    then show "x \<in> set ?keys" using get_spec_Some by force
  qed
  have "card (set ?keys) \<le> card (set ?ids)" using len distinct_card [OF dist] card_length [of ?keys] by simp
  with sub have "set ?ids = set ?keys" by (intro card_seteq) simp_all
  then show ?thesis using assms(3) get_spec_Some [of k] by (cases "get_spec k (d_Forwards d)") fastforce+
qed

text \<open>
  C11. A successful commit on a well-formed store does exactly what its outcomes say, for every Forward of the batch
  and for no other. An
  applied Forward was not fenced, its record is the reported state with its serving target, and the applied
  revision has not gone back. A deleted Forward loses its applied record and its activation mirror and has a tombstone
  with its deletion operation. A failed or skipped Forward keeps all its facts. The received row of every Forward that
  is not skipped is the committed specification; the row of a skipped one is the merge of the received specification
  into the old row. Every other row is as before: the received row, the applied record and the tombstone of each
  Forward outside the batch, and the activation mirror of each Forward that the batch does not delete. The store stays
  well formed, nothing outside the four Forward buckets changes, and the report counts the outcomes.
\<close>

theorem commit_desired_effect:
  assumes "CommitDesired now d outcomes s = Inr (s', report)" "forwards_ok s" "o1 \<in> set outcomes"
  shows "\<exists>spec. get_spec (fa_ForwardID o1) (d_Forwards d) = Some spec \<and> forwards_ok s' \<and>
    (case fa_Outcome o1 of
       ApplyApplied \<Rightarrow> \<not> fenced s (fa_ForwardID o1) \<and>
         (\<exists>a. fa_Applied o1 = Some a \<and> w_applied (fwd s' (fa_ForwardID o1)) = Some \<lparr> ap_State = a, ap_ServingSpec = Some spec \<rparr> \<and>
           (\<forall>old. w_applied (fwd s (fa_ForwardID o1)) = Some old \<longrightarrow> applied_rev old \<le> af_SpecRevision a))
     | ApplyDeleted \<Rightarrow> w_applied (fwd s' (fa_ForwardID o1)) = None \<and> bget (ls_activation s') (fa_ForwardID o1) = None \<and>
         (\<exists>t. w_tomb (fwd s' (fa_ForwardID o1)) = Some t \<and> ts_DeletionOperationID t = f_DeletionOperationID spec)
     | _ \<Rightarrow> fwd s' (fa_ForwardID o1) = fwd s (fa_ForwardID o1)) \<and>
    (if fa_Outcome o1 = ApplySkipped
     then \<exists>row. merge_spec s spec (desired_row s (fa_ForwardID o1)) = Inr row \<and> desired_row s' (fa_ForwardID o1) = Some row
     else desired_row s' (fa_ForwardID o1) = Some spec) \<and>
    (\<forall>k. k \<notin> fa_ForwardID ` set outcomes \<longrightarrow> fwd s' k = fwd s k \<and> desired_row s' k = desired_row s k \<and>
       bget (ls_applied s') k = bget (ls_applied s) k \<and> bget (ls_tombstones s') k = bget (ls_tombstones s) k) \<and>
    (\<forall>k. k \<notin> outcomes_of {ApplyDeleted} outcomes \<longrightarrow> bget (ls_activation s') k = bget (ls_activation s) k) \<and>
    s' = s\<lparr>ls_desired := ls_desired s', ls_applied := ls_applied s', ls_tombstones := ls_tombstones s',
      ls_activation := ls_activation s'\<rparr> \<and>
    reported empty_report outcomes report \<and> rp_Status report = report_status report"
proof -
  obtain m :: DesiredState where m: "fwd_simulates (\<lambda>_. False) s s'" "desired_row s' = (\<lambda>k. get_spec k (d_Forwards m))"
    "\<forall>k. k \<notin> fa_ForwardID ` set outcomes \<longrightarrow> fwd s' k = fwd s k"
    "\<forall>o1 \<in> set outcomes. committed now (d_Forwards d) (d_Forwards m) s s' o1"
    "s' = s\<lparr>ls_desired := ls_desired s', ls_applied := ls_applied s', ls_tombstones := ls_tombstones s',
      ls_activation := ls_activation s'\<rparr>"
    "DesiredState_Validate d = Inr ()" "mergeReceivedDesiredTx s d = Inr m" "rows_framed outcomes s s'"
    "reported empty_report outcomes report" "rp_Status report = report_status report"
    by (rule CommitDesired_Inr [OF assms(1,2), of "\<lambda>_. False"]) (rule that)
  note merge = mergeReceived_spec [OF m(7) forwards_okD(5) [OF assms(2)] m(6)]
  from m(4) assms(3) obtain spec where spec: "get_spec (fa_ForwardID o1) (d_Forwards d) = Some spec"
    "fwd s' (fa_ForwardID o1) = outcome_view now spec o1 (fwd s (fa_ForwardID o1))"
    "fa_Outcome o1 \<noteq> ApplySkipped \<Longrightarrow> get_spec (fa_ForwardID o1) (d_Forwards m) = Some spec"
    "fa_Outcome o1 = ApplyApplied \<Longrightarrow> \<not> fenced s (fa_ForwardID o1)"
    unfolding committed_def by blast
  have "outcome_effect s s' spec o1" by (rule committed_outcome [OF assms m(1) spec(1,2,4)])
  moreover have "\<forall>k. k \<notin> fa_ForwardID ` set outcomes \<longrightarrow> fwd s' k = fwd s k \<and> desired_row s' k = desired_row s k \<and>
       bget (ls_applied s') k = bget (ls_applied s) k \<and> bget (ls_tombstones s') k = bget (ls_tombstones s) k"
    using m(2,3,8) merge(4) outcomes_cover [OF assms(1) m(6)] by (simp add: rows_framed_def outcomes_of_def image_iff)
  moreover have "fa_Outcome o1 = ApplyDeleted \<longrightarrow> bget (ls_activation s') (fa_ForwardID o1) = None"
    using m(8) assms(3) by (auto simp: rows_framed_def outcomes_of_def)
  moreover have "\<forall>k. k \<notin> outcomes_of {ApplyDeleted} outcomes \<longrightarrow> bget (ls_activation s') k = bget (ls_activation s) k"
    using m(8) by (simp add: rows_framed_def)
  moreover have "forwards_ok s'" using m(1) by (simp add: fwd_simulates_def)
  ultimately show ?thesis
    using spec(1,3) m(2,5,9,10) merge(5) [OF spec(1)] by (intro exI [of _ spec]) (auto simp: outcome_effect_def split: ApplyOutcome.splits)
qed

lemma save_row_unfenced:
  assumes "SaveReceivedDesired d s = Inr s'" "forwards_ok s" "\<not> fenced s k"
  shows "case get_spec k (d_Forwards d) of None \<Rightarrow> desired_row s' k = desired_row s k
    | Some f \<Rightarrow> \<exists>a. merge_revision f (desired_row s k) = Inr a \<and> desired_row s' k = Some a"
proof (cases "get_spec k (d_Forwards d)")
  case None
  then show ?thesis using SaveReceivedDesired_row(1) [OF assms(1,2)] by simp
next
  case (Some f)
  have "merge_spec s f (desired_row s k) = merge_revision f (desired_row s k)"
    using merge_spec_unfenced [OF assms(2)] assms(3) get_spec_Some [OF Some] by simp
  with SaveReceivedDesired_row(2) [OF assms(1,2) Some] Some show ?thesis by auto
qed

lemma save_row_fenced:
  assumes "SaveReceivedDesired d s = Inr s'" "forwards_ok s" "fenced s k" "get_spec k (d_Forwards d) \<noteq> None"
  shows "map_option f_Presence (desired_row s' k) = Some PresenceAbsent"
proof -
  from assms(4) obtain f where f: "get_spec k (d_Forwards d) = Some f" by auto
  from SaveReceivedDesired_row(2) [OF assms(1,2) f] obtain spec where
    spec: "merge_spec s f (desired_row s k) = Inr spec" "desired_row s' k = Some spec" by auto
  from merge_spec_absent [OF spec(1) assms(2)] assms(3) get_spec_Some [OF f] spec(2) show ?thesis by simp
qed

text \<open>
  C12. What the agent remembers of the desired state does not depend on the order in which snapshots arrive. If two
  received snapshots can be merged in both orders, every Forward without a deletion fence ends with the same row,
  and its revision has not gone back; a fenced Forward that either snapshot mentions is \<open>ABSENT\<close> in both.
\<close>

theorem desired_merge_convergent:
  assumes "forwards_ok s"
    and "SaveReceivedDesired d1 s = Inr s1" "SaveReceivedDesired d2 s1 = Inr s12"
    and "SaveReceivedDesired d2 s = Inr s2" "SaveReceivedDesired d1 s2 = Inr s21"
  shows "if fenced s k then
      get_spec k (d_Forwards d1) \<noteq> None \<or> get_spec k (d_Forwards d2) \<noteq> None \<longrightarrow>
        map_option f_Presence (desired_row s12 k) = Some PresenceAbsent \<and>
        map_option f_Presence (desired_row s21 k) = Some PresenceAbsent
    else desired_row s12 k = desired_row s21 k \<and>
      (\<forall>c. desired_row s k = Some c \<longrightarrow> (\<exists>a. desired_row s12 k = Some a \<and> f_DesiredRevision c \<le> f_DesiredRevision a))"
proof -
  have ok: "forwards_ok s1" "forwards_ok s2"
    using SaveReceivedDesired_simulates [OF assms(2,1)] SaveReceivedDesired_simulates [OF assms(4,1)]
    by (auto simp: fwd_simulates_def)
  have v: "fwd s1 k = fwd s k" "fwd s2 k = fwd s k"
    using SaveReceivedDesired_row(3) [OF assms(2,1)] SaveReceivedDesired_row(3) [OF assms(4,1)]
    by (cases s; cases s1; cases s2; simp add: fwd_def)+
  note r1 = SaveReceivedDesired_row(1,2) [OF assms(2,1), of k] and r12 = SaveReceivedDesired_row(1,2) [OF assms(3) ok(1), of k]
    and r2 = SaveReceivedDesired_row(1,2) [OF assms(4,1), of k] and r21 = SaveReceivedDesired_row(1,2) [OF assms(5) ok(2), of k]
  show ?thesis
  proof (cases "fenced s k")
    case True
    note a1 = save_row_fenced [OF assms(2,1)] and a2 = save_row_fenced [OF assms(4,1)]
      and a12 = save_row_fenced [OF assms(3) ok(1)] and a21 = save_row_fenced [OF assms(5) ok(2)]
    show ?thesis
      using True a1 [of k] a2 [of k] a12 [of k] a21 [of k] r12(1) r21(1) v
      by (cases "get_spec k (d_Forwards d1)"; cases "get_spec k (d_Forwards d2)") simp_all
  next
    case False
    note u1 = save_row_unfenced [OF assms(2,1) False] and u2 = save_row_unfenced [OF assms(4,1) False]
    have u12: "case get_spec k (d_Forwards d2) of None \<Rightarrow> desired_row s12 k = desired_row s1 k
        | Some f \<Rightarrow> \<exists>a. merge_revision f (desired_row s1 k) = Inr a \<and> desired_row s12 k = Some a"
      and u21: "case get_spec k (d_Forwards d1) of None \<Rightarrow> desired_row s21 k = desired_row s2 k
        | Some f \<Rightarrow> \<exists>a. merge_revision f (desired_row s2 k) = Inr a \<and> desired_row s21 k = Some a"
      using save_row_unfenced [OF assms(3) ok(1)] save_row_unfenced [OF assms(5) ok(2)] v False by simp_all
    have "desired_row s12 k = desired_row s21 k"
    proof (cases "get_spec k (d_Forwards d1)")
      case None
      then show ?thesis using u1 u2 u12 u21 by (auto split: option.splits)
    next
      case (Some f)
      then obtain a e where f: "merge_revision f (desired_row s k) = Inr a" "desired_row s1 k = Some a"
        "merge_revision f (desired_row s2 k) = Inr e" "desired_row s21 k = Some e" using u1 u21 by auto
      show ?thesis
      proof (cases "get_spec k (d_Forwards d2)")
        case None
        then show ?thesis using f u2 u12 by simp
      next
        case (Some g)
        with u2 u12 obtain b c where g: "merge_revision g (desired_row s k) = Inr c" "desired_row s2 k = Some c"
          "merge_revision g (desired_row s1 k) = Inr b" "desired_row s12 k = Some b" by auto
        from merge_revision_comm [OF f(1) g(3) [unfolded f(2)] g(1) f(3) [unfolded g(2)]] f(4) g(4) show ?thesis by simp
      qed
    qed
    moreover have "\<exists>a. desired_row s12 k = Some a \<and> f_DesiredRevision c \<le> f_DesiredRevision a"
      if c: "desired_row s k = Some c" for c
    proof -
      obtain a where a: "desired_row s1 k = Some a" "f_DesiredRevision c \<le> f_DesiredRevision a"
        using u1 c by (cases "get_spec k (d_Forwards d1)") (auto dest: merge_revision_mono)
      obtain b where "desired_row s12 k = Some b" "f_DesiredRevision a \<le> f_DesiredRevision b"
        using u12 a(1) by (cases "get_spec k (d_Forwards d2)") (auto dest: merge_revision_mono)
      with a(2) show ?thesis by auto
    qed
    ultimately show ?thesis using False by simp
  qed
qed

lemma demo_spec_valid: "ForwardSpec_Validate (demo_spec\<lparr>f_DesiredRevision := r\<rparr>) = Inr ()" "ForwardSpec_Validate demo_spec = Inr ()"
  using check_port_dec [of 80]
  by (simp_all add: demo_spec_def ForwardSpec_Validate_def Protocol_Valid_def Strategy_Valid_def
      ValidStrategies_def Presence_Valid_def validateIPv4Target_def split_literal_AddrPort_String
      check_port_dec del: AddrPort_String.simps)

definition demo_desired :: DesiredState where
  "demo_desired = \<lparr> d_NodeID = ''n'', d_Forwards = [demo_spec] \<rparr>"

definition demo_newer :: DesiredState where
  "demo_newer = \<lparr> d_NodeID = ''n'', d_Forwards = [demo_spec\<lparr>f_DesiredRevision := 2\<rparr>] \<rparr>"

definition demo_applied :: AppliedForwardState where
  "demo_applied = \<lparr> af_ForwardID = ''f1'', af_SpecRevision = 1, af_DesiredRevision = 1, af_ActualBindHost = ''h'',
     af_ActualBindPort = 80, af_AssignedGatewayPort = 0, af_PublicPort = 0, af_Strategy = ''auto'', af_LayerVersion = 0,
     af_ActivationRecovery = [], af_MappingJournalRef = [], af_HookDefinitionVersion = 0, af_HookSecretVersion = 0,
     af_AppliedAtUnix = 5 \<rparr>"

definition demo_outcome :: ForwardApply where
  "demo_outcome = \<lparr> fa_ForwardID = ''f1'', fa_Outcome = ApplyApplied, fa_Applied = Some demo_applied, fa_Err = False \<rparr>"

lemma demo_spec_simps [simp]:
  "f_ForwardID demo_spec = ''f1''" "f_Presence demo_spec = ''PRESENT''" "f_DesiredRevision demo_spec = 1"
  "f_Strategy demo_spec = ''auto''"
  by (simp_all add: demo_spec_def)

lemma demo_validate:
  "check_desired demo_desired = Inr ()" "check_desired demo_newer = Inr ()"
  "check_desired \<lparr> d_NodeID = ''n'', d_Forwards = [] \<rparr> = Inr ()"
  by (simp_all add: check_desired_def demo_desired_def demo_newer_def DesiredState_Validate_def demo_spec_valid)

lemma empty_forwards_ok: "forwards_ok empty_store"
  by (simp add: forwards_ok_def store_ok_def empty_store_def bucket_ok_def intents_ok_def tombs_ok_def applied_ok_def
      desired_ok_def)

lemmas demo_merge_eval = mergeReceivedDesiredTx_def loadReceivedDesiredTx_def mergeReceivedDesiredWithDeleteFences_def
  merge_spec_def loadForwardDeleteIntentTx_def loadForwardTombstoneTx_def deleteFenceIdentity_def merge_revision_def
  get_spec_def put_spec_def put_desired_def bput_def

lemma demo_save:
  "SaveReceivedDesired demo_desired empty_store = Inr (empty_store\<lparr>ls_desired := [(''n'', Row demo_desired)]\<rparr>)"
  "SaveReceivedDesired demo_newer empty_store = Inr (empty_store\<lparr>ls_desired := [(''n'', Row demo_newer)]\<rparr>)"
  "SaveReceivedDesired demo_newer (empty_store\<lparr>ls_desired := [(''n'', Row demo_desired)]\<rparr>) =
     Inr (empty_store\<lparr>ls_desired := [(''n'', Row demo_newer)]\<rparr>)"
  "SaveReceivedDesired demo_desired (empty_store\<lparr>ls_desired := [(''n'', Row demo_newer)]\<rparr>) =
     Inr (empty_store\<lparr>ls_desired := [(''n'', Row demo_newer)]\<rparr>)"
  by (simp_all add: SaveReceivedDesired_def demo_validate demo_merge_eval)
    (simp_all add: demo_desired_def demo_newer_def demo_merge_eval empty_store_def
      demo_validate [unfolded demo_desired_def demo_newer_def])

theorem desired_merge_convergent_witness:
  "desired_row (empty_store\<lparr>ls_desired := [(''n'', Row demo_newer)]\<rparr>) ''f1'' = Some (demo_spec\<lparr>f_DesiredRevision := 2\<rparr>) \<and>
   \<not> fenced empty_store ''f1''"
proof -
  have f: "\<not> fenced empty_store ''f1''" by (simp add: fwd_def empty_store_def)
  from desired_merge_convergent [OF empty_forwards_ok demo_save(1,3,2,4), of "''f1''"] f
  show ?thesis
    by (simp add: desired_row_def LoadReceivedDesired_def demo_validate empty_store_def) (simp add: demo_newer_def get_spec_def)
qed

lemma demo_applied_valid: "AppliedForwardState_Validate demo_applied = Inr ()" "validateAppliedRecord ''f1'' demo_applied (Some demo_spec) = Inr ()"
  by (simp_all add: demo_applied_def AppliedForwardState_Validate_def validStrategies_def validateAppliedRecord_def demo_spec_valid)

lemma demo_applied_simps: "af_ForwardID demo_applied = ''f1''" "af_SpecRevision demo_applied = 1" "af_DesiredRevision demo_applied = 1"
  by (simp_all add: demo_applied_def)

definition demo_committed :: Store where
  "demo_committed = empty_store\<lparr>ls_desired := [(''n'', Row demo_desired)],
     ls_applied := [(''f1'', encodeAppliedRecord demo_applied demo_spec)]\<rparr>"

lemma demo_commit:
  "CommitDesired 9 demo_desired [demo_outcome] empty_store =
     Inr (demo_committed, empty_report\<lparr>rp_AppliedCount := 1\<rparr>)"
proof -
  have m: "mergeReceivedDesiredTx empty_store demo_desired = Inr demo_desired"
    by (simp add: demo_merge_eval demo_desired_def empty_store_def demo_validate [unfolded demo_desired_def])
  have g: "get_spec ''f1'' (d_Forwards demo_desired) = Some demo_spec" "length (d_Forwards demo_desired) = 1"
    "d_NodeID demo_desired = ''n''" by (simp_all add: demo_desired_def get_spec_def)
  show ?thesis
    by (simp add: CommitDesired_def demo_validate m g demo_outcome_def check_outcome_def demo_applied_valid demo_applied_simps
        validateAppliedBucketTx_def put_desired_def bput_def commit_one_def loadForwardDeleteFenceTx_def
        loadForwardDeleteIntentTx_def loadForwardTombstoneTx_def apply_applied_def loadAppliedRecordTx_def
        demo_committed_def report_status_def empty_report_def Let_def)
      (simp add: empty_store_def g demo_applied_valid)
qed

theorem commit_desired_effect_witness:
  "w_applied (fwd demo_committed ''f1'') = Some \<lparr> ap_State = demo_applied, ap_ServingSpec = Some demo_spec \<rparr> \<and>
   desired_row demo_committed ''f1'' = Some demo_spec \<and> fwd demo_committed ''f2'' = fwd empty_store ''f2''"
proof -
  have o: "fa_ForwardID demo_outcome = ''f1''" "fa_Outcome demo_outcome = ApplyApplied" "fa_Applied demo_outcome = Some demo_applied"
    by (simp_all add: demo_outcome_def)
  have g: "get_spec ''f1'' (d_Forwards demo_desired) = Some demo_spec" by (simp add: demo_desired_def get_spec_def)
  from commit_desired_effect [OF demo_commit empty_forwards_ok, of demo_outcome] g show ?thesis by (auto simp: o)
qed

end
