(* ===== verification/Agent_Lifecycle.thy ===== *)
theory Agent_Lifecycle
  imports Applied_State
begin

text \<open>
  The agent's lifecycle facts: the terminal marker and the recovery quarantine, which are files beside the store
  (\<^verbatim>\<open>src/internal/agent/localstate/marker.go\<close>, \<^verbatim>\<open>recovery.go\<close>), the latch that stops new actors
  (\<^verbatim>\<open>latch.go\<close>), the decommission and uninstall rows (\<^verbatim>\<open>decommission.go\<close>, \<^verbatim>\<open>uninstall.go\<close>) and the
  schema migrations (\<^verbatim>\<open>schema.go\<close>, \<^verbatim>\<open>store.go\<close>).

  A file is replaced by writing a temporary file, renaming it and syncing the directory. The operating system may
  fail before the rename or after it; \<open>file_write\<close> says which, so a write is a function of that outcome. The
  shared lifecycle lock makes each operation one step. Reading a file that exists succeeds; other read errors, and a rename
  that a crash undoes, are not modelled.
\<close>

datatype file_write = WriteOK | FailBeforeRename | FailAfterRename

datatype lc_error = InvalidMarker | MarkerTerminal | IOFailure | InvalidQuarantine | QuarantineArgs
  | ErrQuarantineOverTerminal | ErrRecoveryOperationMismatch | ErrTerminalEngaged | ErrSchemaTooNew | MigrationFailed

record RecoveryQuarantine =
  rq_OperationID :: string
  rq_Generation :: u64

record state_dir =
  sd_marker :: "string option"
  sd_quarantine :: "RecoveryQuarantine row option"

section \<open>The terminal marker\<close>

abbreviation MarkerActive :: string where "MarkerActive \<equiv> ''''"
abbreviation MarkerDecommissioning :: string where "MarkerDecommissioning \<equiv> ''DECOMMISSIONING''"
abbreviation MarkerDecommissioned :: string where "MarkerDecommissioned \<equiv> ''DECOMMISSIONED''"

definition MarkerState_String :: "string \<Rightarrow> string" where
  "MarkerState_String m = (if m = [] then ''ACTIVE'' else m)"

definition validMarkerStates :: "string list" where
  "validMarkerStates = [MarkerDecommissioning, MarkerDecommissioned]"

definition loadMarkerUnlocked :: "state_dir \<Rightarrow> lc_error + string" where
  "loadMarkerUnlocked dir =
     (case sd_marker dir of
        None \<Rightarrow> Inr MarkerActive
      | Some raw \<Rightarrow> if raw \<notin> set validMarkerStates then Inl InvalidMarker else Inr raw)"

definition writeMarkerUnlocked :: "file_write \<Rightarrow> string \<Rightarrow> state_dir \<Rightarrow> (lc_error + unit) \<times> state_dir" where
  "writeMarkerUnlocked w state dir =
     (if state \<notin> set validMarkerStates then (Inl InvalidMarker, dir)
      else case loadMarkerUnlocked dir of
        Inl e \<Rightarrow> (Inl e, dir)
      | Inr current \<Rightarrow>
          if current = MarkerDecommissioned \<and> state \<noteq> MarkerDecommissioned then (Inl MarkerTerminal, dir)
          else if current = state then (Inr (), dir)
          else case w of
            FailBeforeRename \<Rightarrow> (Inl IOFailure, dir)
          | FailAfterRename \<Rightarrow> (Inl IOFailure, dir\<lparr>sd_marker := Some state\<rparr>)
          | WriteOK \<Rightarrow> (Inr (), dir\<lparr>sd_marker := Some state\<rparr>))"

section \<open>The recovery quarantine\<close>

definition loadRecoveryQuarantineUnlocked :: "state_dir \<Rightarrow> lc_error + RecoveryQuarantine option" where
  "loadRecoveryQuarantineUnlocked dir =
     (case sd_quarantine dir of
        None \<Rightarrow> Inr None
      | Some Corrupt \<Rightarrow> Inl InvalidQuarantine
      | Some (Row q) \<Rightarrow> if rq_Generation q = 0 then Inl InvalidQuarantine else Inr (Some q))"

definition writeRecoveryQuarantineUnlocked ::
  "file_write \<Rightarrow> RecoveryQuarantine \<Rightarrow> state_dir \<Rightarrow> (lc_error + unit) \<times> state_dir" where
  "writeRecoveryQuarantineUnlocked w q dir =
     (if rq_OperationID q = [] \<or> rq_Generation q = 0 then (Inl QuarantineArgs, dir)
      else case loadMarkerUnlocked dir of
        Inl e \<Rightarrow> (Inl e, dir)
      | Inr marker \<Rightarrow>
          if marker = MarkerDecommissioned then (Inl ErrQuarantineOverTerminal, dir)
          else case loadRecoveryQuarantineUnlocked dir of
            Inl e \<Rightarrow> (Inl e, dir)
          | Inr found \<Rightarrow>
              if found = Some q then (Inr (), dir)
              else if (case found of None \<Rightarrow> False | Some current \<Rightarrow> rq_Generation q \<le> rq_Generation current)
              then (Inl ErrRecoveryOperationMismatch, dir)
              else case w of
                FailBeforeRename \<Rightarrow> (Inl IOFailure, dir)
              | FailAfterRename \<Rightarrow> (Inl IOFailure, dir\<lparr>sd_quarantine := Some (Row q)\<rparr>)
              | WriteOK \<Rightarrow> (Inr (), dir\<lparr>sd_quarantine := Some (Row q)\<rparr>))"

definition WriteNextRecoveryQuarantineForOperation ::
  "file_write \<Rightarrow> string \<Rightarrow> state_dir \<Rightarrow> (lc_error + RecoveryQuarantine) \<times> state_dir" where
  "WriteNextRecoveryQuarantineForOperation w operationID dir =
     (case loadRecoveryQuarantineUnlocked dir of
        Inl e \<Rightarrow> (Inl e, dir)
      | Inr found \<Rightarrow>
          let generation = (case found of None \<Rightarrow> 1 | Some current \<Rightarrow> rq_Generation current + 1);
              q = \<lparr> rq_OperationID = operationID, rq_Generation = generation \<rparr>;
              (r, dir') = writeRecoveryQuarantineUnlocked w q dir
          in (ebind r (\<lambda>_. Inr q), dir'))"

definition remove_quarantine :: "file_write \<Rightarrow> state_dir \<Rightarrow> (lc_error + unit) \<times> state_dir" where
  "remove_quarantine w dir =
     (case w of
        FailBeforeRename \<Rightarrow> (Inl IOFailure, dir)
      | FailAfterRename \<Rightarrow> (Inl IOFailure, dir\<lparr>sd_quarantine := None\<rparr>)
      | WriteOK \<Rightarrow> (Inr (), dir\<lparr>sd_quarantine := None\<rparr>))"

definition ClearRecoveryQuarantine :: "file_write \<Rightarrow> state_dir \<Rightarrow> (lc_error + unit) \<times> state_dir" where
  "ClearRecoveryQuarantine w dir =
     (case loadRecoveryQuarantineUnlocked dir of
        Inl e \<Rightarrow> (Inl e, dir)
      | Inr None \<Rightarrow> (Inr (), dir)
      | Inr (Some q) \<Rightarrow>
          if rq_OperationID q \<noteq> ''legacy'' \<or> rq_Generation q \<noteq> 1 then (Inl ErrRecoveryOperationMismatch, dir)
          else remove_quarantine w dir)"

definition ClearRecoveryQuarantineForOperation ::
  "file_write \<Rightarrow> string \<Rightarrow> u64 \<Rightarrow> state_dir \<Rightarrow> (lc_error + unit) \<times> state_dir" where
  "ClearRecoveryQuarantineForOperation w operationID generation dir =
     (if operationID = [] \<or> generation = 0 then (Inl ErrRecoveryOperationMismatch, dir)
      else case loadRecoveryQuarantineUnlocked dir of
        Inl e \<Rightarrow> (Inl e, dir)
      | Inr None \<Rightarrow> (Inr (), dir)
      | Inr (Some q) \<Rightarrow>
          if rq_OperationID q \<noteq> operationID \<or> rq_Generation q \<noteq> generation
          then (Inl ErrRecoveryOperationMismatch, dir)
          else case loadMarkerUnlocked dir of
            Inl e \<Rightarrow> (Inl e, dir)
          | Inr marker \<Rightarrow>
              if marker = MarkerDecommissioned then (Inl ErrQuarantineOverTerminal, dir)
              else remove_quarantine w dir)"

definition WriteRecoveryQuarantine :: "file_write \<Rightarrow> state_dir \<Rightarrow> (lc_error + unit) \<times> state_dir" where
  "WriteRecoveryQuarantine w dir =
     writeRecoveryQuarantineUnlocked w \<lparr> rq_OperationID = ''legacy'', rq_Generation = 1 \<rparr> dir"

section \<open>The latch\<close>

record Latch =
  lt_engaged :: bool
  lt_actors :: "string list"

definition NewLatch :: Latch where
  "NewLatch = \<lparr> lt_engaged = False, lt_actors = [] \<rparr>"

definition TryEngage :: "Latch \<Rightarrow> bool \<times> Latch" where
  "TryEngage l = (if lt_engaged l then (False, l) else (True, l\<lparr>lt_engaged := True\<rparr>))"

definition RegisterActor :: "string \<Rightarrow> Latch \<Rightarrow> (lc_error + unit) \<times> Latch" where
  "RegisterActor name l =
     (if lt_engaged l then (Inl ErrTerminalEngaged, l)
      else (Inr (), l\<lparr>lt_actors := List.insert name (lt_actors l)\<rparr>))"

definition UnregisterActor :: "string \<Rightarrow> Latch \<Rightarrow> Latch" where
  "UnregisterActor name l = l\<lparr>lt_actors := removeAll name (lt_actors l)\<rparr>"

definition ActiveCount :: "Latch \<Rightarrow> nat" where
  "ActiveCount l = length (lt_actors l)"

section \<open>Decommission and uninstall rows\<close>

definition keyDecommissionIntent :: string where "keyDecommissionIntent = ''decommission-intent:''"
definition keyCleanupTombstone :: string where "keyCleanupTombstone = ''cleanup-tombstone:''"
definition keyUninstallNotice :: string where "keyUninstallNotice = ''uninstall-notice:''"

abbreviation canonical :: "string \<Rightarrow> string" where "canonical p \<equiv> p @ ''current''"

definition legacy_rows :: "string \<Rightarrow> ops_row bucket \<Rightarrow> ops_row list" where
  "legacy_rows p b = map snd (filter (\<lambda>(key, _). take (length p) key = p \<and> key \<noteq> canonical p) b)"

fun intent_of_row :: "ops_row \<Rightarrow> ls_error + DecommissionIntent" where
  "intent_of_row (OpIntent i) = Inr i"
| "intent_of_row _ = Inl DecodeRow"

fun cleanup_of_row :: "ops_row \<Rightarrow> ls_error + AgentCleanupTombstone" where
  "cleanup_of_row (OpCleanup t) = Inr t"
| "cleanup_of_row _ = Inl DecodeRow"

text \<open>The last legacy row wins, as the pointer the loop overwrites.\<close>

fun last_row :: "(ops_row \<Rightarrow> ls_error + 'a) \<Rightarrow> 'a option \<Rightarrow> ops_row list \<Rightarrow> ls_error + 'a option" where
  "last_row rd acc [] = Inr acc"
| "last_row rd acc (r # rs) = ebind (rd r) (\<lambda>a. last_row rd (Some a) rs)"

definition single_row :: "(ops_row \<Rightarrow> ls_error + 'a) \<Rightarrow> ls_error \<Rightarrow> ops_row list \<Rightarrow> ls_error + 'a option" where
  "single_row rd e rows =
     (case rows of [] \<Rightarrow> Inr None
      | r # rs \<Rightarrow> ebind (rd r) (\<lambda>a. if rs \<noteq> [] then Inl e else Inr (Some a)))"

definition put_singleton ::
  "string \<Rightarrow> (ops_row \<Rightarrow> ls_error + 'a) \<Rightarrow> ('a \<Rightarrow> string \<times> string) \<Rightarrow> ('a \<Rightarrow> ops_row) \<Rightarrow> 'a \<Rightarrow> Store \<Rightarrow>
     ls_error + Store \<times> bool" where
  "put_singleton p rd ident enc x s =
     (case bget (ls_ops s) (canonical p) of
        Some raw \<Rightarrow>
          ebind (rd raw) (\<lambda>old. if ident old \<noteq> ident x then Inl ErrDecommissionConflict else Inr (s, False))
      | None \<Rightarrow>
          ebind (last_row rd None (legacy_rows p (ls_ops s))) (\<lambda>legacy.
          if (case legacy of None \<Rightarrow> False | Some old \<Rightarrow> ident old \<noteq> ident x) then Inl ErrDecommissionConflict
          else ebind (bput (canonical p) (enc x) (ls_ops s)) (\<lambda>b.
               ebind (bput (p @ fst (ident x)) (enc x) b) (\<lambda>b'. Inr (s\<lparr>ls_ops := b'\<rparr>, True)))))"

definition PutDecommissionIntent :: "DecommissionIntent \<Rightarrow> Store \<Rightarrow> ls_error + Store \<times> bool" where
  "PutDecommissionIntent intent s =
     (if dc_OperationID intent = [] \<or> dc_NodeID intent = [] then Inl IdentityRequired
      else put_singleton keyDecommissionIntent intent_of_row (\<lambda>i. (dc_OperationID i, dc_NodeID i)) OpIntent intent s)"

definition LoadDecommissionIntent :: "Store \<Rightarrow> ls_error + DecommissionIntent option" where
  "LoadDecommissionIntent s = single_row intent_of_row MultipleIntents (legacy_rows keyDecommissionIntent (ls_ops s))"

definition WriteAgentCleanupTombstone :: "AgentCleanupTombstone \<Rightarrow> Store \<Rightarrow> ls_error + Store" where
  "WriteAgentCleanupTombstone ts s =
     (if ct_OperationID ts = [] \<or> ct_NodeID ts = [] then Inl IdentityRequired
      else ebind (put_singleton keyCleanupTombstone cleanup_of_row (\<lambda>t. (ct_OperationID t, ct_NodeID t)) OpCleanup ts s)
        (\<lambda>(s', _). Inr s'))"

definition LoadAgentCleanupTombstone :: "Store \<Rightarrow> ls_error + AgentCleanupTombstone option" where
  "LoadAgentCleanupTombstone s = single_row cleanup_of_row MultipleCleanups (legacy_rows keyCleanupTombstone (ls_ops s))"

definition CleanupTombstoneAllowedKeyHashes :: "Store \<Rightarrow> ls_error + string list option" where
  "CleanupTombstoneAllowedKeyHashes s =
     ebind (LoadAgentCleanupTombstone s) (\<lambda>t. Inr (map_option ct_AllowedKeyHashes t))"

definition ClearForwardStateForDecommission :: "Store \<Rightarrow> Store" where
  "ClearForwardStateForDecommission s =
     s\<lparr>ls_applied := [], ls_activation := [], ls_tombstones := [], ls_intents := [], ls_desired := [], ls_hooks := [],
       ls_keyring := [], ls_mapping := []\<rparr>"

definition RecordUninstallNotice :: "UninstallNotice \<Rightarrow> Store \<Rightarrow> ls_error + Store" where
  "RecordUninstallNotice notice s =
     (if un_OperationID notice = [] then Inl IdentityRequired
      else let n = notice\<lparr>un_Status := (if un_Connectivity notice then ''QUEUED'' else ''UNKNOWN'')\<rparr>
           in ebind (bput (keyUninstallNotice @ un_OperationID notice) (OpNotice n) (ls_ops s)) (\<lambda>b.
              Inr (s\<lparr>ls_ops := b\<rparr>)))"

definition UninstallNoticeStatus :: "string \<Rightarrow> Store \<Rightarrow> ls_error + UninstallNotice option" where
  "UninstallNoticeStatus operationID s =
     (case bget (ls_ops s) (keyUninstallNotice @ operationID) of
        None \<Rightarrow> Inr None | Some (OpNotice n) \<Rightarrow> Inr (Some n) | Some _ \<Rightarrow> Inl DecodeRow)"

section \<open>Schema migrations\<close>

record bolt_db =
  db_buckets :: "string list"
  db_version :: "bytes option"

definition SchemaVersion :: u64 where "SchemaVersion = 3"

definition allBuckets :: "string list" where
  "allBuckets = [''meta/schema'', ''controller_pins'', ''connection_epochs'', ''control_inbox'', ''control_outbox'',
     ''received_desired'', ''applied_forwards'', ''forward_delete_tombstones'', ''activation_recovery'',
     ''mapping_journal'', ''hook_queue'', ''keyring'', ''operation_results'']"

definition schemaMigrations :: "(u64 \<times> string list) list" where
  "schemaMigrations = [(1, allBuckets), (2, [''probe_operations'']), (3, [''forward_delete_intents''])]"

definition encodeVersion :: "u64 \<Rightarrow> bytes" where "encodeVersion v = put_u64 v"

definition decodeVersion :: "bytes option \<Rightarrow> u64" where
  "decodeVersion raw = (case raw of None \<Rightarrow> 0 | Some b \<Rightarrow> if length b \<noteq> 8 then 0 else get_u64 b)"

definition readSchemaVersion :: "bolt_db \<Rightarrow> u64" where
  "readSchemaVersion db = (if ''meta/schema'' \<notin> set (db_buckets db) then 0 else decodeVersion (db_version db))"

definition create_buckets :: "string list \<Rightarrow> bolt_db \<Rightarrow> bolt_db" where
  "create_buckets names db = db\<lparr>db_buckets := db_buckets db @ filter (\<lambda>n. n \<notin> set (db_buckets db)) (remdups names)\<rparr>"

definition apply_migration :: "u64 \<times> string list \<Rightarrow> bolt_db \<Rightarrow> bolt_db" where
  "apply_migration m db =
     (create_buckets [''meta/schema''] (create_buckets (snd m) db))\<lparr>db_version := Some (encodeVersion (fst m))\<rparr>"

text \<open>\<open>fails v\<close> says that the transaction of migration \<open>v\<close> fails; it then leaves the database unchanged.\<close>

fun migrate ::
  "(u64 \<Rightarrow> bool) \<Rightarrow> u64 \<Rightarrow> u64 \<Rightarrow> (u64 \<times> string list) list \<Rightarrow> bolt_db \<Rightarrow> (lc_error + u64) \<times> u64 \<times> bolt_db" where
  "migrate fails current at [] db = (Inr at, at, db)"
| "migrate fails current at (m # ms) db =
     (if fst m \<le> current then migrate fails current at ms db
      else if fails (fst m) then (Inl MigrationFailed, at, db)
      else migrate fails current (fst m) ms (apply_migration m db))"

definition openMigrations :: "(u64 \<Rightarrow> bool) \<Rightarrow> bolt_db \<Rightarrow> (lc_error + unit) \<times> bolt_db" where
  "openMigrations fails db =
     (let current = readSchemaVersion db in
      if current > SchemaVersion then (Inl ErrSchemaTooNew, db)
      else let (r, _, db') = migrate fails current current schemaMigrations db in (ebind r (\<lambda>_. Inr ()), db'))"

section \<open>The state directory over its operations\<close>

datatype dir_op = WriteMarker file_write string | WriteQuarantine file_write RecoveryQuarantine
  | LegacyQuarantine file_write | NextQuarantine file_write string
  | LegacyClear file_write | ClearFor file_write string u64

fun dir_exec :: "dir_op \<Rightarrow> state_dir \<Rightarrow> state_dir" where
  "dir_exec (WriteMarker w m) dir = snd (writeMarkerUnlocked w m dir)"
| "dir_exec (WriteQuarantine w q) dir = snd (writeRecoveryQuarantineUnlocked w q dir)"
| "dir_exec (LegacyQuarantine w) dir = snd (WriteRecoveryQuarantine w dir)"
| "dir_exec (NextQuarantine w op) dir = snd (WriteNextRecoveryQuarantineForOperation w op dir)"
| "dir_exec (LegacyClear w) dir = snd (ClearRecoveryQuarantine w dir)"
| "dir_exec (ClearFor w op g) dir = snd (ClearRecoveryQuarantineForOperation w op g dir)"

definition dir_ok :: "state_dir \<Rightarrow> bool" where
  "dir_ok dir \<longleftrightarrow> (case sd_marker dir of None \<Rightarrow> True | Some m \<Rightarrow> m \<in> set validMarkerStates) \<and>
     (case sd_quarantine dir of None \<Rightarrow> True | Some Corrupt \<Rightarrow> False
      | Some (Row q) \<Rightarrow> rq_OperationID q \<noteq> [] \<and> rq_Generation q \<noteq> 0)"

text \<open>The order in which the marker may move.\<close>

definition marker_rank :: "state_dir \<Rightarrow> nat" where
  "marker_rank dir = (case sd_marker dir of None \<Rightarrow> 0 | Some m \<Rightarrow> if m = MarkerDecommissioned then 2 else 1)"

text \<open>The generation of the standing quarantine, 0 when there is none.\<close>

definition quarantine_generation :: "state_dir \<Rightarrow> nat" where
  "quarantine_generation dir = (case sd_quarantine dir of Some (Row q) \<Rightarrow> unat (rq_Generation q) | _ \<Rightarrow> 0)"

lemmas dir_defs = loadMarkerUnlocked_def loadRecoveryQuarantineUnlocked_def remove_quarantine_def

lemma write_marker_cases:
  "snd (writeMarkerUnlocked w m dir) = dir \<or>
   m \<in> set validMarkerStates \<and> loadMarkerUnlocked dir \<noteq> Inr MarkerDecommissioned \<and>
   snd (writeMarkerUnlocked w m dir) = dir\<lparr>sd_marker := Some m\<rparr>"
  by (auto simp: writeMarkerUnlocked_def split: sum.splits file_write.splits)

lemma write_quarantine_cases:
  "snd (writeRecoveryQuarantineUnlocked w q dir) = dir \<or>
   rq_OperationID q \<noteq> [] \<and> rq_Generation q \<noteq> 0 \<and> loadMarkerUnlocked dir \<noteq> Inr MarkerDecommissioned \<and>
   quarantine_generation dir < unat (rq_Generation q) \<and>
   snd (writeRecoveryQuarantineUnlocked w q dir) = dir\<lparr>sd_quarantine := Some (Row q)\<rparr>"
  by (auto simp: writeRecoveryQuarantineUnlocked_def loadRecoveryQuarantineUnlocked_def quarantine_generation_def
      unat_gt_0 word_le_nat_alt split: sum.splits file_write.splits option.splits row.splits if_splits)

lemma next_quarantine_exec:
  "snd (WriteNextRecoveryQuarantineForOperation w op dir) = dir \<or>
   (\<exists>q. snd (WriteNextRecoveryQuarantineForOperation w op dir) = snd (writeRecoveryQuarantineUnlocked w q dir))"
  by (auto simp: WriteNextRecoveryQuarantineForOperation_def Let_def split: sum.splits prod.splits) (metis snd_conv)

lemma clear_cases:
  "snd (ClearRecoveryQuarantine w dir) \<in> {dir, dir\<lparr>sd_quarantine := None\<rparr>}"
  "snd (ClearRecoveryQuarantineForOperation w op g dir) = dir \<or>
   loadMarkerUnlocked dir \<noteq> Inr MarkerDecommissioned \<and>
   sd_quarantine dir = Some (Row \<lparr>rq_OperationID = op, rq_Generation = g\<rparr>) \<and>
   snd (ClearRecoveryQuarantineForOperation w op g dir) = dir\<lparr>sd_quarantine := None\<rparr>"
  by (auto simp: ClearRecoveryQuarantine_def ClearRecoveryQuarantineForOperation_def dir_defs
      split: sum.splits file_write.splits option.splits row.splits if_splits)

text \<open>One operation on a readable directory: it stays readable, the marker only advances, and under the terminal
  marker the only change left is the removal of the quarantine file.\<close>

definition dir_step_ok :: "state_dir \<Rightarrow> state_dir \<Rightarrow> bool" where
  "dir_step_ok dir dir' \<longleftrightarrow> dir_ok dir' \<and> marker_rank dir \<le> marker_rank dir' \<and>
     (sd_marker dir = Some MarkerDecommissioned \<longrightarrow> dir' \<in> {dir, dir\<lparr>sd_quarantine := None\<rparr>})"

lemma dir_step_ok_refl: "dir_ok dir \<Longrightarrow> dir_step_ok dir dir"
  by (simp add: dir_step_ok_def)

lemma dir_step_ok_trans: "dir_step_ok a b \<Longrightarrow> dir_step_ok b c \<Longrightarrow> dir_step_ok a c"
  by (auto simp: dir_step_ok_def)

lemma load_marker_terminal: "loadMarkerUnlocked dir = Inr MarkerDecommissioned \<longleftrightarrow> sd_marker dir = Some MarkerDecommissioned"
  by (auto simp: loadMarkerUnlocked_def validMarkerStates_def split: option.splits)

lemma write_quarantine_step: "dir_ok dir \<Longrightarrow> dir_step_ok dir (snd (writeRecoveryQuarantineUnlocked w q dir))"
  using write_quarantine_cases [of w q dir]
  by (elim disjE) (auto simp: dir_step_ok_def dir_ok_def marker_rank_def load_marker_terminal)

lemma clear_step: "dir_ok dir \<Longrightarrow> dir' \<in> {dir, dir\<lparr>sd_quarantine := None\<rparr>} \<Longrightarrow> dir_step_ok dir dir'"
  by (auto simp: dir_step_ok_def dir_ok_def marker_rank_def)

lemma dir_exec_step: "dir_ok dir \<Longrightarrow> dir_step_ok dir (dir_exec op dir)"
proof (cases op)
  case (WriteMarker w m)
  assume "dir_ok dir"
  with write_marker_cases [of w m dir] WriteMarker show ?thesis
    by (elim disjE) (auto simp: dir_step_ok_def dir_ok_def marker_rank_def load_marker_terminal split: option.splits)
next
  case (NextQuarantine w op')
  assume "dir_ok dir"
  with next_quarantine_exec [of w op' dir] NextQuarantine show ?thesis
    by (auto intro: dir_step_ok_refl write_quarantine_step)
next
  case (LegacyClear w)
  assume "dir_ok dir"
  with clear_cases(1) [of w dir] LegacyClear show ?thesis by (auto intro: clear_step)
next
  case (ClearFor w op' g)
  assume "dir_ok dir"
  with clear_cases(2) [of w op' g dir] ClearFor show ?thesis by (auto intro: clear_step)
qed (auto simp: WriteRecoveryQuarantine_def intro: write_quarantine_step)

lemma dir_run_step: "dir_ok dir \<Longrightarrow> dir_step_ok dir (fold dir_exec acts dir)"
proof (induction acts arbitrary: dir)
  case (Cons op acts)
  from Cons.prems have 1: "dir_step_ok dir (dir_exec op dir)" by (rule dir_exec_step)
  then have "dir_ok (dir_exec op dir)" by (simp add: dir_step_ok_def)
  from Cons.IH [OF this] 1 show ?case by (simp add: dir_step_ok_trans)
qed (simp add: dir_step_ok_refl)

fun is_clear :: "dir_op \<Rightarrow> bool" where
  "is_clear (LegacyClear w) = True" | "is_clear (ClearFor w op g) = True" | "is_clear _ = False"

lemma generation_write: "quarantine_generation dir \<le> quarantine_generation (snd (writeRecoveryQuarantineUnlocked w q dir))"
  using write_quarantine_cases [of w q dir] by (elim disjE) (auto simp: quarantine_generation_def)

lemma generation_exec: "\<not> is_clear op \<Longrightarrow> quarantine_generation dir \<le> quarantine_generation (dir_exec op dir)"
proof (cases op)
  case (WriteMarker w m)
  with write_marker_cases [of w m dir] show ?thesis by (elim disjE) (auto simp: quarantine_generation_def)
next
  case (NextQuarantine w op')
  with next_quarantine_exec [of w op' dir] show ?thesis by (auto simp: generation_write)
qed (auto simp: WriteRecoveryQuarantine_def generation_write)

lemma generation_run: "\<forall>op \<in> set acts. \<not> is_clear op \<Longrightarrow>
  quarantine_generation dir \<le> quarantine_generation (fold dir_exec acts dir)"
  by (induction acts arbitrary: dir) (auto intro: order_trans generation_exec)

lemma dir_ok_loads: "dir_ok dir \<Longrightarrow> (\<exists>m. loadMarkerUnlocked dir = Inr m) \<and> (\<exists>q. loadRecoveryQuarantineUnlocked dir = Inr q)"
  by (auto simp: dir_ok_def dir_defs split: option.splits row.splits)

lemma marker_write_retry:
  assumes "writeMarkerUnlocked w m dir = (Inl IOFailure, dir2)"
  shows "writeMarkerUnlocked WriteOK m dir2 = (Inr (), dir\<lparr>sd_marker := Some m\<rparr>)"
proof -
  have load: "loadMarkerUnlocked dir \<noteq> Inl IOFailure" by (auto simp: loadMarkerUnlocked_def split: option.splits)
  obtain current where c: "loadMarkerUnlocked dir = Inr current" "m \<in> set validMarkerStates"
    "\<not> (current = MarkerDecommissioned \<and> m \<noteq> MarkerDecommissioned)" "current \<noteq> m"
    using assms load by (cases "loadMarkerUnlocked dir") (auto simp: writeMarkerUnlocked_def split: if_splits)
  from assms c consider "dir2 = dir" "w = FailBeforeRename" | "dir2 = dir\<lparr>sd_marker := Some m\<rparr>"
    by (cases w) (auto simp: writeMarkerUnlocked_def)
  then show ?thesis
  proof cases
    case 1
    with c show ?thesis by (auto simp: writeMarkerUnlocked_def)
  next
    case 2
    with c(2) show ?thesis by (simp add: writeMarkerUnlocked_def loadMarkerUnlocked_def)
  qed
qed

text \<open>
  C8. The terminal marker is final. Take any sequence of marker and quarantine operations, each with any outcome of its
  file write, from a readable state directory. Both files stay readable. The marker never moves back. Once it says
  DECOMMISSIONED, the only change any operation can still make is the removal of the quarantine file. Without a clear
  operation the generation of the standing quarantine never decreases. A marker write that failed with an I/O error,
  before or after the rename, succeeds when it is retried.
\<close>

theorem decommission_is_terminal:
  assumes "dir_ok dir" and run: "dir' = fold dir_exec acts dir"
  shows "(\<exists>m. loadMarkerUnlocked dir' = Inr m) \<and> (\<exists>q. loadRecoveryQuarantineUnlocked dir' = Inr q) \<and>
    marker_rank dir \<le> marker_rank dir' \<and>
    (loadMarkerUnlocked dir = Inr MarkerDecommissioned \<longrightarrow> dir' \<in> {dir, dir\<lparr>sd_quarantine := None\<rparr>}) \<and>
    ((\<forall>op \<in> set acts. \<not> is_clear op) \<longrightarrow> quarantine_generation dir \<le> quarantine_generation dir') \<and>
    (\<forall>w m dir2. writeMarkerUnlocked w m dir' = (Inl IOFailure, dir2) \<longrightarrow>
      writeMarkerUnlocked WriteOK m dir2 = (Inr (), dir'\<lparr>sd_marker := Some m\<rparr>))"
proof -
  have "dir_step_ok dir dir'" unfolding run using assms(1) by (rule dir_run_step)
  then have "(\<exists>m. loadMarkerUnlocked dir' = Inr m) \<and> (\<exists>q. loadRecoveryQuarantineUnlocked dir' = Inr q) \<and>
    marker_rank dir \<le> marker_rank dir' \<and>
    (loadMarkerUnlocked dir = Inr MarkerDecommissioned \<longrightarrow> dir' \<in> {dir, dir\<lparr>sd_quarantine := None\<rparr>})"
    by (auto simp: dir_step_ok_def dir_ok_loads load_marker_terminal)
  moreover have "(\<forall>op \<in> set acts. \<not> is_clear op) \<longrightarrow> quarantine_generation dir \<le> quarantine_generation dir'"
    using generation_run run by blast
  moreover have "writeMarkerUnlocked WriteOK m dir2 = (Inr (), dir'\<lparr>sd_marker := Some m\<rparr>)"
    if "writeMarkerUnlocked w m dir' = (Inl IOFailure, dir2)" for w m dir2
    using that by (rule marker_write_retry)
  ultimately show ?thesis by blast
qed

definition fresh_dir :: state_dir where
  "fresh_dir = \<lparr> sd_marker = None, sd_quarantine = None \<rparr>"

text \<open>A fresh directory through quarantine, decommission and a refused return.\<close>

theorem decommission_is_terminal_witness:
  "let acts = [NextQuarantine WriteOK ''op1'', WriteMarker FailAfterRename MarkerDecommissioning,
       WriteMarker WriteOK MarkerDecommissioned, WriteMarker WriteOK MarkerDecommissioning,
       NextQuarantine WriteOK ''op2'', ClearFor WriteOK ''op1'' 1];
     dir' = fold dir_exec acts fresh_dir
   in dir' = \<lparr> sd_marker = Some MarkerDecommissioned,
        sd_quarantine = Some (Row \<lparr>rq_OperationID = ''op1'', rq_Generation = 1\<rparr>) \<rparr> \<and>
      marker_rank fresh_dir \<le> marker_rank dir' \<and> (\<exists>m. loadMarkerUnlocked dir' = Inr m)"
proof -
  let ?acts = "[NextQuarantine WriteOK ''op1'', WriteMarker FailAfterRename MarkerDecommissioning,
       WriteMarker WriteOK MarkerDecommissioned, WriteMarker WriteOK MarkerDecommissioning,
       NextQuarantine WriteOK ''op2'', ClearFor WriteOK ''op1'' 1]"
  have "dir_ok fresh_dir" by (simp add: fresh_dir_def dir_ok_def)
  from decommission_is_terminal [OF this HOL.refl, of ?acts]
  have "marker_rank fresh_dir \<le> marker_rank (fold dir_exec ?acts fresh_dir) \<and>
    (\<exists>m. loadMarkerUnlocked (fold dir_exec ?acts fresh_dir) = Inr m)" by blast
  moreover have "fold dir_exec ?acts fresh_dir = \<lparr> sd_marker = Some MarkerDecommissioned,
        sd_quarantine = Some (Row \<lparr>rq_OperationID = ''op1'', rq_Generation = 1\<rparr>) \<rparr>"
    by (simp add: fresh_dir_def WriteNextRecoveryQuarantineForOperation_def writeRecoveryQuarantineUnlocked_def
        writeMarkerUnlocked_def ClearRecoveryQuarantineForOperation_def dir_defs validMarkerStates_def Let_def)
  ultimately show ?thesis by (simp add: Let_def)
qed

section \<open>Rows that exist once\<close>

text \<open>\<open>singleton\<close> is the bucket after \<open>put_singleton\<close>: the canonical key and the key of the operation hold the same
  record, and no other key has the prefix.\<close>

abbreviation under :: "string \<Rightarrow> string \<Rightarrow> bool" where "under p k \<equiv> take (length p) k = p"

definition singleton :: "string \<Rightarrow> string \<Rightarrow> ops_row \<Rightarrow> ops_row bucket \<Rightarrow> bool" where
  "singleton p op raw b \<longleftrightarrow> bget b (canonical p) = Some raw \<and> bget b (p @ op) = Some raw \<and>
     (\<forall>k \<in> fst ` set b. under p k \<longrightarrow> k = canonical p \<or> k = p @ op)"

lemma filter_single:
  assumes "bucket_ok b" "bget b k0 = Some v" "P k0" "\<forall>k \<in> fst ` set b. P k \<longrightarrow> k = k0"
  shows "filter (\<lambda>(k, _). P k) b = [(k0, v)]"
  using assms
proof (induction b)
  case (Cons kv b)
  obtain k w where kv: "kv = (k, w)" by (cases kv)
  have b: "bucket_ok b" "k \<notin> fst ` set b" using Cons.prems(1) by (auto simp: kv bucket_ok_def)
  have rest: "\<forall>k \<in> fst ` set b. P k \<longrightarrow> k = k0" using Cons.prems(4) by simp
  show ?case
  proof (cases "k = k0")
    case True
    have "filter (\<lambda>(k, _). P k) b = []"
    proof (rule filter_False, rule ballI)
      fix x assume "x \<in> set b"
      then have "fst x \<in> fst ` set b" by simp
      with rest b(2) True have "\<not> P (fst x)" by blast
      then show "\<not> (case x of (k, _) \<Rightarrow> P k)" by (simp add: case_prod_beta)
    qed
    with True Cons.prems(2,3) kv show ?thesis by simp
  next
    case False
    with Cons.prems(4) kv have "\<not> P k" by simp
    moreover from False Cons.prems(2) kv have "bget b k0 = Some v" by simp
    ultimately show ?thesis using Cons.IH [OF b(1) _ Cons.prems(3) rest] kv by simp
  qed
qed simp

lemma legacy_rows_none: "\<forall>k \<in> fst ` set b. \<not> under p k \<Longrightarrow> legacy_rows p b = [] \<and> bget b (p @ k) = None"
  by (fastforce simp: legacy_rows_def filter_empty_conv map_of_eq_None_iff)

lemma legacy_rows_singleton:
  assumes "bucket_ok b" "singleton p op raw b"
  shows "legacy_rows p b = (if op = ''current'' then [] else [raw])"
proof (cases "op = ''current''")
  case True
  with assms(2) show ?thesis by (auto simp: legacy_rows_def singleton_def filter_empty_conv)
next
  case False
  with assms have "filter (\<lambda>(k, _). under p k \<and> k \<noteq> canonical p) b = [(p @ op, raw)]"
    by (intro filter_single) (auto simp: singleton_def)
  with False show ?thesis by (simp add: legacy_rows_def)
qed

lemma singleton_bins:
  assumes "bucket_ok b" "\<forall>k \<in> fst ` set b. \<not> under p k"
  shows "singleton p op raw (bins (p @ op) raw (bins (canonical p) raw b))"
  using assms by (auto simp: singleton_def keys_bins)

lemma put_singleton_first:
  assumes "store_ok s" "\<forall>k \<in> fst ` set (ls_ops s). \<not> under p k" "length p + 7 \<le> 32768" "p \<noteq> []"
  shows "put_singleton p rd ident enc x s =
    (if length p + length (fst (ident x)) \<le> 32768
     then Inr (s\<lparr>ls_ops := bins (p @ fst (ident x)) (enc x) (bins (canonical p) (enc x) (ls_ops s))\<rparr>, True)
     else Inl BoltKey)"
  using assms legacy_rows_none [OF assms(2)] by (simp add: put_singleton_def bput_def ensure_def)

lemma put_singleton_again:
  assumes "singleton p op (enc x) (ls_ops s)" "rd (enc x) = Inr x"
  shows "put_singleton p rd ident enc y s =
    (if ident x = ident y then Inr (s, False) else Inl ErrDecommissionConflict)"
  using assms by (simp add: put_singleton_def singleton_def)

text \<open>
  C9. The first decommission intent wins. On a store that holds no decommission intent, an intent with an identity is
  stored exactly when its operation id makes a key that bbolt accepts. Storing it again, or another intent with the same
  operation and node, changes nothing. An intent of another operation or node is refused. The loader then returns the
  stored intent, except when its operation id is the word \<^verbatim>\<open>current\<close>: the operation key is then the canonical key,
  which the loader skips, so the intent is durable and reported absent.
\<close>

theorem decommission_intent_first_wins:
  assumes ok: "store_ok s" and none: "\<forall>k \<in> fst ` set (ls_ops s). \<not> under keyDecommissionIntent k"
    and ids: "dc_OperationID i \<noteq> []" "dc_NodeID i \<noteq> []"
  shows "if length (dc_OperationID i) > 32748 then PutDecommissionIntent i s = Inl BoltKey
    else \<exists>s'. PutDecommissionIntent i s = Inr (s', True) \<and>
      LoadDecommissionIntent s' = Inr (if dc_OperationID i = ''current'' then None else Some i) \<and>
      (\<forall>j. dc_OperationID j \<noteq> [] \<longrightarrow> dc_NodeID j \<noteq> [] \<longrightarrow>
        PutDecommissionIntent j s' =
          (if dc_OperationID j = dc_OperationID i \<and> dc_NodeID j = dc_NodeID i then Inr (s', False)
           else Inl ErrDecommissionConflict))"
proof -
  have len: "length keyDecommissionIntent = 20" "keyDecommissionIntent \<noteq> []"
    by (simp_all add: keyDecommissionIntent_def)
  let ?p = keyDecommissionIntent and ?op = "dc_OperationID i"
  let ?s = "s\<lparr>ls_ops := bins (?p @ ?op) (OpIntent i) (bins (canonical ?p) (OpIntent i) (ls_ops s))\<rparr>"
  from ok have b: "bucket_ok (ls_ops s)" by (simp add: store_ok_def)
  have put: "PutDecommissionIntent i s = (if length ?op \<le> 32748 then Inr (?s, True) else Inl BoltKey)"
    using put_singleton_first [OF ok none, of intent_of_row _ OpIntent i] ids len
    by (auto simp: PutDecommissionIntent_def)
  from singleton_bins [OF b none] have single: "singleton ?p ?op (OpIntent i) (ls_ops ?s)" by simp
  from b have b': "bucket_ok (ls_ops ?s)" by simp
  have load: "LoadDecommissionIntent ?s = Inr (if ?op = ''current'' then None else Some i)"
    using legacy_rows_singleton [OF b' single] by (simp add: LoadDecommissionIntent_def single_row_def)
  have "PutDecommissionIntent j ?s =
      (if dc_OperationID j = ?op \<and> dc_NodeID j = dc_NodeID i then Inr (?s, False) else Inl ErrDecommissionConflict)"
    if "dc_OperationID j \<noteq> []" "dc_NodeID j \<noteq> []" for j
    using that put_singleton_again [where enc = OpIntent and x = i and rd = intent_of_row and y = j, OF single] by (auto simp: PutDecommissionIntent_def)
  with put load show ?thesis by auto
qed

definition demo_intent :: "string \<Rightarrow> DecommissionIntent" where
  "demo_intent op = \<lparr> dc_OperationID = op, dc_NodeID = ''n1'', dc_Force = False, dc_DeadlineUnix = 9,
     dc_AllowedKeyHashes = [], dc_CredentialVersions = [], dc_CreatedAtUnix = 1 \<rparr>"

theorem decommission_intent_first_wins_witness:
  "(\<exists>s'. PutDecommissionIntent (demo_intent ''op1'') empty_store = Inr (s', True) \<and>
     LoadDecommissionIntent s' = Inr (Some (demo_intent ''op1'')) \<and>
     PutDecommissionIntent (demo_intent ''op2'') s' = Inl ErrDecommissionConflict) \<and>
   (\<exists>s'. PutDecommissionIntent (demo_intent ''current'') empty_store = Inr (s', True) \<and>
     LoadDecommissionIntent s' = Inr None)"
proof -
  have ok: "store_ok empty_store" "\<forall>k \<in> fst ` set (ls_ops empty_store). \<not> under keyDecommissionIntent k"
    by (simp_all add: store_ok_def empty_store_def bucket_ok_def)
  note first = decommission_intent_first_wins [OF ok]
  have sel: "dc_OperationID (demo_intent op) = op" "dc_NodeID (demo_intent op) = ''n1''" for op
    by (simp_all add: demo_intent_def)
  from first [of "demo_intent ''op1''"] obtain s1 where
    "PutDecommissionIntent (demo_intent ''op1'') empty_store = Inr (s1, True)"
    "LoadDecommissionIntent s1 = Inr (Some (demo_intent ''op1''))"
    "\<forall>j. dc_OperationID j \<noteq> [] \<longrightarrow> dc_NodeID j \<noteq> [] \<longrightarrow> PutDecommissionIntent j s1 =
       (if dc_OperationID j = ''op1'' \<and> dc_NodeID j = ''n1'' then Inr (s1, False) else Inl ErrDecommissionConflict)"
    by (auto simp: sel)
  moreover from first [of "demo_intent ''current''"] obtain s2 where
    "PutDecommissionIntent (demo_intent ''current'') empty_store = Inr (s2, True)" "LoadDecommissionIntent s2 = Inr None"
    by (auto simp: sel)
  ultimately show ?thesis by (auto simp: sel)
qed

section \<open>The latch over its operations\<close>

datatype latch_op = Engage | Register string | Unregister string

fun latch_exec :: "latch_op \<Rightarrow> Latch \<Rightarrow> Latch" where
  "latch_exec Engage l = snd (TryEngage l)"
| "latch_exec (Register name) l = snd (RegisterActor name l)"
| "latch_exec (Unregister name) l = UnregisterActor name l"

lemmas latch_defs = TryEngage_def RegisterActor_def UnregisterActor_def ActiveCount_def NewLatch_def

lemma latch_sealed:
  "lt_engaged l \<Longrightarrow> lt_engaged (fold latch_exec acts l) \<and> ActiveCount (fold latch_exec acts l) \<le> ActiveCount l \<and>
     set (lt_actors (fold latch_exec acts l)) \<subseteq> set (lt_actors l) - {n. Unregister n \<in> set acts}"
proof (induction acts arbitrary: l)
  case (Cons a acts)
  have "lt_engaged (latch_exec a l)" "ActiveCount (latch_exec a l) \<le> ActiveCount l"
    "set (lt_actors (latch_exec a l)) \<subseteq> set (lt_actors l) - {n. a = Unregister n}"
    using Cons.prems by (cases a; auto simp: latch_defs length_removeAll_less_eq)+
  with Cons.IH [of "latch_exec a l"] show ?case by auto
qed simp

text \<open>
  The latch seals the agent. Whatever happened before, the first engage on a fresh history succeeds and every later
  one fails. After it no actor can register, the number of live actors never grows, and once every actor registered at
  that point has unregistered none is left.
\<close>

theorem latch_seals:
  assumes "l = fold latch_exec before NewLatch" "TryEngage l = (won, l1)" "l2 = fold latch_exec after l1"
  shows "(won \<longleftrightarrow> Engage \<notin> set before) \<and> TryEngage l2 = (False, l2) \<and>
    RegisterActor name l2 = (Inl ErrTerminalEngaged, l2) \<and> ActiveCount l2 \<le> ActiveCount l \<and>
    ((\<forall>n \<in> set (lt_actors l). Unregister n \<in> set after) \<longrightarrow> ActiveCount l2 = 0)"
proof -
  have "lt_engaged (fold latch_exec acts l0) \<longleftrightarrow> lt_engaged l0 \<or> Engage \<in> set acts" for acts l0
  proof (induction acts arbitrary: l0)
    case (Cons a acts)
    have "lt_engaged (latch_exec a l0) \<longleftrightarrow> lt_engaged l0 \<or> a = Engage" by (cases a) (auto simp: latch_defs)
    with Cons.IH [of "latch_exec a l0"] show ?case by auto
  qed simp
  from this [of before NewLatch] assms(1,2) have won: "won \<longleftrightarrow> Engage \<notin> set before"
    by (auto simp: latch_defs split: if_splits)
  from assms(2) have l1: "lt_engaged l1" "lt_actors l1 = lt_actors l" by (auto simp: TryEngage_def split: if_splits)
  note sealed = latch_sealed [OF l1(1), of after, folded assms(3), unfolded l1(2)]
  then have gone: "set (lt_actors l2) \<subseteq> {n \<in> set (lt_actors l). Unregister n \<notin> set after}" by auto
  have "set (lt_actors l2) = {}" if all: "\<forall>n \<in> set (lt_actors l). Unregister n \<in> set after"
  proof (rule equals0I)
    fix n assume "n \<in> set (lt_actors l2)"
    with gone have "n \<in> set (lt_actors l)" "Unregister n \<notin> set after" by auto
    with all show False by simp
  qed
  moreover have "ActiveCount l1 = ActiveCount l" using l1(2) by (simp add: ActiveCount_def)
  ultimately show ?thesis using sealed won by (auto simp: latch_defs)
qed

theorem latch_seals_witness:
  "let l = fold latch_exec [Register ''a'', Register ''b''] NewLatch; (won, l1) = TryEngage l;
       l2 = fold latch_exec [Unregister ''b'', Register ''c'', Unregister ''a''] l1
   in won \<and> TryEngage l2 = (False, l2) \<and> ActiveCount l = 2 \<and> ActiveCount l2 = 0"
proof -
  let ?l = "fold latch_exec [Register ''a'', Register ''b''] NewLatch"
  have l: "lt_actors ?l = [''b'', ''a'']" "\<not> lt_engaged ?l" by (simp_all add: latch_defs)
  let ?l2 = "fold latch_exec [Unregister ''b'', Register ''c'', Unregister ''a''] (snd (TryEngage ?l))"
  from latch_seals [OF HOL.refl surjective_pairing HOL.refl, of "[Register ''a'', Register ''b'']"
      "[Unregister ''b'', Register ''c'', Unregister ''a'']"]
  have "TryEngage ?l2 = (False, ?l2)" "ActiveCount ?l2 = 0" "fst (TryEngage ?l)"
    using l by auto
  with l show ?thesis by (simp add: Let_def case_prod_beta ActiveCount_def)
qed

section \<open>Opening a database\<close>

text \<open>\<open>schema_ok\<close>: the buckets of every migration up to the recorded version exist.\<close>

definition schema_ok :: "bolt_db \<Rightarrow> bool" where
  "schema_ok db \<longleftrightarrow> (\<forall>(v, names) \<in> set schemaMigrations. v \<le> readSchemaVersion db \<longrightarrow> set names \<subseteq> set (db_buckets db))"

lemma create_buckets_set [simp]: "set (db_buckets (create_buckets names db)) = set (db_buckets db) \<union> set names"
  by (auto simp: create_buckets_def)

lemma create_buckets_version [simp]: "db_version (create_buckets names db) = db_version db"
  by (simp add: create_buckets_def)

lemma apply_migration_effect [simp]:
  "readSchemaVersion (apply_migration m db) = fst m"
  "set (db_buckets (apply_migration m db)) = insert ''meta/schema'' (set (db_buckets db) \<union> set (snd m))"
  by (auto simp: readSchemaVersion_def apply_migration_def decodeVersion_def encodeVersion_def)

lemma version_cases: "(v :: u64) \<le> SchemaVersion \<Longrightarrow> v = 0 \<or> v = 1 \<or> v = 2 \<or> v = 3"
proof -
  assume "v \<le> SchemaVersion"
  then have "unat v \<le> 3" by (simp add: SchemaVersion_def word_le_nat_alt)
  then have "unat v \<in> {0, 1, 2, 3}" by auto
  then show ?thesis by (auto simp: word_unat_eq_iff)
qed

lemma version_order:
  "\<not> (1 :: u64) \<le> 0" "\<not> (2 :: u64) \<le> 0" "\<not> (3 :: u64) \<le> 0" "\<not> (2 :: u64) \<le> 1" "\<not> (3 :: u64) \<le> 1"
  "\<not> (3 :: u64) \<le> 2" "(1 :: u64) \<le> 2" "(1 :: u64) \<le> 3" "(2 :: u64) \<le> 3"
  by (simp_all add: word_le_nat_alt)

definition open_sound :: "bolt_db \<Rightarrow> (lc_error + unit) \<times> bolt_db \<Rightarrow> bool" where
  "open_sound db r \<longleftrightarrow> schema_ok (snd r) \<and> readSchemaVersion db \<le> readSchemaVersion (snd r) \<and>
     readSchemaVersion (snd r) \<le> SchemaVersion \<and> set (db_buckets db) \<subseteq> set (db_buckets (snd r)) \<and>
     (fst r = Inr () \<longrightarrow> readSchemaVersion (snd r) = SchemaVersion)"

lemma open_sound_all:
  assumes "readSchemaVersion db \<le> SchemaVersion" "schema_ok db"
  shows "open_sound db (openMigrations fails db)"
  using version_cases [OF assms(1)] assms
  by (elim disjE) (auto simp: open_sound_def openMigrations_def schemaMigrations_def schema_ok_def SchemaVersion_def
      version_order)

text \<open>
  C10. Opening a database migrates it, and an interrupted migration can be resumed. Take a database whose recorded
  version this build knows and whose buckets match it. Whichever migration transaction fails, the database left behind
  again matches the version it records, no bucket is lost and the version did not go back. A successful open leaves
  version 3 with every bucket. Opening the database left by a failed attempt succeeds once no transaction fails. A newer
  database is refused and left untouched.
\<close>

theorem migrations_resume:
  assumes "schema_ok db"
  shows "if readSchemaVersion db > SchemaVersion then openMigrations fails db = (Inl ErrSchemaTooNew, db)
    else open_sound db (openMigrations fails db) \<and>
      (let again = openMigrations (\<lambda>_. False) (snd (openMigrations fails db)) in
       fst again = Inr () \<and> readSchemaVersion (snd again) = SchemaVersion \<and>
       set allBuckets \<union> {''probe_operations'', ''forward_delete_intents''} \<subseteq> set (db_buckets (snd again)))"
proof (cases "readSchemaVersion db > SchemaVersion")
  case False
  then have v: "readSchemaVersion db \<le> SchemaVersion" by simp
  let ?db1 = "snd (openMigrations fails db)"
  have sound: "open_sound db (openMigrations fails db)" using v assms by (rule open_sound_all)
  then have db1: "readSchemaVersion ?db1 \<le> SchemaVersion" "schema_ok ?db1" by (auto simp: open_sound_def)
  have ok: "fst (openMigrations (\<lambda>_. False) ?db1) = Inr ()"
    using version_cases [OF db1(1)] by (elim disjE) (simp_all add: openMigrations_def schemaMigrations_def SchemaVersion_def version_order)
  moreover have "open_sound ?db1 (openMigrations (\<lambda>_. False) ?db1)" using db1 by (rule open_sound_all)
  ultimately have "readSchemaVersion (snd (openMigrations (\<lambda>_. False) ?db1)) = SchemaVersion"
    "schema_ok (snd (openMigrations (\<lambda>_. False) ?db1))" by (simp_all add: open_sound_def)
  with False sound ok show ?thesis
    by (simp add: Let_def schema_ok_def schemaMigrations_def SchemaVersion_def)
qed (simp add: openMigrations_def)

theorem migrations_resume_witness:
  "let r = openMigrations (\<lambda>v. v = 2) \<lparr>db_buckets = [], db_version = None\<rparr>
   in r = (Inl MigrationFailed, \<lparr>db_buckets = allBuckets, db_version = Some (encodeVersion 1)\<rparr>) \<and>
      fst (openMigrations (\<lambda>_. False) (snd r)) = Inr ()"
proof -
  let ?db = "\<lparr>db_buckets = [], db_version = None\<rparr> :: bolt_db"
  have empty: "readSchemaVersion ?db = 0" by (simp add: readSchemaVersion_def)
  then have "schema_ok ?db" by (simp add: schema_ok_def schemaMigrations_def)
  from migrations_resume [OF this, of "\<lambda>v. v = 2"] empty
  have "fst (openMigrations (\<lambda>_. False) (snd (openMigrations (\<lambda>v. v = 2) ?db))) = Inr ()"
    by (simp add: Let_def)
  moreover have "openMigrations (\<lambda>v. v = 2) ?db =
    (Inl MigrationFailed, \<lparr>db_buckets = allBuckets, db_version = Some (encodeVersion 1)\<rparr>)"
    by (simp add: openMigrations_def empty SchemaVersion_def schemaMigrations_def apply_migration_def create_buckets_def
        allBuckets_def)
  ultimately show ?thesis by (simp add: Let_def)
qed

end
