(* ===== verification/Probe_Store.thy ===== *)
theory Probe_Store
  imports Applied_State Session_Handshake
begin

text \<open>
  The durable probe operations of the agent, \<^verbatim>\<open>src/internal/agent/localstate/probe.go\<close>: arming, admission together
  with the activation snapshot, consumption with the receipt and the acknowledgement frame, the controller's
  acknowledgement, and the paged sweep.

  The bucket holds an operation under its 16 byte probe id and, under \<^verbatim>\<open>receipt/\<close> and the operation id of a receipt,
  the probe id it belongs to. A probe id that itself starts with \<^verbatim>\<open>receipt/\<close> is stored but is not an operation key for
  the scans. The callback of bbolt's ForEach in \<open>AcknowledgeArmedProbeReceipt\<close> rewrites rows while it iterates; the
  model visits every row as it was before the transaction, which is what happens when a rewrite moves no key. Index
  bytes and undecodable bytes are not JSON objects. Times are nanoseconds; \<open>None\<close> is Go's zero time.
\<close>

section \<open>Keys and rows\<close>

definition defaultProbeScanLimit :: int where "defaultProbeScanLimit = 256"

definition probeReceiptIndexKey :: "string \<Rightarrow> string" where
  "probeReceiptIndexKey operationID = ''receipt/'' @ operationID"

definition isProbeOperationKey :: "string \<Rightarrow> bool" where
  "isProbeOperationKey key \<longleftrightarrow> length key = 16 \<and> take 8 key \<noteq> ''receipt/''"

fun decode_probe :: "probe_row \<Rightarrow> ls_error + ArmedProbe" where
  "decode_probe (ProbeOp r) = Inr r"
| "decode_probe _ = Inl DecodeRow"

text \<open>The TTL is multiplied as a 64 bit duration and subtracted.\<close>

definition armed_at :: "ProbeArm \<Rightarrow> int \<Rightarrow> int option" where
  "armed_at arm deadline =
     (if arm_TTLMS arm > 0 then Some (deadline + sint (- (arm_TTLMS arm * 1000000))) else None)"

definition armed_record :: "crypto \<Rightarrow> ProbeArm \<Rightarrow> string \<Rightarrow> int \<Rightarrow> ArmedProbe" where
  "armed_record k arm forwardID deadline =
     \<lparr> pb_Arm = arm, pb_ForwardID = forwardID, pb_Digest = arm_Digest k arm, pb_Deadline = deadline,
       pb_ArmedAt = armed_at arm deadline, pb_Consumed = False, pb_Receipt = [], pb_ReceiptSent = False,
       pb_ChallengeHash = replicate 32 0, pb_ACK = [], pb_ACKSent = False, pb_ReceiptAcknowledged = False,
       pb_ReceiptMessageID = [], pb_ReceiptDeadline = None \<rparr>"

definition put_probe :: "bytes \<Rightarrow> ArmedProbe \<Rightarrow> Store \<Rightarrow> ls_error + Store" where
  "put_probe probeID r s = ebind (bput (bytes_str probeID) (ProbeOp r) (ls_probes s)) (\<lambda>b. Inr (s\<lparr>ls_probes := b\<rparr>))"

definition put_index :: "string \<Rightarrow> bytes \<Rightarrow> Store \<Rightarrow> ls_error + Store" where
  "put_index operationID probeID s =
     ebind (bput (probeReceiptIndexKey operationID) (ProbeIndex probeID) (ls_probes s)) (\<lambda>b. Inr (s\<lparr>ls_probes := b\<rparr>))"

section \<open>Arming\<close>

definition check_existing :: "crypto \<Rightarrow> ProbeArm \<Rightarrow> string \<Rightarrow> Store \<Rightarrow> ls_error + unit" where
  "check_existing k arm forwardID s =
     (case bget (ls_probes s) (bytes_str (arm_ProbeID arm)) of
        None \<Rightarrow> Inr ()
      | Some raw \<Rightarrow>
          ebind (decode_probe raw) (\<lambda>existing.
          if pb_Consumed existing then Inl ErrProbeConsumed
          else if pb_ForwardID existing \<noteq> forwardID \<or> pb_Digest existing \<noteq> arm_Digest k arm \<or>
            arm_Canonical (pb_Arm existing) \<noteq> arm_Canonical arm
          then Inl ErrProbeConflict else Inr ()))"

definition SaveArmedProbeForForward :: "crypto \<Rightarrow> ProbeArm \<Rightarrow> string \<Rightarrow> int \<Rightarrow> Store \<Rightarrow> ls_error + Store" where
  "SaveArmedProbeForForward k arm forwardID deadline s =
     ebind (check_existing k arm forwardID s) (\<lambda>_.
       put_probe (arm_ProbeID arm) (armed_record k arm forwardID deadline) s)"

definition SaveArmedProbe :: "crypto \<Rightarrow> ProbeArm \<Rightarrow> int \<Rightarrow> Store \<Rightarrow> ls_error + Store" where
  "SaveArmedProbe k arm deadline s = SaveArmedProbeForForward k arm [] deadline s"

definition LoadArmedProbe :: "bytes \<Rightarrow> Store \<Rightarrow> ls_error + ArmedProbe option" where
  "LoadArmedProbe probeID s =
     (case bget (ls_probes s) (bytes_str probeID) of
        None \<Rightarrow> Inr None
      | Some raw \<Rightarrow> ebind (decode_probe raw) (\<lambda>r. Inr (Some r)))"

definition check_snapshot ::
  "crypto \<Rightarrow> string \<Rightarrow> u64 \<Rightarrow> string \<Rightarrow> ActivationStates \<Rightarrow> Store \<Rightarrow> ls_error + unit" where
  "check_snapshot k forwardID revision activation before s =
     (case bget (ls_activation s) forwardID of
        None \<Rightarrow> Inr ()
      | Some Corrupt \<Rightarrow> Inl DecodeRow
      | Some (Row old) \<Rightarrow>
          ebind (validateActivationSnapshot k forwardID old) (\<lambda>_.
          if as_Activation old \<noteq> activation \<or> as_Generation old \<noteq> revision \<or> as_States old \<noteq> before
          then Inl ErrProbeAdmissionConflict else Inr ()))"

definition states_valid :: "ActivationStates \<Rightarrow> ls_error + unit" where
  "states_valid a = (case ActivationStates_Validate a of Inl e \<Rightarrow> Inl (SnapshotStates e) | Inr _ \<Rightarrow> Inr ())"

definition CommitProbeAdmission ::
  "crypto \<Rightarrow> string \<Rightarrow> u64 \<Rightarrow> string \<Rightarrow> ProbeArm \<Rightarrow> int \<Rightarrow> ActivationStates \<Rightarrow> ActivationStates \<Rightarrow> Store \<Rightarrow>
     ls_error + Store" where
  "CommitProbeAdmission k forwardID expectedRevision activation arm deadline before after s =
     (if forwardID = [] \<or> expectedRevision = 0 \<or> activation = [] then Inl ErrProbeAdmissionConflict
      else ebind (case arm_Validate arm of Inl e \<Rightarrow> Inl (ProbeArmInvalid e) | Inr _ \<Rightarrow> Inr ()) (\<lambda>_.
      ebind (states_valid before) (\<lambda>_.
      ebind (states_valid after) (\<lambda>_.
      let wantActivation = ActivationID k forwardID expectedRevision in
      if activation \<noteq> hex_EncodeToString wantActivation \<or> arm_Activation arm \<noteq> wantActivation
      then Inl ErrProbeAdmissionConflict
      else let snapshot = \<lparr> as_ForwardID = forwardID, as_Activation = activation, as_Generation = expectedRevision,
             as_States = after \<rparr> in
      ebind (loadAppliedRecordTx (ls_applied s) forwardID) (\<lambda>applied.
      if (case applied of None \<Rightarrow> True | Some a \<Rightarrow> af_SpecRevision (ap_State a) \<noteq> expectedRevision)
      then Inl ErrProbeAdmissionConflict
      else ebind (check_snapshot k forwardID expectedRevision activation before s) (\<lambda>_.
      ebind (check_existing k arm forwardID s) (\<lambda>_.
      ebind (validateActivationSnapshot k forwardID snapshot) (\<lambda>_.
      ebind (bput forwardID (Row snapshot) (ls_activation s)) (\<lambda>b.
        put_probe (arm_ProbeID arm) (armed_record k arm forwardID deadline) (s\<lparr>ls_activation := b\<rparr>))))))))))"

section \<open>Consuming\<close>

definition with_probe :: "bytes \<Rightarrow> Store \<Rightarrow> (ArmedProbe \<Rightarrow> ls_error + Store) \<Rightarrow> ls_error + Store" where
  "with_probe probeID s f =
     (case bget (ls_probes s) (bytes_str probeID) of
        None \<Rightarrow> Inl ErrProbeNotFound
      | Some raw \<Rightarrow> ebind (decode_probe raw) f)"

definition DeleteArmedProbe :: "bytes \<Rightarrow> Store \<Rightarrow> ls_error + Store" where
  "DeleteArmedProbe probeID s =
     (case bget (ls_probes s) (bytes_str probeID) of
        None \<Rightarrow> Inr (s\<lparr>ls_probes := bdel (bytes_str probeID) (ls_probes s)\<rparr>)
      | Some raw \<Rightarrow>
          ebind (decode_probe raw) (\<lambda>r.
          let b = (if pb_ReceiptMessageID r \<noteq> [] then bdel (probeReceiptIndexKey (pb_ReceiptMessageID r)) (ls_probes s)
                   else ls_probes s)
          in Inr (s\<lparr>ls_probes := bdel (bytes_str probeID) b\<rparr>)))"

definition MarkArmedProbeConsumedWithACK ::
  "bytes \<Rightarrow> bytes \<Rightarrow> bytes \<Rightarrow> bytes \<Rightarrow> string \<Rightarrow> int option \<Rightarrow> Store \<Rightarrow> ls_error + Store" where
  "MarkArmedProbeConsumedWithACK probeID receipt ack challengeHash receiptMessageID receiptDeadline s =
     with_probe probeID s (\<lambda>r.
       if pb_Consumed r then
         (if pb_ReceiptMessageID r \<noteq> receiptMessageID \<or> pb_Receipt r \<noteq> receipt \<or> pb_ACK r \<noteq> ack \<or>
             pb_ChallengeHash r \<noteq> challengeHash
          then Inl ErrProbeConflict else Inr s)
       else
         ebind (put_probe probeID (r\<lparr>pb_Consumed := True, pb_Receipt := receipt, pb_ReceiptSent := False,
             pb_ReceiptMessageID := receiptMessageID, pb_ReceiptDeadline := receiptDeadline,
             pb_ChallengeHash := challengeHash, pb_ACK := ack, pb_ACKSent := False\<rparr>) s) (\<lambda>s'.
         if receiptMessageID \<noteq> [] then put_index receiptMessageID probeID s' else Inr s'))"

definition fill_receipt :: "string \<Rightarrow> int option \<Rightarrow> ArmedProbe \<Rightarrow> ArmedProbe" where
  "fill_receipt messageID deadline r =
     r\<lparr>pb_ReceiptMessageID := (if pb_ReceiptMessageID r = [] then messageID else pb_ReceiptMessageID r),
       pb_ReceiptDeadline := (if pb_ReceiptDeadline r = None then deadline else pb_ReceiptDeadline r)\<rparr>"

definition MarkArmedProbeConsumedWithReceipt ::
  "bytes \<Rightarrow> bytes \<Rightarrow> string \<Rightarrow> int option \<Rightarrow> Store \<Rightarrow> ls_error + Store" where
  "MarkArmedProbeConsumedWithReceipt probeID receipt receiptMessageID receiptDeadline s =
     with_probe probeID s (\<lambda>r.
       let r' = (if \<not> pb_Consumed r
                 then r\<lparr>pb_Consumed := True, pb_Receipt := receipt, pb_ReceiptSent := False,
                   pb_ReceiptMessageID := receiptMessageID, pb_ReceiptDeadline := receiptDeadline\<rparr>
                 else fill_receipt receiptMessageID receiptDeadline r)
       in ebind (put_probe probeID r' s) (\<lambda>s'.
          if pb_ReceiptMessageID r' \<noteq> [] then put_index (pb_ReceiptMessageID r') probeID s' else Inr s'))"

definition MarkArmedProbeConsumed :: "int \<Rightarrow> bytes \<Rightarrow> bytes \<Rightarrow> Store \<Rightarrow> ls_error + Store" where
  "MarkArmedProbeConsumed now probeID receipt s =
     MarkArmedProbeConsumedWithReceipt probeID receipt [] (Some (now + ProbeReplayWindow)) s"

definition SetArmedProbeACK :: "bytes \<Rightarrow> bytes \<Rightarrow> Store \<Rightarrow> ls_error + Store" where
  "SetArmedProbeACK probeID ack s =
     with_probe probeID s (\<lambda>r.
       if \<not> pb_Consumed r then Inl ErrProbeNotFound
       else put_probe probeID (r\<lparr>pb_ACK := ack, pb_ACKSent := False\<rparr>) s)"

definition MarkArmedProbeACKSent :: "bytes \<Rightarrow> Store \<Rightarrow> ls_error + Store" where
  "MarkArmedProbeACKSent probeID s = with_probe probeID s (\<lambda>r. put_probe probeID (r\<lparr>pb_ACKSent := True\<rparr>) s)"

definition MarkArmedProbeReceiptSent :: "bytes \<Rightarrow> Store \<Rightarrow> ls_error + Store" where
  "MarkArmedProbeReceiptSent probeID s = with_probe probeID s (\<lambda>r. put_probe probeID (r\<lparr>pb_ReceiptSent := True\<rparr>) s)"

definition SetArmedProbeReceiptMessageID :: "bytes \<Rightarrow> string \<Rightarrow> int option \<Rightarrow> Store \<Rightarrow> ls_error + Store" where
  "SetArmedProbeReceiptMessageID probeID messageID deadline s =
     with_probe probeID s (\<lambda>r.
       let r' = (if pb_Consumed r then fill_receipt messageID deadline r else r)
       in ebind (put_probe probeID r' s) (\<lambda>s'.
          if pb_Consumed r' \<and> pb_ReceiptMessageID r' \<noteq> [] then put_index (pb_ReceiptMessageID r') probeID s'
          else Inr s'))"

section \<open>Acknowledging\<close>

definition receipt_matches :: "crypto \<Rightarrow> string \<Rightarrow> ArmedProbe \<Rightarrow> bool" where
  "receipt_matches k operationID r \<longleftrightarrow>
     (let matches = pb_Consumed r \<and> pb_ReceiptMessageID r = operationID in
      if \<not> matches \<and> pb_Consumed r \<and> pb_Receipt r \<noteq> [] then
        (let semanticID = hex_EncodeToString (sha256 k (pb_Receipt r));
             legacyID = MessageID k semanticID ''probe_ingress_receipt''
         in operationID = semanticID \<and> pb_ReceiptMessageID r = hex_EncodeToString legacyID)
      else matches)"

definition acknowledgeMatch :: "crypto \<Rightarrow> string \<Rightarrow> string \<Rightarrow> probe_row \<Rightarrow> Store \<Rightarrow> ls_error + bool \<times> Store" where
  "acknowledgeMatch k operationID key raw s =
     ebind (decode_probe raw) (\<lambda>r.
     if \<not> receipt_matches k operationID r then Inr (False, s)
     else ebind (bput key (ProbeOp (r\<lparr>pb_ReceiptAcknowledged := True\<rparr>)) (ls_probes s)) (\<lambda>b.
          Inr (True, s\<lparr>ls_probes := b\<rparr>)))"

fun acknowledge_scan :: "crypto \<Rightarrow> string \<Rightarrow> probe_row bucket \<Rightarrow> Store \<Rightarrow> ls_error + Store" where
  "acknowledge_scan k operationID [] s = Inr s"
| "acknowledge_scan k operationID ((key, raw) # rows) s =
     ebind (acknowledgeMatch k operationID key raw s) (\<lambda>(_, s'). acknowledge_scan k operationID rows s')"

definition oprows :: "probe_row bucket \<Rightarrow> probe_row bucket" where
  "oprows b = filter (\<lambda>(key, _). isProbeOperationKey key) b"

definition indexed :: "string \<Rightarrow> Store \<Rightarrow> (string \<times> probe_row) option" where
  "indexed operationID s =
     (case bget (ls_probes s) (probeReceiptIndexKey operationID) of
        Some (ProbeIndex probeID) \<Rightarrow>
          if length probeID = 16 then map_option (Pair (bytes_str probeID)) (bget (ls_probes s) (bytes_str probeID))
          else None
      | _ \<Rightarrow> None)"

definition AcknowledgeArmedProbeReceipt :: "crypto \<Rightarrow> string \<Rightarrow> Store \<Rightarrow> ls_error + Store" where
  "AcknowledgeArmedProbeReceipt k operationID s =
     ebind (case indexed operationID s of
              None \<Rightarrow> Inr (False, s)
            | Some (key, raw) \<Rightarrow> acknowledgeMatch k operationID key raw s) (\<lambda>(matched, s').
     if matched then Inr s'
     else acknowledge_scan k operationID (take (nat defaultProbeScanLimit) (oprows (ls_probes s'))) s')"

section \<open>Scanning\<close>

definition page_limit :: "int \<Rightarrow> nat" where
  "page_limit limit = nat (if limit \<le> 0 then defaultProbeScanLimit else limit)"

definition cursor_from :: "string \<Rightarrow> 'v bucket \<Rightarrow> 'v bucket" where
  "cursor_from after b =
     (if after = [] then b
      else case dropWhile (\<lambda>(key, _). key < after) b of
        [] \<Rightarrow> [] | (key, raw) # rest \<Rightarrow> if key = after then rest else (key, raw) # rest)"

definition expired :: "int \<Rightarrow> ArmedProbe \<Rightarrow> bool" where
  "expired now r \<longleftrightarrow> \<not> pb_Consumed r \<and> \<not> now < pb_Deadline r \<or>
     pb_Consumed r \<and> (case pb_ReceiptDeadline r of None \<Rightarrow> False | Some d \<Rightarrow> \<not> now < d)"

text \<open>One page: the decoded rows with their keys, and the cursor when the page was cut off.\<close>

fun scan_page :: "nat \<Rightarrow> nat \<Rightarrow> string \<Rightarrow> probe_row bucket \<Rightarrow> ls_error + (string \<times> ArmedProbe) list \<times> string option" where
  "scan_page limit scanned lastKey [] = Inr ([], None)"
| "scan_page limit scanned lastKey ((key, raw) # rows) =
     (if \<not> isProbeOperationKey key then scan_page limit scanned lastKey rows
      else if scanned \<ge> limit then Inr ([], Some lastKey)
      else ebind (decode_probe raw) (\<lambda>r.
           ebind (scan_page limit (scanned + 1) key rows) (\<lambda>(out, next). Inr ((key, r) # out, next))))"

fun remove_probes :: "string list \<Rightarrow> probe_row bucket \<Rightarrow> ls_error + probe_row bucket" where
  "remove_probes [] b = Inr b"
| "remove_probes (key # keys) b =
     ebind (case bget b key of
              None \<Rightarrow> Inr b
            | Some raw \<Rightarrow> ebind (decode_probe raw) (\<lambda>r.
                Inr (if pb_ReceiptMessageID r \<noteq> [] then bdel (probeReceiptIndexKey (pb_ReceiptMessageID r)) b else b)))
       (\<lambda>b'. remove_probes keys (bdel key b'))"

definition page_result :: "string option \<Rightarrow> string \<times> bool" where
  "page_result next = (case next of None \<Rightarrow> ([], True) | Some k \<Rightarrow> (k, False))"

definition SweepArmedProbeTombstonesPage :: "int \<Rightarrow> int \<Rightarrow> string \<Rightarrow> Store \<Rightarrow> ls_error + Store \<times> string \<times> bool" where
  "SweepArmedProbeTombstonesPage now limit after s =
     ebind (scan_page (page_limit limit) 0 [] (cursor_from after (ls_probes s))) (\<lambda>(out, next).
     ebind (remove_probes (map fst (filter (expired now \<circ> snd) out)) (ls_probes s)) (\<lambda>b.
     Inr (s\<lparr>ls_probes := b\<rparr>, page_result next)))"

definition SweepArmedProbeTombstonesLimit :: "int \<Rightarrow> int \<Rightarrow> Store \<Rightarrow> ls_error + Store" where
  "SweepArmedProbeTombstonesLimit now limit s =
     ebind (SweepArmedProbeTombstonesPage now limit [] s) (\<lambda>(s', _). Inr s')"

definition SweepArmedProbeTombstones :: "int \<Rightarrow> Store \<Rightarrow> ls_error + Store" where
  "SweepArmedProbeTombstones now s = SweepArmedProbeTombstonesLimit now defaultProbeScanLimit s"

definition ListArmedProbesPage :: "int \<Rightarrow> string \<Rightarrow> Store \<Rightarrow> ls_error + ArmedProbe list \<times> string \<times> bool" where
  "ListArmedProbesPage limit after s =
     ebind (scan_page (page_limit limit) 0 [] (cursor_from after (ls_probes s))) (\<lambda>(out, next).
     Inr (map snd out, page_result next))"

fun decode_probes :: "probe_row bucket \<Rightarrow> ls_error + ArmedProbe list" where
  "decode_probes [] = Inr []"
| "decode_probes ((key, raw) # rows) = ebind (decode_probe raw) (\<lambda>r. ebind (decode_probes rows) (\<lambda>rs. Inr (r # rs)))"

definition ListArmedProbesLimit :: "int \<Rightarrow> Store \<Rightarrow> ls_error + ArmedProbe list" where
  "ListArmedProbesLimit limit s = decode_probes (take (page_limit limit) (oprows (ls_probes s)))"

definition ListArmedProbes :: "Store \<Rightarrow> ls_error + ArmedProbe list" where
  "ListArmedProbes s = ListArmedProbesLimit defaultProbeScanLimit s"

section \<open>Operations as steps\<close>

datatype probe_op =
    PArm ProbeArm string int
  | PAdmit string u64 string ProbeArm int ActivationStates ActivationStates
  | PDelete bytes
  | PConsumeACK bytes bytes bytes bytes string "int option"
  | PConsume bytes bytes string "int option"
  | PSetACK bytes bytes
  | PACKSent bytes
  | PReceiptSent bytes
  | PFill bytes string "int option"
  | PAcknowledge string
  | PSweep int int string

fun pexec :: "crypto \<Rightarrow> probe_op \<Rightarrow> Store \<Rightarrow> ls_error + Store" where
  "pexec k (PArm arm f d) s = SaveArmedProbeForForward k arm f d s"
| "pexec k (PAdmit f g act arm d before after) s = CommitProbeAdmission k f g act arm d before after s"
| "pexec k (PDelete probe) s = DeleteArmedProbe probe s"
| "pexec k (PConsumeACK probe receipt ack ch m d) s = MarkArmedProbeConsumedWithACK probe receipt ack ch m d s"
| "pexec k (PConsume probe receipt m d) s = MarkArmedProbeConsumedWithReceipt probe receipt m d s"
| "pexec k (PSetACK probe ack) s = SetArmedProbeACK probe ack s"
| "pexec k (PACKSent probe) s = MarkArmedProbeACKSent probe s"
| "pexec k (PReceiptSent probe) s = MarkArmedProbeReceiptSent probe s"
| "pexec k (PFill probe m d) s = SetArmedProbeReceiptMessageID probe m d s"
| "pexec k (PAcknowledge op) s = AcknowledgeArmedProbeReceipt k op s"
| "pexec k (PSweep now limit after) s = ebind (SweepArmedProbeTombstonesPage now limit after s) (\<lambda>(s', _). Inr s')"

text \<open>A failed transaction leaves the store as it was.\<close>

definition prun :: "crypto \<Rightarrow> probe_op \<Rightarrow> Store \<Rightarrow> Store" where
  "prun k op s = (case pexec k op s of Inl _ \<Rightarrow> s | Inr s' \<Rightarrow> s')"

definition probes_ok :: "probe_row bucket \<Rightarrow> bool" where
  "probes_ok b \<longleftrightarrow> bucket_ok b \<and> (\<forall>key raw. bget b key = Some raw \<longrightarrow> isProbeOperationKey key \<longrightarrow> (\<exists>r. raw = ProbeOp r))"

text \<open>\<open>row_kept r r'\<close>: the operation \<open>r\<close> is still there as \<open>r'\<close>; only the delivery flags and
  receipt facts that were missing have changed.\<close>

definition row_kept :: "ArmedProbe \<Rightarrow> ArmedProbe \<Rightarrow> bool" where
  "row_kept r r' \<longleftrightarrow> pb_Consumed r' = pb_Consumed r \<and> pb_Arm r' = pb_Arm r \<and> pb_ForwardID r' = pb_ForwardID r \<and>
     pb_Digest r' = pb_Digest r \<and> pb_Deadline r' = pb_Deadline r \<and> pb_ArmedAt r' = pb_ArmedAt r \<and>
     pb_Receipt r' = pb_Receipt r \<and> pb_ChallengeHash r' = pb_ChallengeHash r \<and> pb_ACK r' = pb_ACK r \<and>
     (pb_ReceiptMessageID r \<noteq> [] \<longrightarrow> pb_ReceiptMessageID r' = pb_ReceiptMessageID r) \<and>
     (pb_ReceiptDeadline r \<noteq> None \<longrightarrow> pb_ReceiptDeadline r' = pb_ReceiptDeadline r)"

lemma row_kept_refl [simp]: "row_kept r r"
  by (simp add: row_kept_def)

lemma row_kept_trans: "row_kept a b \<Longrightarrow> row_kept b c \<Longrightarrow> row_kept a c"
  by (auto simp: row_kept_def)

lemma row_kept_updates [simp]:
  "row_kept r (r\<lparr>pb_ACKSent := x\<rparr>)" "row_kept r (r\<lparr>pb_ReceiptSent := x\<rparr>)"
  "row_kept r (r\<lparr>pb_ReceiptAcknowledged := x\<rparr>)" "row_kept r (fill_receipt m d r)"
  by (simp_all add: row_kept_def fill_receipt_def)

lemma index_key_not_op [simp]: "\<not> isProbeOperationKey (probeReceiptIndexKey op)"
  by (simp add: isProbeOperationKey_def probeReceiptIndexKey_def)

lemma op_key_not_index [simp]: "isProbeOperationKey key \<Longrightarrow> probeReceiptIndexKey op \<noteq> key"
  using index_key_not_op by metis

lemma probes_ok_bucket: "probes_ok b \<Longrightarrow> bucket_ok b"
  by (simp add: probes_ok_def)

lemma probes_ok_put: "probes_ok b \<Longrightarrow> probes_ok (bins key (ProbeOp r) b)"
  by (auto simp: probes_ok_def)

lemma probes_ok_index: "probes_ok b \<Longrightarrow> probes_ok (bins (probeReceiptIndexKey op) (ProbeIndex i) b)"
  by (auto simp: probes_ok_def)

lemma probes_ok_bdel: "probes_ok b \<Longrightarrow> probes_ok (bdel key b)"
  by (auto simp: probes_ok_def)

lemmas probes_ok_intros = probes_ok_put probes_ok_index probes_ok_bdel

lemma put_probe_Inr: "put_probe i r s = Inr s' \<longleftrightarrow>
  i \<noteq> [] \<and> length i \<le> 32768 \<and> s' = s\<lparr>ls_probes := bins (bytes_str i) (ProbeOp r) (ls_probes s)\<rparr>"
  by (auto simp: put_probe_def ebind_Inr_iff bput_Inr_iff)

lemma put_index_Inr: "put_index op i s = Inr s' \<longleftrightarrow>
  length op \<le> 32760 \<and> s' = s\<lparr>ls_probes := bins (probeReceiptIndexKey op) (ProbeIndex i) (ls_probes s)\<rparr>"
  by (auto simp: put_index_def ebind_Inr_iff bput_Inr_iff probeReceiptIndexKey_def)

lemma decode_probe_Inr [simp]: "decode_probe raw = Inr r \<longleftrightarrow> raw = ProbeOp r"
  by (cases raw) simp_all

lemma with_probe_Inr: "with_probe i s f = Inr s' \<longleftrightarrow> (\<exists>r. bget (ls_probes s) (bytes_str i) = Some (ProbeOp r) \<and> f r = Inr s')"
  by (auto simp: with_probe_def ebind_Inr_iff split: option.splits)

text \<open>What one transaction did to the probe bucket: it rewrote the row of one probe, perhaps with an index row, or it
  removed rows. \<open>changed\<close> is the effect of a rewrite.\<close>

definition rewrote :: "bytes \<Rightarrow> ArmedProbe \<Rightarrow> probe_row bucket \<Rightarrow> probe_row bucket \<Rightarrow> bool" where
  "rewrote i r b b' \<longleftrightarrow> b' = bins (bytes_str i) (ProbeOp r) b \<or>
     (\<exists>op. b' = bins (probeReceiptIndexKey op) (ProbeIndex i) (bins (bytes_str i) (ProbeOp r) b))"

lemma rewrote_get: "rewrote i r b b' \<Longrightarrow> bucket_ok b \<Longrightarrow> isProbeOperationKey key \<Longrightarrow>
  bget b' key = (if key = bytes_str i then Some (ProbeOp r) else bget b key)"
  by (auto simp: rewrote_def)

lemma rewrote_ok: "rewrote i r b b' \<Longrightarrow> probes_ok b \<Longrightarrow> probes_ok b'"
  by (auto simp: rewrote_def intro: probes_ok_intros)

text \<open>The operations that work on the row of one probe.\<close>

lemma check_existing_Inr:
  "check_existing k arm f s = Inr u \<longleftrightarrow>
     bget (ls_probes s) (bytes_str (arm_ProbeID arm)) = None \<or>
     (\<exists>r. bget (ls_probes s) (bytes_str (arm_ProbeID arm)) = Some (ProbeOp r) \<and> \<not> pb_Consumed r \<and>
       pb_ForwardID r = f \<and> pb_Digest r = arm_Digest k arm \<and> arm_Canonical (pb_Arm r) = arm_Canonical arm)"
  by (auto simp: check_existing_def ebind_Inr_iff split: option.splits)

lemma arm_rewrote:
  assumes "SaveArmedProbeForForward k arm f d s = Inr s'"
  shows "check_existing k arm f s = Inr ()" "rewrote (arm_ProbeID arm) (armed_record k arm f d) (ls_probes s) (ls_probes s')"
  using assms by (auto simp: SaveArmedProbeForForward_def ebind_Inr_iff put_probe_Inr rewrote_def)

lemma admit_rewrote:
  assumes "CommitProbeAdmission k f g act arm d before after s = Inr s'"
  shows "check_existing k arm f s = Inr ()" "rewrote (arm_ProbeID arm) (armed_record k arm f d) (ls_probes s) (ls_probes s')"
  using assms by (auto simp: CommitProbeAdmission_def Let_def ebind_Inr_iff put_probe_Inr rewrote_def bput_Inr_iff
      split: if_splits option.splits)

definition consumed_row :: "bytes \<Rightarrow> string \<Rightarrow> int option \<Rightarrow> ArmedProbe \<Rightarrow> ArmedProbe \<Rightarrow> bool" where
  "consumed_row receipt m d r r' \<longleftrightarrow> \<not> pb_Consumed r \<and> pb_Consumed r' \<and> pb_Arm r' = pb_Arm r \<and>
     pb_ForwardID r' = pb_ForwardID r \<and> pb_Receipt r' = receipt \<and> pb_ReceiptMessageID r' = m \<and> pb_ReceiptDeadline r' = d"

lemma consume_ack_rewrote:
  assumes "MarkArmedProbeConsumedWithACK i receipt ack ch m d s = Inr s'"
  obtains (same) r where "s' = s" "bget (ls_probes s) (bytes_str i) = Some (ProbeOp r)" "pb_Consumed r"
  | (consumed) r r' where "bget (ls_probes s) (bytes_str i) = Some (ProbeOp r)" "consumed_row receipt m d r r'"
      "rewrote i r' (ls_probes s) (ls_probes s')"
proof -
  from assms obtain r where r: "bget (ls_probes s) (bytes_str i) = Some (ProbeOp r)"
    by (auto simp: MarkArmedProbeConsumedWithACK_def with_probe_Inr)
  show ?thesis
  proof (cases "pb_Consumed r")
    case True
    with assms r show ?thesis
      by (intro same [of r]) (auto simp: MarkArmedProbeConsumedWithACK_def with_probe_Inr split: if_splits)
  next
    case False
    let ?r = "r\<lparr>pb_Consumed := True, pb_Receipt := receipt, pb_ReceiptSent := False,
             pb_ReceiptMessageID := m, pb_ReceiptDeadline := d, pb_ChallengeHash := ch, pb_ACK := ack, pb_ACKSent := False\<rparr>"
    from False assms r have "rewrote i ?r (ls_probes s) (ls_probes s')"
      by (auto simp: MarkArmedProbeConsumedWithACK_def with_probe_Inr ebind_Inr_iff put_probe_Inr put_index_Inr
          rewrote_def split: if_splits)
    with False r show ?thesis by (intro consumed [of r ?r]) (simp_all add: consumed_row_def)
  qed
qed

lemma consume_rewrote:
  assumes "MarkArmedProbeConsumedWithReceipt i receipt m d s = Inr s'"
  obtains r r' where "bget (ls_probes s) (bytes_str i) = Some (ProbeOp r)" "rewrote i r' (ls_probes s) (ls_probes s')"
    "consumed_row receipt m d r r' \<or> pb_Consumed r \<and> row_kept r r'"
proof -
  from assms obtain r where r: "bget (ls_probes s) (bytes_str i) = Some (ProbeOp r)"
    by (auto simp: MarkArmedProbeConsumedWithReceipt_def with_probe_Inr)
  let ?r = "if \<not> pb_Consumed r
    then r\<lparr>pb_Consumed := True, pb_Receipt := receipt, pb_ReceiptSent := False, pb_ReceiptMessageID := m, pb_ReceiptDeadline := d\<rparr>
    else fill_receipt m d r"
  from assms r have "rewrote i ?r (ls_probes s) (ls_probes s')"
    by (auto simp: MarkArmedProbeConsumedWithReceipt_def with_probe_Inr ebind_Inr_iff put_probe_Inr put_index_Inr Let_def
        rewrote_def split: if_splits)
  with r show ?thesis by (rule that) (simp add: consumed_row_def)
qed

text \<open>Operations that only annotate a row.\<close>

definition annotated :: "bytes \<Rightarrow> Store \<Rightarrow> Store \<Rightarrow> bool" where
  "annotated i s s' \<longleftrightarrow> (\<exists>r r'. bget (ls_probes s) (bytes_str i) = Some (ProbeOp r) \<and> row_kept r r' \<and>
     rewrote i r' (ls_probes s) (ls_probes s'))"

lemma annotatedI:
  "bget (ls_probes s) (bytes_str i) = Some (ProbeOp r) \<Longrightarrow> put_probe i r' s = Inr s' \<Longrightarrow> row_kept r r' \<Longrightarrow> annotated i s s'"
  by (auto simp: annotated_def put_probe_Inr rewrote_def)

lemma annotations:
  "MarkArmedProbeACKSent i s = Inr s' \<Longrightarrow> annotated i s s'"
  "MarkArmedProbeReceiptSent i s = Inr s' \<Longrightarrow> annotated i s s'"
  by (auto simp: MarkArmedProbeACKSent_def MarkArmedProbeReceiptSent_def with_probe_Inr
      intro: annotatedI split: if_splits)

lemma set_ack_rewrote:
  assumes "SetArmedProbeACK i ack s = Inr s'"
  obtains r r' where "bget (ls_probes s) (bytes_str i) = Some (ProbeOp r)" "pb_Arm r' = pb_Arm r"
    "rewrote i r' (ls_probes s) (ls_probes s')"
proof -
  from assms obtain r where r: "bget (ls_probes s) (bytes_str i) = Some (ProbeOp r)"
    "put_probe i (r\<lparr>pb_ACK := ack, pb_ACKSent := False\<rparr>) s = Inr s'"
    by (auto simp: SetArmedProbeACK_def with_probe_Inr split: if_splits)
  from r(2) have "rewrote i (r\<lparr>pb_ACK := ack, pb_ACKSent := False\<rparr>) (ls_probes s) (ls_probes s')"
    by (simp add: put_probe_Inr rewrote_def)
  with r(1) show ?thesis by (intro that [of r]) simp_all
qed

lemma fill_annotated: "SetArmedProbeReceiptMessageID i m d s = Inr s' \<Longrightarrow> annotated i s s'"
proof -
  assume fill: "SetArmedProbeReceiptMessageID i m d s = Inr s'"
  then obtain r where r: "bget (ls_probes s) (bytes_str i) = Some (ProbeOp r)"
    by (auto simp: SetArmedProbeReceiptMessageID_def with_probe_Inr)
  let ?r = "if pb_Consumed r then fill_receipt m d r else r"
  from fill r have "rewrote i ?r (ls_probes s) (ls_probes s')"
    by (auto simp: SetArmedProbeReceiptMessageID_def with_probe_Inr ebind_Inr_iff put_probe_Inr put_index_Inr Let_def
        rewrote_def split: if_splits)
  moreover have "row_kept r ?r" by simp
  ultimately show ?thesis using r unfolding annotated_def by blast
qed

text \<open>Every operation row is kept.\<close>

definition rows_kept :: "probe_row bucket \<Rightarrow> probe_row bucket \<Rightarrow> bool" where
  "rows_kept b b' \<longleftrightarrow> probes_ok b' \<and> (\<forall>key. isProbeOperationKey key \<longrightarrow>
     (bget b' key = None \<longleftrightarrow> bget b key = None) \<and>
     (\<forall>r. bget b key = Some (ProbeOp r) \<longrightarrow> (\<exists>r'. bget b' key = Some (ProbeOp r') \<and> row_kept r r')))"

lemma rows_kept_refl: "probes_ok b \<Longrightarrow> rows_kept b b"
  by (auto simp: rows_kept_def)

lemma rows_kept_trans: "rows_kept a b \<Longrightarrow> rows_kept b c \<Longrightarrow> rows_kept a c"
  unfolding rows_kept_def by (blast intro: row_kept_trans)

lemma annotated_rows: "annotated i s s' \<Longrightarrow> probes_ok (ls_probes s) \<Longrightarrow> rows_kept (ls_probes s) (ls_probes s')"
  by (auto simp: annotated_def rows_kept_def rewrote_get probes_ok_bucket intro: rewrote_ok split: if_splits)

lemma put_kept_rows:
  assumes "probes_ok b" "bget b key = Some (ProbeOp r)" "row_kept r r'"
  shows "rows_kept b (bins key (ProbeOp r') b)"
  using assms by (auto simp: rows_kept_def probes_ok_bucket intro: probes_ok_put)

lemma acknowledgeMatch_Inr:
  assumes "acknowledgeMatch k op key raw s = Inr (m, s')" "probes_ok (ls_probes s)" "bget (ls_probes s) key = Some raw"
  shows "\<exists>r. raw = ProbeOp r \<and> m = receipt_matches k op r \<and>
    ls_probes s' = (if m then bins key (ProbeOp (r\<lparr>pb_ReceiptAcknowledged := True\<rparr>)) (ls_probes s) else ls_probes s) \<and>
    rows_kept (ls_probes s) (ls_probes s') \<and> s' = s\<lparr>ls_probes := ls_probes s'\<rparr>"
  using assms by (auto simp: acknowledgeMatch_def ebind_Inr_iff bput_Inr_iff
      intro: put_kept_rows [OF _ _ row_kept_updates(3)] rows_kept_refl
      split: if_splits)

lemma acknowledge_scan_kept:
  "acknowledge_scan k op rows s = Inr s' \<Longrightarrow> probes_ok (ls_probes s) \<Longrightarrow> distinct (map fst rows) \<Longrightarrow>
   (\<And>key raw. (key, raw) \<in> set rows \<Longrightarrow> bget (ls_probes s) key = Some raw) \<Longrightarrow>
   rows_kept (ls_probes s) (ls_probes s') \<and> s' = s\<lparr>ls_probes := ls_probes s'\<rparr>"
proof (induction rows arbitrary: s)
  case (Cons row rows)
  obtain key raw where row: "row = (key, raw)" by (cases row)
  from Cons.prems(1) row obtain m s1 where 1: "acknowledgeMatch k op key raw s = Inr (m, s1)"
    "acknowledge_scan k op rows s1 = Inr s'" by (auto simp: ebind_Inr_iff)
  have get: "bget (ls_probes s) key = Some raw" using Cons.prems(4) row by simp
  from acknowledgeMatch_Inr [OF 1(1) Cons.prems(2) get] obtain r where
    r: "ls_probes s1 = (if m then bins key (ProbeOp (r\<lparr>pb_ReceiptAcknowledged := True\<rparr>)) (ls_probes s) else ls_probes s)"
    "rows_kept (ls_probes s) (ls_probes s1)" "s1 = s\<lparr>ls_probes := ls_probes s1\<rparr>" by blast
  have ok1: "probes_ok (ls_probes s1)" using r(2) by (simp add: rows_kept_def)
  have "bget (ls_probes s1) key' = Some raw'" if "(key', raw') \<in> set rows" for key' raw'
  proof -
    have "key' \<noteq> key" using Cons.prems(3) that row by force
    with r(1) Cons.prems(2) Cons.prems(4) [of key' raw'] that show ?thesis by (auto simp: probes_ok_bucket)
  qed
  with Cons.IH [OF 1(2) ok1] Cons.prems(3) row
  have IH: "rows_kept (ls_probes s1) (ls_probes s')" "s' = s1\<lparr>ls_probes := ls_probes s'\<rparr>" by auto
  from r(3) IH(2) have "s' = s\<lparr>ls_probes := ls_probes s'\<rparr>" by (metis Store.surjective Store.update_convs(14))
  with r(2) IH(1) show ?case by (blast intro: rows_kept_trans)
qed (simp add: rows_kept_refl)

lemma oprows_mem: "bucket_ok b \<Longrightarrow> (key, raw) \<in> set (oprows b) \<longleftrightarrow> isProbeOperationKey key \<and> bget b key = Some raw"
  by (auto simp: oprows_def bucket_mem)

lemma oprows_distinct: "bucket_ok b \<Longrightarrow> distinct (map fst (oprows b))"
  by (simp add: oprows_def bucket_ok_distinct distinct_map_filter)

lemma acknowledge_kept:
  assumes "AcknowledgeArmedProbeReceipt k op s = Inr s'" "probes_ok (ls_probes s)"
  shows "rows_kept (ls_probes s) (ls_probes s')"
proof -
  note bk = probes_ok_bucket [OF assms(2)]
  have indexed: "bget (ls_probes s) key = Some raw" if "indexed op s = Some (key, raw)" for key raw
    using that by (auto simp: indexed_def split: option.splits probe_row.splits if_splits)
  from assms(1) obtain m s1 where 1:
    "(case indexed op s of None \<Rightarrow> Inr (False, s) | Some (key, raw) \<Rightarrow> acknowledgeMatch k op key raw s) = Inr (m, s1)"
    "if m then s' = s1
     else acknowledge_scan k op (take (nat defaultProbeScanLimit) (oprows (ls_probes s1))) s1 = Inr s'"
    by (auto simp: AcknowledgeArmedProbeReceipt_def ebind_Inr_iff split: if_splits)
  have kept1: "rows_kept (ls_probes s) (ls_probes s1)"
  proof (cases "indexed op s")
    case None
    with 1(1) assms(2) show ?thesis by (auto intro: rows_kept_refl)
  next
    case (Some kr)
    obtain key raw where kr: "kr = (key, raw)" by (cases kr)
    with 1(1) Some have "acknowledgeMatch k op key raw s = Inr (m, s1)" by simp
    from acknowledgeMatch_Inr [OF this assms(2) indexed] Some kr show ?thesis by blast
  qed
  show ?thesis
  proof (cases m)
    case False
    from kept1 have ok1: "probes_ok (ls_probes s1)" by (simp add: rows_kept_def)
    note b1 = probes_ok_bucket [OF ok1]
    from False 1(2) have
      "acknowledge_scan k op (take (nat defaultProbeScanLimit) (oprows (ls_probes s1))) s1 = Inr s'" by simp
    from acknowledge_scan_kept [OF this ok1] have "rows_kept (ls_probes s1) (ls_probes s')"
      using oprows_distinct [OF b1] oprows_mem [OF b1]
      by (metis distinct_take in_set_takeD take_map)
    with kept1 show ?thesis by (rule rows_kept_trans)
  qed (use 1(2) kept1 in simp)
qed

text \<open>What a page returns, and what the removal leaves.\<close>

lemma scan_page_spec:
  assumes "\<forall>(key, raw) \<in> set rows. isProbeOperationKey key \<longrightarrow> (\<exists>r. raw = ProbeOp r)"
  shows "\<exists>out. scan_page limit n lastKey rows = Inr (out,
      (if limit - n < length (oprows rows) then Some (if limit \<le> n then lastKey else fst (oprows rows ! (limit - n - 1)))
       else None)) \<and>
    map (\<lambda>(key, r). (key, ProbeOp r)) out = take (limit - n) (oprows rows)"
  using assms
proof (induction rows arbitrary: n lastKey)
  case (Cons row rows)
  obtain key raw where row: "row = (key, raw)" by (cases row)
  show ?case
  proof (cases "isProbeOperationKey key")
    case False
    then have "oprows (row # rows) = oprows rows" "scan_page limit n lastKey (row # rows) = scan_page limit n lastKey rows"
      by (simp_all add: row oprows_def)
    moreover from Cons.prems have "\<forall>(key, raw) \<in> set rows. isProbeOperationKey key \<longrightarrow> (\<exists>r. raw = ProbeOp r)" by simp
    ultimately show ?thesis using Cons.IH [of n lastKey] by metis
  next
    case op: True
    with Cons.prems row obtain r where r: "raw = ProbeOp r" by auto
    have rows: "oprows (row # rows) = (key, ProbeOp r) # oprows rows" using op row r by (simp add: oprows_def)
    show ?thesis
    proof (cases "n \<ge> limit")
      case True
      with op row rows show ?thesis by simp
    next
      case False
      from Cons.IH [of "n + 1" key] Cons.prems obtain out where
        out: "scan_page limit (n + 1) key rows = Inr (out,
          (if limit - (n + 1) < length (oprows rows)
           then Some (if limit \<le> n + 1 then key else fst (oprows rows ! (limit - (n + 1) - 1))) else None))"
        "map (\<lambda>(key, r). (key, ProbeOp r)) out = take (limit - (n + 1)) (oprows rows)" by auto
      from False obtain l where l: "limit - n = Suc l" "limit - (n + 1) = l" by (metis Suc_diff_Suc add.commute not_le plus_1_eq_Suc)
      have nth: "limit \<le> n + 1 \<longleftrightarrow> l = 0" using l by auto
      have "scan_page limit n lastKey (row # rows) = Inr ((key, r) # out,
          (if l < length (oprows rows) then Some (if l = 0 then key else fst (oprows rows ! (l - 1))) else None))"
        using op row r False out(1) l(2) nth by simp
      then show ?thesis using out(2) l rows False by (cases l) auto
    qed
  qed
qed (simp add: oprows_def)

fun row_expired :: "int \<Rightarrow> probe_row \<Rightarrow> bool" where
  "row_expired now (ProbeOp r) = expired now r"
| "row_expired now _ = False"

definition after_rows :: "string \<Rightarrow> probe_row bucket \<Rightarrow> probe_row bucket" where
  "after_rows after b = (if after = [] then oprows b else filter (\<lambda>(key, _). after < key) (oprows b))"

lemma cursor_from_filter:
  assumes "bucket_ok b" "after \<noteq> []"
  shows "cursor_from after b = filter (\<lambda>(key, _). after < key) b"
proof -
  have "(case dropWhile (\<lambda>(key, _). key < after) b of
      [] \<Rightarrow> [] | (key, raw) # rest \<Rightarrow> if key = after then rest else (key, raw) # rest) = filter (\<lambda>(key, _). after < key) b"
    using assms(1)
  proof (induction b)
    case (Cons p b)
    obtain key raw where p: "p = (key, raw)" by (cases p)
    have b: "bucket_ok b" "\<forall>(key', raw') \<in> set b. key < key'" using Cons.prems by (auto simp: p bucket_ok_def)
    show ?case
    proof (cases "key < after")
      case True
      with Cons.IH b(1) p show ?thesis by auto
    next
      case False
      with b(2) have "\<forall>(key', raw') \<in> set b. after < key'" by fastforce
      then have "filter (\<lambda>(key, _). after < key) b = b" by (auto intro: filter_True)
      with False p show ?thesis by auto
    qed
  qed simp
  with assms(2) show ?thesis by (simp add: cursor_from_def)
qed

lemma oprows_cursor: "bucket_ok b \<Longrightarrow> oprows (cursor_from after b) = after_rows after b"
proof (cases "after = []")
  case False
  assume "bucket_ok b"
  with False show ?thesis
    by (auto simp: cursor_from_filter after_rows_def oprows_def intro!: filter_cong)
qed (simp add: cursor_from_def after_rows_def)

lemma oprows_bdel: "oprows (bdel key b) = filter (\<lambda>(k, _). k \<noteq> key) (oprows b)"
  by (auto simp: oprows_def bdel_def intro!: filter_cong)

lemma oprows_not_index: "filter (\<lambda>(k, _). k \<noteq> probeReceiptIndexKey op) (oprows b) = oprows b"
  by (auto simp: oprows_def intro!: filter_cong)

lemma remove_probes_spec:
  "probes_ok b \<Longrightarrow> \<forall>key \<in> set keys. isProbeOperationKey key \<Longrightarrow>
   \<exists>b'. remove_probes keys b = Inr b' \<and> probes_ok b' \<and> oprows b' = filter (\<lambda>(k, _). k \<notin> set keys) (oprows b)"
proof (induction keys arbitrary: b)
  case (Cons key keys)
  have op: "isProbeOperationKey key" using Cons.prems by simp
  have "\<exists>b1. remove_probes (key # keys) b = remove_probes keys (bdel key b1) \<and> probes_ok b1 \<and> oprows b1 = oprows b"
  proof (cases "bget b key")
    case None
    with Cons.prems(1) show ?thesis by auto
  next
    case (Some raw)
    with Cons.prems(1) op obtain r where r: "raw = ProbeOp r" by (auto simp: probes_ok_def)
    let ?b = "if pb_ReceiptMessageID r \<noteq> [] then bdel (probeReceiptIndexKey (pb_ReceiptMessageID r)) b else b"
    have "remove_probes (key # keys) b = remove_probes keys (bdel key ?b)" using Some r by simp
    moreover have "probes_ok ?b" "oprows ?b = oprows b"
      using Cons.prems(1) by (auto simp: oprows_bdel oprows_not_index intro: probes_ok_bdel)
    ultimately show ?thesis by blast
  qed
  then obtain b1 where b1: "remove_probes (key # keys) b = remove_probes keys (bdel key b1)"
    "probes_ok (bdel key b1)" "oprows (bdel key b1) = filter (\<lambda>(k, _). k \<noteq> key) (oprows b)"
    using probes_ok_bdel oprows_bdel by metis
  from Cons.IH [OF b1(2)] Cons.prems(2) obtain b' where
    "remove_probes keys (bdel key b1) = Inr b'" "probes_ok b'"
    "oprows b' = filter (\<lambda>(k, _). k \<notin> set keys) (oprows (bdel key b1))" by auto
  with b1(1,3) show ?case by (auto intro!: exI [of _ b'] filter_cong)
qed simp

text \<open>A page read from the cursor.\<close>

lemma scan_page_cursor:
  fixes after :: string
  assumes ok: "probes_ok b" and L: "0 < L"
  shows "\<exists>out. scan_page L 0 [] (cursor_from after b) = Inr (out,
      if L < length (after_rows after b) then Some (fst (after_rows after b ! (L - 1))) else None) \<and>
    map (\<lambda>(key, r). (key, ProbeOp r)) out = take L (after_rows after b)"
proof -
  note bk = probes_ok_bucket [OF ok]
  let ?rows = "cursor_from after b"
  have sub: "set ?rows \<subseteq> set b"
  proof (cases "after = []")
    case False
    then show ?thesis by (auto simp: cursor_from_filter [OF bk])
  qed (simp add: cursor_from_def)
  have "\<forall>(key, raw) \<in> set ?rows. isProbeOperationKey key \<longrightarrow> (\<exists>r. raw = ProbeOp r)"
    using sub ok bk by (fastforce simp: probes_ok_def bucket_mem)
  from scan_page_spec [OF this, of L 0 "[]"] L oprows_cursor [OF bk, of after] show ?thesis by auto
qed

lemma page_limit_pos [simp]: "0 < page_limit limit"
  by (simp add: page_limit_def defaultProbeScanLimit_def)

lemma after_rows_sub: "set (after_rows after b) \<subseteq> set (oprows b)"
  by (auto simp: after_rows_def)

text \<open>One page of the sweep: of the next \<open>L\<close> operation rows it removes the expired ones and nothing else.\<close>

lemma sweep_page_spec:
  fixes after :: string and limit :: int and s :: Store
  assumes ok: "probes_ok (ls_probes s)"
  defines "R \<equiv> after_rows after (ls_probes s)" and "L \<equiv> page_limit limit"
  shows "\<exists>b. SweepArmedProbeTombstonesPage now limit after s = Inr (s\<lparr>ls_probes := b\<rparr>,
      (if L < length R then (fst (R ! (L - 1)), False) else ([], True))) \<and> probes_ok b \<and>
    oprows b = filter (\<lambda>(k, raw). \<not> ((k, raw) \<in> set (take L R) \<and> row_expired now raw)) (oprows (ls_probes s))"
proof -
  note bk = probes_ok_bucket [OF ok]
  from scan_page_cursor [OF ok, of L after] obtain out where
    out: "scan_page L 0 [] (cursor_from after (ls_probes s)) = Inr (out, if L < length R then Some (fst (R ! (L - 1))) else None)"
    "map (\<lambda>(key, r). (key, ProbeOp r)) out = take L R" by (auto simp: L_def R_def)
  let ?keys = "map fst (filter (expired now \<circ> snd) out)"
  have mem: "(k, r) \<in> set out \<longleftrightarrow> (k, ProbeOp r) \<in> set (take L R)" for k r
    unfolding out(2) [symmetric] by force
  have op: "isProbeOperationKey k" "bget (ls_probes s) k = Some raw" if "(k, raw) \<in> set (take L R)" for k raw
  proof -
    have "(k, raw) \<in> set (oprows (ls_probes s))" using in_set_takeD [OF that] after_rows_sub unfolding R_def by blast
    then show "isProbeOperationKey k" "bget (ls_probes s) k = Some raw" by (simp_all add: oprows_mem [OF bk])
  qed
  have "\<forall>key \<in> set ?keys. isProbeOperationKey key" using mem op(1) by fastforce
  from remove_probes_spec [OF ok this] obtain b where b: "remove_probes ?keys (ls_probes s) = Inr b" "probes_ok b"
    "oprows b = filter (\<lambda>(k, _). k \<notin> set ?keys) (oprows (ls_probes s))" by auto
  have "k \<in> set ?keys \<longleftrightarrow> (k, raw) \<in> set (take L R) \<and> row_expired now raw" if "(k, raw) \<in> set (oprows (ls_probes s))" for k raw
  proof -
    from that oprows_mem [OF bk] have get: "bget (ls_probes s) k = Some raw" by simp
    have "k \<in> set ?keys \<longleftrightarrow> (\<exists>r. (k, ProbeOp r) \<in> set (take L R) \<and> expired now r)" using mem by force
    also have "\<dots> \<longleftrightarrow> (k, raw) \<in> set (take L R) \<and> row_expired now raw" using op(2) get by (cases raw) fastforce+
    finally show ?thesis .
  qed
  with b(3) have "oprows b = filter (\<lambda>(k, raw). \<not> ((k, raw) \<in> set (take L R) \<and> row_expired now raw)) (oprows (ls_probes s))"
    by (auto intro!: filter_cong)
  then show ?thesis using b(1,2) out(1)
    by (auto simp: SweepArmedProbeTombstonesPage_def page_result_def L_def [symmetric])
qed

section \<open>The sweep reaches every row\<close>

text \<open>Pages in sequence, each from the cursor the last one returned, as the sweeper of the agent runs them.\<close>

fun sweep_pages :: "nat \<Rightarrow> int \<Rightarrow> int \<Rightarrow> string \<Rightarrow> Store \<Rightarrow> ls_error + Store \<times> bool" where
  "sweep_pages 0 now limit after s = Inr (s, False)"
| "sweep_pages (Suc n) now limit after s =
     ebind (SweepArmedProbeTombstonesPage now limit after s) (\<lambda>(s', next, finished).
     if finished then Inr (s', True) else sweep_pages n now limit next s')"

lemma filter_beyond:
  assumes "sorted_wrt (<) (map fst xs)" "i < length xs"
  shows "filter (\<lambda>(k, _). fst (xs ! i) < k) xs = drop (Suc i) (xs :: (string \<times> 'v) list)"
  using assms
proof (induction xs arbitrary: i)
  case (Cons x xs)
  show ?case
  proof (cases i)
    case 0
    with Cons.prems(1) have "\<forall>y \<in> set xs. fst x < fst y" by simp
    then have "filter (\<lambda>p. fst x < fst p) xs = xs" by (intro filter_True) auto
    with 0 show ?thesis by (simp add: case_prod_beta)
  next
    case (Suc j)
    with Cons.prems have "fst x < fst (xs ! j)" by simp
    then have "\<not> fst (xs ! j) < fst x" by (rule less_not_sym)
    with Suc Cons show ?thesis by (simp add: case_prod_beta)
  qed
qed simp

lemma oprows_sorted: "bucket_ok b \<Longrightarrow> sorted_wrt (<) (map fst (filter P (oprows b)))"
proof -
  assume "bucket_ok b"
  then have "sorted_wrt (\<lambda>x y. fst x < fst y) b" by (simp add: bucket_ok_def sorted_wrt_map)
  then have "sorted_wrt (\<lambda>x y. fst x < fst y) (filter P (oprows b))"
    unfolding oprows_def by (intro sorted_wrt_filter)
  then show ?thesis by (simp add: sorted_wrt_map)
qed

lemma after_rows_filter:
  "after_rows after b = filter (\<lambda>(k, _). after = [] \<or> after < k) (oprows b)"
  by (auto simp: after_rows_def intro!: filter_True [symmetric])

text \<open>What the next page starts from.\<close>

lemma next_rows:
  fixes after :: string
  assumes bk: "bucket_ok b" and len: "0 < L" "L < length (after_rows after b)"
    and b': "oprows b' = filter (\<lambda>(k, raw). \<not> ((k, raw) \<in> set (take L (after_rows after b)) \<and> P raw)) (oprows b)"
  defines "next \<equiv> fst (after_rows after b ! (L - 1))"
  shows "after_rows next b' = drop L (after_rows after b)" "next \<noteq> []"
proof -
  let ?R = "after_rows after b"
  have sorted: "sorted_wrt (<) (map fst ?R)" unfolding after_rows_filter using bk by (rule oprows_sorted)
  from len have i: "L - 1 < length ?R" by simp
  then have in_R: "?R ! (L - 1) \<in> set ?R" by (rule nth_mem)
  have "isProbeOperationKey next" unfolding next_def using in_R by (auto simp: after_rows_filter oprows_def case_prod_beta)
  then show ne: "next \<noteq> []" by (auto simp: isProbeOperationKey_def)
  have ord: "after = [] \<or> after < next" unfolding next_def using in_R by (auto simp: after_rows_filter case_prod_beta)
  from filter_beyond [OF sorted i] len(1) have beyond: "filter (\<lambda>(k, _). next < k) ?R = drop L ?R" by (simp add: next_def)
  have "distinct ?R" using sorted by (metis distinct_map strict_sorted_iff)
  then have disj: "set (take L ?R) \<inter> set (drop L ?R) = {}" by (simp add: set_take_disj_set_drop_if_distinct)
  have "after_rows next b' = filter (\<lambda>(k, _). next < k) (oprows b')" using ne by (simp add: after_rows_def)
  also have "\<dots> = filter (\<lambda>(k, raw). \<not> ((k, raw) \<in> set (take L ?R) \<and> P raw)) (filter (\<lambda>(k, _). next < k) ?R)"
    unfolding b' after_rows_filter using ord by (auto intro!: filter_cong)
  also have "\<dots> = drop L ?R" unfolding beyond using disj by (auto intro!: filter_True)
  finally show "after_rows next b' = drop L ?R" .
qed

lemma sweep_pages_spec:
  "probes_ok (ls_probes s) \<Longrightarrow> length (after_rows after (ls_probes s)) \<le> Suc n * page_limit limit \<Longrightarrow>
   \<exists>b. sweep_pages (Suc n) now limit after s = Inr (s\<lparr>ls_probes := b\<rparr>, True) \<and> probes_ok b \<and>
     oprows b = filter (\<lambda>(k, raw). \<not> ((k, raw) \<in> set (after_rows after (ls_probes s)) \<and> row_expired now raw))
       (oprows (ls_probes s))"
proof (induction n arbitrary: s after)
  case 0
  with sweep_page_spec [OF 0(1), where now = now and limit = limit and after = after] show ?case
    by (auto simp del: sweep_pages.simps simp: sweep_pages.simps(2))
next
  case (Suc n)
  let ?R = "after_rows after (ls_probes s)" and ?L = "page_limit limit"
  note bk = probes_ok_bucket [OF Suc.prems(1)]
  from sweep_page_spec [OF Suc.prems(1), where now = now and limit = limit and after = after] obtain b where b:
    "SweepArmedProbeTombstonesPage now limit after s = Inr (s\<lparr>ls_probes := b\<rparr>,
      (if ?L < length ?R then (fst (?R ! (?L - 1)), False) else ([], True)))" "probes_ok b"
    "oprows b = filter (\<lambda>(k, raw). \<not> ((k, raw) \<in> set (take ?L ?R) \<and> row_expired now raw)) (oprows (ls_probes s))" by blast
  show ?case
  proof (cases "?L < length ?R")
    case False
    with b show ?thesis by auto
  next
    case True
    let ?next = "fst (?R ! (?L - 1))"
    note rest = next_rows [OF bk page_limit_pos True b(3)]
    have "length (after_rows ?next b) \<le> Suc n * ?L" using rest(1) Suc.prems(2) by simp
    then obtain b2 where b2: "sweep_pages (Suc n) now limit ?next (s\<lparr>ls_probes := b\<rparr>) = Inr (s\<lparr>ls_probes := b2\<rparr>, True)"
      "probes_ok b2" "oprows b2 = filter (\<lambda>(k, raw). \<not> ((k, raw) \<in> set (drop ?L ?R) \<and> row_expired now raw)) (oprows b)"
      using Suc.IH [of "s\<lparr>ls_probes := b\<rparr>" ?next] b(2) rest(1) by auto
    have "set ?R = set (take ?L ?R) \<union> set (drop ?L ?R)" by (metis append_take_drop_id set_append)
    then have "oprows b2 = filter (\<lambda>(k, raw). \<not> ((k, raw) \<in> set ?R \<and> row_expired now raw)) (oprows (ls_probes s))"
      unfolding b2(3) b(3) by (auto intro!: filter_cong)
    with b(1) b2(1,2) True show ?thesis by (auto simp del: sweep_pages.simps simp: sweep_pages.simps(2) [of "Suc n"])
  qed
qed

text \<open>
  C7. The paged sweep is complete and starves nothing. Running pages of any size one after the other, each from the
  cursor of the one before, ends after as many pages as the operation rows need. Then exactly the expired operation rows
  are gone, in their old order, whatever the number of retained rows in front of them. Every page succeeds.
\<close>

theorem sweep_pages_complete:
  assumes "probes_ok (ls_probes s)" "length (oprows (ls_probes s)) \<le> n * page_limit limit" "0 < n"
  shows "\<exists>s'. sweep_pages n now limit [] s = Inr (s', True) \<and> probes_ok (ls_probes s') \<and>
    oprows (ls_probes s') = filter (\<lambda>(_, raw). \<not> row_expired now raw) (oprows (ls_probes s)) \<and>
    s' = s\<lparr>ls_probes := ls_probes s'\<rparr>"
proof -
  obtain m where m: "n = Suc m" using assms(3) by (cases n) auto
  have R: "after_rows [] (ls_probes s) = oprows (ls_probes s)" by (simp add: after_rows_def)
  from sweep_pages_spec [OF assms(1), of "[]" m limit now] assms(2) obtain b where
    "sweep_pages n now limit [] s = Inr (s\<lparr>ls_probes := b\<rparr>, True)" "probes_ok b"
    "oprows b = filter (\<lambda>(k, raw). \<not> ((k, raw) \<in> set (oprows (ls_probes s)) \<and> row_expired now raw)) (oprows (ls_probes s))"
    by (auto simp: R m)
  moreover have "filter (\<lambda>(k, raw). \<not> ((k, raw) \<in> set (oprows (ls_probes s)) \<and> row_expired now raw)) (oprows (ls_probes s)) =
    filter (\<lambda>(_, raw). \<not> row_expired now raw) (oprows (ls_probes s))" by (auto intro!: filter_cong)
  ultimately show ?thesis by (intro exI [of _ "s\<lparr>ls_probes := b\<rparr>"]) simp
qed

section \<open>A consumed probe is a replay fence\<close>

definition fence_at :: "bytes \<Rightarrow> ArmedProbe \<Rightarrow> Store \<Rightarrow> bool" where
  "fence_at i r s \<longleftrightarrow> probes_ok (ls_probes s) \<and>
     (\<exists>r'. bget (ls_probes s) (bytes_str i) = Some (ProbeOp r') \<and> row_kept r r')"

lemma fence_rewrote:
  assumes "probes_ok (ls_probes s)" "isProbeOperationKey (bytes_str i)" "bget (ls_probes s) (bytes_str i) = Some (ProbeOp r)"
    "rewrote j r' (ls_probes s) (ls_probes s')" "j = i \<Longrightarrow> row_kept r r'"
  shows "fence_at i r s'"
  using assms rewrote_get [OF assms(4) probes_ok_bucket [OF assms(1)] assms(2)]
  by (cases "j = i") (auto simp: fence_at_def rewrote_ok)

lemma fence_rows:
  "rows_kept (ls_probes s) (ls_probes s') \<Longrightarrow> isProbeOperationKey (bytes_str i) \<Longrightarrow>
   bget (ls_probes s) (bytes_str i) = Some (ProbeOp r) \<Longrightarrow> fence_at i r s'"
  by (auto simp: fence_at_def rows_kept_def)

lemma fence_delete:
  assumes "probes_ok (ls_probes s)" "isProbeOperationKey (bytes_str i)" "bget (ls_probes s) (bytes_str i) = Some (ProbeOp r)"
    "DeleteArmedProbe j s = Inr s'" "j \<noteq> i"
  shows "fence_at i r s'"
proof -
  obtain b where b: "ls_probes s' = bdel (bytes_str j) b" "b = ls_probes s \<or> (\<exists>op. b = bdel (probeReceiptIndexKey op) (ls_probes s))"
    using assms(4) by (auto simp: DeleteArmedProbe_def Let_def ebind_Inr_iff split: option.splits if_splits) blast+
  from b(2) have "bget b (bytes_str i) = Some (ProbeOp r) \<and> probes_ok b"
    using assms(1,2,3) op_key_not_index [OF assms(2)] by (auto intro: probes_ok_bdel)
  with b(1) assms(5) show ?thesis by (auto simp: fence_at_def intro: probes_ok_bdel)
qed

lemma fence_sweep:
  assumes "probes_ok (ls_probes s)" "isProbeOperationKey (bytes_str i)" "bget (ls_probes s) (bytes_str i) = Some (ProbeOp r)"
    "SweepArmedProbeTombstonesPage now limit after s = Inr (s', c)" "\<not> expired now r"
  shows "fence_at i r s'"
proof -
  from sweep_page_spec [OF assms(1), where now = now and limit = limit and after = after] assms(4) obtain b P where
    b: "s' = s\<lparr>ls_probes := b\<rparr>" "probes_ok b"
    "oprows b = filter (\<lambda>(k, raw). \<not> (P (k, raw) \<and> row_expired now raw)) (oprows (ls_probes s))" by fastforce
  have "(bytes_str i, ProbeOp r) \<in> set (oprows b)"
    using assms(1-3,5) by (simp add: b(3) oprows_mem probes_ok_bucket)
  with b(1,2) show ?thesis by (auto simp: fence_at_def oprows_mem probes_ok_bucket)
qed

definition spares :: "bytes \<Rightarrow> ArmedProbe \<Rightarrow> probe_op \<Rightarrow> bool" where
  "spares i r op \<longleftrightarrow> (case op of PDelete j \<Rightarrow> j \<noteq> i | PSetACK j _ \<Rightarrow> j \<noteq> i | PSweep now _ _ \<Rightarrow> \<not> expired now r | _ \<Rightarrow> True)"

lemma spares_kept: "row_kept r r' \<Longrightarrow> pb_ReceiptDeadline r \<noteq> None \<Longrightarrow> spares i r op \<Longrightarrow> spares i r' op"
  by (auto simp: spares_def expired_def row_kept_def split: probe_op.splits option.splits)

lemma consumed_step:
  assumes ok: "probes_ok (ls_probes s)" and op: "isProbeOperationKey (bytes_str i)"
    and get: "bget (ls_probes s) (bytes_str i) = Some (ProbeOp r)" and cons: "pb_Consumed r"
    and step: "pexec k a s = Inr s'" and spare: "spares i r a"
  shows "fence_at i r s'"
proof (cases a)
  case (PArm arm f d)
  with step have save: "SaveArmedProbeForForward k arm f d s = Inr s'" by simp
  from arm_rewrote [OF this] get cons show ?thesis
    by (intro fence_rewrote [OF ok op get]) (auto simp: check_existing_Inr)
next
  case (PAdmit f g act arm d before after)
  with step have admit: "CommitProbeAdmission k f g act arm d before after s = Inr s'" by simp
  from admit_rewrote [OF this] get cons show ?thesis
    by (intro fence_rewrote [OF ok op get]) (auto simp: check_existing_Inr)
next
  case (PDelete j)
  with step spare fence_delete [OF ok op get] show ?thesis by (simp add: spares_def)
next
  case (PConsumeACK j receipt ack ch m d)
  with step have "MarkArmedProbeConsumedWithACK j receipt ack ch m d s = Inr s'" by simp
  then show ?thesis
  proof (cases rule: consume_ack_rewrote)
    case same
    with ok get show ?thesis by (auto simp: fence_at_def)
  next
    case (consumed r1 r2)
    with get cons show ?thesis by (intro fence_rewrote [OF ok op get consumed(3)]) (auto simp: consumed_row_def)
  qed
next
  case (PConsume j receipt m d)
  with step have "MarkArmedProbeConsumedWithReceipt j receipt m d s = Inr s'" by simp
  then obtain r1 r2 where 1: "bget (ls_probes s) (bytes_str j) = Some (ProbeOp r1)" "rewrote j r2 (ls_probes s) (ls_probes s')"
    "consumed_row receipt m d r1 r2 \<or> pb_Consumed r1 \<and> row_kept r1 r2" by (rule consume_rewrote)
  with get cons show ?thesis by (intro fence_rewrote [OF ok op get 1(2)]) (auto simp: consumed_row_def)
next
  case (PSetACK j ack)
  with step have "SetArmedProbeACK j ack s = Inr s'" by simp
  then obtain r' where "rewrote j r' (ls_probes s) (ls_probes s')" by (rule set_ack_rewrote)
  with spare PSetACK show ?thesis by (intro fence_rewrote [OF ok op get]) (auto simp: spares_def)
next
  case (PSweep now limit after)
  with step obtain c where "SweepArmedProbeTombstonesPage now limit after s = Inr (s', c)" by (auto simp: ebind_Inr_iff)
  with fence_sweep [OF ok op get] spare PSweep show ?thesis by (simp add: spares_def)
qed (use step in \<open>auto intro: fence_rows [OF _ op get] annotated_rows [OF _ ok] annotations fill_annotated
    acknowledge_kept [OF _ ok]\<close>)

lemma fence_run:
  assumes "fence_at i r t" "isProbeOperationKey (bytes_str i)" "pb_Consumed r" "pb_ReceiptDeadline r \<noteq> None"
    "\<forall>a \<in> set acts. spares i r a"
  shows "fence_at i r (fold (prun k) acts t)"
  using assms(1,5)
proof (induction acts arbitrary: t)
  case (Cons a acts)
  from Cons.prems(1) obtain r1 where r1: "probes_ok (ls_probes t)" "bget (ls_probes t) (bytes_str i) = Some (ProbeOp r1)"
    "row_kept r r1" by (auto simp: fence_at_def)
  have "spares i r1 a" using Cons.prems(2) r1(3) assms(4) spares_kept by auto
  moreover have "pb_Consumed r1" using r1(3) assms(3) by (simp add: row_kept_def)
  ultimately have "fence_at i r (prun k a t)"
    using consumed_step [OF r1(1) assms(2) r1(2)] r1 Cons.prems(1)
    by (auto simp: prun_def fence_at_def intro: row_kept_trans split: sum.split) (blast intro: row_kept_trans)+
  with Cons.IH Cons.prems(2) show ?case by simp
qed simp

text \<open>
  C6. A consumed probe stays a replay fence. Take a probe that is consumed with a receipt deadline, and any sequence of
  calls on the probe rows (arming, admission, consuming, annotating, acknowledging, sweeping, in any order and with any
  outcome) that neither deletes it nor replaces its acknowledgement frame and in which every sweep runs before that
  deadline. The probe is still there afterwards with the same arm, receipt, acknowledgement, challenge hash and
  deadline. Arming it again is refused as consumed, and
  consuming it again with another receipt is refused as a conflict. An acknowledgement by the controller does not shorten
  this.
\<close>

theorem consumed_probe_is_fence:
  assumes "probes_ok (ls_probes s)" "isProbeOperationKey (bytes_str i)"
    and "LoadArmedProbe i s = Inr (Some r)" "pb_Consumed r" "pb_ReceiptDeadline r = Some d"
    and "\<forall>a \<in> set acts. a \<noteq> PDelete i \<and> (\<forall>ack. a \<noteq> PSetACK i ack) \<and> (\<forall>now limit after. a = PSweep now limit after \<longrightarrow> now < d)"
    and "s' = fold (prun k) acts s"
  shows "(\<exists>r'. LoadArmedProbe i s' = Inr (Some r') \<and> row_kept r r') \<and>
    (\<forall>arm f dl. arm_ProbeID arm = i \<longrightarrow> SaveArmedProbeForForward k arm f dl s' = Inl ErrProbeConsumed) \<and>
    (\<forall>f g act arm dl before after. arm_ProbeID arm = i \<longrightarrow>
      (\<forall>t. CommitProbeAdmission k f g act arm dl before after s' \<noteq> Inr t)) \<and>
    (\<forall>receipt ack ch m dl. receipt \<noteq> pb_Receipt r \<longrightarrow>
      MarkArmedProbeConsumedWithACK i receipt ack ch m dl s' = Inl ErrProbeConflict)"
proof -
  have get: "bget (ls_probes s) (bytes_str i) = Some (ProbeOp r)"
    using assms(3) by (auto simp: LoadArmedProbe_def ebind_Inr_iff split: option.splits)
  have spare: "\<forall>a \<in> set acts. spares i r a"
    using assms(4,5,6) by (auto simp: spares_def expired_def split: probe_op.splits)
  have "fence_at i r s" using assms(1) get by (auto simp: fence_at_def)
  from fence_run [OF this assms(2,4) _ spare, of k] assms(5) obtain r' where r': "bget (ls_probes s') (bytes_str i) = Some (ProbeOp r')" "row_kept r r'"
    by (auto simp: fence_at_def assms(7))
  then have cons: "pb_Consumed r'" "pb_Receipt r' = pb_Receipt r" using assms(4) by (auto simp: row_kept_def)
  have "check_existing k arm f s' = Inl ErrProbeConsumed" if "arm_ProbeID arm = i" for arm f
    using that r'(1) cons by (simp add: check_existing_def)
  then show ?thesis using r' cons admit_rewrote(1)
    by (fastforce simp: LoadArmedProbe_def SaveArmedProbeForForward_def MarkArmedProbeConsumedWithACK_def with_probe_def)
qed

section \<open>Concrete stores\<close>

abbreviation demo_probe_key :: "char \<Rightarrow> string" where "demo_probe_key c \<equiv> replicate 16 c"

definition demo_consumed :: ArmedProbe where
  "demo_consumed = (armed_record demo_crypto (demo_arm\<lparr>arm_ProbeID := str_bytes (demo_probe_key CHR ''a'')\<rparr>) ''f1'' 50)
     \<lparr>pb_Consumed := True, pb_Receipt := [7], pb_ReceiptMessageID := ''rc1'', pb_ReceiptDeadline := Some 100\<rparr>"

definition demo_expired :: ArmedProbe where
  "demo_expired = armed_record demo_crypto (demo_arm\<lparr>arm_ProbeID := str_bytes (demo_probe_key CHR ''b'')\<rparr>) ''f1'' 50"

definition demo_probes :: Store where
  "demo_probes = empty_store\<lparr>ls_probes :=
     [(demo_probe_key CHR ''a'', ProbeOp demo_consumed), (demo_probe_key CHR ''b'', ProbeOp demo_expired)]\<rparr>"

lemma demo_keys: "isProbeOperationKey (demo_probe_key CHR ''a'')" "isProbeOperationKey (demo_probe_key CHR ''b'')"
  "demo_probe_key CHR ''a'' < demo_probe_key CHR ''b''"
  by (simp_all add: isProbeOperationKey_def numeral_eq_Suc less_char_def)

lemma demo_probes_ok: "probes_ok (ls_probes demo_probes)" "oprows (ls_probes demo_probes) = ls_probes demo_probes"
  by (auto simp: demo_probes_def probes_ok_def bucket_ok_def oprows_def demo_keys simp del: replicate_numeral split: if_splits)

lemma demo_rows: "pb_Consumed demo_consumed" "pb_ReceiptDeadline demo_consumed = Some 100"
  "\<not> row_expired 60 (ProbeOp demo_consumed)" "row_expired 60 (ProbeOp demo_expired)"
  by (simp_all add: demo_consumed_def demo_expired_def expired_def armed_record_def)

theorem sweep_pages_complete_witness:
  "\<exists>s'. sweep_pages 2 60 1 [] demo_probes = Inr (s', True) \<and>
     oprows (ls_probes s') = [(demo_probe_key CHR ''a'', ProbeOp demo_consumed)]"
proof -
  have "length (oprows (ls_probes demo_probes)) \<le> 2 * page_limit 1"
    unfolding demo_probes_ok(2) by (simp add: demo_probes_def page_limit_def)
  from sweep_pages_complete [OF demo_probes_ok(1) this, of 60] obtain s' where
    "sweep_pages 2 60 1 [] demo_probes = Inr (s', True)"
    "oprows (ls_probes s') = filter (\<lambda>(_, raw). \<not> row_expired 60 raw) (ls_probes demo_probes)"
    unfolding demo_probes_ok(2) by auto
  moreover have "filter (\<lambda>(_, raw). \<not> row_expired 60 raw) (ls_probes demo_probes) =
    [(demo_probe_key CHR ''a'', ProbeOp demo_consumed)]"
    using demo_rows(3,4) by (simp add: demo_probes_def del: row_expired.simps)
  ultimately show ?thesis by metis
qed

theorem consumed_probe_is_fence_witness:
  "let s' = fold (prun demo_crypto) [PAcknowledge ''rc1'', PSweep 60 1 [], PSweep 99 0 []] demo_probes;
       i = str_bytes (demo_probe_key CHR ''a'')
   in (\<exists>r'. LoadArmedProbe i s' = Inr (Some r') \<and> row_kept demo_consumed r') \<and>
      SaveArmedProbeForForward demo_crypto (demo_arm\<lparr>arm_ProbeID := i\<rparr>) ''f1'' 500 s' = Inl ErrProbeConsumed"
proof -
  have load: "LoadArmedProbe (str_bytes (demo_probe_key CHR ''a'')) demo_probes = Inr (Some demo_consumed)"
    by (simp add: LoadArmedProbe_def demo_probes_def)
  have op: "isProbeOperationKey (bytes_str (str_bytes (demo_probe_key CHR ''a'')))" using demo_keys(1) by simp
  have acts: "\<forall>a \<in> set [PAcknowledge ''rc1'', PSweep 60 1 [], PSweep 99 0 []].
    a \<noteq> PDelete (str_bytes (demo_probe_key CHR ''a'')) \<and> (\<forall>ack. a \<noteq> PSetACK (str_bytes (demo_probe_key CHR ''a'')) ack) \<and>
    (\<forall>now limit after. a = PSweep now limit after \<longrightarrow> now < 100)"
    by auto
  from consumed_probe_is_fence [OF demo_probes_ok(1) op load demo_rows(1,2) acts HOL.refl, of demo_crypto]
  show ?thesis by (simp add: Let_def del: fold_simps)
qed

end
