(* ===== verification/Probe_Manager.thy ===== *)
theory Probe_Manager
  imports Probe_Store Agent_Lifecycle Netip_Parse
begin

text \<open>
  The agent's probe manager, \<^verbatim>\<open>src/internal/agent/reconcile/probe.go\<close> and \<^verbatim>\<open>probe_udp.go\<close>: it joins the
  operations in memory with the durable rows of \<open>Probe_Store\<close>. A restart is \<open>NewProbeManager\<close> on the store that
  survived.

  One operation under the manager's mutex is one function. The TCP ingress handler releases the mutex between the claim
  and the durable commit, so it is split there (\<open>ingress_claim\<close>, \<open>ingress_commit\<close>, \<open>ingress_finish\<close>) and
  \<open>handleIngress\<close> is their composition. The outcome of a network write or of a send is an argument. The clock is an
  argument; a Go map is an association list; the pointer to an operation is compared by its value.
\<close>

section \<open>State\<close>

datatype mgr_error = ErrProbeArmRejected | ErrProbeRecoveryOverflow | ArmParse probe_error | StoreError ls_error | SignError | WireError

record armedOp =
  mo_arm :: ProbeArm
  mo_forwardID :: string
  mo_digest :: bytes
  mo_deadline :: int
  mo_used :: bool

record replaySource =
  rs_source :: bytes
  rs_forwardID :: string
  rs_digest :: bytes

record PreparedProbeArm =
  pp_Arm :: ProbeArm
  pp_ForwardID :: string
  pp_ExpectedRevision :: u64
  pp_Digest :: bytes
  pp_Deadline :: int
  pp_RDY :: bytes
  pp_Existing :: bool

record ProbeManager =
  pm_store :: "Store option"
  pm_key :: "bytes option"
  pm_ops :: "(bytes \<times> armedOp) list"
  pm_replay :: "(bytes \<times> int) list"
  pm_replaySource :: "(bytes \<times> replaySource) list"
  pm_maxReplay :: int
  pm_maxActive :: int
  pm_recoveryErr :: "mgr_error option"
  pm_marker :: string
  pm_sweepAfter :: string

definition zero_time :: int where "zero_time = - 62135596800 * 1000000000"

definition orDefault :: "int \<Rightarrow> int \<Rightarrow> int" where
  "orDefault d n = (if n \<le> 0 then d else n)"

text \<open>A store call whose error the caller drops.\<close>

definition try_store :: "(Store \<Rightarrow> ls_error + Store) \<Rightarrow> ProbeManager \<Rightarrow> ProbeManager" where
  "try_store f m = (case pm_store m of None \<Rightarrow> m
     | Some s \<Rightarrow> (case f s of Inl _ \<Rightarrow> m | Inr s' \<Rightarrow> m\<lparr>pm_store := Some s'\<rparr>))"

section \<open>Restart\<close>

definition rolled_back :: "int \<Rightarrow> ArmedProbe \<Rightarrow> bool" where
  "rolled_back now p \<longleftrightarrow> (case pb_ArmedAt p of None \<Rightarrow> False | Some a \<Rightarrow> now < a)"

definition recover_row :: "(ArmedProbe \<Rightarrow> int) \<Rightarrow> ArmedProbe \<Rightarrow> ProbeManager \<Rightarrow> ProbeManager" where
  "recover_row clock p m =
     (let now = clock p; i = arm_ProbeID (pb_Arm p); quarantine = m\<lparr>pm_recoveryErr := Some ErrProbeRecoveryOverflow\<rparr> in
      if pb_Consumed p then
        (case pb_ReceiptDeadline p of
           None \<Rightarrow> quarantine
         | Some d \<Rightarrow>
             if rolled_back now p then quarantine
             else if \<not> now < d then try_store (DeleteArmedProbe i) m
             else if int (length (pm_replay m)) < pm_maxReplay m then
               m\<lparr>pm_replay := AList.update i d (pm_replay m),
                 pm_replaySource := AList.update i \<lparr> rs_source = arm_ExpectedSourceIP (pb_Arm p),
                   rs_forwardID = pb_ForwardID p, rs_digest = pb_Digest p \<rparr> (pm_replaySource m)\<rparr>
             else quarantine)
      else if pb_Deadline p = zero_time \<or> rolled_back now p then quarantine
      else if now < pb_Deadline p then
        (if int (length (pm_ops m)) \<ge> pm_maxActive m then quarantine
         else m\<lparr>pm_ops := AList.update i \<lparr> mo_arm = pb_Arm p, mo_forwardID = pb_ForwardID p, mo_digest = pb_Digest p,
           mo_deadline = pb_Deadline p, mo_used = False \<rparr> (pm_ops m)\<rparr>)
      else try_store (DeleteArmedProbe i) m)"

text \<open>The loop over the pages, with fuel for their number.\<close>

fun page_loop ::
  "nat \<Rightarrow> int \<Rightarrow> ('s \<Rightarrow> Store) \<Rightarrow> (ArmedProbe \<Rightarrow> 's \<Rightarrow> 's) \<Rightarrow> string \<Rightarrow> 's \<Rightarrow> (ls_error option \<times> 's) option" where
  "page_loop 0 limit store_of f after st = None"
| "page_loop (Suc n) limit store_of f after st =
     (case ListArmedProbesPage limit after (store_of st) of
        Inl e \<Rightarrow> Some (Some e, st)
      | Inr (probes, next, finished) \<Rightarrow>
          let st' = fold f probes st
          in if finished then Some (None, st') else page_loop n limit store_of f next st')"

definition the_store :: "ProbeManager \<Rightarrow> Store" where
  "the_store m = (case pm_store m of None \<Rightarrow> empty_store | Some s \<Rightarrow> s)"

definition NewProbeManager ::
  "nat \<Rightarrow> (ArmedProbe \<Rightarrow> int) \<Rightarrow> Store option \<Rightarrow> bytes option \<Rightarrow> int \<Rightarrow> int \<Rightarrow> string \<Rightarrow> ProbeManager option" where
  "NewProbeManager n clock store key maxReplay maxActive marker =
     (let m = \<lparr> pm_store = store, pm_key = key, pm_ops = [], pm_replay = [], pm_replaySource = [],
        pm_maxReplay = orDefault 4096 maxReplay, pm_maxActive = orDefault 256 maxActive, pm_recoveryErr = None,
        pm_marker = marker, pm_sweepAfter = [] \<rparr> in
      if store = None \<or> marker \<noteq> MarkerActive then Some m
      else case page_loop n (pm_maxActive m) the_store (recover_row clock) [] m of
        None \<Rightarrow> None
      | Some (None, m') \<Rightarrow> Some m'
      | Some (Some e, m') \<Rightarrow> Some (m'\<lparr>pm_recoveryErr := Some (StoreError e)\<rparr>))"

definition Quarantined :: "ProbeManager \<Rightarrow> bool" where
  "Quarantined m \<longleftrightarrow> pm_recoveryErr m \<noteq> None"

section \<open>Sweeping\<close>

definition sweep_row :: "bytes \<Rightarrow> ProbeManager \<Rightarrow> ProbeManager" where
  "sweep_row i m =
     (case LoadArmedProbe i (the_store m) of
        Inr (Some r) \<Rightarrow> if pb_Consumed r then m else try_store (DeleteArmedProbe i) m
      | _ \<Rightarrow> try_store (DeleteArmedProbe i) m)"

definition sweep_ops :: "int \<Rightarrow> ProbeManager \<Rightarrow> ProbeManager" where
  "sweep_ops now m =
     (let gone = map fst (filter (\<lambda>(_, op). \<not> now < mo_deadline op) (pm_ops m));
          m' = m\<lparr>pm_ops := filter (\<lambda>(_, op). now < mo_deadline op) (pm_ops m)\<rparr>
      in if pm_store m = None then m' else fold sweep_row gone m')"

definition mgr_sweep :: "int \<Rightarrow> ProbeManager \<Rightarrow> ProbeManager" where
  "mgr_sweep now m =
     (let m' = sweep_ops now m;
          gone = map fst (filter (\<lambda>(_, expire). \<not> now < expire) (pm_replay m'))
      in m'\<lparr>pm_replay := filter (\<lambda>(_, expire). now < expire) (pm_replay m'),
            pm_replaySource := filter (\<lambda>(i, _). i \<notin> set gone) (pm_replaySource m')\<rparr>)"

text \<open>One tick of the sweeper.\<close>

definition sweep_tick :: "int \<Rightarrow> ProbeManager \<Rightarrow> ProbeManager" where
  "sweep_tick now m =
     (let m1 = mgr_sweep now m in
      case pm_store m1 of
        None \<Rightarrow> m1
      | Some s \<Rightarrow>
          (case SweepArmedProbeTombstonesPage now (pm_maxActive m1) (pm_sweepAfter m1) s of
             Inl _ \<Rightarrow> m1
           | Inr (s', next, finished) \<Rightarrow> m1\<lparr>pm_store := Some s', pm_sweepAfter := (if finished then [] else next)\<rparr>))"

section \<open>Arming\<close>

definition JoinHostPort :: "string \<Rightarrow> string \<Rightarrow> string" where
  "JoinHostPort host port =
     (if CHR '':'' \<in> set host then ''['' @ host @ '']:'' @ port else host @ '':'' @ port)"

definition endpoint_matches :: "ProbeArm \<Rightarrow> AppliedForwardState \<Rightarrow> bool" where
  "endpoint_matches arm applied \<longleftrightarrow>
     arm_Endpoint arm = JoinHostPort (af_ActualBindHost applied) (dec (unat (af_ActualBindPort applied))) \<or>
     af_PublicPort applied \<noteq> 0 \<and>
       (case ParseAddrPort (arm_Endpoint arm) of None \<Rightarrow> False | Some (_, port) \<Rightarrow> port = af_PublicPort applied)"

definition PrepareProbeArm :: "crypto \<Rightarrow> int \<Rightarrow> bytes \<Rightarrow> string \<Rightarrow> ProbeManager \<Rightarrow> mgr_error + PreparedProbeArm" where
  "PrepareProbeArm k now raw forwardID m =
     (if pm_marker m \<noteq> MarkerActive then Inl ErrProbeArmRejected
      else case ParseProbeArm raw of
        Inl e \<Rightarrow> Inl (ArmParse e)
      | Inr arm \<Rightarrow>
      if pm_store m = None \<or> forwardID = [] then Inl ErrProbeArmRejected
      else case GetAppliedState forwardID (the_store m) of
        Inl e \<Rightarrow> Inl (StoreError e)
      | Inr None \<Rightarrow> Inl ErrProbeArmRejected
      | Inr (Some applied) \<Rightarrow>
      if arm_Activation arm \<noteq> ActivationID k forwardID (af_SpecRevision applied) then Inl ErrProbeArmRejected
      else if \<not> endpoint_matches arm applied then Inl ErrProbeArmRejected
      else
        let deadline = now + sint (arm_TTLMS arm * 1000000);
            alreadyArmed = map_of (pm_ops m) (arm_ProbeID arm) \<noteq> None in
        if int (length (pm_ops m)) \<ge> pm_maxActive m \<and> \<not> alreadyArmed then Inl ErrProbeArmRejected
        else case pm_key m of
          None \<Rightarrow> Inl ErrProbeArmRejected
        | Some key \<Rightarrow>
            let digest = arm_Digest k arm; rdy = ProbeMagicArmed @ digest in
            (case Sign k key rdy of
               Inl _ \<Rightarrow> Inl SignError
             | Inr sig \<Rightarrow> Inr \<lparr> pp_Arm = arm, pp_ForwardID = forwardID, pp_ExpectedRevision = af_SpecRevision applied,
                 pp_Digest = digest, pp_Deadline = deadline, pp_RDY = rdy @ sig, pp_Existing = alreadyArmed \<rparr>))"

definition prepared_op :: "PreparedProbeArm \<Rightarrow> armedOp" where
  "prepared_op prepared = \<lparr> mo_arm = pp_Arm prepared, mo_forwardID = pp_ForwardID prepared, mo_digest = pp_Digest prepared,
     mo_deadline = pp_Deadline prepared, mo_used = False \<rparr>"

definition commit_refused :: "PreparedProbeArm \<Rightarrow> ProbeManager \<Rightarrow> bool" where
  "commit_refused prepared m \<longleftrightarrow> pm_marker m \<noteq> MarkerActive \<or> pm_store m = None \<or> pp_ForwardID prepared = [] \<or>
     arm_ProbeID (pp_Arm prepared) = replicate 16 0 \<or> pp_ExpectedRevision prepared = 0"

definition publish :: "(ls_error + Store) \<Rightarrow> ls_error set \<Rightarrow> PreparedProbeArm \<Rightarrow> ProbeManager \<Rightarrow> (mgr_error + unit) \<times> ProbeManager" where
  "publish r rejected prepared m =
     (case r of
        Inl e \<Rightarrow> (Inl (if e \<in> rejected then ErrProbeArmRejected else StoreError e), m)
      | Inr s \<Rightarrow> (Inr (), m\<lparr>pm_store := Some s,
          pm_ops := AList.update (arm_ProbeID (pp_Arm prepared)) (prepared_op prepared) (pm_ops m)\<rparr>))"

definition CommitPreparedProbeArm :: "crypto \<Rightarrow> PreparedProbeArm \<Rightarrow> ProbeManager \<Rightarrow> (mgr_error + unit) \<times> ProbeManager" where
  "CommitPreparedProbeArm k prepared m =
     (if commit_refused prepared m then (Inl ErrProbeArmRejected, m)
      else publish (SaveArmedProbeForForward k (pp_Arm prepared) (pp_ForwardID prepared) (pp_Deadline prepared) (the_store m))
        {ErrProbeConsumed, ErrProbeConflict} prepared m)"

definition CommitPreparedProbeArmWithActivation ::
  "crypto \<Rightarrow> PreparedProbeArm \<Rightarrow> string \<Rightarrow> ActivationStates \<Rightarrow> ActivationStates \<Rightarrow> ProbeManager \<Rightarrow>
     (mgr_error + unit) \<times> ProbeManager" where
  "CommitPreparedProbeArmWithActivation k prepared activation before after m =
     (if commit_refused prepared m then (Inl ErrProbeArmRejected, m)
      else if activation \<noteq> hex_EncodeToString (arm_Activation (pp_Arm prepared)) then (Inl ErrProbeArmRejected, m)
      else publish (CommitProbeAdmission k (pp_ForwardID prepared) (pp_ExpectedRevision prepared) activation (pp_Arm prepared)
          (pp_Deadline prepared) before after (the_store m))
        {ErrProbeConsumed, ErrProbeConflict, ErrProbeAdmissionConflict} prepared m)"

definition AbortPreparedProbeArm :: "PreparedProbeArm \<Rightarrow> ProbeManager \<Rightarrow> (mgr_error + unit) \<times> ProbeManager" where
  "AbortPreparedProbeArm prepared m =
     (let i = arm_ProbeID (pp_Arm prepared) in
      if pm_store m = None \<or> i = replicate 16 0 then (Inr (), m)
      else if (case map_of (pm_ops m) i of None \<Rightarrow> False
               | Some op \<Rightarrow> \<not> (mo_forwardID op \<noteq> pp_ForwardID prepared \<or> mo_digest op \<noteq> pp_Digest prepared))
      then (let m' = m\<lparr>pm_ops := AList.delete i (pm_ops m)\<rparr> in
            case DeleteArmedProbe i (the_store m) of
              Inl e \<Rightarrow> (Inl (StoreError e), m')
            | Inr s \<Rightarrow> (Inr (), m'\<lparr>pm_store := Some s\<rparr>))
      else (Inr (), m))"

definition HandleProbeArm :: "crypto \<Rightarrow> int \<Rightarrow> bytes \<Rightarrow> string \<Rightarrow> ProbeManager \<Rightarrow> (mgr_error + bytes) \<times> ProbeManager" where
  "HandleProbeArm k now raw forwardID m =
     (if pm_marker m \<noteq> MarkerActive then (Inl ErrProbeArmRejected, m)
      else case PrepareProbeArm k now raw forwardID m of
        Inl e \<Rightarrow> (Inl e, m)
      | Inr prepared \<Rightarrow>
          (case CommitPreparedProbeArm k prepared m of
             (Inl e, m') \<Rightarrow> (Inl e, m')
           | (Inr _, m') \<Rightarrow> (Inr (pp_RDY prepared), m')))"

section \<open>Pending acknowledgements and receipts\<close>

text \<open>What the connection does with a write.\<close>

datatype conn_io = DeadlineFails | WriteFails | WriteDone

definition send_ack :: "conn_io \<Rightarrow> bytes \<Rightarrow> bytes \<Rightarrow> ProbeManager \<Rightarrow> bytes option \<times> ProbeManager" where
  "send_ack io i ack m =
     (case io of DeadlineFails \<Rightarrow> (None, m) | WriteFails \<Rightarrow> (Some ack, m)
      | WriteDone \<Rightarrow> (Some ack, try_store (MarkArmedProbeACKSent i) m))"

definition RetryPendingACK :: "conn_io \<Rightarrow> bytes \<Rightarrow> ProbeManager \<Rightarrow> bytes option \<times> ProbeManager" where
  "RetryPendingACK io i m =
     (case pm_store m of
        None \<Rightarrow> (None, m)
      | Some s \<Rightarrow>
          (case LoadArmedProbe i s of
             Inr (Some r) \<Rightarrow>
               if \<not> pb_Consumed r \<or> pb_ACKSent r \<or> pb_ACK r = [] then (None, m) else send_ack io i (pb_ACK r) m
           | _ \<Rightarrow> (None, m)))"

definition probeReceiptOperationID :: "crypto \<Rightarrow> bytes \<Rightarrow> string" where
  "probeReceiptOperationID k payload = hex_EncodeToString (sha256 k payload)"

text \<open>One row of the retry: \<open>send\<close> says whether the control channel takes the payload. The state carries the payloads
  sent, with their probe, and whether a call failed.\<close>

definition retry_row ::
  "crypto \<Rightarrow> (bytes \<Rightarrow> bool) \<Rightarrow> ArmedProbe \<Rightarrow> (bytes \<times> bytes) list \<times> bool \<times> Store \<Rightarrow> (bytes \<times> bytes) list \<times> bool \<times> Store" where
  "retry_row k send probe st =
     (let (sent, failed, s) = st in
      if \<not> pb_Consumed probe \<or> pb_ReceiptAcknowledged probe \<or> pb_Receipt probe = [] then st
      else
        let i = arm_ProbeID (pb_Arm probe);
            s1 = (if pb_ReceiptMessageID probe = []
                  then (case SetArmedProbeReceiptMessageID i (probeReceiptOperationID k (pb_Receipt probe))
                          (Some (pb_Deadline probe + ProbeReplayWindow)) s of Inl _ \<Rightarrow> s | Inr s1 \<Rightarrow> s1)
                  else s)
        in if \<not> send (pb_Receipt probe) then (sent, True, s1)
           else (case MarkArmedProbeReceiptSent i s1 of
                   Inl _ \<Rightarrow> (sent @ [(i, pb_Receipt probe)], True, s1)
                 | Inr s2 \<Rightarrow> (sent @ [(i, pb_Receipt probe)], failed, s2)))"

definition RetryPendingReceipts ::
  "nat \<Rightarrow> crypto \<Rightarrow> (bytes \<Rightarrow> bool) option \<Rightarrow> ProbeManager \<Rightarrow>
     ((bytes \<times> bytes) list \<times> ls_error option \<times> bool \<times> ProbeManager) option" where
  "RetryPendingReceipts n k send m =
     (case (pm_store m, send) of
        (Some s, Some f) \<Rightarrow>
          (case page_loop n (pm_maxActive m) (snd \<circ> snd) (retry_row k f) [] ([], False, s) of
             None \<Rightarrow> None
           | Some (e, sent, failed, s') \<Rightarrow> Some (sent, e, failed, m\<lparr>pm_store := Some s'\<rparr>))
      | _ \<Rightarrow> Some ([], None, False, m))"

definition AcknowledgeReceipt :: "crypto \<Rightarrow> string \<Rightarrow> ProbeManager \<Rightarrow> (mgr_error + unit) \<times> ProbeManager" where
  "AcknowledgeReceipt k operationID m =
     (case pm_store m of
        None \<Rightarrow> (Inr (), m)
      | Some s \<Rightarrow> (case AcknowledgeArmedProbeReceipt k operationID s of
          Inl e \<Rightarrow> (Inl (StoreError e), m) | Inr s' \<Rightarrow> (Inr (), m\<lparr>pm_store := Some s'\<rparr>)))"

section \<open>The TCP ingress\<close>

definition hasArmedBySource :: "int \<Rightarrow> bytes \<Rightarrow> string \<Rightarrow> ProbeManager \<Rightarrow> bool \<times> ProbeManager" where
  "hasArmedBySource now ip forwardID m0 =
     (let m = mgr_sweep now m0 in
      ((\<exists>(_, op) \<in> set (pm_ops m). arm_ExpectedSourceIP (mo_arm op) = ip \<and> (forwardID = [] \<or> mo_forwardID op = forwardID) \<and>
          (\<not> mo_used op \<or> map_of (pm_replay m) (arm_ProbeID (mo_arm op)) \<noteq> None)) \<or>
       (\<exists>(i, binding) \<in> set (pm_replaySource m). map_of (pm_replay m) i \<noteq> None \<and> rs_source binding = ip \<and>
          (forwardID = [] \<or> rs_forwardID binding = forwardID)), m))"

text \<open>The two bounded reads of a WAN1 frame from the bytes the connection delivers.\<close>

definition read_frame :: "bytes \<Rightarrow> bytes option" where
  "read_frame stream =
     (if length stream < 85 then None
      else let endpointLen = unat (stream ! 84); frameLen = 85 + endpointLen + 16 + 32 + 64 in
           if endpointLen = 0 \<or> frameLen > 4 + 32 + 16 + 16 + 16 + 1 + ProbeEndpointMax + 16 + 32 + 64 then None
           else if length stream < frameLen then None
           else Some (take frameLen stream))"

definition frame_of_arm :: "crypto \<Rightarrow> ProbeArm \<Rightarrow> ProviderFrame \<Rightarrow> bool" where
  "frame_of_arm k arm frame \<longleftrightarrow> wan_ProviderID frame = arm_ProviderID arm \<and> wan_Activation frame = arm_Activation arm \<and>
     wan_Endpoint frame = arm_Endpoint arm \<and> wan_ExpiryOpaque frame = arm_ExpiryOpaque arm \<and>
     ed_verify k (arm_ProviderPublicKey arm) (wan_SigningBytes frame) (wan_Signature frame)"

definition candidate :: "crypto \<Rightarrow> int \<Rightarrow> bytes \<Rightarrow> string \<Rightarrow> ProviderFrame \<Rightarrow> bytes \<times> armedOp \<Rightarrow> bool" where
  "candidate k now source forwardID frame c \<longleftrightarrow>
     (let op = snd c in
      \<not> (mo_used op \<or> \<not> now < mo_deadline op \<or> arm_ExpectedSourceIP (mo_arm op) \<noteq> source \<or>
         forwardID \<noteq> [] \<and> mo_forwardID op \<noteq> forwardID \<or> arm_ProbeID (mo_arm op) \<noteq> wan_ProbeID frame \<or>
         mo_digest op \<noteq> wan_ArmDigest frame) \<and> frame_of_arm k (mo_arm op) frame)"

datatype claim = Dropped | Replayed | Claimed bytes armedOp

definition ingress_claim ::
  "crypto \<Rightarrow> int \<Rightarrow> bytes \<Rightarrow> string \<Rightarrow> ProviderFrame \<Rightarrow> ProbeManager \<Rightarrow> claim \<times> ProbeManager" where
  "ingress_claim k now source forwardID frame m0 =
     (let m = mgr_sweep now m0; i = wan_ProbeID frame in
      if pm_recoveryErr m \<noteq> None then (Dropped, m)
      else if map_of (pm_replay m) i \<noteq> None then
        (case map_of (pm_replaySource m) i of
           None \<Rightarrow> (Dropped, m)
         | Some binding \<Rightarrow>
             if rs_digest binding \<noteq> wan_ArmDigest frame \<or> rs_source binding \<noteq> source \<or>
                forwardID \<noteq> [] \<and> rs_forwardID binding \<noteq> forwardID
             then (Dropped, m) else (Replayed, m))
      else case find (candidate k now source forwardID frame) (pm_ops m) of
        None \<Rightarrow> (Dropped, m)
      | Some (j, op) \<Rightarrow>
          (case pm_key m of
             None \<Rightarrow> (Dropped, m)
           | Some key \<Rightarrow>
               if int (length (pm_replay m)) \<ge> pm_maxReplay m then (Dropped, m)
               else (Claimed key (op\<lparr>mo_used := True\<rparr>), m\<lparr>pm_ops := AList.update j (op\<lparr>mo_used := True\<rparr>) (pm_ops m),
                 pm_replay := AList.update i (mo_deadline op + ProbeReplayWindow) (pm_replay m),
                 pm_replaySource := AList.update i \<lparr> rs_source = source, rs_forwardID = mo_forwardID op,
                   rs_digest = mo_digest op \<rparr> (pm_replaySource m)\<rparr>)))"

definition ack_bytes :: "crypto \<Rightarrow> bytes \<Rightarrow> armedOp \<Rightarrow> ProviderFrame \<Rightarrow> fc_error + bytes" where
  "ack_bytes k key op frame =
     (let body = ProbeMagicACK @ mo_digest op @ wan_ChallengeHash k frame
      in ebind (Sign k key body) (\<lambda>sig. Inr (body @ sig)))"

definition receipt_bytes :: "crypto \<Rightarrow> bytes \<Rightarrow> armedOp \<Rightarrow> ProviderFrame \<Rightarrow> fc_error + bytes" where
  "receipt_bytes k key op frame =
     (let body = ProbeMagicReceipt @ mo_digest op @ wan_ChallengeHash k frame @ arm_ProviderID (mo_arm op)
      in ebind (Sign k key body) (\<lambda>sig. Inr (body @ sig)))"

definition release_claim :: "bytes \<Rightarrow> armedOp \<Rightarrow> ProbeManager \<Rightarrow> ProbeManager" where
  "release_claim i op m =
     m\<lparr>pm_ops := map (\<lambda>(j, o'). if o' = op then (j, op\<lparr>mo_used := False\<rparr>) else (j, o')) (pm_ops m),
       pm_replay := AList.delete i (pm_replay m), pm_replaySource := AList.delete i (pm_replaySource m)\<rparr>"

text \<open>The commit of a claim, outside the mutex. A failed signature leaves the claim in place.\<close>

definition ingress_commit ::
  "crypto \<Rightarrow> bytes \<Rightarrow> armedOp \<Rightarrow> ProviderFrame \<Rightarrow> conn_io \<Rightarrow> ProbeManager \<Rightarrow> (bytes \<times> bytes) option \<times> ProbeManager" where
  "ingress_commit k key op frame io m =
     (case (ack_bytes k key op frame, receipt_bytes k key op frame) of
        (Inr ack, Inr rct) \<Rightarrow>
          if io = DeadlineFails then (None, release_claim (wan_ProbeID frame) op m)
          else (case pm_store m of
            None \<Rightarrow> (None, release_claim (wan_ProbeID frame) op m)
          | Some s \<Rightarrow>
              (case MarkArmedProbeConsumedWithACK (arm_ProbeID (mo_arm op)) rct ack (wan_ChallengeHash k frame)
                  (probeReceiptOperationID k rct) (Some (mo_deadline op + ProbeReplayWindow)) s of
                 Inl _ \<Rightarrow> (None, release_claim (wan_ProbeID frame) op m)
               | Inr s' \<Rightarrow> (Some (ack, rct), m\<lparr>pm_store := Some s'\<rparr>)))
      | _ \<Rightarrow> (None, m))"

definition ingress_finish ::
  "conn_io \<Rightarrow> (bytes \<Rightarrow> bool) option \<Rightarrow> bytes \<Rightarrow> bytes \<Rightarrow> bytes \<Rightarrow> ProbeManager \<Rightarrow> bytes list \<times> bytes list \<times> ProbeManager" where
  "ingress_finish io send i ack rct m =
     (if io \<noteq> WriteDone then ([ack], [], m)
      else let m1 = try_store (MarkArmedProbeACKSent i) m in
           case send of
             None \<Rightarrow> ([ack], [], m1)
           | Some f \<Rightarrow> if f rct then ([ack], [rct], try_store (MarkArmedProbeReceiptSent i) m1) else ([ack], [], m1))"

definition replayPendingACK ::
  "crypto \<Rightarrow> conn_io \<Rightarrow> bytes \<Rightarrow> ProviderFrame \<Rightarrow> ProbeManager \<Rightarrow> bytes option \<times> ProbeManager" where
  "replayPendingACK k io source frame m =
     (case LoadArmedProbe (wan_ProbeID frame) (the_store m) of
        Inr (Some r) \<Rightarrow>
          if \<not> pb_Consumed r \<or> pb_ACKSent r \<or> pb_ACK r = [] \<or> arm_ExpectedSourceIP (pb_Arm r) \<noteq> source \<or>
             pb_Digest r \<noteq> wan_ArmDigest frame \<or> pb_ChallengeHash r \<noteq> wan_ChallengeHash k frame \<or>
             \<not> frame_of_arm k (pb_Arm r) frame
          then (None, m)
          else send_ack io (wan_ProbeID frame) (pb_ACK r) m
      | _ \<Rightarrow> (None, m))"

definition handleIngress ::
  "crypto \<Rightarrow> int \<Rightarrow> conn_io \<Rightarrow> (bytes \<Rightarrow> bool) option \<Rightarrow> bytes \<Rightarrow> string \<Rightarrow> bytes \<Rightarrow> ProbeManager \<Rightarrow>
     bytes list \<times> bytes list \<times> ProbeManager" where
  "handleIngress k now io send source forwardID stream m =
     (case read_frame stream of
        None \<Rightarrow> ([], [], m)
      | Some raw \<Rightarrow>
          (case ParseProviderFrame raw of
             Inl _ \<Rightarrow> ([], [], m)
           | Inr frame \<Rightarrow>
               (case ingress_claim k now source forwardID frame m of
                  (Dropped, m1) \<Rightarrow> ([], [], m1)
                | (Replayed, m1) \<Rightarrow>
                    (case replayPendingACK k io source frame m1 of
                       (None, m2) \<Rightarrow> ([], [], m2) | (Some ack, m2) \<Rightarrow> ([ack], [], m2))
                | (Claimed key op, m1) \<Rightarrow>
                    (case ingress_commit k key op frame io m1 of
                       (None, m2) \<Rightarrow> ([], [], m2)
                     | (Some (ack, rct), m2) \<Rightarrow> ingress_finish io send (arm_ProbeID (mo_arm op)) ack rct m2))))"

section \<open>The UDP classifier\<close>

record UDPProbeResult =
  ur_Matched :: bool
  ur_Drop :: bool
  ur_ProbeID :: bytes
  ur_ACK :: bytes
  ur_Receipt :: bytes

definition udp_nothing :: UDPProbeResult where
  "udp_nothing = \<lparr> ur_Matched = False, ur_Drop = False, ur_ProbeID = replicate 16 0, ur_ACK = [], ur_Receipt = [] \<rparr>"

definition udp_drop :: UDPProbeResult where
  "udp_drop = udp_nothing\<lparr>ur_Drop := True\<rparr>"

definition udp_replay :: "crypto \<Rightarrow> string \<Rightarrow> bytes \<Rightarrow> ProviderFrame \<Rightarrow> ProbeManager \<Rightarrow> UDPProbeResult" where
  "udp_replay k forwardID source frame m =
     (case (map_of (pm_replaySource m) (wan_ProbeID frame), pm_store m) of
        (Some binding, Some s) \<Rightarrow>
          if rs_digest binding \<noteq> wan_ArmDigest frame \<or> rs_source binding \<noteq> source \<or> rs_forwardID binding \<noteq> forwardID
          then udp_nothing
          else (case LoadArmedProbe (wan_ProbeID frame) s of
            Inr (Some r) \<Rightarrow>
              if \<not> pb_Consumed r \<or> arm_ExpectedSourceIP (pb_Arm r) \<noteq> source \<or> pb_ForwardID r \<noteq> forwardID \<or>
                 pb_Digest r \<noteq> wan_ArmDigest frame \<or> pb_ChallengeHash r \<noteq> wan_ChallengeHash k frame \<or>
                 \<not> frame_of_arm k (pb_Arm r) frame
              then udp_nothing
              else \<lparr> ur_Matched = True, ur_Drop = False, ur_ProbeID = wan_ProbeID frame,
                     ur_ACK = (if pb_ACKSent r then [] else pb_ACK r), ur_Receipt = [] \<rparr>
          | _ \<Rightarrow> udp_nothing)
      | _ \<Rightarrow> udp_nothing)"

definition udp_commit ::
  "crypto \<Rightarrow> bytes \<Rightarrow> string \<Rightarrow> bytes \<Rightarrow> ProviderFrame \<Rightarrow> nat \<Rightarrow> armedOp \<Rightarrow> Store \<Rightarrow> ProbeManager \<Rightarrow> UDPProbeResult \<times> ProbeManager" where
  "udp_commit k key forwardID source frame rawLen op s m =
     (let i = wan_ProbeID frame; receiptDeadline = mo_deadline op + ProbeReplayWindow in
      case ack_bytes k key op frame of
        Inl _ \<Rightarrow> (udp_nothing, m)
      | Inr ack \<Rightarrow>
          if length ack > rawLen then (udp_nothing, m)
          else (case receipt_bytes k key op frame of
            Inl _ \<Rightarrow> (udp_nothing, m)
          | Inr rct \<Rightarrow>
              (case MarkArmedProbeConsumedWithACK i rct ack (wan_ChallengeHash k frame) (probeReceiptOperationID k rct)
                  (Some receiptDeadline) s of
                 Inl _ \<Rightarrow> (udp_drop, m)
               | Inr s' \<Rightarrow>
                   (\<lparr> ur_Matched = True, ur_Drop = False, ur_ProbeID = i, ur_ACK = ack, ur_Receipt = rct \<rparr>,
                    m\<lparr>pm_store := Some s', pm_ops := AList.update i (op\<lparr>mo_used := True\<rparr>) (pm_ops m),
                      pm_replay := AList.update i receiptDeadline (pm_replay m),
                      pm_replaySource := AList.update i \<lparr> rs_source = source, rs_forwardID = forwardID,
                        rs_digest = mo_digest op \<rparr> (pm_replaySource m)\<rparr>))))"

fun As4 :: "Addr \<Rightarrow> bytes" where
  "As4 (V4 a b c d) = [a, b, c, d]"
| "As4 _ = []"

definition HandleUDPProbe ::
  "crypto \<Rightarrow> int \<Rightarrow> string \<Rightarrow> Addr \<Rightarrow> bytes \<Rightarrow> ProbeManager \<Rightarrow> UDPProbeResult \<times> ProbeManager" where
  "HandleUDPProbe k now forwardID addr raw m0 =
     (if \<not> IsValid addr \<or> \<not> Is4 addr then (udp_nothing, m0)
      else case ParseProviderFrame raw of
        Inl _ \<Rightarrow> (udp_nothing, m0)
      | Inr frame \<Rightarrow>
          let source = As4 addr; m = mgr_sweep now m0; i = wan_ProbeID frame in
          if pm_recoveryErr m \<noteq> None then (udp_drop, m)
          else if map_of (pm_replay m) i \<noteq> None then (udp_replay k forwardID source frame m, m)
          else case map_of (pm_ops m) i of
            None \<Rightarrow> (udp_nothing, m)
          | Some op \<Rightarrow>
              if mo_used op \<or> \<not> now < mo_deadline op \<or> mo_forwardID op \<noteq> forwardID \<or>
                 arm_ExpectedSourceIP (mo_arm op) \<noteq> source \<or> mo_digest op \<noteq> wan_ArmDigest frame \<or>
                 \<not> frame_of_arm k (mo_arm op) frame
              then (udp_nothing, m)
              else (case (pm_key m, pm_store m) of
                (Some key, Some s) \<Rightarrow>
                  if int (length (pm_replay m)) \<ge> pm_maxReplay m then (udp_drop, m)
                  else udp_commit k key forwardID source frame (length raw) op s m
              | _ \<Rightarrow> (udp_drop, m)))"

definition MarkUDPProbeACKSent :: "bytes \<Rightarrow> ProbeManager \<Rightarrow> ProbeManager" where
  "MarkUDPProbeACKSent i m = try_store (MarkArmedProbeACKSent i) m"

definition MarkUDPProbeReceiptSent :: "bytes \<Rightarrow> ProbeManager \<Rightarrow> ProbeManager" where
  "MarkUDPProbeReceiptSent i m = try_store (MarkArmedProbeReceiptSent i) m"

definition SendUDPProbeReceipt :: "(bytes \<Rightarrow> bool) option \<Rightarrow> UDPProbeResult \<Rightarrow> ProbeManager \<Rightarrow> bytes list \<times> ProbeManager" where
  "SendUDPProbeReceipt send result m =
     (case (send, pm_store m) of
        (Some f, Some _) \<Rightarrow>
          if ur_Receipt result = [] then ([], m)
          else if f (ur_Receipt result)
          then ([ur_Receipt result], try_store (MarkArmedProbeReceiptSent (ur_ProbeID result)) m) else ([], m)
      | _ \<Rightarrow> ([], m))"

end
