(* ===== verification/Probe_Recovery.thy ===== *)
theory Probe_Recovery
  imports Probe_Manager
begin

text \<open>
  The restart of the probe manager: the loop over the pages visits every durable row, and a restart that does not
  quarantine has accounted for every fence. The invariant of the durable rows, kept by every store call, is that an
  operation row decodes and stands under the probe id of its own arm.
\<close>

section \<open>Rows under their own key\<close>

abbreviation pkey :: "ArmedProbe \<Rightarrow> string" where "pkey r \<equiv> bytes_str (arm_ProbeID (pb_Arm r))"

definition keyed :: "probe_row bucket \<Rightarrow> bool" where
  "keyed b \<longleftrightarrow> (\<forall>key r. isProbeOperationKey key \<longrightarrow> bget b key = Some (ProbeOp r) \<longrightarrow> pkey r = key)"

definition rows_inv :: "Store \<Rightarrow> bool" where
  "rows_inv s \<longleftrightarrow> probes_ok (ls_probes s) \<and> keyed (ls_probes s)"

lemma keyedD: "keyed b \<Longrightarrow> isProbeOperationKey key \<Longrightarrow> bget b key = Some (ProbeOp r) \<Longrightarrow> pkey r = key"
  by (simp add: keyed_def)

lemma rows_inv_rewrote:
  assumes "rows_inv s" "rewrote i r' (ls_probes s) (ls_probes s')"
    and "isProbeOperationKey (bytes_str i) \<Longrightarrow> pkey r' = bytes_str i"
  shows "rows_inv s'"
  using assms rewrote_get [OF assms(2)] by (auto simp: rows_inv_def keyed_def probes_ok_bucket rewrote_ok split: if_splits)

lemma rows_inv_update:
  assumes "rows_inv s" "rewrote i r' (ls_probes s) (ls_probes s')"
    and "bget (ls_probes s) (bytes_str i) = Some (ProbeOp r)" "pb_Arm r' = pb_Arm r"
  shows "rows_inv s'"
  using assms(1,2)
proof (rule rows_inv_rewrote)
  assume "isProbeOperationKey (bytes_str i)"
  with assms(1,3,4) show "pkey r' = bytes_str i" by (auto simp: rows_inv_def dest: keyedD)
qed

lemma rows_inv_kept:
  assumes "rows_inv s" "rows_kept (ls_probes s) (ls_probes s')"
  shows "rows_inv s'"
proof -
  have "pkey r' = key" if op: "isProbeOperationKey key" and get: "bget (ls_probes s') key = Some (ProbeOp r')" for key r'
  proof -
    from assms(2) op get have "bget (ls_probes s) key \<noteq> None" by (auto simp: rows_kept_def)
    with assms(1) op obtain r where r: "bget (ls_probes s) key = Some (ProbeOp r)" by (auto simp: rows_inv_def probes_ok_def)
    with assms(2) op get have "row_kept r r'" by (auto simp: rows_kept_def)
    with r assms(1) op show ?thesis by (auto simp: rows_inv_def row_kept_def dest: keyedD)
  qed
  with assms show ?thesis by (auto simp: rows_inv_def rows_kept_def keyed_def)
qed

lemma rows_inv_removed:
  assumes "rows_inv s" "probes_ok (ls_probes s')"
    and "\<And>key raw. isProbeOperationKey key \<Longrightarrow> bget (ls_probes s') key = Some raw \<Longrightarrow> bget (ls_probes s) key = Some raw"
  shows "rows_inv s'"
  using assms by (auto simp: rows_inv_def keyed_def)

lemma delete_probe_rows:
  assumes "DeleteArmedProbe i s = Inr s'" "probes_ok (ls_probes s)"
  shows "probes_ok (ls_probes s')" "oprows (ls_probes s') = filter (\<lambda>(key, _). key \<noteq> bytes_str i) (oprows (ls_probes s))"
    "isProbeOperationKey key \<Longrightarrow> bget (ls_probes s') key = (if key = bytes_str i then None else bget (ls_probes s) key)"
proof -
  obtain b where b: "ls_probes s' = bdel (bytes_str i) b" "b = ls_probes s \<or> (\<exists>op. b = bdel (probeReceiptIndexKey op) (ls_probes s))"
    using assms(1) by (auto simp: DeleteArmedProbe_def Let_def ebind_Inr_iff split: option.splits if_splits) blast+
  from b(2) assms(2) have "probes_ok b" "oprows b = oprows (ls_probes s)"
    by (auto simp: oprows_bdel oprows_not_index intro: probes_ok_bdel)
  with b(1) show "probes_ok (ls_probes s')" "oprows (ls_probes s') = filter (\<lambda>(key, _). key \<noteq> bytes_str i) (oprows (ls_probes s))"
    by (auto simp: oprows_bdel intro: probes_ok_bdel)
  show "bget (ls_probes s') key = (if key = bytes_str i then None else bget (ls_probes s) key)" if "isProbeOperationKey key"
    using b that op_key_not_index [OF that] by auto
qed

lemma pexec_rows_inv:
  assumes step: "pexec k a s = Inr s'" and inv: "rows_inv s"
  shows "rows_inv s'"
proof -
  have ok: "probes_ok (ls_probes s)" using inv by (simp add: rows_inv_def)
  show ?thesis
  proof (cases a)
    case (PArm arm f d)
    with step have "SaveArmedProbeForForward k arm f d s = Inr s'" by simp
    from rows_inv_rewrote [OF inv arm_rewrote(2) [OF this]] show ?thesis by (simp add: armed_record_def)
  next
    case (PAdmit f g act arm d before after)
    with step have "CommitProbeAdmission k f g act arm d before after s = Inr s'" by simp
    from rows_inv_rewrote [OF inv admit_rewrote(2) [OF this]] show ?thesis by (simp add: armed_record_def)
  next
    case (PDelete i)
    with step have "DeleteArmedProbe i s = Inr s'" by simp
    from delete_probe_rows [OF this ok] show ?thesis by (intro rows_inv_removed [OF inv]) (auto split: if_splits)
  next
    case (PConsumeACK i receipt ack ch m d)
    with step have "MarkArmedProbeConsumedWithACK i receipt ack ch m d s = Inr s'" by simp
    then show ?thesis
    proof (cases rule: consume_ack_rewrote)
      case (consumed r r')
      with inv show ?thesis by (intro rows_inv_update [OF inv consumed(3,1)]) (simp add: consumed_row_def)
    qed (use inv in simp)
  next
    case (PConsume i receipt m d)
    with step have "MarkArmedProbeConsumedWithReceipt i receipt m d s = Inr s'" by simp
    then obtain r r' where 1: "bget (ls_probes s) (bytes_str i) = Some (ProbeOp r)" "rewrote i r' (ls_probes s) (ls_probes s')"
      "consumed_row receipt m d r r' \<or> pb_Consumed r \<and> row_kept r r'" by (rule consume_rewrote)
    then show ?thesis by (intro rows_inv_update [OF inv 1(2,1)]) (auto simp: consumed_row_def row_kept_def)
  next
    case (PSetACK i ack)
    with step have "SetArmedProbeACK i ack s = Inr s'" by simp
    then show ?thesis by (rule set_ack_rewrote) (rule rows_inv_update [OF inv])
  next
    case (PSweep now limit after)
    from step PSweep sweep_page_spec [OF ok, where now = now and limit = limit and after = after] obtain b P where
      b: "s' = s\<lparr>ls_probes := b\<rparr>" "probes_ok b" "oprows b = filter P (oprows (ls_probes s))" by auto
    have "bget (ls_probes s) key = Some raw" if "isProbeOperationKey key" "bget b key = Some raw" for key raw
    proof -
      from that b(2) have "(key, raw) \<in> set (oprows b)" by (simp add: oprows_mem probes_ok_bucket)
      with b(3) have "(key, raw) \<in> set (oprows (ls_probes s))" by simp
      with ok show ?thesis by (simp add: oprows_mem probes_ok_bucket)
    qed
    with b inv show ?thesis by (intro rows_inv_removed [OF inv]) auto
  qed (use step in \<open>auto intro: rows_inv_kept [OF inv] annotated_rows [OF _ ok] annotations fill_annotated
      acknowledge_kept [OF _ ok]\<close>)
qed

lemma prun_rows_inv: "rows_inv s \<Longrightarrow> rows_inv (prun k a s)"
  by (auto simp: prun_def pexec_rows_inv split: sum.split)

section \<open>Walking the pages\<close>

definition beyond :: "string \<Rightarrow> probe_row bucket \<Rightarrow> probe_row bucket" where
  "beyond K b = filter (\<lambda>(key, _). isProbeOperationKey key \<and> K < key) b"

lemma beyond_oprows: "beyond K b = filter (\<lambda>(key, _). K < key) (oprows b)"
  by (auto simp: beyond_def oprows_def intro!: filter_cong)

lemma after_rows_beyond: "K \<noteq> [] \<Longrightarrow> after_rows K b = beyond K b"
  by (simp add: after_rows_def beyond_oprows)

lemma filter_bins: "\<not> P key \<Longrightarrow> filter (\<lambda>(k, _). P k) (bins key v b) = filter (\<lambda>(k, _). P k) b"
  by (induction key v b rule: bins.induct) auto

lemma beyond_rewrote: "rewrote i r b b' \<Longrightarrow> bytes_str i \<le> K \<Longrightarrow> beyond K b' = beyond K b"
  by (auto simp: rewrote_def beyond_def filter_bins [where P = "\<lambda>key. isProbeOperationKey key \<and> K < key"] not_less)

lemma beyond_removed: "oprows b' = filter (\<lambda>(key, _). key \<noteq> x) (oprows b) \<Longrightarrow> x \<le> K \<Longrightarrow> beyond K b' = beyond K b"
  by (auto simp: beyond_oprows intro!: filter_cong)

text \<open>A page as the list of its rows.\<close>

lemma list_page_spec:
  assumes inv: "rows_inv s" and rs: "map (\<lambda>r. (pkey r, ProbeOp r)) rs = after_rows after (ls_probes s)"
  shows "ListArmedProbesPage limit after s = Inr (take (page_limit limit) rs,
    if page_limit limit < length rs then (pkey (rs ! (page_limit limit - 1)), False) else ([], True))"
proof -
  let ?L = "page_limit limit" and ?R = "after_rows after (ls_probes s)"
  from inv have "probes_ok (ls_probes s)" by (simp add: rows_inv_def)
  from scan_page_cursor [OF this page_limit_pos, of limit after] obtain out where
    out: "scan_page ?L 0 [] (cursor_from after (ls_probes s)) = Inr (out, if ?L < length ?R then Some (fst (?R ! (?L - 1))) else None)"
    "map (\<lambda>(key, r). (key, ProbeOp r)) out = take ?L ?R" by blast
  have "map (\<lambda>(key, r). (key, ProbeOp r)) out = map (\<lambda>(key, r). (key, ProbeOp r)) (map (\<lambda>r. (pkey r, r)) (take ?L rs))"
    unfolding out(2) rs [symmetric] by (simp add: take_map o_def)
  moreover have "inj (\<lambda>(key :: string, r). (key, ProbeOp r))" by (auto simp: inj_def)
  ultimately have "out = map (\<lambda>r. (pkey r, r)) (take ?L rs)" by (rule map_injective)
  moreover have "fst (?R ! (?L - 1)) = pkey (rs ! (?L - 1))" if "?L < length rs"
    using that unfolding rs [symmetric] by (simp add: less_imp_diff_less)
  moreover have "length ?R = length rs" unfolding rs [symmetric] by simp
  ultimately show ?thesis using out(1) by (simp add: ListArmedProbesPage_def page_result_def o_def)
qed

lemma page_keys:
  fixes L :: nat
  assumes "map (\<lambda>r. (pkey r, ProbeOp r)) rs = after_rows after b" "bucket_ok b" "L < length rs"
  shows "\<forall>p \<in> set (take L rs). pkey p \<le> pkey (rs ! (L - 1))"
proof
  fix p assume "p \<in> set (take L rs)"
  then obtain j where j: "j < L" "p = rs ! j" using assms(3) by (auto simp: in_set_conv_nth)
  have "map pkey rs = map fst (after_rows after b)" unfolding assms(1) [symmetric] by (simp add: o_def)
  moreover have "sorted_wrt (<) (map fst (after_rows after b))"
    unfolding after_rows_filter using assms(2) by (rule oprows_sorted)
  ultimately have "sorted_wrt (<) (map pkey rs)" by simp
  then have lt: "pkey (rs ! j) < pkey (rs ! (L - 1))" if "j < L - 1"
    using sorted_wrt_nth_less [of "(<)" "map pkey rs" j "L - 1"] that assms(3) by simp
  from j(1) consider "j = L - 1" | "j < L - 1" by linarith
  then show "pkey p \<le> pkey (rs ! (L - 1))" using lt j(2) by cases (auto intro: less_imp_le)
qed

text \<open>A visitor of pages may rewrite or remove the row it is given, and nothing behind it. Then the loop gives it every row
  once, in key order, whatever the page size.\<close>

locale page_walk =
  fixes store_of :: "'s \<Rightarrow> Store" and visit :: "ArmedProbe \<Rightarrow> 's \<Rightarrow> 's"
  assumes keeps_rows: "rows_inv (store_of st) \<Longrightarrow> rows_inv (store_of (visit p st))"
    and stays_behind: "rows_inv (store_of st) \<Longrightarrow> pkey p \<le> K \<Longrightarrow>
      beyond K (ls_probes (store_of (visit p st))) = beyond K (ls_probes (store_of st))"
begin

lemma visit_page:
  "rows_inv (store_of st) \<Longrightarrow> \<forall>p \<in> set ps. pkey p \<le> K \<Longrightarrow> rows_inv (store_of (fold visit ps st)) \<and>
     beyond K (ls_probes (store_of (fold visit ps st))) = beyond K (ls_probes (store_of st))"
  by (induction ps arbitrary: st) (auto simp: keeps_rows stays_behind)

lemma walk:
  assumes "rows_inv (store_of st)" "map (\<lambda>r. (pkey r, ProbeOp r)) rs = after_rows after (ls_probes (store_of st))"
    and "length rs \<le> Suc n * page_limit limit"
  shows "page_loop (Suc n) limit store_of visit after st = Some (None, fold visit rs st)"
  using assms
proof (induction n arbitrary: st rs after)
  case (0 st rs after)
  from list_page_spec [OF 0(1,2), of limit] 0(3) show ?case by simp
next
  case (Suc n st rs after)
  let ?L = "page_limit limit" and ?b = "ls_probes (store_of st)"
  note page = list_page_spec [OF Suc.prems(1,2), of limit]
  show ?case
  proof (cases "?L < length rs")
    case False
    with page show ?thesis by simp
  next
    case True
    let ?K = "pkey (rs ! (?L - 1))" and ?st = "fold visit (take ?L rs) st"
    have bk: "bucket_ok ?b" using Suc.prems(1) by (simp add: rows_inv_def probes_ok_bucket)
    have R: "after_rows after ?b ! (?L - 1) = (?K, ProbeOp (rs ! (?L - 1)))" "length (after_rows after ?b) = length rs"
      using True unfolding Suc.prems(2) [symmetric] by (simp_all add: less_imp_diff_less)
    from next_rows [OF bk page_limit_pos, of limit after ?b "\<lambda>_. False"] True R
    have rest: "after_rows ?K ?b = drop ?L (after_rows after ?b)" "?K \<noteq> []" by simp_all
    have "\<forall>p \<in> set (take ?L rs). pkey p \<le> ?K" using Suc.prems(2) bk True by (rule page_keys)
    from visit_page [OF Suc.prems(1) this] have st: "rows_inv (store_of ?st)"
      "after_rows ?K (ls_probes (store_of ?st)) = after_rows ?K ?b" using rest(2) by (simp_all add: after_rows_beyond)
    have "map (\<lambda>r. (pkey r, ProbeOp r)) (drop ?L rs) = after_rows ?K (ls_probes (store_of ?st))"
      unfolding st(2) rest(1) Suc.prems(2) [symmetric] by (simp add: drop_map)
    moreover have "length (drop ?L rs) \<le> Suc n * ?L" using Suc.prems(3) by simp
    ultimately have "page_loop (Suc n) limit store_of visit ?K ?st = Some (None, fold visit (drop ?L rs) ?st)"
      by (rule Suc.IH [OF st(1)])
    moreover have "fold visit rs st = fold visit (drop ?L rs) ?st"
      by (metis append_take_drop_id comp_apply fold_append)
    ultimately show ?thesis using page True by (simp del: page_loop.simps add: page_loop.simps(2) [of "Suc n"])
  qed
qed

end

section \<open>The restart\<close>

lemma try_store_cases:
  obtains "try_store f m = m" | s s' where "pm_store m = Some s" "f s = Inr s'" "try_store f m = m\<lparr>pm_store := Some s'\<rparr>"
  unfolding try_store_def by (cases "pm_store m"; cases "f (the (pm_store m))") auto

lemma the_store_simps [simp]:
  "the_store (m\<lparr>pm_store := Some s\<rparr>) = s" "the_store (m\<lparr>pm_ops := x\<rparr>) = the_store m"
  "the_store (m\<lparr>pm_replay := y\<rparr>) = the_store m" "the_store (m\<lparr>pm_replaySource := z\<rparr>) = the_store m"
  "the_store (m\<lparr>pm_recoveryErr := e\<rparr>) = the_store m" "pm_store m = Some s \<Longrightarrow> the_store m = s"
  "the_store (m\<lparr>pm_sweepAfter := w\<rparr>) = the_store m" "the_store (m\<lparr>pm_store := None\<rparr>) = empty_store"
  by (simp_all add: the_store_def)

lemma recover_row_store:
  obtains "the_store (recover_row clock p m) = the_store m"
  | s' where "expired (clock p) p" "DeleteArmedProbe (arm_ProbeID (pb_Arm p)) (the_store m) = Inr s'"
      "the_store (recover_row clock p m) = s'"
proof -
  let ?d = "try_store (DeleteArmedProbe (arm_ProbeID (pb_Arm p))) m"
  have "the_store (recover_row clock p m) = the_store m \<or>
      expired (clock p) p \<and> the_store (recover_row clock p m) = the_store ?d"
    by (auto simp: recover_row_def Let_def expired_def split: option.splits)
  moreover have "the_store ?d = the_store m \<or> DeleteArmedProbe (arm_ProbeID (pb_Arm p)) (the_store m) = Inr (the_store ?d)"
    by (rule try_store_cases [of "DeleteArmedProbe (arm_ProbeID (pb_Arm p))" m]) auto
  ultimately show ?thesis using that by metis
qed

lemma delete_rows_inv: "DeleteArmedProbe i s = Inr s' \<Longrightarrow> rows_inv s \<Longrightarrow> rows_inv s'"
  using pexec_rows_inv [of undefined "PDelete i"] by simp

interpretation recov: page_walk the_store "recover_row clock" for clock
proof
  fix st p
  assume inv: "rows_inv (the_store st)"
  show "rows_inv (the_store (recover_row clock p st))"
    by (rule recover_row_store [of clock p st]) (use inv in \<open>auto dest: delete_rows_inv\<close>)
  fix K assume le: "pkey p \<le> K"
  have ok: "probes_ok (ls_probes (the_store st))" using inv by (simp add: rows_inv_def)
  show "beyond K (ls_probes (the_store (recover_row clock p st))) = beyond K (ls_probes (the_store st))"
  proof (rule recover_row_store [of clock p st])
    fix s' assume "DeleteArmedProbe (arm_ProbeID (pb_Arm p)) (the_store st) = Inr s'" "the_store (recover_row clock p st) = s'"
    with beyond_removed [OF delete_probe_rows(2) le] ok show ?thesis by simp
  qed simp
qed

text \<open>The retry of a receipt only annotates the row.\<close>

definition annotating :: "bytes \<Rightarrow> probe_op \<Rightarrow> bool" where
  "annotating i a \<longleftrightarrow> a = PReceiptSent i \<or> a = PACKSent i \<or> (\<exists>x d. a = PFill i x d)"

lemma annotating_step:
  assumes "annotating i a" "rows_inv s"
  shows "rows_inv (prun k a s) \<and> rows_kept (ls_probes s) (ls_probes (prun k a s)) \<and>
    (bytes_str i \<le> K \<longrightarrow> beyond K (ls_probes (prun k a s)) = beyond K (ls_probes s))"
proof (cases "pexec k a s")
  case (Inl e)
  with assms(2) show ?thesis by (simp add: prun_def rows_inv_def rows_kept_refl)
next
  case (Inr s')
  with assms(1) have ann: "annotated i s s'" by (auto simp: annotating_def intro: annotations fill_annotated)
  then have "bytes_str i \<le> K \<longrightarrow> beyond K (ls_probes s') = beyond K (ls_probes s)"
    by (auto simp: annotated_def beyond_rewrote)
  moreover have "rows_kept (ls_probes s) (ls_probes s')" using ann assms(2) by (auto simp: rows_inv_def intro: annotated_rows)
  ultimately show ?thesis using Inr pexec_rows_inv [OF Inr assms(2)] by (simp add: prun_def)
qed

lemma annotating_run:
  "\<forall>a \<in> set acts. annotating i a \<Longrightarrow> rows_inv s \<Longrightarrow>
   rows_inv (fold (prun k) acts s) \<and> rows_kept (ls_probes s) (ls_probes (fold (prun k) acts s)) \<and>
   (bytes_str i \<le> K \<longrightarrow> beyond K (ls_probes (fold (prun k) acts s)) = beyond K (ls_probes s))"
proof (induction acts arbitrary: s)
  case (Cons a acts)
  from annotating_step [of i a s k K] Cons.prems have 1: "rows_inv (prun k a s)"
    "rows_kept (ls_probes s) (ls_probes (prun k a s))"
    "bytes_str i \<le> K \<longrightarrow> beyond K (ls_probes (prun k a s)) = beyond K (ls_probes s)" by auto
  with Cons.IH [OF _ 1(1)] Cons.prems(1) show ?case by (auto intro: rows_kept_trans)
qed (simp add: rows_inv_def rows_kept_refl)

definition fill_op :: "crypto \<Rightarrow> ArmedProbe \<Rightarrow> probe_op" where
  "fill_op k p = PFill (arm_ProbeID (pb_Arm p)) (probeReceiptOperationID k (pb_Receipt p)) (Some (pb_Deadline p + ProbeReplayWindow))"

lemma retry_row_eq:
  "retry_row k send p (sent, failed, s) =
     (if \<not> pb_Consumed p \<or> pb_ReceiptAcknowledged p \<or> pb_Receipt p = [] then (sent, failed, s)
      else let i = arm_ProbeID (pb_Arm p); s1 = fold (prun k) (if pb_ReceiptMessageID p = [] then [fill_op k p] else []) s
        in if \<not> send (pb_Receipt p) then (sent, True, s1)
           else (sent @ [(i, pb_Receipt p)], failed \<or> isl (pexec k (PReceiptSent i) s1), prun k (PReceiptSent i) s1))"
  by (simp add: retry_row_def fill_op_def prun_def Let_def split: sum.split)

lemma retry_row_store:
  obtains acts where "\<forall>a \<in> set acts. annotating (arm_ProbeID (pb_Arm p)) a"
    "snd (snd (retry_row k send p (sent, failed, s))) = fold (prun k) acts s"
    "fst (retry_row k send p (sent, failed, s)) = sent \<or>
     pb_Consumed p \<and> fst (retry_row k send p (sent, failed, s)) = sent @ [(arm_ProbeID (pb_Arm p), pb_Receipt p)]"
proof -
  let ?i = "arm_ProbeID (pb_Arm p)" and ?f = "if pb_ReceiptMessageID p = [] then [fill_op k p] else []"
  have f: "\<forall>a \<in> set ?f. annotating ?i a" by (simp add: annotating_def fill_op_def)
  consider "\<not> pb_Consumed p \<or> pb_ReceiptAcknowledged p \<or> pb_Receipt p = []"
    | "pb_Consumed p" "\<not> pb_ReceiptAcknowledged p" "pb_Receipt p \<noteq> []" "\<not> send (pb_Receipt p)"
    | "pb_Consumed p" "\<not> pb_ReceiptAcknowledged p" "pb_Receipt p \<noteq> []" "send (pb_Receipt p)" by blast
  then show ?thesis
  proof cases
    case 1 then show ?thesis by (intro that [of "[]"]) (simp_all add: retry_row_eq)
  next
    case 2 with f show ?thesis by (intro that [of ?f]) (simp_all add: retry_row_eq Let_def)
  next
    case 3 with f show ?thesis by (intro that [of "?f @ [PReceiptSent ?i]"]) (simp_all add: retry_row_eq annotating_def Let_def)
  qed
qed

interpretation retry: page_walk "snd \<circ> snd" "retry_row k send" for k send
proof
  fix st :: "(bytes \<times> bytes) list \<times> bool \<times> Store" and p K
  obtain sent failed s where st: "st = (sent, failed, s)" by (cases st)
  assume "rows_inv ((snd \<circ> snd) st)"
  then have inv: "rows_inv s" using st by simp
  obtain acts where acts: "\<forall>a \<in> set acts. annotating (arm_ProbeID (pb_Arm p)) a"
    "snd (snd (retry_row k send p st)) = fold (prun k) acts s" unfolding st by (rule retry_row_store)
  from annotating_run [OF acts(1), of s k] inv acts(2) show "rows_inv ((snd \<circ> snd) (retry_row k send p st))" by simp
  assume "pkey p \<le> K"
  with annotating_run [OF acts(1), of s k K] inv st acts(2)
  show "beyond K (ls_probes ((snd \<circ> snd) (retry_row k send p st))) = beyond K (ls_probes ((snd \<circ> snd) st))" by simp
qed

section \<open>A restart accounts for every fence\<close>

lemma rows_list:
  assumes "rows_inv s"
  obtains rs where "map (\<lambda>r. (pkey r, ProbeOp r)) rs = oprows (ls_probes s)" "distinct (map pkey rs)"
    "\<forall>i r. isProbeOperationKey (bytes_str i) \<longrightarrow>
      (LoadArmedProbe i s = Inr (Some r) \<longleftrightarrow> r \<in> set rs \<and> arm_ProbeID (pb_Arm r) = i)"
    "\<forall>r \<in> set rs. isProbeOperationKey (pkey r) \<and> bget (ls_probes s) (pkey r) = Some (ProbeOp r)"
proof -
  let ?b = "ls_probes s"
  have bk: "bucket_ok ?b" using assms by (simp add: rows_inv_def probes_ok_bucket)
  define rs where "rs = map (\<lambda>(_, raw). case raw of ProbeOp r \<Rightarrow> r | _ \<Rightarrow> undefined) (oprows ?b)"
  have op: "\<exists>r. x = (pkey r, ProbeOp r)" if "x \<in> set (oprows ?b)" for x
  proof -
    obtain key raw where x: "x = (key, raw)" by (cases x)
    with that bk have key: "isProbeOperationKey key" "bget ?b key = Some raw" by (simp_all add: oprows_mem)
    with assms obtain r where r: "raw = ProbeOp r" by (auto simp: rows_inv_def probes_ok_def)
    with key assms have "pkey r = key" by (auto simp: rows_inv_def dest: keyedD)
    with x r show ?thesis by blast
  qed
  have rs: "map (\<lambda>r. (pkey r, ProbeOp r)) rs = oprows ?b"
    unfolding rs_def map_map by (rule map_idI) (use op in fastforce)
  have "map pkey rs = map fst (oprows ?b)" unfolding rs [symmetric] by (simp add: o_def)
  with oprows_distinct [OF bk] have dist: "distinct (map pkey rs)" by simp
  have mem: "r \<in> set rs \<longleftrightarrow> isProbeOperationKey (pkey r) \<and> bget ?b (pkey r) = Some (ProbeOp r)" for r
    unfolding oprows_mem [OF bk, symmetric] rs [symmetric] by auto
  have "LoadArmedProbe i s = Inr (Some r) \<longleftrightarrow> r \<in> set rs \<and> arm_ProbeID (pb_Arm r) = i"
    if i: "isProbeOperationKey (bytes_str i)" for i r
  proof -
    have "LoadArmedProbe i s = Inr (Some r) \<longleftrightarrow> bget ?b (bytes_str i) = Some (ProbeOp r)"
      by (auto simp: LoadArmedProbe_def ebind_Inr_iff split: option.splits)
    with mem i assms show ?thesis by (auto simp: rows_inv_def dest: keyedD)
  qed
  with that rs dist mem show ?thesis by blast
qed

text \<open>What a restart owes a row: an expired row is deleted; a live one is kept and is either a fence or an armed operation
  in memory.\<close>

definition accounted :: "int \<Rightarrow> ArmedProbe \<Rightarrow> ProbeManager \<Rightarrow> bool" where
  "accounted now p m \<longleftrightarrow> (let i = arm_ProbeID (pb_Arm p) in
     if expired now p then bget (ls_probes (the_store m)) (pkey p) = None \<and> map_of (pm_replay m) i = None \<and> map_of (pm_ops m) i = None
     else bget (ls_probes (the_store m)) (pkey p) = Some (ProbeOp p) \<and>
       (if pb_Consumed p
        then map_of (pm_replay m) i = pb_ReceiptDeadline p \<and> map_of (pm_ops m) i = None \<and>
          map_of (pm_replaySource m) i = Some \<lparr> rs_source = arm_ExpectedSourceIP (pb_Arm p),
            rs_forwardID = pb_ForwardID p, rs_digest = pb_Digest p \<rparr>
        else map_of (pm_replay m) i = None \<and> map_of (pm_ops m) i = Some \<lparr> mo_arm = pb_Arm p, mo_forwardID = pb_ForwardID p,
          mo_digest = pb_Digest p, mo_deadline = pb_Deadline p, mo_used = False \<rparr>))"

text \<open>A row the restart has not reached.\<close>

definition untouched :: "ArmedProbe \<Rightarrow> ProbeManager \<Rightarrow> bool" where
  "untouched p m \<longleftrightarrow> bget (ls_probes (the_store m)) (pkey p) = Some (ProbeOp p) \<and>
     map_of (pm_replay m) (arm_ProbeID (pb_Arm p)) = None \<and> map_of (pm_ops m) (arm_ProbeID (pb_Arm p)) = None"

lemma delete_own_row:
  assumes "rows_inv (the_store m)" "isProbeOperationKey (pkey p)" "pm_store m \<noteq> None"
    "bget (ls_probes (the_store m)) (pkey p) = Some (ProbeOp p)"
  shows "bget (ls_probes (the_store (try_store (DeleteArmedProbe (arm_ProbeID (pb_Arm p))) m))) (pkey p) = None"
proof -
  let ?i = "arm_ProbeID (pb_Arm p)"
  from assms(3) obtain s where s: "pm_store m = Some s" by auto
  with assms(4) obtain s' where s': "DeleteArmedProbe ?i s = Inr s'" by (simp add: DeleteArmedProbe_def)
  have "probes_ok (ls_probes s)" using assms(1) s by (simp add: rows_inv_def)
  from delete_probe_rows(3) [OF s' this assms(2)] s s' show ?thesis by (simp add: try_store_def)
qed

lemma try_store_fields [simp]:
  "pm_replay (try_store f m) = pm_replay m" "pm_ops (try_store f m) = pm_ops m"
  "pm_replaySource (try_store f m) = pm_replaySource m" "pm_recoveryErr (try_store f m) = pm_recoveryErr m"
  "pm_store (try_store f m) = None \<longleftrightarrow> pm_store m = None" "pm_maxActive (try_store f m) = pm_maxActive m"
  by (rule try_store_cases [of f m]; simp)+

lemma recover_row_accounts:
  assumes "rows_inv (the_store m)" "isProbeOperationKey (pkey p)" "pm_store m \<noteq> None" "untouched p m"
    and "pm_recoveryErr (recover_row clock p m) = None"
  shows "accounted (clock p) p (recover_row clock p m)"
  using assms delete_own_row [OF assms(1-3)]
  by (auto simp: accounted_def untouched_def recover_row_def Let_def expired_def update_conv'
      split: option.splits if_splits)

lemma recover_row_memory:
  assumes "arm_ProbeID (pb_Arm q) \<noteq> i"
  shows "map_of (pm_replay (recover_row clock q m)) i = map_of (pm_replay m) i"
    "map_of (pm_replaySource (recover_row clock q m)) i = map_of (pm_replaySource m) i"
    "map_of (pm_ops (recover_row clock q m)) i = map_of (pm_ops m) i"
  using assms by (auto simp: recover_row_def Let_def update_conv' split: option.splits)

lemma recover_row_sticky:
  "pm_recoveryErr m \<noteq> None \<Longrightarrow> pm_recoveryErr (recover_row clock q m) \<noteq> None"
  "pm_store (recover_row clock q m) = None \<longleftrightarrow> pm_store m = None"
  by (auto simp: recover_row_def Let_def split: option.splits)

lemma recover_row_other_row:
  assumes "rows_inv (the_store m)" "isProbeOperationKey (pkey p)" "arm_ProbeID (pb_Arm q) \<noteq> arm_ProbeID (pb_Arm p)"
  shows "bget (ls_probes (the_store (recover_row clock q m))) (pkey p) = bget (ls_probes (the_store m)) (pkey p)"
proof (rule recover_row_store [of clock q m])
  fix s' assume s': "DeleteArmedProbe (arm_ProbeID (pb_Arm q)) (the_store m) = Inr s'" "the_store (recover_row clock q m) = s'"
  have "probes_ok (ls_probes (the_store m))" using assms(1) by (simp add: rows_inv_def)
  from delete_probe_rows(3) [OF s'(1) this assms(2)] s'(2) assms(3) show ?thesis by simp
qed simp

lemma recover_other:
  assumes "rows_inv (the_store m)" "isProbeOperationKey (pkey p)" "arm_ProbeID (pb_Arm q) \<noteq> arm_ProbeID (pb_Arm p)"
  shows "accounted now p (recover_row clock q m) = accounted now p m" "untouched p (recover_row clock q m) = untouched p m"
  using recover_row_other_row [OF assms] recover_row_memory [OF assms(3)] by (simp_all add: accounted_def untouched_def Let_def)

lemma recover_row_live:
  assumes "\<not> expired (clock p) p"
  shows "the_store (recover_row clock p m) = the_store m"
  by (rule recover_row_store [of clock p m]) (use assms in simp_all)

definition recover_post :: "(ArmedProbe \<Rightarrow> int) \<Rightarrow> ArmedProbe list \<Rightarrow> ProbeManager \<Rightarrow> ProbeManager \<Rightarrow> bool" where
  "recover_post clock rs m m' \<longleftrightarrow>
     (pm_recoveryErr m' = None \<longrightarrow> pm_recoveryErr m = None \<and> (\<forall>p \<in> set rs. accounted (clock p) p m')) \<and>
     (\<forall>p \<in> set rs. \<not> expired (clock p) p \<longrightarrow> bget (ls_probes (the_store m')) (pkey p) = Some (ProbeOp p)) \<and>
     (\<forall>p now. isProbeOperationKey (pkey p) \<longrightarrow> pkey p \<notin> pkey ` set rs \<longrightarrow>
       accounted now p m' = accounted now p m \<and>
       bget (ls_probes (the_store m')) (pkey p) = bget (ls_probes (the_store m)) (pkey p)) \<and> rows_inv (the_store m')"

lemma recover_fold:
  assumes "rows_inv (the_store m)" "pm_store m \<noteq> None" "distinct (map pkey rs)"
    and "\<forall>p \<in> set rs. isProbeOperationKey (pkey p) \<and> untouched p m"
  shows "recover_post clock rs m (fold (recover_row clock) rs m)"
  using assms
proof (induction rs arbitrary: m)
  case (Cons q rs)
  let ?m1 = "recover_row clock q m"
  have q: "isProbeOperationKey (pkey q)" "untouched q m" "pkey q \<notin> pkey ` set rs" using Cons.prems(3,4) by auto
  have "\<forall>p \<in> set rs. isProbeOperationKey (pkey p) \<and> untouched p ?m1"
    using recover_other(2) [OF Cons.prems(1)] Cons.prems(3,4) by (auto simp: image_iff)
  with Cons.IH [OF recov.keeps_rows [OF Cons.prems(1)]] Cons.prems(2,3)
  have IH: "recover_post clock rs ?m1 (fold (recover_row clock) rs ?m1)" by (simp add: recover_row_sticky(2))
  have acc: "accounted (clock q) q ?m1" if "pm_recoveryErr ?m1 = None"
    using recover_row_accounts [OF Cons.prems(1) q(1) Cons.prems(2) q(2) that] .
  have live: "bget (ls_probes (the_store ?m1)) (pkey q) = Some (ProbeOp q)" if "\<not> expired (clock q) q"
    using recover_row_live [of clock q m, OF that] q(2) by (simp add: untouched_def)
  have err: "pm_recoveryErr m = None" if "pm_recoveryErr ?m1 = None"
    using recover_row_sticky(1) [of m clock q] that by blast
  have other: "accounted now p ?m1 = accounted now p m \<and>
      bget (ls_probes (the_store ?m1)) (pkey p) = bget (ls_probes (the_store m)) (pkey p)"
    if "isProbeOperationKey (pkey p)" "pkey p \<noteq> pkey q" for p now
  proof -
    from that(2) have "arm_ProbeID (pb_Arm q) \<noteq> arm_ProbeID (pb_Arm p)" by auto
    from recover_other(1) [OF Cons.prems(1) that(1) this] recover_row_other_row [OF Cons.prems(1) that(1) this]
    show ?thesis by simp
  qed
  show ?case using IH q acc live err other by (simp add: recover_post_def)
qed (simp add: recover_post_def)

lemma new_manager_eq:
  assumes "rows_inv s" "length (oprows (ls_probes s)) \<le> n * page_limit (orDefault 256 maxActive)" "0 < n"
  obtains rs m where "distinct (map pkey rs)"
    "\<forall>i r. isProbeOperationKey (bytes_str i) \<longrightarrow> (LoadArmedProbe i s = Inr (Some r) \<longleftrightarrow> r \<in> set rs \<and> arm_ProbeID (pb_Arm r) = i)"
    "NewProbeManager n clock (Some s) key maxReplay maxActive MarkerActive = Some (fold (recover_row clock) rs m)"
    "the_store m = s" "\<forall>p \<in> set rs. isProbeOperationKey (pkey p) \<and> bget (ls_probes s) (pkey p) = Some (ProbeOp p)"
    "recover_post clock rs m (fold (recover_row clock) rs m)"
proof -
  let ?m = "\<lparr> pm_store = Some s, pm_key = key, pm_ops = [], pm_replay = [], pm_replaySource = [],
     pm_maxReplay = orDefault 4096 maxReplay, pm_maxActive = orDefault 256 maxActive, pm_recoveryErr = None,
     pm_marker = MarkerActive, pm_sweepAfter = [] \<rparr>"
  obtain rs where rs: "map (\<lambda>r. (pkey r, ProbeOp r)) rs = oprows (ls_probes s)" "distinct (map pkey rs)"
    "\<forall>i r. isProbeOperationKey (bytes_str i) \<longrightarrow>
      (LoadArmedProbe i s = Inr (Some r) \<longleftrightarrow> r \<in> set rs \<and> arm_ProbeID (pb_Arm r) = i)"
    "\<forall>r \<in> set rs. isProbeOperationKey (pkey r) \<and> bget (ls_probes s) (pkey r) = Some (ProbeOp r)"
    using assms(1) by (rule rows_list)
  have st: "the_store ?m = s" by simp
  have "length rs = length (oprows (ls_probes s))" unfolding rs(1) [symmetric] by simp
  with assms(2,3) obtain l where l: "n = Suc l" "length rs \<le> Suc l * page_limit (orDefault 256 maxActive)"
    by (cases n) auto
  have rows: "map (\<lambda>r. (pkey r, ProbeOp r)) rs = after_rows [] (ls_probes (the_store ?m))"
    using rs(1) by (simp add: after_rows_def)
  from recov.walk [OF _ rows l(2), of clock] assms(1)
  have "page_loop n (orDefault 256 maxActive) the_store (recover_row clock) [] ?m = Some (None, fold (recover_row clock) rs ?m)"
    unfolding l(1) by simp
  then have new: "NewProbeManager n clock (Some s) key maxReplay maxActive MarkerActive = Some (fold (recover_row clock) rs ?m)"
    by (simp add: NewProbeManager_def Let_def)
  have "\<forall>p \<in> set rs. isProbeOperationKey (pkey p) \<and> untouched p ?m" using rs(4) by (simp add: untouched_def)
  with assms(1) rs(2) have "recover_post clock rs ?m (fold (recover_row clock) rs ?m)" by (intro recover_fold) simp_all
  with that rs(2,3,4) new st show ?thesis by blast
qed

lemma sweep_err [simp]: "pm_recoveryErr (mgr_sweep now m) = pm_recoveryErr m"
proof -
  have row: "pm_recoveryErr (sweep_row i m) = pm_recoveryErr m" for i m
    by (auto simp: sweep_row_def split: sum.split option.split)
  have "pm_recoveryErr (fold sweep_row is m) = pm_recoveryErr m" for "is" m by (induction "is" arbitrary: m) (simp_all add: row)
  then show ?thesis by (simp add: mgr_sweep_def sweep_ops_def Let_def)
qed

text \<open>
  C5. A restart accounts for every durable fence, or it closes the gate. Take a store whose operation rows decode and stand
  under their own probe id (every store call keeps this). With fuel for its pages, the recovery of the probe manager
  returns. Whatever the capacities and the clock, a row that has not expired is still in the store. If the manager is not
  quarantined, then every expired row is deleted, every live consumed row is a replay fence in memory with its deadline,
  source, Forward and digest and is not armed, and every live unconsumed row is armed. If it is quarantined, no TCP
  frame is answered and no UDP frame is matched or passed on.
\<close>

theorem restart_accounts_for_fences:
  assumes "rows_inv s" "length (oprows (ls_probes s)) \<le> n * page_limit (orDefault 256 maxActive)" "0 < n"
  shows "\<exists>m. NewProbeManager n clock (Some s) key maxReplay maxActive MarkerActive = Some m \<and>
    (\<forall>i r. isProbeOperationKey (bytes_str i) \<longrightarrow> LoadArmedProbe i s = Inr (Some r) \<longrightarrow>
      (\<not> expired (clock r) r \<longrightarrow> LoadArmedProbe i (the_store m) = Inr (Some r)) \<and>
      (\<not> Quarantined m \<longrightarrow> accounted (clock r) r m)) \<and>
    (Quarantined m \<longrightarrow>
      (\<forall>k now source f frame. fst (ingress_claim k now source f frame m) = Dropped) \<and>
      (\<forall>k now f addr raw frame. Is4 addr \<longrightarrow> ParseProviderFrame raw = Inr frame \<longrightarrow>
        fst (HandleUDPProbe k now f addr raw m) = udp_drop))"
proof -
  obtain rs m0 where r: "distinct (map pkey rs)"
    "\<forall>i r. isProbeOperationKey (bytes_str i) \<longrightarrow> (LoadArmedProbe i s = Inr (Some r) \<longleftrightarrow> r \<in> set rs \<and> arm_ProbeID (pb_Arm r) = i)"
    "NewProbeManager n clock (Some s) key maxReplay maxActive MarkerActive = Some (fold (recover_row clock) rs m0)"
    "the_store m0 = s" "recover_post clock rs m0 (fold (recover_row clock) rs m0)"
    using assms by (rule new_manager_eq)
  let ?m = "fold (recover_row clock) rs m0"
  have "LoadArmedProbe i (the_store ?m) = Inr (Some p)"
    if "p \<in> set rs" "arm_ProbeID (pb_Arm p) = i" "\<not> expired (clock p) p" for i p
    using r(5) that by (auto simp: recover_post_def LoadArmedProbe_def)
  moreover have "accounted (clock p) p ?m" if "p \<in> set rs" "\<not> Quarantined ?m" for p
    using r(5) that by (auto simp: recover_post_def Quarantined_def)
  moreover have "IsValid addr" if "Is4 addr" for addr using that by (cases addr) simp_all
  ultimately show ?thesis
    by (intro exI [of _ ?m]) (auto simp: r(2,3) Quarantined_def ingress_claim_def HandleUDPProbe_def Let_def)
qed

lemma demo_rows_inv: "rows_inv demo_probes"
proof -
  have "keyed (ls_probes demo_probes)"
    by (auto simp: keyed_def demo_probes_def demo_consumed_def demo_expired_def armed_record_def simp del: replicate_numeral
        split: if_splits)
  with demo_probes_ok(1) show ?thesis by (simp add: rows_inv_def)
qed

theorem restart_accounts_for_fences_witness:
  "length (oprows (ls_probes demo_probes)) \<le> 2 * page_limit (orDefault 256 1) \<and>
   (\<exists>m. NewProbeManager 2 (\<lambda>_. 60) (Some demo_probes) None 0 1 MarkerActive = Some m \<and>
     LoadArmedProbe (str_bytes (demo_probe_key CHR ''a'')) (the_store m) = Inr (Some demo_consumed))"
proof -
  let ?i = "str_bytes (demo_probe_key CHR ''a'')"
  have fuel: "length (oprows (ls_probes demo_probes)) \<le> 2 * page_limit (orDefault 256 1)"
    unfolding demo_probes_ok(2) by (simp add: demo_probes_def page_limit_def orDefault_def)
  have load: "LoadArmedProbe ?i demo_probes = Inr (Some demo_consumed)" by (simp add: LoadArmedProbe_def demo_probes_def)
  have live: "\<not> expired 60 demo_consumed" using demo_rows(3) by simp
  have op: "isProbeOperationKey (bytes_str ?i)" using demo_keys(1) by simp
  from restart_accounts_for_fences [OF demo_rows_inv fuel, of "\<lambda>_. 60" None 0]
  obtain m where m: "NewProbeManager 2 (\<lambda>_. 60) (Some demo_probes) None 0 1 MarkerActive = Some m"
    "\<forall>i r. isProbeOperationKey (bytes_str i) \<longrightarrow> LoadArmedProbe i demo_probes = Inr (Some r) \<longrightarrow>
      (\<not> expired 60 r \<longrightarrow> LoadArmedProbe i (the_store m) = Inr (Some r)) \<and> (\<not> Quarantined m \<longrightarrow> accounted 60 r m)"
    by auto
  from m(2) op load live have "LoadArmedProbe ?i (the_store m) = Inr (Some demo_consumed)" by blast
  with m(1) fuel show ?thesis by blast
qed

end
