(* ===== verification/Probe_Run.thy ===== *)
theory Probe_Run
  imports Probe_Recovery
begin

text \<open>
  Runs of the probe manager: every call of the manager, the two halves of the TCP ingress between which other calls may
  run, and the restart, in any order. The frames a run lets out are its output: the acknowledgements (ACK1) and the
  receipts (RCT1), each with its probe id. A frame counts as let out when the code may write it, whether or not the
  write succeeds.
\<close>

section \<open>Operations and their output\<close>

datatype frame_out = OutACK bytes bytes | OutRCT bytes bytes

datatype mgr_op =
    MHandleArm int bytes string
  | MCommitArm PreparedProbeArm
  | MAdmitArm PreparedProbeArm string ActivationStates ActivationStates
  | MAbort PreparedProbeArm
  | MTick int
  | MHasSource int bytes string
  | MClaim int bytes string ProviderFrame
  | MCommit bytes armedOp ProviderFrame conn_io
  | MIngress int conn_io "(bytes \<Rightarrow> bool) option" bytes string bytes
  | MReplay conn_io bytes ProviderFrame
  | MRetryACK conn_io bytes
  | MRetryReceipts nat "(bytes \<Rightarrow> bool) option"
  | MAcknowledge string
  | MUDP int string Addr bytes
  | MMarkACK bytes
  | MMarkReceipt bytes
  | MRestart nat "ArmedProbe \<Rightarrow> int" "bytes option" int int string

definition ack_out :: "bytes \<Rightarrow> bytes option \<Rightarrow> frame_out list" where
  "ack_out i a = (case a of None \<Rightarrow> [] | Some x \<Rightarrow> [OutACK i x])"

definition frame_id :: "bytes \<Rightarrow> bytes" where
  "frame_id stream = (case read_frame stream of None \<Rightarrow> []
     | Some raw \<Rightarrow> (case ParseProviderFrame raw of Inl _ \<Rightarrow> [] | Inr frame \<Rightarrow> wan_ProbeID frame))"

fun mexec :: "crypto \<Rightarrow> mgr_op \<Rightarrow> ProbeManager \<Rightarrow> frame_out list \<times> ProbeManager" where
  "mexec k (MHandleArm now raw f) m = ([], snd (HandleProbeArm k now raw f m))"
| "mexec k (MCommitArm p) m = ([], snd (CommitPreparedProbeArm k p m))"
| "mexec k (MAdmitArm p act before after) m = ([], snd (CommitPreparedProbeArmWithActivation k p act before after m))"
| "mexec k (MAbort p) m = ([], snd (AbortPreparedProbeArm p m))"
| "mexec k (MTick now) m = ([], sweep_tick now m)"
| "mexec k (MHasSource now ip f) m = ([], snd (hasArmedBySource now ip f m))"
| "mexec k (MClaim now source f frame) m = ([], snd (ingress_claim k now source f frame m))"
| "mexec k (MCommit key op frame io) m =
     (case ingress_commit k key op frame io m of
        (None, m') \<Rightarrow> ([], m')
      | (Some (ack, rct), m') \<Rightarrow> ([OutACK (arm_ProbeID (mo_arm op)) ack, OutRCT (arm_ProbeID (mo_arm op)) rct], m'))"
| "mexec k (MIngress now io send source f stream) m =
     (case handleIngress k now io send source f stream m of
        (acks, rcts, m') \<Rightarrow> (map (OutACK (frame_id stream)) acks @ map (OutRCT (frame_id stream)) rcts, m'))"
| "mexec k (MReplay io source frame) m =
     (case replayPendingACK k io source frame m of (a, m') \<Rightarrow> (ack_out (wan_ProbeID frame) a, m'))"
| "mexec k (MRetryACK io i) m = (case RetryPendingACK io i m of (a, m') \<Rightarrow> (ack_out i a, m'))"
| "mexec k (MRetryReceipts n send) m =
     (case RetryPendingReceipts n k send m of
        None \<Rightarrow> ([], m) | Some (sent, _, _, m') \<Rightarrow> (map (\<lambda>(i, r). OutRCT i r) sent, m'))"
| "mexec k (MAcknowledge op) m = ([], snd (AcknowledgeReceipt k op m))"
| "mexec k (MUDP now f addr raw) m =
     (case HandleUDPProbe k now f addr raw m of
        (r, m') \<Rightarrow> ((if ur_ACK r = [] then [] else [OutACK (ur_ProbeID r) (ur_ACK r)]) @
                   (if ur_Receipt r = [] then [] else [OutRCT (ur_ProbeID r) (ur_Receipt r)]), m'))"
| "mexec k (MMarkACK i) m = ([], MarkUDPProbeACKSent i m)"
| "mexec k (MMarkReceipt i) m = ([], MarkUDPProbeReceiptSent i m)"
| "mexec k (MRestart n clock key maxReplay maxActive marker) m =
     (case NewProbeManager n clock (pm_store m) key maxReplay maxActive marker of None \<Rightarrow> ([], m) | Some m' \<Rightarrow> ([], m'))"

fun mrun :: "crypto \<Rightarrow> mgr_op list \<Rightarrow> ProbeManager \<Rightarrow> frame_out list \<times> ProbeManager" where
  "mrun k [] m = ([], m)"
| "mrun k (a # as) m = (let (out, m1) = mexec k a m; (outs, m2) = mrun k as m1 in (out @ outs, m2))"

text \<open>The clock readings of a call (a restart reads the clock for each row), and the probe a call may withdraw.\<close>

fun clock_reads :: "mgr_op \<Rightarrow> int set" where
  "clock_reads (MHandleArm now _ _) = {now}"
| "clock_reads (MTick now) = {now}"
| "clock_reads (MHasSource now _ _) = {now}"
| "clock_reads (MClaim now _ _ _) = {now}"
| "clock_reads (MIngress now _ _ _ _ _) = {now}"
| "clock_reads (MUDP now _ _ _) = {now}"
| "clock_reads (MRestart _ clock _ _ _ _) = range clock"
| "clock_reads _ = {}"

fun withdraws :: "mgr_op \<Rightarrow> bytes \<Rightarrow> bool" where
  "withdraws (MAbort p) i \<longleftrightarrow> arm_ProbeID (pp_Arm p) = i"
| "withdraws _ i \<longleftrightarrow> False"

section \<open>Calls keep the fences\<close>

definition fences_kept :: "int set \<Rightarrow> bytes set \<Rightarrow> Store \<Rightarrow> Store \<Rightarrow> bool" where
  "fences_kept T X s s' \<longleftrightarrow> rows_inv s' \<and> (\<forall>i r d. isProbeOperationKey (bytes_str i) \<longrightarrow> i \<notin> X \<longrightarrow> fence_at i r s \<longrightarrow>
     pb_Consumed r \<longrightarrow> pb_ReceiptDeadline r = Some d \<longrightarrow> (\<forall>t \<in> T. t < d) \<longrightarrow> fence_at i r s')"

lemma fences_refl: "rows_inv s \<Longrightarrow> fences_kept T X s s"
  by (simp add: fences_kept_def)

lemma fences_trans: "fences_kept T X a b \<Longrightarrow> fences_kept T X b c \<Longrightarrow> fences_kept T X a c"
  by (auto simp: fences_kept_def)

lemma fences_inv: "fences_kept T X s s' \<Longrightarrow> rows_inv s'"
  by (simp add: fences_kept_def)

lemma fences_pexec:
  assumes "rows_inv s" "pexec k a s = Inr s'"
    and "\<And>i r d. i \<notin> X \<Longrightarrow> pb_Consumed r \<Longrightarrow> pb_ReceiptDeadline r = Some d \<Longrightarrow> \<forall>t \<in> T. t < d \<Longrightarrow> spares i r a"
  shows "fences_kept T X s s'"
proof -
  have "fence_at i r s'" if "isProbeOperationKey (bytes_str i)" "i \<notin> X" "fence_at i r s" "pb_Consumed r"
    "pb_ReceiptDeadline r = Some d" "\<forall>t \<in> T. t < d" for i r d
    using fence_run [of i r s "[a]" k] that assms(2,3) by (simp add: prun_def)
  with pexec_rows_inv [OF assms(2,1)] show ?thesis by (auto simp: fences_kept_def)
qed

lemma fences_rows_kept:
  assumes "rows_inv s" "rows_kept (ls_probes s) (ls_probes s')"
  shows "fences_kept T X s s'"
proof -
  have "fence_at i r s'" if "isProbeOperationKey (bytes_str i)" "fence_at i r s" for i r
    using that assms(2) fence_rows [OF assms(2) that(1)] by (auto simp: fence_at_def intro: row_kept_trans)
  with rows_inv_kept [OF assms] show ?thesis by (auto simp: fences_kept_def)
qed

text \<open>A deletion is harmless when the row is not a live fence.\<close>

lemma fences_delete:
  assumes "rows_inv s" "DeleteArmedProbe j s = Inr s'"
    and "\<And>r d. bget (ls_probes s) (bytes_str j) = Some (ProbeOp r) \<Longrightarrow> pb_Consumed r \<Longrightarrow> pb_ReceiptDeadline r = Some d \<Longrightarrow>
      \<exists>t \<in> T. \<not> t < d"
  shows "fences_kept T X s s'"
proof -
  have ok: "probes_ok (ls_probes s)" using assms(1) by (simp add: rows_inv_def)
  have "fence_at i r s'" if op: "isProbeOperationKey (bytes_str i)" and f: "fence_at i r s" "pb_Consumed r"
    "pb_ReceiptDeadline r = Some d" "\<forall>t \<in> T. t < d" for i r d
  proof -
    from f(1) obtain r1 where r1: "bget (ls_probes s) (bytes_str i) = Some (ProbeOp r1)" "row_kept r r1"
      by (auto simp: fence_at_def)
    have "j \<noteq> i" using assms(3) [of r1 d] r1 f(2-4) by (auto simp: row_kept_def)
    from fence_delete [OF ok op r1(1) assms(2) this] r1(2) show ?thesis by (auto simp: fence_at_def intro: row_kept_trans)
  qed
  with delete_rows_inv [OF assms(2,1)] show ?thesis by (auto simp: fences_kept_def)
qed

lemma fences_try:
  assumes "rows_inv (the_store m)" "\<And>s'. f (the_store m) = Inr s' \<Longrightarrow> fences_kept T X (the_store m) s'"
  shows "fences_kept T X (the_store m) (the_store (try_store f m))"
  by (rule try_store_cases [of f m]) (use assms fences_refl in auto)

lemma fences_publish:
  assumes "rows_inv (the_store m)" "\<And>s'. r = Inr s' \<Longrightarrow> fences_kept T X (the_store m) s'"
  shows "fences_kept T X (the_store m) (the_store (snd (publish r E p m)))"
  using assms fences_refl by (auto simp: publish_def split: sum.split)

lemma fences_fold:
  assumes "\<And>x m. x \<in> set xs \<Longrightarrow> rows_inv (the_store m) \<Longrightarrow> fences_kept T X (the_store m) (the_store (f x m))" "rows_inv (the_store m)"
  shows "fences_kept T X (the_store m) (the_store (fold f xs m))"
  using assms
proof (induction xs arbitrary: m)
  case (Cons x xs)
  from Cons.prems have 1: "fences_kept T X (the_store m) (the_store (f x m))" by simp
  have "fences_kept T X (the_store (f x m)) (the_store (fold f xs (f x m)))"
    by (rule Cons.IH) (use Cons.prems(1) fences_inv [OF 1] in auto)
  with 1 show ?case by (auto intro: fences_trans)
qed (simp add: fences_refl)

lemma fences_sweep_row: "rows_inv (the_store m) \<Longrightarrow> fences_kept T X (the_store m) (the_store (sweep_row i m))"
proof -
  assume inv: "rows_inv (the_store m)"
  have "fences_kept T X (the_store m) (the_store (try_store (DeleteArmedProbe i) m))"
    if "\<And>r. bget (ls_probes (the_store m)) (bytes_str i) = Some (ProbeOp r) \<Longrightarrow> \<not> pb_Consumed r"
    using that by (intro fences_try inv fences_delete) auto
  with inv show ?thesis
    by (auto simp: sweep_row_def LoadArmedProbe_def fences_refl ebind_def elim!: decode_probe.elims
        split: sum.splits option.splits)
qed

lemma fences_mgr_sweep: "rows_inv (the_store m) \<Longrightarrow> fences_kept T X (the_store m) (the_store (mgr_sweep now m))"
  using fences_fold [of _ T X sweep_row "m\<lparr>pm_ops := filter (\<lambda>(_, op). now < mo_deadline op) (pm_ops m)\<rparr>"] fences_sweep_row
  by (auto simp: mgr_sweep_def sweep_ops_def Let_def fences_refl)

section \<open>Every call\<close>

lemma fences_recover:
  assumes "rows_inv (the_store m)" "distinct (map pkey rs)" "range clock \<subseteq> T"
    and "\<forall>p \<in> set rs. isProbeOperationKey (pkey p) \<and> bget (ls_probes (the_store m)) (pkey p) = Some (ProbeOp p)"
  shows "fences_kept T X (the_store m) (the_store (fold (recover_row clock) rs m))"
  using assms(1,2,4)
proof (induction rs arbitrary: m)
  case (Cons p rs)
  let ?m1 = "recover_row clock p m"
  have 1: "fences_kept T X (the_store m) (the_store ?m1)"
  proof (rule recover_row_store [of clock p m])
    fix s' assume s': "expired (clock p) p" "DeleteArmedProbe (arm_ProbeID (pb_Arm p)) (the_store m) = Inr s'" "the_store ?m1 = s'"
    have "fences_kept T X (the_store m) s'"
      by (rule fences_delete [OF Cons.prems(1) s'(2)]) (use Cons.prems(3) s'(1) assms(3) in \<open>auto simp: expired_def\<close>)
    with s'(3) show ?thesis by simp
  qed (use Cons.prems(1) fences_refl in simp)
  have "bget (ls_probes (the_store ?m1)) (pkey q) = Some (ProbeOp q)" if "q \<in> set rs" for q
  proof -
    from that Cons.prems(2) have "arm_ProbeID (pb_Arm p) \<noteq> arm_ProbeID (pb_Arm q)" by (auto simp: image_iff)
    with recover_row_other_row [OF Cons.prems(1)] Cons.prems(3) that show ?thesis by simp
  qed
  with Cons.IH [OF fences_inv [OF 1]] Cons.prems(2,3)
  have "fences_kept T X (the_store ?m1) (the_store (fold (recover_row clock) rs ?m1))" by simp
  with 1 show ?case by (auto intro: fences_trans)
qed (simp add: fences_refl)

lemma page_loop_more: "page_loop n limit st f after x = Some y \<Longrightarrow> page_loop (Suc n) limit st f after x = Some y"
proof (induction n arbitrary: after x)
  case (Suc n)
  show ?case
  proof (cases "ListArmedProbesPage limit after (st x)")
    case (Inl e)
    with Suc.prems show ?thesis by simp
  next
    case (Inr page)
    obtain ps nxt fin where page: "page = (ps, nxt, fin)" by (cases page)
    have eq: "page_loop (Suc l) limit st f after x =
      (if fin then Some (None, fold f ps x) else page_loop l limit st f nxt (fold f ps x))" for l
      by (simp add: Inr page Let_def)
    from Suc.prems Suc.IH show ?thesis unfolding eq by (cases fin) simp_all
  qed
qed simp

lemma page_loop_mono: "page_loop n limit st f after x = Some y \<Longrightarrow> page_loop (n + l) limit st f after x = Some y"
  by (induction l) (simp_all add: page_loop_more del: page_loop.simps)

lemma restart_rows:
  assumes "NewProbeManager n clock (Some s) key maxReplay maxActive MarkerActive = Some m'" "rows_inv s"
  obtains rs m where "the_store m = s" "m' = fold (recover_row clock) rs m" "distinct (map pkey rs)"
    "\<forall>p \<in> set rs. isProbeOperationKey (pkey p) \<and> bget (ls_probes s) (pkey p) = Some (ProbeOp p)"
proof -
  let ?n = "Suc n + length (oprows (ls_probes s))"
  have fuel: "length (oprows (ls_probes s)) \<le> ?n * page_limit (orDefault 256 maxActive)"
    by (rule order_trans [OF _ mult_le_mono2 [of 1]]) (simp_all add: Suc_leI)
  obtain rs m where r: "distinct (map pkey rs)"
    "\<forall>i r. isProbeOperationKey (bytes_str i) \<longrightarrow> (LoadArmedProbe i s = Inr (Some r) \<longleftrightarrow> r \<in> set rs \<and> arm_ProbeID (pb_Arm r) = i)"
    "NewProbeManager ?n clock (Some s) key maxReplay maxActive MarkerActive = Some (fold (recover_row clock) rs m)"
    "the_store m = s" "\<forall>p \<in> set rs. isProbeOperationKey (pkey p) \<and> bget (ls_probes s) (pkey p) = Some (ProbeOp p)"
    using assms(2) fuel by (rule new_manager_eq) simp
  have more: "page_loop ?n limit st f after x = Some y" if "page_loop n limit st f after x = Some y" for limit st f after x y
    using page_loop_mono [OF that, of "Suc (length (oprows (ls_probes s)))"] by simp
  have "NewProbeManager ?n clock (Some s) key maxReplay maxActive MarkerActive = Some m'"
    using assms(1) unfolding NewProbeManager_def Let_def
    by (auto simp del: page_loop.simps dest!: more split: option.splits)
  with r(3) have "m' = fold (recover_row clock) rs m" by simp
  with that r(1,4,5) show ?thesis by blast
qed

text \<open>An emitted frame is the one in the consumed row.\<close>

fun emitted_ok :: "Store \<Rightarrow> frame_out \<Rightarrow> bool" where
  "emitted_ok s (OutACK i a) \<longleftrightarrow> (isProbeOperationKey (bytes_str i) \<longrightarrow>
     (\<exists>r. bget (ls_probes s) (bytes_str i) = Some (ProbeOp r) \<and> pb_Consumed r \<and> pb_ACK r = a))"
| "emitted_ok s (OutRCT i x) \<longleftrightarrow> (isProbeOperationKey (bytes_str i) \<longrightarrow>
     (\<exists>r. bget (ls_probes s) (bytes_str i) = Some (ProbeOp r) \<and> pb_Consumed r \<and> pb_Receipt r = x))"

lemma emitted_kept: "rows_kept (ls_probes s) (ls_probes s') \<Longrightarrow> emitted_ok s x \<Longrightarrow> emitted_ok s' x"
  by (cases x) (fastforce simp: rows_kept_def row_kept_def)+

definition step_ok :: "int set \<Rightarrow> bytes set \<Rightarrow> Store \<Rightarrow> frame_out list \<times> ProbeManager \<Rightarrow> bool" where
  "step_ok T X s r \<longleftrightarrow> fences_kept T X s (the_store (snd r)) \<and> (\<forall>x \<in> set (fst r). emitted_ok (the_store (snd r)) x)"

lemma step_silent: "fences_kept T X s (the_store m') \<Longrightarrow> step_ok T X s ([], m')"
  by (simp add: step_ok_def)

lemma step_compose:
  "fences_kept T X s (the_store m1) \<Longrightarrow> step_ok T X (the_store m1) r \<Longrightarrow> step_ok T X s r"
  by (auto simp: step_ok_def intro: fences_trans)

lemma consume_emits:
  assumes "MarkArmedProbeConsumedWithACK i rct ack ch mid d s = Inr s'" "rows_inv s"
  shows "emitted_ok s' (OutACK i ack)" "emitted_ok s' (OutRCT i rct)" "fences_kept T X s s'"
proof -
  have bk: "bucket_ok (ls_probes s)" using assms(2) by (simp add: rows_inv_def probes_ok_bucket)
  have "\<exists>r. bget (ls_probes s') (bytes_str i) = Some (ProbeOp r) \<and> pb_Consumed r \<and> pb_ACK r = ack \<and> pb_Receipt r = rct"
    if "isProbeOperationKey (bytes_str i)"
  proof -
    from assms(1) obtain r where r: "bget (ls_probes s) (bytes_str i) = Some (ProbeOp r)"
      by (auto simp: MarkArmedProbeConsumedWithACK_def with_probe_Inr)
    show ?thesis
    proof (cases "pb_Consumed r")
      case True
      with assms(1) r show ?thesis
        by (auto simp: MarkArmedProbeConsumedWithACK_def with_probe_def split: if_splits)
    next
      case False
      let ?r = "r\<lparr>pb_Consumed := True, pb_Receipt := rct, pb_ReceiptSent := False, pb_ReceiptMessageID := mid,
          pb_ReceiptDeadline := d, pb_ChallengeHash := ch, pb_ACK := ack, pb_ACKSent := False\<rparr>"
      from assms(1) r False have "rewrote i ?r (ls_probes s) (ls_probes s')"
        by (auto simp: MarkArmedProbeConsumedWithACK_def with_probe_def ebind_Inr_iff put_probe_Inr put_index_Inr
            rewrote_def split: if_splits)
      from rewrote_get [OF this bk that] show ?thesis by simp
    qed
  qed
  then show "emitted_ok s' (OutACK i ack)" "emitted_ok s' (OutRCT i rct)" by auto
  show "fences_kept T X s s'"
    by (rule fences_pexec [OF assms(2), of undefined "PConsumeACK i rct ack ch mid d"]) (use assms(1) in \<open>simp_all add: spares_def\<close>)
qed

text \<open>Marks after a write.\<close>

lemma rows_kept_try:
  assumes "rows_inv (the_store m)" "f = MarkArmedProbeACKSent i \<or> f = MarkArmedProbeReceiptSent i"
  shows "rows_kept (ls_probes (the_store m)) (ls_probes (the_store (try_store f m)))"
proof (rule try_store_cases [of f m])
  have ok: "probes_ok (ls_probes (the_store m))" using assms(1) by (simp add: rows_inv_def)
  then show ?thesis if "try_store f m = m" using that by (simp add: rows_kept_refl)
  show ?thesis if st: "pm_store m = Some s" "f s = Inr s'" "try_store f m = m\<lparr>pm_store := Some s'\<rparr>" for s s'
  proof -
    from st(2) assms(2) have "annotated i s s'" by (auto intro: annotations)
    with annotated_rows [OF this] ok st show ?thesis by simp
  qed
qed

lemma step_mark:
  assumes "rows_inv (the_store m)" "\<forall>x \<in> set out. emitted_ok (the_store m) x"
  shows "step_ok T X (the_store m) (out, try_store (MarkArmedProbeACKSent i) m)"
    "step_ok T X (the_store m) (out, try_store (MarkArmedProbeReceiptSent i) m)"
  using rows_kept_try [OF assms(1), of _ i] assms by (auto simp: step_ok_def fences_rows_kept intro: emitted_kept)

lemma step_send_ack:
  assumes "rows_inv (the_store m)" "emitted_ok (the_store m) (OutACK i ack)"
  shows "step_ok T X (the_store m) (case send_ack io i ack m of (a, m') \<Rightarrow> (ack_out i a, m'))"
proof (cases io)
  case WriteDone
  with step_mark(1) [OF assms(1), of "[OutACK i ack]"] assms(2) show ?thesis
    by (simp add: send_ack_def ack_out_def)
qed (use assms in \<open>auto simp: send_ack_def ack_out_def step_ok_def fences_refl\<close>)

lemma ingress_commit_cases:
  assumes "ingress_commit k key op frame io m = (r, m')"
  obtains "r = None" "the_store m' = the_store m"
  | s s' ack rct where "pm_store m = Some s" "r = Some (ack, rct)" "m' = m\<lparr>pm_store := Some s'\<rparr>"
      "MarkArmedProbeConsumedWithACK (arm_ProbeID (mo_arm op)) rct ack (wan_ChallengeHash k frame)
         (probeReceiptOperationID k rct) (Some (mo_deadline op + ProbeReplayWindow)) s = Inr s'"
proof -
  have rel: "the_store (release_claim i op m) = the_store m" for i by (simp add: release_claim_def)
  show ?thesis
  proof (cases "ack_bytes k key op frame"; cases "receipt_bytes k key op frame")
    fix ack rct assume 1: "ack_bytes k key op frame = Inr ack" "receipt_bytes k key op frame = Inr rct"
    show ?thesis
    proof (cases "io = DeadlineFails \<or> pm_store m = None")
      case True
      with assms 1 rel have "r = None" "the_store m' = the_store m" by (auto simp: ingress_commit_def split: option.splits)
      then show ?thesis by (rule that(1))
    next
      case False
      then obtain s where s: "io \<noteq> DeadlineFails" "pm_store m = Some s" by auto
      let ?c = "MarkArmedProbeConsumedWithACK (arm_ProbeID (mo_arm op)) rct ack (wan_ChallengeHash k frame)
         (probeReceiptOperationID k rct) (Some (mo_deadline op + ProbeReplayWindow)) s"
      show ?thesis
      proof (cases ?c)
        case (Inl e)
        with assms 1 s rel have "r = None" "the_store m' = the_store m" by (auto simp: ingress_commit_def)
        then show ?thesis by (rule that(1))
      next
        case (Inr s')
        with assms 1 s have "r = Some (ack, rct)" "m' = m\<lparr>pm_store := Some s'\<rparr>" by (auto simp: ingress_commit_def)
        with s(2) Inr show ?thesis by (intro that(2))
      qed
    qed
  qed (use assms that(1) in \<open>auto simp: ingress_commit_def\<close>)
qed

lemma step_commit:
  assumes "rows_inv (the_store m)" "ingress_commit k key op frame io m = (r, m')"
  shows "fences_kept T X (the_store m) (the_store m')"
    and "r = Some (ack, rct) \<Longrightarrow> emitted_ok (the_store m') (OutACK (arm_ProbeID (mo_arm op)) ack)"
    and "r = Some (ack, rct) \<Longrightarrow> emitted_ok (the_store m') (OutRCT (arm_ProbeID (mo_arm op)) rct)"
proof -
  from assms(2) have "fences_kept T X (the_store m) (the_store m') \<and> (r = Some (ack, rct) \<longrightarrow>
      emitted_ok (the_store m') (OutACK (arm_ProbeID (mo_arm op)) ack) \<and>
      emitted_ok (the_store m') (OutRCT (arm_ProbeID (mo_arm op)) rct))"
  proof (cases rule: ingress_commit_cases)
    case 1
    with assms(1) show ?thesis by (simp add: fences_refl)
  next
    case (2 s s' ack' rct')
    with assms(1) consume_emits [OF 2(4)] show ?thesis by (auto simp del: emitted_ok.simps)
  qed
  then show "fences_kept T X (the_store m) (the_store m')"
    "r = Some (ack, rct) \<Longrightarrow> emitted_ok (the_store m') (OutACK (arm_ProbeID (mo_arm op)) ack)"
    "r = Some (ack, rct) \<Longrightarrow> emitted_ok (the_store m') (OutRCT (arm_ProbeID (mo_arm op)) rct)" by blast+
qed

lemma step_finish:
  assumes "rows_inv (the_store m)" "emitted_ok (the_store m) (OutACK i ack)" "emitted_ok (the_store m) (OutRCT i rct)"
    and "ingress_finish io send i ack rct m = (acks, rcts, m')"
  shows "step_ok T X (the_store m) (map (OutACK i) acks @ map (OutRCT i) rcts, m')"
proof -
  let ?m1 = "try_store (MarkArmedProbeACKSent i) m" and ?out = "[OutACK i ack, OutRCT i rct]"
  have 1: "step_ok T X (the_store m) (?out, ?m1)" using step_mark(1) [OF assms(1), of ?out] assms(2,3) by simp
  then have inv1: "rows_inv (the_store ?m1)" "\<forall>x \<in> set ?out. emitted_ok (the_store ?m1) x"
    by (auto simp only: step_ok_def fences_kept_def fst_conv snd_conv)
  have 2: "step_ok T X (the_store m) (?out, try_store (MarkArmedProbeReceiptSent i) ?m1)"
  proof (rule step_compose [OF _ step_mark(2) [OF inv1]])
    show "fences_kept T X (the_store m) (the_store ?m1)" using 1 by (simp add: step_ok_def)
  qed
  have sub: "set (map (OutACK i) acks @ map (OutRCT i) rcts) \<subseteq> set ?out"
    using assms(4) by (auto simp: ingress_finish_def Let_def split: if_splits option.splits)
  have "m' \<in> {m, ?m1, try_store (MarkArmedProbeReceiptSent i) ?m1}"
    using assms(4) by (auto simp: ingress_finish_def Let_def split: if_splits option.splits)
  moreover have "step_ok T X (the_store m) (?out, m)" using assms(1-3) by (simp add: step_ok_def fences_refl)
  ultimately have "step_ok T X (the_store m) (?out, m')" using 1 2 by auto
  with sub show ?thesis unfolding step_ok_def fst_conv snd_conv by blast
qed

lemma load_row: "LoadArmedProbe i s = Inr (Some r) \<longleftrightarrow> bget (ls_probes s) (bytes_str i) = Some (ProbeOp r)"
  by (auto simp: LoadArmedProbe_def ebind_Inr_iff split: option.splits)

lemma step_replay:
  assumes "rows_inv (the_store m)"
  shows "step_ok T X (the_store m) (case replayPendingACK k io source frame m of (a, m') \<Rightarrow> (ack_out (wan_ProbeID frame) a, m'))"
proof (cases "replayPendingACK k io source frame m = (None, m)")
  case True
  with assms show ?thesis by (simp add: ack_out_def step_silent fences_refl)
next
  case False
  then obtain r where r: "bget (ls_probes (the_store m)) (bytes_str (wan_ProbeID frame)) = Some (ProbeOp r)" "pb_Consumed r"
    "replayPendingACK k io source frame m = send_ack io (wan_ProbeID frame) (pb_ACK r) m"
    by (auto simp: replayPendingACK_def load_row split: sum.splits option.splits if_splits)
  then have "emitted_ok (the_store m) (OutACK (wan_ProbeID frame) (pb_ACK r))" by simp
  from step_send_ack [OF assms this] r(3) show ?thesis by simp
qed

lemma step_retry_ack:
  assumes "rows_inv (the_store m)"
  shows "step_ok T X (the_store m) (case RetryPendingACK io i m of (a, m') \<Rightarrow> (ack_out i a, m'))"
proof (cases "RetryPendingACK io i m = (None, m)")
  case True
  with assms show ?thesis by (simp add: ack_out_def step_silent fences_refl)
next
  case False
  then obtain r where r: "bget (ls_probes (the_store m)) (bytes_str i) = Some (ProbeOp r)" "pb_Consumed r"
    "RetryPendingACK io i m = send_ack io i (pb_ACK r) m"
    by (auto simp: RetryPendingACK_def load_row split: sum.splits option.splits if_splits)
  then have "emitted_ok (the_store m) (OutACK i (pb_ACK r))" by simp
  from step_send_ack [OF assms this] r(3) show ?thesis by simp
qed

lemma candidate_id: "find (candidate k now source f frame) xs = Some (j, op) \<Longrightarrow> arm_ProbeID (mo_arm op) = wan_ProbeID frame"
  by (induction xs) (auto simp: candidate_def split: if_splits)

lemma claim_store:
  assumes "ingress_claim k now source f frame m = (c, m1)"
  shows "the_store m1 = the_store (mgr_sweep now m)" "c = Claimed key op \<Longrightarrow> arm_ProbeID (mo_arm op) = wan_ProbeID frame"
  using assms
  by (auto simp: ingress_claim_def Let_def candidate_id split: if_splits option.splits)

lemma fences_claim:
  assumes "rows_inv (the_store m)" "ingress_claim k now source f frame m = (c, m1)"
  shows "fences_kept T X (the_store m) (the_store m1)"
  using claim_store(1) [OF assms(2)] fences_mgr_sweep [OF assms(1)] by simp

lemma step_ingress:
  assumes inv: "rows_inv (the_store m)"
  shows "step_ok T X (the_store m) (mexec k (MIngress now io send source f stream) m)"
proof (cases "read_frame stream = None \<or> (\<exists>raw e. read_frame stream = Some raw \<and> ParseProviderFrame raw = Inl e)")
  case True
  with inv show ?thesis by (auto simp: handleIngress_def step_silent fences_refl)
next
  case False
  then obtain raw frame where fr: "read_frame stream = Some raw" "ParseProviderFrame raw = Inr frame"
    by (metis not_None_eq sum.exhaust)
  have id: "frame_id stream = wan_ProbeID frame" by (simp add: frame_id_def fr)
  obtain c m1 where c: "ingress_claim k now source f frame m = (c, m1)" by force
  note f1 = fences_claim [OF inv c]
  note inv1 = fences_inv [OF f1]
  show ?thesis
  proof (cases c)
    case Dropped
    with f1 c fr show ?thesis by (simp add: handleIngress_def step_silent)
  next
    case Replayed
    obtain a m2 where r: "replayPendingACK k io source frame m1 = (a, m2)" by force
    with step_compose [OF f1 step_replay [OF inv1, where k = k and io = io and source = source and frame = frame]]
    have "step_ok T X (the_store m) (ack_out (wan_ProbeID frame) a, m2)" by simp
    with Replayed c r fr id show ?thesis by (cases a) (simp_all add: handleIngress_def ack_out_def)
  next
    case (Claimed key op)
    have same: "arm_ProbeID (mo_arm op) = wan_ProbeID frame" using claim_store(2) [OF c Claimed] .
    obtain r m2 where r: "ingress_commit k key op frame io m1 = (r, m2)" by force
    note f2 = step_commit(1) [OF inv1 r]
    show ?thesis
    proof (cases r)
      case None
      with Claimed c r fr fences_trans [OF f1 f2] show ?thesis by (simp add: handleIngress_def step_silent)
    next
      case (Some ar)
      obtain ack rct where ar: "ar = (ack, rct)" by (cases ar)
      obtain acks rcts m3 where fin: "ingress_finish io send (arm_ProbeID (mo_arm op)) ack rct m2 = (acks, rcts, m3)"
        by (metis prod_cases3)
      from step_finish [OF fences_inv [OF f2] step_commit(2,3) [OF inv1 r Some [unfolded ar]] fin]
      have "step_ok T X (the_store m) (map (OutACK (wan_ProbeID frame)) acks @ map (OutRCT (wan_ProbeID frame)) rcts, m3)"
        unfolding same by (rule step_compose [OF fences_trans [OF f1 f2]])
      with Claimed c r Some ar fin fr id show ?thesis by (simp add: handleIngress_def)
    qed
  qed
qed

definition udp_out :: "UDPProbeResult \<Rightarrow> frame_out list" where
  "udp_out r = (if ur_ACK r = [] then [] else [OutACK (ur_ProbeID r) (ur_ACK r)]) @
     (if ur_Receipt r = [] then [] else [OutRCT (ur_ProbeID r) (ur_Receipt r)])"

lemma udp_out_none [simp]: "udp_out udp_nothing = []" "udp_out udp_drop = []"
  by (simp_all add: udp_out_def udp_drop_def udp_nothing_def)

lemma udp_commit_step:
  assumes "rows_inv (the_store m)" "pm_store m = Some s" "udp_commit k key f source frame n op s m = (r, m')"
  shows "step_ok T X (the_store m) (udp_out r, m')"
proof -
  consider "r \<in> {udp_nothing, udp_drop}" "m' = m"
    | ack rct s' where
      "MarkArmedProbeConsumedWithACK (wan_ProbeID frame) rct ack (wan_ChallengeHash k frame) (probeReceiptOperationID k rct)
         (Some (mo_deadline op + ProbeReplayWindow)) s = Inr s'"
      "r = \<lparr> ur_Matched = True, ur_Drop = False, ur_ProbeID = wan_ProbeID frame, ur_ACK = ack, ur_Receipt = rct \<rparr>"
      "the_store m' = s'"
    using assms(3) by (auto simp: udp_commit_def Let_def split: sum.splits if_splits)
  then show ?thesis
  proof cases
    case 1
    with assms(1) show ?thesis by (auto simp: step_silent fences_refl)
  next
    case (2 ack rct s')
    from assms(1,2) consume_emits [OF 2(1)] 2(2,3) show ?thesis
      by (auto simp: step_ok_def udp_out_def simp del: emitted_ok.simps)
  qed
qed

lemma udp_replay_emits: "x \<in> set (udp_out (udp_replay k f source frame m)) \<Longrightarrow> emitted_ok (the_store m) x"
  by (auto simp: udp_replay_def udp_out_def udp_nothing_def load_row split: option.splits sum.splits if_splits)

lemma HandleUDPProbe_cases:
  assumes r: "HandleUDPProbe k now f addr raw m = (r, m')"
  defines "m1 \<equiv> mgr_sweep now m"
  obtains "r \<in> {udp_nothing, udp_drop}" "m' \<in> {m, m1}"
    | frame source where "r = udp_replay k f source frame m1" "m' = m1"
    | key frame source op s where "pm_store m1 = Some s" "udp_commit k key f source frame (length raw) op s m1 = (r, m')"
proof (cases "\<not> IsValid addr \<or> \<not> Is4 addr \<or> isl (ParseProviderFrame raw)")
  case True
  with r have "r = udp_nothing" "m' = m" by (auto simp: HandleUDPProbe_def isl_def split: sum.splits)
  then show ?thesis using that(1) by simp
next
  case False
  then obtain frame where frame: "IsValid addr" "Is4 addr" "ParseProviderFrame raw = Inr frame"
    by (cases "ParseProviderFrame raw") auto
  let ?i = "wan_ProbeID frame" and ?source = "As4 addr"
  show ?thesis
  proof (cases "pm_recoveryErr m = None \<and> map_of (pm_replay m1) ?i = None")
    case quiet: False
    have "r = udp_drop \<and> m' = m1 \<or> r = udp_replay k f ?source frame m1 \<and> m' = m1"
      using r frame quiet by (auto simp: HandleUDPProbe_def Let_def m1_def split: if_splits)
    then show ?thesis using that(1,2) by blast
  next
    case live: True
    show ?thesis
    proof (cases "map_of (pm_ops m1) ?i")
      case None
      with r frame live have "r = udp_nothing" "m' = m1" by (auto simp: HandleUDPProbe_def Let_def m1_def)
      then show ?thesis using that(1) by simp
    next
      case (Some op)
      let ?bad = "mo_used op \<or> \<not> now < mo_deadline op \<or> mo_forwardID op \<noteq> f \<or> arm_ExpectedSourceIP (mo_arm op) \<noteq> ?source \<or>
        mo_digest op \<noteq> wan_ArmDigest frame \<or> \<not> frame_of_arm k (mo_arm op) frame"
      have eq: "HandleUDPProbe k now f addr raw m = (if ?bad then (udp_nothing, m1)
          else case (pm_key m1, pm_store m1) of
            (Some key, Some s) \<Rightarrow> if int (length (pm_replay m1)) \<ge> pm_maxReplay m1 then (udp_drop, m1)
              else udp_commit k key f ?source frame (length raw) op s m1
          | _ \<Rightarrow> (udp_drop, m1))"
        unfolding HandleUDPProbe_def Let_def m1_def [symmetric] using frame live Some by (simp add: m1_def)
      have "r \<in> {udp_nothing, udp_drop} \<and> m' = m1 \<or>
        (\<exists>key s. pm_store m1 = Some s \<and> udp_commit k key f ?source frame (length raw) op s m1 = (r, m'))"
        using r unfolding eq by (cases ?bad; cases "pm_key m1"; cases "pm_store m1") (auto split: if_splits)
      then show ?thesis using that(1,3) by blast
    qed
  qed
qed

lemma step_udp:
  assumes inv: "rows_inv (the_store m)"
  shows "step_ok T X (the_store m) (mexec k (MUDP now f addr raw) m)"
proof -
  obtain r m' where r: "HandleUDPProbe k now f addr raw m = (r, m')" by force
  note f1 = fences_mgr_sweep [OF inv, of T X now]
  have out: "mexec k (MUDP now f addr raw) m = (udp_out r, m')" by (simp add: r udp_out_def)
  from r have "step_ok T X (the_store m) (udp_out r, m')"
  proof (cases rule: HandleUDPProbe_cases)
    case 1
    with inv f1 show ?thesis by (auto simp: step_silent fences_refl)
  next
    case (2 frame source)
    with f1 udp_replay_emits show ?thesis by (auto simp: step_ok_def)
  next
    case (3 key frame source op s)
    from step_compose [OF f1 udp_commit_step [OF fences_inv [OF f1] 3]] show ?thesis .
  qed
  with out show ?thesis by simp
qed

lemma retry_fold:
  assumes "rows_inv s"
  shows "rows_kept (ls_probes s) (ls_probes (snd (snd (fold (retry_row k send) rs (sent, failed, s))))) \<and>
    set (fst (fold (retry_row k send) rs (sent, failed, s))) \<subseteq>
      set sent \<union> {(arm_ProbeID (pb_Arm p), pb_Receipt p) |p. p \<in> set rs \<and> pb_Consumed p}"
  using assms
proof (induction rs arbitrary: sent failed s)
  case (Cons p rs)
  obtain sent1 failed1 s1 where 1: "retry_row k send p (sent, failed, s) = (sent1, failed1, s1)" by (metis prod_cases3)
  obtain acts where acts: "\<forall>a \<in> set acts. annotating (arm_ProbeID (pb_Arm p)) a" "s1 = fold (prun k) acts s"
    "sent1 = sent \<or> pb_Consumed p \<and> sent1 = sent @ [(arm_ProbeID (pb_Arm p), pb_Receipt p)]"
    using retry_row_store [of p k send sent failed s] unfolding 1 by auto
  from annotating_run [OF acts(1) Cons.prems, of k] acts(2)
  have s1: "rows_inv s1" "rows_kept (ls_probes s) (ls_probes s1)" by auto
  have "set sent1 \<subseteq> set sent \<union> {(arm_ProbeID (pb_Arm p), pb_Receipt p) |x. pb_Consumed p}" using acts(3) by auto
  with Cons.IH [OF s1(1), of sent1 failed1] s1(2) 1 show ?case by (fastforce intro: rows_kept_trans)
qed (simp add: rows_inv_def rows_kept_refl)

lemma step_retry_receipts:
  assumes inv: "rows_inv (the_store m)"
  shows "step_ok T X (the_store m) (mexec k (MRetryReceipts n send) m)"
proof (cases "pm_store m = None \<or> send = None \<or> RetryPendingReceipts n k send m = None")
  case True
  with inv show ?thesis by (auto simp: RetryPendingReceipts_def step_silent fences_refl split: option.splits)
next
  case False
  then obtain s g e sent failed s' where g: "pm_store m = Some s" "send = Some g"
    "page_loop n (pm_maxActive m) (snd \<circ> snd) (retry_row k g) [] ([], False, s) = Some (e, sent, failed, s')"
    by (auto simp: RetryPendingReceipts_def split: option.splits)
  from g(1) inv have inv: "rows_inv s" by simp
  then obtain rs where rs: "map (\<lambda>r. (pkey r, ProbeOp r)) rs = oprows (ls_probes s)"
    "\<forall>r \<in> set rs. isProbeOperationKey (pkey r) \<and> bget (ls_probes s) (pkey r) = Some (ProbeOp r)"
    by (rule rows_list)
  let ?l = "n + length rs"
  have "page_loop (n + Suc (length rs)) (pm_maxActive m) (snd \<circ> snd) (retry_row k g) [] ([], False, s) = Some (e, sent, failed, s')"
    using g(3) by (rule page_loop_mono)
  then have "page_loop (Suc ?l) (pm_maxActive m) (snd \<circ> snd) (retry_row k g) [] ([], False, s) = Some (e, sent, failed, s')"
    by (simp del: page_loop.simps)
  moreover have "length rs \<le> Suc ?l * page_limit (pm_maxActive m)"
    by (rule order_trans [OF _ mult_le_mono2 [of 1]]) (simp_all add: Suc_leI)
  with retry.walk [where st = "([], False, s)" and rs = rs and after = "[]" and n = ?l and limit = "pm_maxActive m" and k = k and send = g]
  have "page_loop (Suc ?l) (pm_maxActive m) (snd \<circ> snd) (retry_row k g) [] ([], False, s) =
      Some (None, fold (retry_row k g) rs ([], False, s))"
    using inv rs(1) by (simp add: after_rows_def del: page_loop.simps)
  ultimately have fin: "fold (retry_row k g) rs ([], False, s) = (sent, failed, s')" by simp
  from retry_fold [OF inv, of k g rs "[]" False] fin have kept: "rows_kept (ls_probes s) (ls_probes s')"
    "set sent \<subseteq> {(arm_ProbeID (pb_Arm p), pb_Receipt p) |p. p \<in> set rs \<and> pb_Consumed p}" by auto
  have "emitted_ok s' (OutRCT i x)" if "(i, x) \<in> set sent" for i x
    using that kept(2) rs(2) by (intro emitted_kept [OF kept(1)]) fastforce
  moreover have "mexec k (MRetryReceipts n send) m = (map (\<lambda>(i, r). OutRCT i r) sent, m\<lparr>pm_store := Some s'\<rparr>)"
    by (simp add: RetryPendingReceipts_def g del: page_loop.simps)
  ultimately show ?thesis using fences_rows_kept [OF inv kept(1)] g(1)
    by (auto simp: step_ok_def simp del: emitted_ok.simps)
qed

lemma fences_commit_arm: "rows_inv (the_store m) \<Longrightarrow> fences_kept T X (the_store m) (the_store (snd (CommitPreparedProbeArm k p m)))"
proof -
  assume inv: "rows_inv (the_store m)"
  have "fences_kept T X (the_store m) s'"
    if "SaveArmedProbeForForward k (pp_Arm p) (pp_ForwardID p) (pp_Deadline p) (the_store m) = Inr s'" for s'
    by (rule fences_pexec [OF inv, of k "PArm (pp_Arm p) (pp_ForwardID p) (pp_Deadline p)"]) (use that in \<open>simp_all add: spares_def\<close>)
  with inv show ?thesis by (simp add: CommitPreparedProbeArm_def fences_refl fences_publish)
qed

lemma fences_admit_arm:
  "rows_inv (the_store m) \<Longrightarrow> fences_kept T X (the_store m) (the_store (snd (CommitPreparedProbeArmWithActivation k p act before after m)))"
proof -
  assume inv: "rows_inv (the_store m)"
  have "fences_kept T X (the_store m) s'" if "CommitProbeAdmission k (pp_ForwardID p) (pp_ExpectedRevision p) act (pp_Arm p)
      (pp_Deadline p) before after (the_store m) = Inr s'" for s'
    by (rule fences_pexec [OF inv, of k "PAdmit (pp_ForwardID p) (pp_ExpectedRevision p) act (pp_Arm p) (pp_Deadline p) before after"])
      (use that in \<open>simp_all add: spares_def\<close>)
  with inv show ?thesis by (simp add: CommitPreparedProbeArmWithActivation_def fences_refl fences_publish)
qed

lemma fences_abort:
  assumes inv: "rows_inv (the_store m)" and "arm_ProbeID (pp_Arm p) \<in> X"
  shows "fences_kept T X (the_store m) (the_store (snd (AbortPreparedProbeArm p m)))"
proof -
  have "fences_kept T X (the_store m) s'" if "DeleteArmedProbe (arm_ProbeID (pp_Arm p)) (the_store m) = Inr s'" for s'
    by (rule fences_pexec [OF inv, of undefined "PDelete (arm_ProbeID (pp_Arm p))"]) (use that assms(2) in \<open>auto simp: spares_def\<close>)
  with inv show ?thesis by (auto simp: AbortPreparedProbeArm_def Let_def fences_refl split: sum.split option.splits)
qed

lemma fences_tick:
  assumes inv: "rows_inv (the_store m)" and "now \<in> T"
  shows "fences_kept T X (the_store m) (the_store (sweep_tick now m))"
proof -
  let ?m1 = "mgr_sweep now m"
  note f1 = fences_mgr_sweep [OF inv, of T X now]
  have "fences_kept T X (the_store ?m1) s'"
    if "SweepArmedProbeTombstonesPage now (pm_maxActive ?m1) (pm_sweepAfter ?m1) (the_store ?m1) = Inr (s', c)" for s' c
    by (rule fences_pexec [OF fences_inv [OF f1], of undefined "PSweep now (pm_maxActive ?m1) (pm_sweepAfter ?m1)"])
      (use that assms(2) in \<open>auto simp: spares_def expired_def\<close>)
  then have "fences_kept T X (the_store ?m1) (the_store (sweep_tick now m))"
    using fences_inv [OF f1] by (auto simp: sweep_tick_def Let_def fences_refl split: option.splits sum.splits)
  with f1 show ?thesis by (rule fences_trans)
qed

lemma fences_acknowledge:
  assumes inv: "rows_inv (the_store m)"
  shows "fences_kept T X (the_store m) (the_store (snd (AcknowledgeReceipt k op m)))"
proof -
  have "fences_kept T X (the_store m) s'" if "AcknowledgeArmedProbeReceipt k op (the_store m) = Inr s'" for s'
    using inv acknowledge_kept [OF that] by (intro fences_rows_kept) (auto simp: rows_inv_def)
  with inv show ?thesis by (auto simp: AcknowledgeReceipt_def fences_refl split: option.splits sum.splits)
qed

lemma fences_restart:
  assumes inv: "rows_inv (the_store m)" and "range clock \<subseteq> T"
    and new: "NewProbeManager n clock (pm_store m) key maxReplay maxActive marker = Some m'"
  shows "fences_kept T X (the_store m) (the_store m')"
proof (cases "pm_store m = None \<or> marker \<noteq> MarkerActive")
  case True
  with new have "the_store m' = the_store m" by (auto simp: NewProbeManager_def Let_def the_store_def)
  with inv show ?thesis by (simp add: fences_refl)
next
  case False
  then obtain s where s: "pm_store m = Some s" "marker = MarkerActive" by auto
  with inv have "rows_inv s" by simp
  with new [unfolded s] obtain rs m0 where r: "the_store m0 = s" "m' = fold (recover_row clock) rs m0" "distinct (map pkey rs)"
    "\<forall>p \<in> set rs. isProbeOperationKey (pkey p) \<and> bget (ls_probes s) (pkey p) = Some (ProbeOp p)" by (rule restart_rows)
  from fences_recover [OF _ r(3) assms(2), of m0 X] r \<open>rows_inv s\<close> s(1) show ?thesis by simp
qed

text \<open>Every call keeps the fences and lets out only what the consumed rows hold.\<close>

lemma mexec_step:
  assumes inv: "rows_inv (the_store m)"
  shows "step_ok (clock_reads a) {i. withdraws a i} (the_store m) (mexec k a m)"
proof (cases a)
  case (MHandleArm now raw f)
  have "snd (HandleProbeArm k now raw f m) = m \<or> (\<exists>p. snd (HandleProbeArm k now raw f m) = snd (CommitPreparedProbeArm k p m))"
    by (auto simp: HandleProbeArm_def split: sum.splits prod.splits) (metis snd_conv)+
  with MHandleArm inv show ?thesis by (auto simp: step_silent fences_refl fences_commit_arm)
next
  case (MCommit key op frame io)
  obtain r m' where r: "ingress_commit k key op frame io m = (r, m')" by force
  show ?thesis
  proof (cases r)
    case None
    with MCommit r step_commit(1) [OF inv r] show ?thesis by (simp add: step_silent)
  next
    case (Some ar)
    obtain ack rct where ar: "ar = (ack, rct)" by (cases ar)
    from step_commit [OF inv r] Some ar MCommit r show ?thesis by (simp add: step_ok_def del: emitted_ok.simps)
  qed
next
  case (MRestart n clock key maxReplay maxActive marker)
  with inv fences_restart [OF inv, of clock] show ?thesis by (auto simp: step_silent fences_refl split: option.split)
next
  case (MClaim now source f frame)
  with fences_claim [OF inv surjective_pairing] show ?thesis by (simp add: step_silent)
next
  case (MReplay io source frame)
  with step_replay [OF inv] show ?thesis by (simp only: mexec.simps)
next
  case (MRetryACK io i)
  with step_retry_ack [OF inv] show ?thesis by (simp only: mexec.simps)
next
  case (MAbort p)
  with fences_abort [OF inv, of p] show ?thesis by (simp add: step_silent)
qed (use inv step_ingress [OF inv] step_udp [OF inv] step_retry_receipts [OF inv] step_mark [OF inv, of "[]"] in
    \<open>simp_all add: step_silent fences_admit_arm fences_commit_arm fences_tick hasArmedBySource_def Let_def fences_mgr_sweep
      fences_acknowledge MarkUDPProbeACKSent_def MarkUDPProbeReceiptSent_def del: mexec.simps(9,12,14)\<close>)

section \<open>One answer per probe\<close>

lemma mrun_fence:
  assumes "rows_inv (the_store m)" "fence_at i r (the_store m)" "isProbeOperationKey (bytes_str i)"
    and r: "pb_Consumed r" "pb_ReceiptDeadline r = Some d"
    and "\<forall>x \<in> set es. \<not> withdraws x i \<and> (\<forall>t \<in> clock_reads x. t < d)" "mrun k es m = (outs, m')"
  shows "fence_at i r (the_store m') \<and> (\<forall>b. OutACK i b \<in> set outs \<longrightarrow> b = pb_ACK r) \<and> (\<forall>b. OutRCT i b \<in> set outs \<longrightarrow> b = pb_Receipt r)"
  using assms(1,2,6,7)
proof (induction es arbitrary: m outs m')
  case (Cons e es)
  obtain out1 m1 where 1: "mexec k e m = (out1, m1)" by force
  obtain outs2 m2 where 2: "mrun k es m1 = (outs2, m2)" by force
  from mexec_step [OF Cons.prems(1), of e k] 1 have step: "fences_kept (clock_reads e) {i. withdraws e i} (the_store m) (the_store m1)"
    "\<forall>x \<in> set out1. emitted_ok (the_store m1) x" by (simp_all add: step_ok_def)
  have f1: "fence_at i r (the_store m1)" using step(1) Cons.prems(2,3) assms(3) r by (auto simp: fences_kept_def)
  then obtain r1 where r1: "bget (ls_probes (the_store m1)) (bytes_str i) = Some (ProbeOp r1)" "row_kept r r1"
    by (auto simp: fence_at_def)
  have "b = pb_ACK r" if "OutACK i b \<in> set out1" for b
    using step(2) that r1 assms(3) by (fastforce simp: row_kept_def)
  moreover have "b = pb_Receipt r" if "OutRCT i b \<in> set out1" for b
    using step(2) that r1 assms(3) by (fastforce simp: row_kept_def)
  moreover have "fence_at i r (the_store m2) \<and> (\<forall>b. OutACK i b \<in> set outs2 \<longrightarrow> b = pb_ACK r) \<and>
      (\<forall>b. OutRCT i b \<in> set outs2 \<longrightarrow> b = pb_Receipt r)"
    using Cons.IH [OF fences_inv [OF step(1)] f1 _ 2] Cons.prems(3) by simp
  ultimately show ?case using Cons.prems(4) 1 2 by auto
qed simp

text \<open>
  An abort is excluded there for a reason: a preparation of the same arm that was never committed, aborted after the
  first one was consumed, deletes the consumed row.
\<close>

lemma abort_drops_fence:
  assumes "pm_store m \<noteq> None" "arm_ProbeID (pp_Arm p) = i" "i \<noteq> replicate 16 0"
    and "map_of (pm_ops m) i = Some op" "mo_forwardID op = pp_ForwardID p" "mo_digest op = pp_Digest p"
    and "LoadArmedProbe i (the_store m) = Inr (Some r)"
  shows "LoadArmedProbe i (the_store (snd (AbortPreparedProbeArm p m))) = Inr None"
proof -
  have row: "bget (ls_probes (the_store m)) (bytes_str i) = Some (ProbeOp r)" using assms(7) by (simp add: load_row)
  then obtain s where s: "DeleteArmedProbe i (the_store m) = Inr s" "bget (ls_probes s) (bytes_str i) = None"
    by (auto simp: DeleteArmedProbe_def Let_def)
  from assms s(1) have "the_store (snd (AbortPreparedProbeArm p m)) = s"
    by (auto simp: AbortPreparedProbeArm_def Let_def the_store_def)
  with s(2) show ?thesis by (simp add: LoadArmedProbe_def)
qed

text \<open>
  C2. A probe is answered once, across restarts. When any call of the manager lets out an acknowledgement for a probe, the
  store holds that probe as consumed with exactly that acknowledgement. From then on take any sequence of calls: arming
  and admission, both halves of the TCP ingress in any interleaving, the UDP classifier, retries, sweeps, controller
  acknowledgements and restarts, with any frames and any outcome of the writes. As long as the clock stays before the
  receipt deadline and the arm is not aborted, every further acknowledgement let out for this probe is the same bytes,
  every receipt let out for it is the one stored with it, and the durable row is still there. A second challenge of the
  provider is therefore never acknowledged.
\<close>

theorem probe_answered_once:
  assumes inv: "rows_inv (the_store m)" and e: "mexec k e m = (out, m1)" "OutACK i a \<in> set out"
    and i: "isProbeOperationKey (bytes_str i)"
  shows "\<exists>r. LoadArmedProbe i (the_store m1) = Inr (Some r) \<and> pb_Consumed r \<and> pb_ACK r = a \<and>
    (\<forall>d es outs m2. pb_ReceiptDeadline r = Some d \<longrightarrow> (\<forall>x \<in> set es. \<not> withdraws x i \<and> (\<forall>t \<in> clock_reads x. t < d)) \<longrightarrow>
      mrun k es m1 = (outs, m2) \<longrightarrow>
      (\<forall>b. OutACK i b \<in> set outs \<longrightarrow> b = a) \<and> (\<forall>b. OutRCT i b \<in> set outs \<longrightarrow> b = pb_Receipt r) \<and>
      (\<exists>r'. LoadArmedProbe i (the_store m2) = Inr (Some r') \<and> row_kept r r'))"
proof -
  from mexec_step [OF inv, of e k] e(1) have step: "fences_kept (clock_reads e) {i. withdraws e i} (the_store m) (the_store m1)"
    "\<forall>x \<in> set out. emitted_ok (the_store m1) x" by (simp_all add: step_ok_def)
  note inv1 = fences_inv [OF step(1)]
  from step(2) e(2) i obtain r where r: "bget (ls_probes (the_store m1)) (bytes_str i) = Some (ProbeOp r)" "pb_Consumed r" "pb_ACK r = a"
    by fastforce
  have f: "fence_at i r (the_store m1)" using r(1) inv1 by (auto simp: fence_at_def rows_inv_def)
  have "(\<forall>b. OutACK i b \<in> set outs \<longrightarrow> b = a) \<and> (\<forall>b. OutRCT i b \<in> set outs \<longrightarrow> b = pb_Receipt r) \<and>
      (\<exists>r'. LoadArmedProbe i (the_store m2) = Inr (Some r') \<and> row_kept r r')"
    if "pb_ReceiptDeadline r = Some d" "\<forall>x \<in> set es. \<not> withdraws x i \<and> (\<forall>t \<in> clock_reads x. t < d)"
      "mrun k es m1 = (outs, m2)" for d es outs m2
    using mrun_fence [OF inv1 f i r(2) that] r(3) by (auto simp: load_row fence_at_def)
  with r show ?thesis by (auto simp: load_row)
qed

definition demo_pending :: Store where
  "demo_pending = empty_store\<lparr>ls_probes := [(demo_probe_key CHR ''a'', ProbeOp (demo_consumed\<lparr>pb_ACK := [1]\<rparr>))]\<rparr>"

definition demo_manager :: ProbeManager where
  "demo_manager = \<lparr> pm_store = Some demo_pending, pm_key = None, pm_ops = [], pm_replay = [], pm_replaySource = [],
     pm_maxReplay = 10, pm_maxActive = 10, pm_recoveryErr = None, pm_marker = MarkerActive, pm_sweepAfter = [] \<rparr>"

text \<open>The acknowledgement of a consumed probe could not be written; the agent restarts and tries again.\<close>

theorem probe_answered_once_witness:
  "let i = str_bytes (demo_probe_key CHR ''a''); (out, m1) = mexec demo_crypto (MRetryACK WriteFails i) demo_manager;
     (outs, m2) = mrun demo_crypto [MRestart 1 (\<lambda>_. 60) None 10 10 MarkerActive, MTick 70, MRetryACK WriteDone i] m1
   in out = [OutACK i [1]] \<and> OutACK i [2] \<notin> set outs \<and> (\<exists>r'. LoadArmedProbe i (the_store m2) = Inr (Some r') \<and> pb_ACK r' = [1])"
proof -
  let ?i = "str_bytes (demo_probe_key CHR ''a'')" and ?r = "demo_consumed\<lparr>pb_ACK := [1]\<rparr>"
  let ?es = "[MRestart 1 (\<lambda>_. 60) None 10 10 MarkerActive, MTick 70, MRetryACK WriteDone ?i]"
  have key: "isProbeOperationKey (bytes_str ?i)" using demo_keys(1) by simp
  have store: "the_store demo_manager = demo_pending" by (simp add: demo_manager_def the_store_def)
  have "probes_ok (ls_probes demo_pending)" by (auto simp: demo_pending_def probes_ok_def bucket_ok_def split: if_splits)
  moreover have "keyed (ls_probes demo_pending)"
    by (auto simp: keyed_def demo_pending_def demo_consumed_def armed_record_def simp del: replicate_numeral split: if_splits)
  ultimately have inv: "rows_inv (the_store demo_manager)" by (simp add: store rows_inv_def)
  have load: "LoadArmedProbe ?i demo_pending = Inr (Some ?r)" by (simp add: LoadArmedProbe_def demo_pending_def)
  have "\<not> pb_ACKSent demo_consumed" by (simp add: demo_consumed_def armed_record_def)
  with load demo_rows(1) have e: "mexec demo_crypto (MRetryACK WriteFails ?i) demo_manager = ([OutACK ?i [1]], demo_manager)"
    by (simp add: RetryPendingACK_def demo_manager_def send_ack_def ack_out_def)
  obtain outs m2 where run: "mrun demo_crypto ?es demo_manager = (outs, m2)" by (metis surj_pair)
  from probe_answered_once [OF inv e _ key, of "[1]"] obtain r where
    r: "LoadArmedProbe ?i (the_store demo_manager) = Inr (Some r)"
    "\<forall>d es outs m2. pb_ReceiptDeadline r = Some d \<longrightarrow> (\<forall>x \<in> set es. \<not> withdraws x ?i \<and> (\<forall>t \<in> clock_reads x. t < d)) \<longrightarrow>
      mrun demo_crypto es demo_manager = (outs, m2) \<longrightarrow> (\<forall>b. OutACK ?i b \<in> set outs \<longrightarrow> b = [1]) \<and>
      (\<exists>r'. LoadArmedProbe ?i (the_store m2) = Inr (Some r') \<and> row_kept r r')" by auto
  have req: "r = ?r" using r(1) load store by simp
  have "pb_ReceiptDeadline r = Some 100" using demo_rows(2) req by simp
  moreover have "\<forall>x \<in> set ?es. \<not> withdraws x ?i \<and> (\<forall>t \<in> clock_reads x. t < 100)" by simp
  ultimately have "(\<forall>b. OutACK ?i b \<in> set outs \<longrightarrow> b = [1]) \<and> (\<exists>r'. LoadArmedProbe ?i (the_store m2) = Inr (Some r') \<and> row_kept r r')"
    using r(2) run by blast
  then show ?thesis using e run req by (auto simp: row_kept_def simp del: mexec.simps mrun.simps)
qed

end
