(* ===== verification/Spec2Isabelle.thy ===== *)
theory Spec2Isabelle
  imports Control_Envelope Network Enrollment Domain Probe_Agent Stun_Message Port_Registry
    Budget Nat_Pmp Pcp Strategy Strict_Json Session_Handshake Challenge_Manager Agent_Lifecycle Probe_Run
begin

text \<open>
  \<^bold>\<open>A verification of AntiNAT: the protocol core, the traversal core and the agent's durable state.\<close>

  AntiNAT makes a service behind NAT reachable: a controller sends desired forwards to agents over a
  signed control channel; an agent finds out how its network can be traversed (a global source address,
  a mapping at the gateway, an endpoint observed by STUN), owns the sockets, forwards the traffic, and
  proves reachability with a probe that an outside vantage point starts. This library models the parts
  of that system that decide something: codecs, validators, state machines, ownership tables and client
  loops. All paths below are under \<^verbatim>\<open>src/internal/\<close>.

  \<^bold>\<open>Conventions.\<close> A Go struct is a record, an enumeration a datatype, a Go string a list of characters
  (its bytes), a fixed-width integer a word, a map an association list, a time or duration an integer
  number of nanoseconds. A fallible function returns \<open>error + value\<close>; \<open>ebind\<close> and \<open>ensure\<close>
  (\<open>Prelude\<close>) are the early returns. Code outside the repository is an argument: SHA-256 and Ed25519
  (\<open>crypto\<close>, with \<open>crypto_ok\<close>, unforgeability and collision freedom as hypotheses where a property needs
  them), HMAC-SHA1, the operating system's bind and close, the network, the clock and the caller's
  context. The parts of Go's standard library that the code relies on are written out: \<open>net/netip\<close>
  and \<open>strconv\<close> parsing (\<open>Netip\<close>, \<open>Netip_Parse\<close>) and the token stream of \<open>encoding/json\<close>
  (\<open>Json_Token\<close>).

  \<^bold>\<open>The theories.\<close>

  \<^item> \<open>Prelude\<close>: error and slice combinators, big-endian integers (locale \<open>fixed_width\<close>, interpreted for
    16, 32 and 64 bits), length-prefixed field lists (locale \<open>field_codec\<close>), and step systems with an
    invariant (locale \<open>step_system\<close>).
  \<^item> \<open>Framecrypto\<close>: \<^verbatim>\<open>security/framecrypto/framecrypto.go\<close>, domain-separated signatures.
  \<^item> \<open>Control_Envelope\<close>: \<^verbatim>\<open>protocol/envelope.go\<close>. Which built frames parse back and how the
    others are refused; every accepted frame is canonical; an accepted frame was sent by the peer; the signature is checked last.
  \<^item> \<open>Enrollment\<close>: \<^verbatim>\<open>protocol/enrollment.go\<close>. Round trip, authenticity and safety of the three
    messages.
  \<^item> \<open>Strict_Json\<close> over \<open>Json_Token\<close>: \<^verbatim>\<open>protocol/strictjson.go\<close>, the structural pass. It returns on
    every payload and returns only objects of the schema's type. The walkers carry fuel;
    \<open>3 * length + 2\<close> is enough because every token consumes text (\<open>Token_shorter\<close>, \<open>fuel_spec\<close>).
  \<^item> \<open>Domain\<close>: \<^verbatim>\<open>protocol/domain.go\<close>, the validators of desired and applied state and the transition
    tables of the control machines, to which \<open>Agent_Journal\<close> relates the running inbox and outbox.
  \<^item> \<open>Endpoint\<close>, \<open>Network\<close>: \<^verbatim>\<open>protocol/endpoint.go\<close>, \<^verbatim>\<open>traversal/network.go\<close> and the address
    filter of \<^verbatim>\<open>hook/ipcheck.go\<close>. How the three address tables relate, and what source is selected.
  \<^item> \<open>Probe_Frames\<close>, \<open>Probe_Agent\<close>: \<^verbatim>\<open>protocol/probe.go\<close> and \<^verbatim>\<open>protocol/probe_adapter.go\<close>. The five
    frames have one wire form; a probe is accepted once; the state is bounded; an accepted
    frame agrees with an earlier arm and with the provider; a join proves the answer; the honest exchange completes.
  \<^item> \<open>Stun_Message\<close>: \<^verbatim>\<open>traversal/stun/message.go\<close>, the whole codec with round trips and safety.
  \<^item> \<open>Port_Registry\<close>: \<^verbatim>\<open>traversal/portregistry.go\<close>. The critical sections of concurrent callers are
    the steps of a machine; leases with open sockets never overlap, and the machine refines an abstract
    ownership table.
  \<^item> \<open>Budget\<close>: \<^verbatim>\<open>forward/budget.go\<close>, which refines a counter of sessions.
  \<^item> \<open>Gateway_Client\<close>, \<open>Nat_Pmp\<close>, \<open>Pcp\<close>: \<^verbatim>\<open>traversal/natpmp\<close> and \<^verbatim>\<open>traversal/pcp\<close>, codecs and
    clients without the adapters. Both clients are instances of one retransmission loop (locale
    \<open>gateway_exchange\<close>, interpreted for the four exchanges): bounded sends, results only from the
    gateway, ownership by the echoed nonce, and completion after transient failures. The loops are
    recursions over the attempts and over the datagrams of an attempt, so they need no fuel.
  \<^item> \<open>Strategy\<close>: \<^verbatim>\<open>traversal/strategy.go\<close>, the classification of layer chains and the planning.
  \<^item> \<open>Session_Handshake\<close>: the session messages of \<^verbatim>\<open>security/challenge.go\<close> (locale \<open>signed_message\<close>,
    interpreted for hello, welcome and final). What is accepted was signed by the peer.
  \<^item> \<open>Challenge_Manager\<close>: the challenge cache of \<^verbatim>\<open>security/challenge.go\<close>. A challenge is consumed at most once.
  \<^item> \<open>Local_Store\<close>: the buckets and transactions of the agent's bbolt database, the session fence, the pins and
    the tombstones (\<^verbatim>\<open>schema.go\<close>, \<^verbatim>\<open>pins.go\<close>, \<^verbatim>\<open>tombstone.go\<close> of \<^verbatim>\<open>agent/localstate\<close>). A bucket is a list sorted by key; a failed transaction leaves
    the store as it was, which is what bbolt documents.
  \<^item> \<open>Agent_Journal\<close>: \<^verbatim>\<open>agent/localstate/journal.go\<close>. A command is applied at most once across crashes, the
    durable phases follow the tables of \<open>Domain\<close>, results stay until their receipt, and delivery is in the order of the
    protocol, with the requeue as the only step back. Operation ids must not start with a key prefix that the operation
    bucket reserves.
  \<^item> \<open>Applied_State\<close>: desired and applied records, the activation mirror and the mapping journal
    (\<^verbatim>\<open>applied.go\<close>, \<^verbatim>\<open>activation.go\<close>, \<^verbatim>\<open>mapping_journal.go\<close> of \<^verbatim>\<open>agent/localstate\<close>). Committing a
    desired state does what it says and leaves every other row alone, and merging is independent of the order of arrival.
  \<^item> \<open>Agent_Lifecycle\<close>: the marker and quarantine files, the decommission intents, the latch and the schema
    migrations of \<^verbatim>\<open>agent/localstate\<close>. A file write may fail before or after its rename.
  \<^item> \<open>Probe_Store\<close>: \<^verbatim>\<open>agent/localstate/probe.go\<close>. A consumed probe stays a fence until its receipt deadline,
    and the paged sweep removes exactly the expired rows.
  \<^item> \<open>Probe_Manager\<close>: \<^verbatim>\<open>agent/reconcile/probe.go\<close> and \<^verbatim>\<open>agent/reconcile/probe_udp.go\<close>, the definitions. The
    outcome of a write to the prober or a send to the controller is an argument. The TCP ingress is split where
    the code gives up its lock (\<open>ingress_claim\<close>, \<open>ingress_commit\<close>, \<open>ingress_finish\<close>).
  \<^item> \<open>Probe_Recovery\<close>: what a restart does with the durable rows, over the paging loop (locale \<open>page_walk\<close>,
    interpreted for the recovery and for the receipt retries). \<open>page_loop\<close> carries fuel; one unit for each
    page is enough, and more changes nothing.
  \<^item> \<open>Probe_Run\<close>: sequences of all calls of the manager, with interleaved ingress and restarts. A probe is
    acknowledged with one sequence of bytes only, unless its arm is aborted.

  \<^bold>\<open>Interaction.\<close> The frames of \<open>Control_Envelope\<close> carry the payloads that \<open>Strict_Json\<close> decodes and
  \<open>Domain\<close> validates. The endpoints that \<open>Strategy\<close> classifies come from \<open>Nat_Pmp\<close>, \<open>Pcp\<close> and
  \<open>Stun_Message\<close>; a public candidate is what \<open>Endpoint\<close> lets the controller publish and what
  \<open>Probe_Agent\<close> is armed with, which the property below states. On the agent, \<open>Agent_Journal\<close>,
  \<open>Applied_State\<close>, \<open>Agent_Lifecycle\<close> and \<open>Probe_Store\<close> are transactions on the one store of \<open>Local_Store\<close>;
  \<open>Probe_Manager\<close> checks an arm against the applied state, admits it together with the activation snapshot, and
  answers the frames of \<open>Probe_Frames\<close> only after the store has recorded the answer.

  \<^bold>\<open>Not modelled.\<close> The composition roots (\<^verbatim>\<open>cmd\<close>, \<^verbatim>\<open>agent/app.go\<close>, \<^verbatim>\<open>controller/app.go\<close>) and the
  HTTP, web and installation code are wiring and I/O. The controller's stores
  (\<^verbatim>\<open>controller/store\<close>, \<^verbatim>\<open>hook\<close>) are SQL statements whose semantics is the database's. Below the agent's
  store, bbolt's pages and the file system are not modelled; a transaction either happens or does not, JSON records are
  stored as values, and a marker or quarantine file that exists can be read. The UPnP client is XML over HTTP. The data path (\<^verbatim>\<open>forward/tcp\<close>,
  \<^verbatim>\<open>forward/udp\<close>) is goroutines over sockets, and its rate limiter computes in \<open>float64\<close>. The listener gate in
  \<^verbatim>\<open>agent/reconcile/probe.go\<close> (accept loop, slots and close) is goroutines and channels. The rest of
  \<^verbatim>\<open>agent/reconcile\<close>, \<^verbatim>\<open>traversal/manager.go\<close>, the STUN observers, the control session loops and the key
  files and rotation of \<^verbatim>\<open>security\<close> contain further decision logic. \<^verbatim>\<open>DecodeStrictJSONInto\<close> decodes by
  reflection on Go types.
\<close>

section \<open>From a layer chain to a published and probed endpoint\<close>

text \<open>
  C40. What the agent's pipeline calls a public candidate is what the controller may publish and what a
  probe may be armed with: its address is IPv4, and, when its port is not zero, its printed form passes
  the controller's endpoint validation as the same endpoint and the probe protocol's endpoint check. The
  pipeline itself does not reject port zero; the validation does.
\<close>

theorem public_candidate_publishable:
  assumes "EvaluateLayers layers constraint = Inr v" and "v_PublicCandidate v"
  shows "Is4 (fst (v_Candidate v)) \<and>
    (if snd (v_Candidate v) \<noteq> 0
     then ValidateEndpoint (AddrPort_String (fst (v_Candidate v)) (snd (v_Candidate v))) = Inr (v_Candidate v) \<and>
          ValidateProbeEndpoint (AddrPort_String (fst (v_Candidate v)) (snd (v_Candidate v)))
     else \<not> (\<exists>r. ValidateEndpoint (AddrPort_String (fst (v_Candidate v)) (snd (v_Candidate v))) = Inr r))"
proof -
  have g: "IsGlobalV4 (fst (v_Candidate v))"
    using assms(2)
    by - (rule EvaluateLayers_Inr [OF assms(1)], auto simp: classify_candidate_simps IsGlobalV4Endpoint_def)
  obtain a b c d p where v: "v_Candidate v = (V4 a b c d, p)"
    using g by (cases "v_Candidate v"; cases "fst (v_Candidate v)") (auto simp: IsGlobalV4_def)
  have pub: "IsGlobalEndpoint (V4 a b c d)" using g IsGlobalV4_publishable v by simp
  have len: "length (AddrPort_String (V4 a b c d) p) \<le> 255"
    using length_AddrPort_String [of a b c d p] by simp
  show ?thesis
  proof (cases "p = 0")
    case False
    have "ValidateEndpoint (AddrPort_String (V4 a b c d) p) = Inr (V4 a b c d, p)"
      using pub False by (rule ValidateEndpoint_printed)
    thus ?thesis using False len v by (simp add: probe_endpoint_iff del: AddrPort_String.simps)
  next
    case True
    have "check_port (dec 0) \<noteq> Inr q" for q by (simp add: check_port_Inr Atoi_dec)
    thus ?thesis
      using True v
      by (auto simp: ValidateEndpoint_def split_literal_AddrPort_String ebind_Inr_iff simp del: AddrPort_String.simps)
  qed
qed

theorem public_candidate_publishable_witness:
  "ValidateEndpoint ''8.8.4.4:443'' = Inr (V4 8 8 4 4, 443) \<and> ValidateProbeEndpoint ''8.8.4.4:443''"
proof -
  let ?v = "classify_candidate True (V4 8 8 4 4, 443) LayerKindSTUN True"
  have "v_PublicCandidate ?v"
    by (simp add: classify_candidate_simps IsGlobalV4Endpoint_def IsGlobalV4_bytes nonGlobalV4_bytes)
  moreover have "AddrPort_String (V4 8 8 4 4) 443 = ''8.8.4.4:443''"
    by (simp add: dec_small char_of_def bit_Suc_0_iff)
  ultimately show ?thesis
    using public_candidate_publishable [OF demo_evaluates]
    by (simp add: classify_candidate_simps del: AddrPort_String.simps)
qed

end
